(* ===== verification/Prelude.thy ===== *)
theory Prelude
  imports Main "HOL-Library.Word"
begin

text \<open>
  What the component theories share: the machine integer types of the C++ code, exceptions as
  values, the little-endian memory image of an integer (what \<open>reinterpret_cast\<close> and \<open>memcpy\<close>
  write and read), decimal printing and parsing (\<open>std::to_string\<close>, \<open>std::stoull\<close>), and the
  generic lemmas on lists, words and maps that the component proofs use.
\<close>

unbundle bit_operations_syntax

named_theorems image_simps
  \<open>facts that evaluate memory images and decimal strings\<close>

named_theorems flow_simps
  \<open>definitions that only route control: exceptions, early returns\<close>

section \<open>Types\<close>

type_synonym u8 = "8 word"
type_synonym u16 = "16 word"
type_synonym u32 = "32 word"
type_synonym u64 = "64 word"
type_synonym u256 = "256 word"
type_synonym bytes = "u8 list"

text \<open>
  An exception of the C++ code with its message. \<open>Undefined\<close> is not an exception: it marks a step
  whose behaviour the C++ standard leaves undefined (an index or an iterator out of range), so that
  a model never invents a value for it.
\<close>

datatype exn =
    Runtime_error string
  | Invalid_argument string
  | Out_of_range string
  | Length_error string
  | Undefined string

type_synonym 'a res = "exn + 'a"

fun what :: "exn \<Rightarrow> string" where
  "what (Runtime_error m) = m"
| "what (Invalid_argument m) = m"
| "what (Out_of_range m) = m"
| "what (Length_error m) = m"
| "what (Undefined m) = m"

definition is_Undefined :: "'a res \<Rightarrow> bool" where
  "is_Undefined r \<longleftrightarrow> (case r of Inl (Undefined _) \<Rightarrow> True | _ \<Rightarrow> False)"

lemma is_Undefined_simps [simp]:
  "is_Undefined (Inl (Undefined m))" "\<not> is_Undefined (Inr x)"
  "\<not> is_Undefined (Inl (Runtime_error m))" "\<not> is_Undefined (Inl (Invalid_argument m))"
  "\<not> is_Undefined (Inl (Out_of_range m))" "\<not> is_Undefined (Inl (Length_error m))"
  by (simp_all add: is_Undefined_def)

section \<open>Characters and bytes\<close>

definition bytes_of_string :: "string \<Rightarrow> bytes" where
  "bytes_of_string s = map of_char s"

definition string_of_bytes :: "bytes \<Rightarrow> string" where
  "string_of_bytes bs = map (\<lambda>b. char_of (unat b)) bs"

lemma unat_bound: "unat (w :: 'a::len word) < 2 ^ LENGTH('a)"
  by (rule unsigned_less)

lemma unat_add_u64:
  fixes a b :: u64
  assumes "unat a + unat b < 2 ^ 64"
  shows "unat (a + b) = unat a + unat b"
  using assms by (simp add: unat_word_ariths)

lemma unat_sub_u64:
  fixes a b :: u64
  assumes "unat b \<le> unat a"
  shows "unat (a - b) = unat a - unat b"
  using assms by (simp add: unat_sub word_le_nat_alt)

lemma unat_u64: "unat (w :: u64) < 2 ^ 64"
  using unsigned_less [of w, where ?'a = nat] by simp

lemma unat_of_nat_u64: "n < 2 ^ 64 \<Longrightarrow> unat (of_nat n :: u64) = n"
  by (simp add: unat_of_nat)

lemma unat_of_char [simp]: "unat (of_char c :: u8) = of_char c"
proof -
  have "unat (of_nat (of_char c) :: u8) = of_char c mod 2 ^ LENGTH(8)"
    by (rule unat_of_nat)
  also have "\<dots> = of_char c"
    using of_char_mod_256 [of c, where 'a = nat] by simp
  finally show ?thesis
    by (simp only: of_nat_of_char)
qed

lemma string_of_bytes_of_string [simp, image_simps]: "string_of_bytes (bytes_of_string s) = s"
  by (simp add: string_of_bytes_def bytes_of_string_def comp_def)

lemma length_bytes_of_string [simp, image_simps]: "length (bytes_of_string s) = length s"
  by (simp add: bytes_of_string_def)

lemma bytes_of_string_inj [simp]: "bytes_of_string s = bytes_of_string t \<longleftrightarrow> s = t"
  by (metis string_of_bytes_of_string)

lemma bytes_of_string_append [image_simps]:
  "bytes_of_string (s @ t) = bytes_of_string s @ bytes_of_string t"
  by (simp add: bytes_of_string_def)

section \<open>Little-endian memory images\<close>

text \<open>
  \<open>reinterpret_cast<const uint8_t*>(&x)\<close> over \<open>sizeof(x)\<close> bytes on the little-endian targets the
  build supports, and \<open>memcpy(&x, p, sizeof(x))\<close>.
\<close>

fun le_bytes :: "nat \<Rightarrow> nat \<Rightarrow> bytes" where
  "le_bytes 0 k = []"
| "le_bytes (Suc n) k = of_nat (k mod 256) # le_bytes n (k div 256)"

fun le_nat :: "bytes \<Rightarrow> nat" where
  "le_nat [] = 0"
| "le_nat (b # bs) = unat b + 256 * le_nat bs"

lemma length_le_bytes [simp, image_simps]: "length (le_bytes n k) = n"
  by (induction n arbitrary: k) auto

lemma le_nat_le_bytes: "le_nat (le_bytes n k) = k mod 256 ^ n"
proof (induction n arbitrary: k)
  case 0
  show ?case by simp
next
  case (Suc n)
  have "le_nat (le_bytes (Suc n) k) = k mod 256 + 256 * (k div 256 mod 256 ^ n)"
    by (simp add: Suc.IH unat_of_nat)
  also have "\<dots> = k mod (256 * 256 ^ n)"
    by (simp add: mod_mult2_eq)
  finally show ?case by simp
qed

lemma le_nat_bound: "le_nat bs < 256 ^ length bs"
proof (induction bs)
  case Nil
  show ?case by simp
next
  case (Cons b bs)
  have "unat b < 256"
    using unat_bound [of b] by simp
  then show ?case
    using Cons.IH by simp
qed

lemma le_bytes_le_nat: "le_bytes (length bs) (le_nat bs) = bs"
proof (induction bs)
  case Nil
  show ?case by simp
next
  case (Cons b bs)
  have "unat b < 256"
    using unat_bound [of b] by simp
  then show ?case
    using Cons.IH by simp
qed

definition u64_bytes :: "u64 \<Rightarrow> bytes" where
  "u64_bytes w = le_bytes 8 (unat w)"

definition bytes_u64 :: "bytes \<Rightarrow> u64" where
  "bytes_u64 bs = of_nat (le_nat bs)"

definition u32_bytes :: "u32 \<Rightarrow> bytes" where
  "u32_bytes w = le_bytes 4 (unat w)"

definition bytes_u32 :: "bytes \<Rightarrow> u32" where
  "bytes_u32 bs = of_nat (le_nat bs)"

lemma length_u64_bytes [simp, image_simps]: "length (u64_bytes w) = 8"
  by (simp add: u64_bytes_def)

lemma length_u32_bytes [simp, image_simps]: "length (u32_bytes w) = 4"
  by (simp add: u32_bytes_def)

lemma bytes_u64_u64_bytes [simp, image_simps]: "bytes_u64 (u64_bytes w) = w"
proof -
  have "unat w < 256 ^ 8"
    using unat_bound [of w] by simp
  then show ?thesis
    by (simp add: bytes_u64_def u64_bytes_def le_nat_le_bytes)
qed

lemma bytes_u32_u32_bytes [simp, image_simps]: "bytes_u32 (u32_bytes w) = w"
proof -
  have "unat w < 256 ^ 4"
    using unat_bound [of w] by simp
  then show ?thesis
    by (simp add: bytes_u32_def u32_bytes_def le_nat_le_bytes)
qed

lemma u64_bytes_inj [simp]: "u64_bytes v = u64_bytes w \<longleftrightarrow> v = w"
  by (metis bytes_u64_u64_bytes)

section \<open>Reading a vector through an offset\<close>

text \<open>
  The decoders of the code keep a \<open>size_t offset\<close> (or \<open>pos\<close>) into the input vector, test
  \<open>offset + n > data.size()\<close> in 64-bit arithmetic, and then copy a range. \<open>slice_at\<close> is the copy:
  it is \<open>Undefined\<close> when the iterators do not describe a range inside the vector.
\<close>

definition slice_at :: "bytes \<Rightarrow> u64 \<Rightarrow> u64 \<Rightarrow> bytes res" where
  "slice_at data off n =
     (if unat off + unat n \<le> length data then Inr (take (unat n) (drop (unat off) data))
      else Inl (Undefined ''range outside the vector''))"

lemma slice_at_drop:
  assumes "drop (unat off) data = xs @ rest" and "unat n = length xs"
    and "unat off \<le> length data"
  shows "slice_at data off n = Inr xs"
proof -
  have "length (drop (unat off) data) = length xs + length rest"
    using assms(1) by simp
  then have "unat off + length xs \<le> length data"
    using assms(3) by simp
  then show ?thesis
    using assms by (simp add: slice_at_def)
qed

lemma drop_advance:
  assumes "drop (unat (off :: u64)) data = xs @ rest" and "length data < 2 ^ 64"
    and "unat off \<le> length data"
  shows "unat (off + of_nat (length xs)) = unat off + length xs"
    and "drop (unat off + length xs) data = rest"
    and "unat off + length xs \<le> length data"
proof -
  have len: "length data - unat off = length xs + length rest"
    using arg_cong [OF assms(1), of length] by simp
  then show le: "unat off + length xs \<le> length data"
    using assms(3) by simp
  have "length xs < 2 ^ 64"
    using le assms(2) by simp
  then have "unat (of_nat (length xs) :: u64) = length xs"
    by (simp add: unat_of_nat)
  then show "unat (off + of_nat (length xs)) = unat off + length xs"
    using le assms(2) by (simp add: unat_word_ariths)
  have "drop (unat off + length xs) data = drop (length xs) (drop (unat off) data)"
    by (simp add: add.commute)
  then show "drop (unat off + length xs) data = rest"
    using assms(1) by simp
qed

section \<open>Decimal strings\<close>

definition digit_char :: "nat \<Rightarrow> char" where
  "digit_char d = char_of (48 + d)"

definition is_digit :: "char \<Rightarrow> bool" where
  "is_digit c \<longleftrightarrow> 48 \<le> (of_char c :: nat) \<and> (of_char c :: nat) \<le> 57"

definition digit_val :: "char \<Rightarrow> nat" where
  "digit_val c = of_char c - 48"

lemma digit_char_simps [simp]:
  assumes "d < 10"
  shows "is_digit (digit_char d)" and "digit_val (digit_char d) = d"
  using assms by (simp_all add: is_digit_def digit_char_def digit_val_def)

text \<open>\<open>std::to_string\<close> of an unsigned value, and the inserter of a stream for one.\<close>

fun to_string :: "nat \<Rightarrow> string" where
  "to_string n = (if n < 10 then [digit_char n] else to_string (n div 10) @ [digit_char (n mod 10)])"

declare to_string.simps [simp del]

definition decimal_val :: "string \<Rightarrow> nat" where
  "decimal_val s = foldl (\<lambda>acc c. 10 * acc + digit_val c) 0 s"

lemma decimal_val_simps [simp]:
  "decimal_val [] = 0" "decimal_val (s @ [c]) = 10 * decimal_val s + digit_val c"
  by (simp_all add: decimal_val_def)

lemma to_string_digits: "\<forall>c \<in> set (to_string n). is_digit c"
proof (induction n rule: to_string.induct)
  case (1 n)
  show ?case
    using "1.IH" by (cases "n < 10") (simp_all add: to_string.simps [of n])
qed

lemma to_string_nonempty [simp]: "to_string n \<noteq> []"
  by (subst to_string.simps) simp

lemma decimal_val_to_string [simp, image_simps]: "decimal_val (to_string n) = n"
proof (induction n rule: to_string.induct)
  case (1 n)
  show ?case
  proof (cases "n < 10")
    case True
    then show ?thesis
      by (simp add: to_string.simps [of n] decimal_val_def)
  next
    case False
    then show ?thesis
      using "1.IH" by (simp add: to_string.simps [of n])
  qed
qed

lemma to_string_inj: "to_string m = to_string n \<Longrightarrow> m = n"
  by (metis decimal_val_to_string)

text \<open>
  \<open>std::stoull(s)\<close> in base 10: leading white space is skipped, an optional sign is read (a minus
  negates in 64 bits), then the longest run of digits; no digit raises \<open>std::invalid_argument\<close>, a
  value that does not fit raises \<open>std::out_of_range\<close>.
\<close>

definition is_space :: "char \<Rightarrow> bool" where
  "is_space c \<longleftrightarrow> (let n = (of_char c :: nat) in n = 32 \<or> (9 \<le> n \<and> n \<le> 13))"

definition stoull :: "string \<Rightarrow> u64 res" where
  "stoull s =
     (let t = dropWhile is_space s;
          (neg, u) = (case t of
             c # cs \<Rightarrow> if c = CHR ''-'' then (True, cs) else if c = CHR ''+'' then (False, cs) else (False, t)
           | [] \<Rightarrow> (False, t));
          ds = takeWhile is_digit u
      in if ds = [] then Inl (Invalid_argument ''stoull'')
         else if decimal_val ds \<ge> 2 ^ 64 then Inl (Out_of_range ''stoull'')
         else Inr (if neg then - of_nat (decimal_val ds) else of_nat (decimal_val ds)))"

lemma digit_not_special:
  assumes "is_digit c"
  shows "\<not> is_space c" "c \<noteq> CHR ''-''" "c \<noteq> CHR ''+''" "c \<noteq> CHR ''.''"
  using assms by (auto simp: is_digit_def is_space_def Let_def)

lemma stoull_digits:
  assumes "ds \<noteq> []" and "\<forall>c \<in> set ds. is_digit c" and "decimal_val ds < 2 ^ 64"
  shows "stoull ds = Inr (of_nat (decimal_val ds))"
proof -
  obtain c cs where ds: "ds = c # cs"
    using assms(1) by (cases ds) auto
  have c: "\<not> is_space c" "c \<noteq> CHR ''-''" "c \<noteq> CHR ''+''" "is_digit c"
    using assms(2) digit_not_special by (auto simp: ds)
  have tw: "takeWhile is_digit cs = cs"
    using assms(2) by (auto simp: ds takeWhile_eq_all_conv)
  show ?thesis
    using assms(3) c by (simp add: stoull_def ds Let_def tw)
qed

lemma stoull_to_string [simp]: "n < 2 ^ 64 \<Longrightarrow> stoull (to_string n) = Inr (of_nat n)"
  by (simp add: stoull_digits to_string_digits)

end
