(* ===== verification/Evm_Stack.thy ===== *)
theory Evm_Stack
  imports Prelude
begin

text \<open>
  The operand stack of the EVM (\<open>include/evm/Stack.hpp\<close>, \<open>src/evm/Stack.cpp\<close>). The state is the
  vector \<open>items_\<close>; its last element is the top of the stack. Operations that throw return the
  exception and leave the vector as it was. The locale \<open>bounded_stack\<close> is the contract that the
  executor relies on; \<open>Stack_push\<close> and \<open>Stack_pop\<close> implement it.
\<close>

type_synonym stack = "u256 list"

abbreviation stack_limit :: nat where
  "stack_limit \<equiv> 1024"

definition Stack_push :: "u256 \<Rightarrow> stack \<Rightarrow> stack res" where
  "Stack_push value items =
     (if length items \<ge> stack_limit then Inl (Runtime_error ''Stack overflow'')
      else Inr (items @ [value]))"

definition Stack_pop :: "stack \<Rightarrow> (u256 \<times> stack) res" where
  "Stack_pop items =
     (if items = [] then Inl (Runtime_error ''Stack underflow'')
      else Inr (last items, butlast items))"

definition Stack_peek :: "nat \<Rightarrow> stack \<Rightarrow> u256 res" where
  "Stack_peek depth items =
     (if length items \<le> depth then Inl (Runtime_error ''Stack underflow'')
      else Inr (items ! (length items - 1 - depth)))"

definition Stack_swap :: "nat \<Rightarrow> stack \<Rightarrow> stack res" where
  "Stack_swap n items =
     (if n = 0 \<or> n > 16 then Inl (Invalid_argument ''Invalid swap depth'')
      else if length items \<le> n then Inl (Runtime_error ''Stack underflow'')
      else let i = length items - 1; j = length items - 1 - n
           in Inr (items[i := items ! j, j := items ! i]))"

definition Stack_dup :: "nat \<Rightarrow> stack \<Rightarrow> stack res" where
  "Stack_dup n items =
     (if n = 0 \<or> n > 16 then Inl (Invalid_argument ''Invalid dup depth'')
      else if length items < n then Inl (Runtime_error ''Stack underflow'')
      else Stack_push (items ! (length items - n)) items)"

definition Stack_size :: "stack \<Rightarrow> nat" where
  "Stack_size items = length items"

definition Stack_clear :: "stack \<Rightarrow> stack" where
  "Stack_clear items = []"

definition Stack_empty :: "stack \<Rightarrow> bool" where
  "Stack_empty items \<longleftrightarrow> items = []"

section \<open>The contract\<close>

locale bounded_stack =
  fixes push :: "'a \<Rightarrow> 's \<Rightarrow> 's res"
    and pop :: "'s \<Rightarrow> ('a \<times> 's) res"
    and depth :: "'s \<Rightarrow> nat"
    and limit :: nat
  assumes push_ok: "depth s < limit \<Longrightarrow>
      \<exists>s'. push x s = Inr s' \<and> depth s' = Suc (depth s) \<and> pop s' = Inr (x, s)"
    and push_full: "limit \<le> depth s \<Longrightarrow> \<exists>e. push x s = Inl e"
    and pop_ok: "0 < depth s \<Longrightarrow> \<exists>x s'. pop s = Inr (x, s') \<and> depth s = Suc (depth s')"
    and pop_empty: "depth s = 0 \<Longrightarrow> \<exists>e. pop s = Inl e"
begin

lemma push_Inr_iff: "(\<exists>s'. push x s = Inr s') \<longleftrightarrow> depth s < limit"
  by (metis push_ok push_full not_le Inl_Inr_False)

lemma pushD: "push x s = Inr s' \<Longrightarrow> depth s' = Suc (depth s) \<and> depth s' \<le> limit \<and> pop s' = Inr (x, s)"
  by (metis push_ok push_Inr_iff sum.inject(2) Suc_leI)

lemma popD: "pop s = Inr (x, s') \<Longrightarrow> depth s = Suc (depth s')"
  by (metis Inl_Inr_False gr0I pop_empty pop_ok prod.inject sum.inject(2))

text \<open>Pushing a list and popping as often returns it reversed, and restores the stack.\<close>

fun push_all :: "'a list \<Rightarrow> 's \<Rightarrow> 's res" where
  "push_all [] s = Inr s"
| "push_all (x # xs) s = (case push x s of Inl e \<Rightarrow> Inl e | Inr s' \<Rightarrow> push_all xs s')"

fun pop_n :: "nat \<Rightarrow> 's \<Rightarrow> ('a list \<times> 's) res" where
  "pop_n 0 s = Inr ([], s)"
| "pop_n (Suc n) s = (case pop s of Inl e \<Rightarrow> Inl e
     | Inr (x, s') \<Rightarrow> (case pop_n n s' of Inl e \<Rightarrow> Inl e | Inr (xs, t) \<Rightarrow> Inr (x # xs, t)))"

lemma pop_n_Suc_back:
  assumes "pop_n n s = Inr (xs, t)" and "pop t = Inr (x, t')"
  shows "pop_n (Suc n) s = Inr (xs @ [x], t')"
  using assms
proof (induction n arbitrary: s xs)
  case 0
  then show ?case by simp
next
  case (Suc n)
  obtain y s' where y: "pop s = Inr (y, s')"
    using Suc.prems(1) by (auto split: sum.splits)
  obtain ys where ys: "pop_n n s' = Inr (ys, t)" "xs = y # ys"
    using Suc.prems(1) y by (auto split: sum.splits)
  show ?case
    using Suc.IH [OF ys(1) Suc.prems(2)] y ys(2) by simp
qed

lemma push_all_pop_n:
  assumes "depth s + length xs \<le> limit"
  shows "\<exists>s'. push_all xs s = Inr s' \<and> depth s' = depth s + length xs
    \<and> pop_n (length xs) s' = Inr (rev xs, s)"
  using assms
proof (induction xs arbitrary: s)
  case Nil
  then show ?case by simp
next
  case (Cons x xs)
  then obtain s1 where s1: "push x s = Inr s1" "depth s1 = Suc (depth s)" "pop s1 = Inr (x, s)"
    using push_ok [of s x] by auto
  with Cons.IH [of s1] Cons.prems obtain s2 where
    "push_all xs s1 = Inr s2" "depth s2 = depth s1 + length xs" "pop_n (length xs) s2 = Inr (rev xs, s1)"
    by auto
  with s1 pop_n_Suc_back [of "length xs" s2 "rev xs" s1 x s] show ?case
    by simp
qed

end

interpretation evm_stack: bounded_stack Stack_push Stack_pop length stack_limit
  by unfold_locales (auto simp: Stack_push_def Stack_pop_def length_append_singleton)

section \<open>Lemmas\<close>

lemma nth_last_index: "items \<noteq> [] \<Longrightarrow> items ! (length items - 1) = last items"
  by (simp add: last_conv_nth)

lemma Stack_dup_as_push:
  assumes "1 \<le> n" and "n \<le> 16"
  shows "Stack_dup n items =
    (case Stack_peek (n - 1) items of Inl e \<Rightarrow> Inl e | Inr v \<Rightarrow> Stack_push v items)"
  using assms by (auto simp: Stack_dup_def Stack_peek_def)

lemma Stack_swap_mset:
  assumes "Stack_swap n items = Inr items'"
  shows "length items' = length items" and "set items' = set items"
proof -
  have n: "n < length items" and
    eq: "items' = items[length items - 1 := items ! (length items - 1 - n),
                        length items - 1 - n := items ! (length items - 1)]"
    using assms by (auto simp: Stack_swap_def Let_def split: if_splits)
  show "length items' = length items"
    by (simp add: eq)
  show "set items' = set items"
    using n unfolding eq by (subst set_swap) auto
qed

text \<open>
  \<open>swap\<close> exchanges the top with the element \<open>n\<close> below it and nothing else, succeeds exactly when
  \<open>1 \<le> n \<le> 16\<close> and the stack is deeper than \<open>n\<close>, and is its own inverse.
\<close>

theorem Stack_swap_spec:
  "(case Stack_swap n items of
      Inl e \<Rightarrow> n = 0 \<or> 16 < n \<or> length items \<le> n
    | Inr items' \<Rightarrow> 1 \<le> n \<and> n \<le> 16 \<and> n < length items
        \<and> Stack_peek 0 items' = Stack_peek n items
        \<and> Stack_peek n items' = Stack_peek 0 items
        \<and> (\<forall>d. d \<noteq> 0 \<and> d \<noteq> n \<longrightarrow> Stack_peek d items' = Stack_peek d items)
        \<and> Stack_swap n items' = Inr items)"
proof (cases "n = 0 \<or> n > 16 \<or> length items \<le> n")
  case True
  then show ?thesis by (auto simp: Stack_swap_def)
next
  case False
  define i j where "i = length items - 1" and "j = length items - 1 - n"
  define items' where "items' = items[i := items ! j, j := items ! i]"
  have ij: "i < length items" "j < length items" "i \<noteq> j" "i - n = j"
    using False by (auto simp: i_def j_def)
  have len: "length items' = length items"
    by (simp add: items'_def)
  have s: "Stack_swap n items = Inr items'"
    using False by (simp add: Stack_swap_def Let_def items'_def i_def j_def)
  have undo: "items'[i := items' ! j, j := items' ! i] = items"
    using ij by (intro nth_equalityI) (auto simp: items'_def nth_list_update)
  have "Stack_swap n items' = Inr items"
    using False undo len by (simp add: Stack_swap_def Let_def i_def j_def)
  moreover have "Stack_peek 0 items' = Stack_peek n items" "Stack_peek n items' = Stack_peek 0 items"
    using False ij by (auto simp: Stack_peek_def len items'_def i_def j_def nth_list_update)
  moreover have "Stack_peek d items' = Stack_peek d items" if "d \<noteq> 0" "d \<noteq> n" for d
  proof (cases "length items \<le> d")
    case True
    then show ?thesis by (simp add: Stack_peek_def len)
  next
    case d: False
    have "length items - 1 - d \<noteq> i" "length items - 1 - d \<noteq> j"
      using that d False by (auto simp: i_def j_def)
    then show ?thesis
      using d by (simp add: Stack_peek_def len items'_def)
  qed
  ultimately show ?thesis
    using False by (auto simp: s)
qed

theorem Stack_swap_spec_witness:
  "Stack_swap 2 [10, 20, 30] = Inr [30, 20, 10] \<and> Stack_swap 2 [30, 20, 10] = Inr [10, 20, 30]"
proof -
  have s: "Stack_swap 2 [10, 20, 30] = Inr [30, 20, 10]"
    by (simp add: Stack_swap_def Let_def)
  show ?thesis
    using Stack_swap_spec [of 2 "[10, 20, 30]"] by (simp add: s)
qed

end
