(* ===== verification/Evm_Memory.thy ===== *)
theory Evm_Memory
  imports Prelude
begin

text \<open>
  The byte-addressed memory of the EVM (\<open>include/evm/Memory.hpp\<close>, \<open>src/evm/Memory.cpp\<close>). The state
  is the vector \<open>data_\<close>; offsets and sizes are \<open>size_t\<close> values, so sums of them wrap at 64 bits as
  they do in the code, and an index past the end of the vector is \<open>Undefined\<close>. A failing allocation
  inside \<open>resize\<close> is not modelled.
\<close>

type_synonym memory = bytes

abbreviation msize :: "memory \<Rightarrow> u64" where
  "msize m \<equiv> of_nat (length m)"

definition Memory_calculate_words :: "u64 \<Rightarrow> u64" where
  "Memory_calculate_words sz = (sz + 31) div 32"

definition Memory_calculate_expansion_cost :: "u64 \<Rightarrow> u64 \<Rightarrow> memory \<Rightarrow> u64" where
  "Memory_calculate_expansion_cost offset sz m =
     (if sz = 0 then 0
      else let required_size = offset + sz
           in if required_size \<le> msize m then 0
              else let words = Memory_calculate_words required_size;
                       current_words = Memory_calculate_words (msize m);
                       linear_cost = words * 3;
                       quadratic_cost = (words * words) div 512 - (current_words * current_words) div 512
                   in linear_cost + quadratic_cost)"

definition resize :: "nat \<Rightarrow> memory \<Rightarrow> memory" where
  "resize n m = (if n \<le> length m then take n m else m @ replicate (n - length m) 0)"

definition Memory_expand :: "u64 \<Rightarrow> memory \<Rightarrow> u64 \<times> memory" where
  "Memory_expand new_size m =
     (if new_size \<le> msize m then (0, m)
      else (Memory_calculate_expansion_cost 0 new_size m, resize (unat new_size) m))"

definition Memory_ensure_capacity :: "u64 \<Rightarrow> u64 \<Rightarrow> memory \<Rightarrow> memory" where
  "Memory_ensure_capacity offset sz m =
     (let required_size = offset + sz
      in if required_size > msize m then snd (Memory_expand required_size m) else m)"

definition write_at :: "nat \<Rightarrow> bytes \<Rightarrow> memory \<Rightarrow> memory" where
  "write_at off bs m = take off m @ bs @ drop (off + length bs) m"

definition Memory_store8 :: "u64 \<Rightarrow> u8 \<Rightarrow> memory \<Rightarrow> unit res \<times> memory" where
  "Memory_store8 offset value m =
     (let m' = Memory_ensure_capacity offset 1 m
      in if unat offset < length m' then (Inr (), m'[unat offset := value])
         else (Inl (Undefined ''data_ subscript''), m'))"

definition Memory_store :: "u64 \<Rightarrow> bytes \<Rightarrow> memory \<Rightarrow> unit res \<times> memory" where
  "Memory_store offset data m =
     (if data = [] then (Inr (), m)
      else let m' = Memory_ensure_capacity offset (of_nat (length data)) m
           in if unat offset + length data \<le> length m' then (Inr (), write_at (unat offset) data m')
              else (Inl (Undefined ''copy past data_''), m'))"

definition Memory_load8 :: "u64 \<Rightarrow> memory \<Rightarrow> u8 res" where
  "Memory_load8 offset m =
     (if offset \<ge> msize m then Inl (Out_of_range ''Memory access out of bounds'')
      else Inr (m ! unat offset))"

definition Memory_load :: "u64 \<Rightarrow> u64 \<Rightarrow> memory \<Rightarrow> bytes" where
  "Memory_load offset sz m =
     (let result = replicate (unat sz) 0
      in if offset \<ge> msize m then result
         else let copy_size = min sz (msize m - offset)
              in write_at 0 (take (unat copy_size) (drop (unat offset) m)) result)"

fun is_zero_loop :: "nat \<Rightarrow> bytes \<Rightarrow> bool res" where
  "is_zero_loop 0 xs = Inr True"
| "is_zero_loop (Suc n) [] = Inl (Undefined ''data_ subscript'')"
| "is_zero_loop (Suc n) (x # xs) = (if x \<noteq> 0 then Inr False else is_zero_loop n xs)"

definition Memory_is_zero :: "u64 \<Rightarrow> u64 \<Rightarrow> memory \<Rightarrow> bool res" where
  "Memory_is_zero offset sz m =
     (if offset + sz > msize m then Inl (Out_of_range ''Memory range check out of bounds'')
      else is_zero_loop (unat sz) (drop (unat offset) m))"

definition hex_digit :: "nat \<Rightarrow> char" where
  "hex_digit d = (if d < 10 then char_of (48 + d) else char_of (87 + d))"

definition hex2 :: "u8 \<Rightarrow> string" where
  "hex2 b = [hex_digit (unat b div 16), hex_digit (unat b mod 16)]"

definition Memory_dump_range :: "u64 \<Rightarrow> u64 \<Rightarrow> memory \<Rightarrow> string res" where
  "Memory_dump_range offset sz m =
     (if offset + sz > msize m then Inl (Out_of_range ''Memory dump range out of bounds'')
      else if unat offset + unat sz \<le> length m
      then Inr (concat (map (\<lambda>i. (if 0 < i \<and> i mod 32 = 0 then [char_of (10::nat)] else [])
                                @ hex2 (m ! (unat offset + i)) @ [CHR '' '']) [0..<unat sz]))
      else Inl (Undefined ''data_ subscript''))"

definition Memory_dump :: "memory \<Rightarrow> string res" where
  "Memory_dump m = Memory_dump_range 0 (msize m) m"

definition Memory_clear :: "memory \<Rightarrow> memory" where
  "Memory_clear m = []"

text \<open>The nested class \<open>Memory::Impl\<close> keeps a vector of its own.\<close>

definition Impl_ensureSize :: "u64 \<Rightarrow> memory \<Rightarrow> memory" where
  "Impl_ensureSize required_size m =
     (if required_size > msize m then resize (unat required_size) m else m)"

definition Impl_store :: "u64 \<Rightarrow> bytes \<Rightarrow> memory \<Rightarrow> unit res \<times> memory" where
  "Impl_store offset data m =
     (let m' = Impl_ensureSize (offset + of_nat (length data)) m
      in if unat offset + length data \<le> length m' then (Inr (), write_at (unat offset) data m')
         else (Inl (Undefined ''copy past memory_''), m'))"

definition Impl_load :: "u64 \<Rightarrow> u64 \<Rightarrow> memory \<Rightarrow> bytes res" where
  "Impl_load offset sz m =
     (if offset + sz > msize m then Inl (Out_of_range ''Memory access out of bounds'')
      else slice_at m offset sz)"

text \<open>The memory term of the Yellow Paper, which the comment in \<open>calculate_expansion_cost\<close> cites.\<close>

definition yellow_paper_cost :: "nat \<Rightarrow> nat" where
  "yellow_paper_cost sz = (let w = (sz + 31) div 32 in 3 * w + w * w div 512)"

section \<open>Well-formed memories and in-range requests\<close>

text \<open>A vector never holds \<open>2^63\<close> bytes or more (\<open>vector::max_size\<close>).\<close>

definition memory_ok :: "memory \<Rightarrow> bool" where
  "memory_ok m \<longleftrightarrow> length m < 2 ^ 63"

definition in_range :: "u64 \<Rightarrow> nat \<Rightarrow> bool" where
  "in_range off n \<longleftrightarrow> unat off + n < 2 ^ 63"

lemma unat_msize [simp]: "memory_ok m \<Longrightarrow> unat (msize m) = length m"
  by (simp add: memory_ok_def unat_of_nat)

lemma unat_request:
  assumes "in_range off n"
  shows "unat (off + of_nat n) = unat off + n"
  using assms by (simp add: in_range_def unat_word_ariths unat_of_nat)

lemma length_resize [simp]: "length (resize n m) = n"
  by (simp add: resize_def)

lemma nth_resize: "i < n \<Longrightarrow> resize n m ! i = (if i < length m then m ! i else 0)"
  by (auto simp: resize_def nth_append)

lemma length_write_at:
  "off + length bs \<le> length m \<Longrightarrow> length (write_at off bs m) = length m"
  by (simp add: write_at_def)

lemma nth_write_at:
  assumes "off + length bs \<le> length m" and "i < length m"
  shows "write_at off bs m ! i =
    (if off \<le> i \<and> i < off + length bs then bs ! (i - off) else m ! i)"
  using assms by (auto simp: write_at_def nth_append)

lemma ensure_capacity_spec:
  assumes "memory_ok m" and "in_range off n"
  shows "length (Memory_ensure_capacity off (of_nat n) m) = max (length m) (unat off + n)"
    and "i < max (length m) (unat off + n) \<Longrightarrow>
      Memory_ensure_capacity off (of_nat n) m ! i = (if i < length m then m ! i else 0)"
  using assms unat_request [OF assms(2)]
  by (auto simp: Memory_ensure_capacity_def Memory_expand_def Let_def word_less_nat_alt
      word_le_nat_alt nth_resize max_def)

lemma Memory_store_spec:
  assumes "memory_ok m" and "in_range off (length data)" and "data \<noteq> []"
  obtains m' where "Memory_store off data m = (Inr (), m')"
    and "length m' = max (length m) (unat off + length data)"
    and "\<And>i. i < length m' \<Longrightarrow> m' ! i =
      (if unat off \<le> i \<and> i < unat off + length data then data ! (i - unat off)
       else if i < length m then m ! i else 0)"
proof -
  define e where "e = Memory_ensure_capacity off (of_nat (length data)) m"
  have len: "length e = max (length m) (unat off + length data)"
    unfolding e_def by (rule ensure_capacity_spec(1) [OF assms(1,2)])
  have nth: "\<And>i. i < length e \<Longrightarrow> e ! i = (if i < length m then m ! i else 0)"
    unfolding len using ensure_capacity_spec(2) [OF assms(1,2)] by (simp add: e_def)
  have fits: "unat off + length data \<le> length e"
    by (simp add: len)
  show ?thesis
  proof (rule that)
    show "Memory_store off data m = (Inr (), write_at (unat off) data e)"
      using assms(3) fits by (simp add: Memory_store_def Let_def e_def)
    show "length (write_at (unat off) data e) = max (length m) (unat off + length data)"
      using fits len by (simp add: length_write_at)
    show "write_at (unat off) data e ! i =
      (if unat off \<le> i \<and> i < unat off + length data then data ! (i - unat off)
       else if i < length m then m ! i else 0)" if "i < length (write_at (unat off) data e)" for i
      using that fits nth by (simp add: length_write_at nth_write_at)
  qed
qed

lemma Memory_load_nth:
  assumes "memory_ok m"
  shows "length (Memory_load off sz m) = unat sz"
    and "i < unat sz \<Longrightarrow> Memory_load off sz m ! i =
      (if unat off + i < length m then m ! (unat off + i) else 0)"
proof -
  define c where "c = take (unat (min sz (msize m - off))) (drop (unat off) m)"
  have out: "off \<ge> msize m \<longleftrightarrow> length m \<le> unat off"
    using assms by (simp add: word_le_nat_alt)
  have load: "Memory_load off sz m =
      (if length m \<le> unat off then replicate (unat sz) 0 else write_at 0 c (replicate (unat sz) 0))"
    by (simp add: Memory_load_def out c_def Let_def)
  have clen: "length c = min (unat sz) (length m - unat off)" if "\<not> length m \<le> unat off"
  proof -
    have "unat (msize m - off) = length m - unat off"
      using assms that by (simp add: unat_sub word_le_nat_alt)
    moreover have "unat (min a b) = min (unat a) (unat b)" for a b :: u64
      by (simp add: min_def word_le_nat_alt)
    ultimately show ?thesis
      by (simp add: c_def)
  qed
  show "length (Memory_load off sz m) = unat sz"
    using clen by (simp add: load length_write_at)
  show "Memory_load off sz m ! i = (if unat off + i < length m then m ! (unat off + i) else 0)"
    if "i < unat sz"
  proof (cases "length m \<le> unat off")
    case True
    then show ?thesis using that by (simp add: load)
  next
    case False
    have "write_at 0 c (replicate (unat sz) 0) ! i = (if i < length c then c ! i else 0)"
      using that clen [OF False] by (subst nth_write_at) auto
    then show ?thesis
      using False that clen [OF False] by (auto simp: load c_def)
  qed
qed

lemma is_zero_loop_spec:
  "n \<le> length xs \<Longrightarrow> is_zero_loop n xs = Inr (\<forall>i<n. xs ! i = 0)"
proof (induction n xs rule: is_zero_loop.induct)
  case (3 n x xs)
  then show ?case by (auto simp: less_Suc_eq_0_disj)
qed auto

section \<open>Properties\<close>

text \<open>
  Storing bytes and loading the same range returns them, every other byte of the memory is what
  it was (new bytes are zero), and the memory never shrinks.
\<close>

theorem Memory_store_load:
  assumes "memory_ok m" and "in_range off (length data)"
  shows "\<exists>m'. Memory_store off data m = (Inr (), m')
    \<and> Memory_load off (of_nat (length data)) m' = data
    \<and> length m \<le> length m'
    \<and> (\<forall>o' s. memory_ok m' \<and> (unat o' + unat s \<le> unat off \<or> unat off + length data \<le> unat o')
         \<longrightarrow> Memory_load o' s m' = Memory_load o' s m)"
proof (cases "data = []")
  case True
  then show ?thesis
    by (auto simp: Memory_store_def Memory_load_def write_at_def Let_def)
next
  case False
  obtain m' where m': "Memory_store off data m = (Inr (), m')"
    and len: "length m' = max (length m) (unat off + length data)"
    and nth: "\<And>i. i < length m' \<Longrightarrow> m' ! i =
      (if unat off \<le> i \<and> i < unat off + length data then data ! (i - unat off)
       else if i < length m then m ! i else 0)"
    using Memory_store_spec [OF assms False] by metis
  have ok': "memory_ok m'"
    using assms by (simp add: memory_ok_def in_range_def len)
  have ul: "unat (of_nat (length data) :: u64) = length data"
    using assms(2) by (simp add: in_range_def unat_of_nat)
  have "Memory_load off (of_nat (length data)) m' = data"
    using ok' by (intro nth_equalityI) (auto simp: Memory_load_nth ul nth len)
  moreover have "Memory_load o' s m' = Memory_load o' s m"
    if "unat o' + unat s \<le> unat off \<or> unat off + length data \<le> unat o'" for o' s
    using ok' assms(1) that
    by (intro nth_equalityI) (auto simp: Memory_load_nth nth len)
  ultimately show ?thesis
    using m' len by auto
qed

theorem Memory_store_load_witness:
  "Memory_load 2 (of_nat 2) (snd (Memory_store 2 [7, 8] [1])) = [7, 8]"
proof -
  have "memory_ok [1]" and "in_range 2 (length [7, 8 :: u8])"
    by (simp_all add: memory_ok_def in_range_def)
  from Memory_store_load [OF this] show ?thesis by auto
qed

lemma quadratic_mono: "a \<le> b \<Longrightarrow> (a * a) div 512 \<le> (b * b) div (512 :: nat)"
  by (intro div_le_mono mult_le_mono) auto

lemma unat_words:
  assumes "unat s < 2 ^ 32"
  shows "unat (Memory_calculate_words s) = (unat s + 31) div 32"
  using assms by (simp add: Memory_calculate_words_def unat_div_distrib unat_word_ariths)

lemma unat_words_square:
  assumes "unat s < 2 ^ 32"
  shows "unat (Memory_calculate_words s * Memory_calculate_words s div 512)
    = ((unat s + 31) div 32) * ((unat s + 31) div 32) div 512"
proof -
  have "(unat s + 31) div 32 \<le> 2 ^ 28"
    using assms by simp
  then have "((unat s + 31) div 32) * ((unat s + 31) div 32) \<le> 2 ^ 28 * 2 ^ 28"
    by (rule mult_le_mono [rotated]) fact
  then show ?thesis
    using unat_words [OF assms] by (simp add: unat_div_distrib unat_word_ariths)
qed

text \<open>
  The expansion cost against the formula of the Yellow Paper that the code cites, \<open>3 w + w^2 / 512\<close>
  charged as the difference between the new and the old size: for sizes below 4 GiB the code charges
  that difference plus \<open>3\<close> gas for every word the memory already had.
\<close>

theorem expansion_cost_overcharges:
  assumes "sz \<noteq> 0" and "unat offset + unat sz < 2 ^ 32"
    and "length m < unat offset + unat sz"
  shows "unat (Memory_calculate_expansion_cost offset sz m)
    = yellow_paper_cost (unat offset + unat sz) - yellow_paper_cost (length m)
      + 3 * ((length m + 31) div 32)"
proof -
  let ?r = "unat offset + unat sz" and ?c = "length m"
  let ?w = "\<lambda>n :: nat. (n + 31) div 32"
  define W where "W = Memory_calculate_words (offset + sz)"
  define C where "C = Memory_calculate_words (msize m)"
  have ok: "memory_ok m" and c32: "?c < 2 ^ 32"
    using assms by (simp_all add: memory_ok_def)
  have r: "unat (offset + sz) = ?r"
    using assms(2) by (simp add: unat_word_ariths)
  have rw: "unat (Memory_calculate_words (offset + sz)) = ?w ?r"
    and rs: "unat (Memory_calculate_words (offset + sz) * Memory_calculate_words (offset + sz) div 512)
      = ?w ?r * ?w ?r div 512"
    and cs: "unat (Memory_calculate_words (msize m) * Memory_calculate_words (msize m) div 512)
      = ?w ?c * ?w ?c div 512"
    using unat_words [of "offset + sz"] unat_words_square [of "offset + sz"]
      unat_words_square [of "msize m"] assms(2) r c32 ok by simp_all
  have le: "?w ?c \<le> ?w ?r" and bound: "?w ?r \<le> 2 ^ 28"
    using assms(2,3) by (simp_all add: div_le_mono)
  then have q: "?w ?c * ?w ?c div 512 \<le> ?w ?r * ?w ?r div 512"
    by (intro quadratic_mono)
  have qb: "?w ?r * ?w ?r div 512 \<le> 2 ^ 47"
    using mult_le_mono [OF bound bound] by (simp add: div_le_mono)
  have "\<not> offset + sz \<le> msize m"
    using assms(3) ok r by (simp add: word_le_nat_alt)
  then have cost: "Memory_calculate_expansion_cost offset sz m = W * 3 + (W * W div 512 - C * C div 512)"
    using assms(1) by (simp add: Memory_calculate_expansion_cost_def Let_def W_def C_def)
  have lin: "unat (W * 3) = 3 * ?w ?r"
    using rw bound by (simp add: W_def unat_word_ariths)
  have quad: "unat (W * W div 512 - C * C div 512) = ?w ?r * ?w ?r div 512 - ?w ?c * ?w ?c div 512"
    using q rs cs by (simp only: W_def C_def unat_sub word_le_nat_alt)
  have "3 * ?w ?r + (?w ?r * ?w ?r div 512 - ?w ?c * ?w ?c div 512) < 2 ^ 64"
    using add_le_mono [OF mult_le_mono [OF order_refl [of 3] bound] order_trans [OF diff_le_self qb]]
    by (rule le_less_trans) simp
  then have "unat (Memory_calculate_expansion_cost offset sz m)
      = 3 * ?w ?r + (?w ?r * ?w ?r div 512 - ?w ?c * ?w ?c div 512)"
    unfolding cost using unat_add_u64 [of "W * 3" "W * W div 512 - C * C div 512"]
    by (simp only: lin quad)
  then show ?thesis
    using q le by (simp add: yellow_paper_cost_def Let_def)
qed

theorem expansion_cost_overcharges_witness:
  "unat (Memory_calculate_expansion_cost 0 64 (replicate 32 0))
    = yellow_paper_cost 64 - yellow_paper_cost 32 + 3"
  using expansion_cost_overcharges [of 64 0 "replicate 32 0"] by simp

text \<open>
  The capacity check adds offset and size in 64 bits. When the sum wraps the vector is not grown,
  and the store writes outside it: a one-byte store at the last address is undefined behaviour.
\<close>

theorem Memory_store8_wraps: "is_Undefined (fst (Memory_store8 (- 1) v m))" if "memory_ok m"
proof -
  have u: "unat (- 1 :: u64) = 2 ^ 64 - 1"
    by (simp add: unsigned_minus_1_eq_mask mask_eq_exp_minus_1)
  have "Memory_ensure_capacity (- 1) 1 m = m"
    by (simp add: Memory_ensure_capacity_def)
  then show ?thesis
    using that u by (simp add: Memory_store8_def memory_ok_def)
qed

theorem Memory_store8_wraps_witness: "is_Undefined (fst (Memory_store8 (- 1) 5 [0]))"
  by (rule Memory_store8_wraps) (simp add: memory_ok_def)

end
