(* ===== verification/Std_Map.thy ===== *)
theory Std_Map
  imports Prelude "HOL-Library.AList"
begin

text \<open>
  \<open>std::map\<close> and \<open>std::unordered_map\<close> as association lists with distinct keys: the operations of
  the containers that the sources use, and two interfaces their clients rely on. \<open>kv_store\<close> is a
  store with insertion, lookup and removal; \<open>ledger\<close> is a store of 64-bit amounts whose total is
  known after every update, which is what conservation of balances needs.
\<close>

type_synonym ('k, 'v) smap = "('k \<times> 'v) list"

definition map_find :: "('k, 'v) smap \<Rightarrow> 'k \<Rightarrow> 'v option" where
  "map_find m k = map_of m k"

definition map_put :: "'k \<Rightarrow> 'v \<Rightarrow> ('k, 'v) smap \<Rightarrow> ('k, 'v) smap" where
  "map_put k v m = AList.update k v m"

definition map_erase :: "'k \<Rightarrow> ('k, 'v) smap \<Rightarrow> ('k, 'v) smap" where
  "map_erase k m = AList.delete k m"

definition map_count :: "('k, 'v) smap \<Rightarrow> 'k \<Rightarrow> bool" where
  "map_count m k \<longleftrightarrow> map_of m k \<noteq> None"

text \<open>The subscript operator: a missing key is inserted with the value-initialised \<open>d\<close>.\<close>

definition map_index :: "'v \<Rightarrow> 'k \<Rightarrow> ('k, 'v) smap \<Rightarrow> 'v \<times> ('k, 'v) smap" where
  "map_index d k m = (case map_find m k of Some v \<Rightarrow> (v, m) | None \<Rightarrow> (d, map_put k d m))"

definition map_get :: "'v \<Rightarrow> ('k, 'v) smap \<Rightarrow> 'k \<Rightarrow> 'v" where
  "map_get d m k = (case map_find m k of Some v \<Rightarrow> v | None \<Rightarrow> d)"

definition map_ok :: "('k, 'v) smap \<Rightarrow> bool" where
  "map_ok m \<longleftrightarrow> distinct (map fst m)"

fun map_total :: "('v \<Rightarrow> 'n::ab_group_add) \<Rightarrow> ('k, 'v) smap \<Rightarrow> 'n" where
  "map_total f [] = 0"
| "map_total f ((k, v) # m) = f v + map_total f m"

section \<open>Lookup after update\<close>

lemma map_find_simps [simp]:
  "map_find [] k = None"
  "map_find (map_put k v m) j = (if j = k then Some v else map_find m j)"
  "map_find (map_erase k m) j = (if j = k then None else map_find m j)"
  by (simp_all add: map_find_def map_put_def map_erase_def AList.update_conv' AList.delete_conv')

lemma map_get_simps [simp]:
  "map_get d [] k = d"
  "map_get d (map_put k v m) j = (if j = k then v else map_get d m j)"
  "map_get d (map_erase k m) j = (if j = k then d else map_get d m j)"
  by (simp_all add: map_get_def)

lemma map_count_simps [simp]:
  "\<not> map_count [] k"
  "map_count (map_put k v m) j \<longleftrightarrow> j = k \<or> map_count m j"
  "map_count (map_erase k m) j \<longleftrightarrow> j \<noteq> k \<and> map_count m j"
  by (auto simp: map_count_def map_put_def map_erase_def AList.update_conv' AList.delete_conv')

lemma map_count_find: "map_count m k \<longleftrightarrow> (\<exists>v. map_find m k = Some v)"
  by (auto simp: map_count_def map_find_def)

lemma map_index_simps [simp]:
  "fst (map_index d k m) = map_get d m k"
  "map_get d (snd (map_index d k m)) j = map_get d m j"
  "map_find (snd (map_index d k m)) j = (if j = k then Some (map_get d m k) else map_find m j)"
  by (auto simp: map_index_def map_get_def split: option.splits)

lemma map_ok_simps [simp]:
  "map_ok []" "map_ok m \<Longrightarrow> map_ok (map_put k v m)" "map_ok m \<Longrightarrow> map_ok (map_erase k m)"
  "map_ok m \<Longrightarrow> map_ok (snd (map_index d k m))"
  by (auto simp: map_ok_def map_put_def map_erase_def map_index_def distinct_update
      AList.distinct_delete split: option.splits)

lemma length_map_put:
  "length (map_put k v m) = (if map_count m k then length m else Suc (length m))"
  by (induction m) (auto simp: map_put_def map_count_def)

lemma map_put_same [simp]: "map_find m k = Some v \<Longrightarrow> map_put k v m = m"
  by (induction m) (auto simp: map_put_def map_find_def split: if_splits)

lemma map_put_put [simp]: "map_put k v (map_put k w m) = map_put k v m"
  by (induction m) (auto simp: map_put_def)

lemma map_put_index [simp]: "map_put k v (snd (map_index d k m)) = map_put k v m"
  by (simp add: map_index_def split: option.split)

lemma map_put_set:
  "map_ok m \<Longrightarrow> set (map_put k v m) = {p \<in> set m. fst p \<noteq> k} \<union> {(k, v)}"
  by (induction m) (force simp: map_put_def map_ok_def image_iff)+

section \<open>Totals\<close>

lemma map_total_put:
  "map_total f (map_put k v m) =
     map_total f m - (case map_find m k of Some w \<Rightarrow> f w | None \<Rightarrow> 0) + f v"
  by (induction m) (auto simp: map_put_def map_find_def algebra_simps split: option.splits)

lemma map_total_index:
  "f d = 0 \<Longrightarrow> map_total f (snd (map_index d k m)) = map_total f m"
  by (auto simp: map_index_def map_total_put split: option.split)

section \<open>Interfaces\<close>

locale kv_store =
  fixes put :: "'k \<Rightarrow> 'v \<Rightarrow> 's \<Rightarrow> 's"
    and get :: "'s \<Rightarrow> 'k \<Rightarrow> 'v"
    and ok :: "'s \<Rightarrow> bool"
  assumes put_ok: "ok s \<Longrightarrow> ok (put k v s)"
    and get_put: "ok s \<Longrightarrow> get (put k v s) j = (if j = k then v else get s j)"
begin

fun puts :: "('k \<times> 'v) list \<Rightarrow> 's \<Rightarrow> 's" where
  "puts [] s = s"
| "puts ((k, v) # ws) s = puts ws (put k v s)"

lemma puts_ok: "ok s \<Longrightarrow> ok (puts ws s)"
  by (induction ws s rule: puts.induct) (auto simp: put_ok)

text \<open>After a sequence of writes a key holds the last value written to it.\<close>

lemma get_puts:
  "ok s \<Longrightarrow> get (puts ws s) k = (case map_of (rev ws) k of Some v \<Rightarrow> v | None \<Rightarrow> get s k)"
  by (induction ws s rule: puts.induct)
    (auto simp: put_ok get_put map_add_def split: option.splits)

lemma puts_frame: "ok s \<Longrightarrow> k \<notin> fst ` set ws \<Longrightarrow> get (puts ws s) k = get s k"
  by (induction ws s rule: puts.induct) (auto simp: put_ok get_put)

lemma put_commute:
  "ok s \<Longrightarrow> k \<noteq> j \<Longrightarrow> get (put k v (put j w s)) i = get (put j w (put k v s)) i"
  by (simp add: put_ok get_put)

end

interpretation smap: kv_store map_put "map_get d" "\<lambda>_. True" for d
  by unfold_locales auto

text \<open>
  A debit of one account followed by a credit of another, each a read, an update in 64-bit
  arithmetic and a write, in the order both the EVM executor and the address manager use.
\<close>

locale ledger =
  fixes set_bal :: "'k \<Rightarrow> u64 \<Rightarrow> 's \<Rightarrow> 's"
    and bal :: "'s \<Rightarrow> 'k \<Rightarrow> u64"
    and total :: "'s \<Rightarrow> u64"
    and has :: "'s \<Rightarrow> 'k \<Rightarrow> bool"
  assumes bal_set: "has s k \<Longrightarrow> bal (set_bal k v s) j = (if j = k then v else bal s j)"
    and total_set: "has s k \<Longrightarrow> total (set_bal k v s) = total s - bal s k + v"
    and has_set: "has s k \<Longrightarrow> has (set_bal k v s) j \<longleftrightarrow> has s j"
begin

definition move :: "'k \<Rightarrow> 'k \<Rightarrow> u64 \<Rightarrow> 's \<Rightarrow> 's" where
  "move a b x s = (let s' = set_bal a (bal s a - x) s in set_bal b (bal s' b + x) s')"

lemma move_total: "has s a \<Longrightarrow> has s b \<Longrightarrow> total (move a b x s) = total s"
  by (simp add: move_def Let_def total_set bal_set has_set)

lemma move_bal:
  assumes "has s a" "has s b"
  shows "bal (move a b x s) j =
    (if a = b then bal s j
     else if j = a then bal s a - x else if j = b then bal s b + x else bal s j)"
  using assms by (auto simp: move_def Let_def bal_set has_set)

lemma move_has: "has s a \<Longrightarrow> has s b \<Longrightarrow> has (move a b x s) j \<longleftrightarrow> has s j"
  by (simp add: move_def Let_def has_set)

end

interpretation amounts: ledger map_put "map_get 0" "map_total (\<lambda>x. x)" "\<lambda>_ _. True"
  by unfold_locales (auto simp: map_total_put map_get_def split: option.split)

end
