(* ===== verification/Evm_Storage.thy ===== *)
theory Evm_Storage
  imports Std_Map
begin

text \<open>
  Contract addresses and the persistent storage of the EVM (\<open>include/evm/Address.hpp\<close>,
  \<open>src/evm/Address.cpp\<close>, \<open>src/evm/Storage.cpp\<close>). \<open>storage_\<close> is a \<open>std::map\<close> ordered by
  \<open>Address::operator<\<close>; that the operator is a linear order, so that the map distinguishes exactly the
  addresses that differ, is the instance of \<open>linorder\<close> below.
\<close>

datatype Address = Address (addr_bytes: bytes)

text \<open>\<open>std::lexicographical_compare\<close>\<close>

fun lexicographical_compare :: "bytes \<Rightarrow> bytes \<Rightarrow> bool" where
  "lexicographical_compare [] [] = False"
| "lexicographical_compare [] (y # ys) = True"
| "lexicographical_compare (x # xs) [] = False"
| "lexicographical_compare (x # xs) (y # ys) =
     (if x < y then True else if y < x then False else lexicographical_compare xs ys)"

definition Address_less :: "Address \<Rightarrow> Address \<Rightarrow> bool" where
  "Address_less a b = lexicographical_compare (addr_bytes a) (addr_bytes b)"

definition Address_hash :: "Address \<Rightarrow> u64" where
  "Address_hash a = foldl (\<lambda>h b. h * 31 + ucast b) 0 (addr_bytes a)"

type_synonym storage = "(Address, (u256, u256) smap) smap"

definition Storage_store :: "Address \<Rightarrow> u256 \<Rightarrow> u256 \<Rightarrow> storage \<Rightarrow> storage" where
  "Storage_store address key value st =
     (let (inner, st') = map_index [] address st in map_put address (map_put key value inner) st')"

definition Storage_load :: "Address \<Rightarrow> u256 \<Rightarrow> storage \<Rightarrow> u256" where
  "Storage_load address key st =
     (case map_find st address of
        None \<Rightarrow> 0
      | Some inner \<Rightarrow> (case map_find inner key of None \<Rightarrow> 0 | Some v \<Rightarrow> v))"

definition Storage_clear_address :: "Address \<Rightarrow> storage \<Rightarrow> storage" where
  "Storage_clear_address address st = map_erase address st"

definition Storage_contains :: "Address \<Rightarrow> u256 \<Rightarrow> storage \<Rightarrow> bool" where
  "Storage_contains address key st =
     (case map_find st address of
        None \<Rightarrow> False
      | Some inner \<Rightarrow> (case map_find inner key of None \<Rightarrow> False | Some _ \<Rightarrow> True))"

definition Storage_size :: "Address \<Rightarrow> storage \<Rightarrow> nat" where
  "Storage_size address st = (case map_find st address of None \<Rightarrow> 0 | Some inner \<Rightarrow> length inner)"

definition Storage_clear :: "storage \<Rightarrow> storage" where
  "Storage_clear st = []"

section \<open>The order on addresses\<close>

lemma lexicographical_compare_irrefl: "\<not> lexicographical_compare xs xs"
  by (induction xs) auto

lemma lexicographical_compare_asym:
  "lexicographical_compare xs ys \<Longrightarrow> \<not> lexicographical_compare ys xs"
  by (induction xs ys rule: lexicographical_compare.induct) (auto split: if_splits)

lemma lexicographical_compare_trans:
  "lexicographical_compare xs ys \<Longrightarrow> lexicographical_compare ys zs \<Longrightarrow> lexicographical_compare xs zs"
proof (induction xs ys arbitrary: zs rule: lexicographical_compare.induct)
  case (2 y ys)
  then show ?case by (cases zs) auto
next
  case (4 x xs y ys)
  then show ?case
    by (cases zs) (auto split: if_splits)
qed auto

lemma lexicographical_compare_total:
  "lexicographical_compare xs ys \<or> xs = ys \<or> lexicographical_compare ys xs"
  by (induction xs ys rule: lexicographical_compare.induct) auto

instantiation Address :: linorder
begin

definition less_Address :: "Address \<Rightarrow> Address \<Rightarrow> bool" where
  "less_Address = Address_less"

definition less_eq_Address :: "Address \<Rightarrow> Address \<Rightarrow> bool" where
  "less_eq_Address a b \<longleftrightarrow> \<not> Address_less b a"

instance
proof
  fix a b c :: Address
  show "(a < b) = (a \<le> b \<and> \<not> b \<le> a)"
    by (auto simp: less_Address_def less_eq_Address_def Address_less_def
        dest: lexicographical_compare_asym)
  show "a \<le> a"
    by (simp add: less_eq_Address_def Address_less_def lexicographical_compare_irrefl)
  show "a \<le> b \<or> b \<le> a"
    by (auto simp: less_eq_Address_def Address_less_def dest: lexicographical_compare_asym)
  show "a \<le> b \<Longrightarrow> b \<le> a \<Longrightarrow> a = b"
    using lexicographical_compare_total [of "addr_bytes a" "addr_bytes b"]
    by (auto simp: less_eq_Address_def Address_less_def Address.expand)
  show "a \<le> b \<Longrightarrow> b \<le> c \<Longrightarrow> a \<le> c"
    using lexicographical_compare_total [of "addr_bytes a" "addr_bytes b"]
      lexicographical_compare_trans [of "addr_bytes c" "addr_bytes a" "addr_bytes b"]
    by (auto simp: less_eq_Address_def Address_less_def)
qed

end

section \<open>The storage as a key-value store\<close>

lemma Storage_load_store:
  "Storage_load a k (Storage_store a' k' v st) = (if a = a' \<and> k = k' then v else Storage_load a k st)"
  by (auto simp: Storage_load_def Storage_store_def map_index_def Let_def
      split: option.splits prod.splits)

interpretation evm_storage: kv_store "\<lambda>(a, k). Storage_store a k" "\<lambda>st (a, k). Storage_load a k st" "\<lambda>_. True"
  by unfold_locales (auto simp: Storage_load_store split: if_splits)

lemma Storage_contains_store:
  "Storage_contains a k (Storage_store a' k' v st) \<longleftrightarrow> a = a' \<and> k = k' \<or> Storage_contains a k st"
  by (auto simp: Storage_contains_def Storage_store_def map_index_def Let_def
      split: option.splits prod.splits)

lemma Storage_contains_load: "\<not> Storage_contains a k st \<Longrightarrow> Storage_load a k st = 0"
  by (auto simp: Storage_contains_def Storage_load_def split: option.splits)

lemma Storage_clear_address_load:
  "Storage_load a k (Storage_clear_address a' st) = (if a = a' then 0 else Storage_load a k st)"
  by (auto simp: Storage_load_def Storage_clear_address_def)

lemma Storage_size_store:
  "Storage_size a (Storage_store a' k v st) =
     (if a = a' \<and> \<not> Storage_contains a k st then Suc (Storage_size a st) else Storage_size a st)"
  by (auto simp: Storage_size_def Storage_contains_def Storage_store_def map_index_def Let_def
      length_map_put map_count_find split: option.splits prod.splits)

text \<open>
  Any sequence of stores: a slot holds the last value stored to it, and a slot
  that is not written, also one of another contract, holds what it held before.
\<close>

theorem Storage_last_write:
  "Storage_load a k (foldl (\<lambda>st (a, k, v). Storage_store a k v st) st ws)
     = (case map_of (rev (map (\<lambda>(a, k, v). ((a, k), v)) ws)) (a, k) of
          Some v \<Rightarrow> v | None \<Rightarrow> Storage_load a k st)"
proof -
  have fold: "foldl (\<lambda>st (a, k, v). Storage_store a k v st) st ws
      = evm_storage.puts (map (\<lambda>(a, k, v). ((a, k), v)) ws) st" for st
    by (induction ws arbitrary: st) auto
  show ?thesis
    using evm_storage.get_puts [where s = st and k = "(a, k)"
        and ws = "map (\<lambda>(a, k, v). ((a, k), v)) ws"]
    by (simp add: fold split: option.splits)
qed

end
