(* ===== verification/Transaction.thy ===== *)
theory Transaction
  imports Prelude
begin

text \<open>
  Transactions: \<open>blockchain::Transaction\<close> (\<open>include/blockchain/Transaction.hpp\<close>,
  \<open>src/blockchain/Transaction.cpp\<close>) and the class \<open>rollup::Transaction\<close> derived from it
  (\<open>include/rollup/Transaction.hpp\<close>), which adds private fields that shadow those of the base and
  overrides none of its (non-virtual) member functions. The derived class is a record extension.
  BLAKE3 and the OpenSSL calls of \<open>sign\<close> are parameters.
\<close>

record Transaction =
  tx_from :: string
  tx_to :: string
  tx_value :: u64
  tx_gas_price :: u64
  tx_gas_limit :: u64
  tx_data :: bytes
  tx_signature :: bytes
  tx_nonce :: u64
  tx_timestamp :: int
  tx_hash :: bytes

text \<open>The default member initialisers; \<open>now\<close> is the clock and \<open>h\<close> the uninitialised \<open>hash\<close> array.\<close>

definition Transaction_default :: "int \<Rightarrow> bytes \<Rightarrow> Transaction" where
  "Transaction_default now h =
     \<lparr>tx_from = [], tx_to = [], tx_value = 0, tx_gas_price = 0, tx_gas_limit = 21000, tx_data = [],
      tx_signature = [], tx_nonce = 0, tx_timestamp = now, tx_hash = h\<rparr>"

definition Transaction_verify :: "'a Transaction_scheme \<Rightarrow> bool" where
  "Transaction_verify tx \<longleftrightarrow> \<not> (tx_from tx = [] \<or> tx_to tx = [])"

definition Transaction_preimage :: "'a Transaction_scheme \<Rightarrow> bytes" where
  "Transaction_preimage tx =
     bytes_of_string (tx_from tx) @ bytes_of_string (tx_to tx)
     @ u64_bytes (tx_value tx) @ u64_bytes (tx_nonce tx)"

definition Transaction_compute_hash :: "(bytes \<Rightarrow> bytes) \<Rightarrow> 'a Transaction_scheme \<Rightarrow> bytes" where
  "Transaction_compute_hash blake3 tx = blake3 (Transaction_preimage tx)"

text \<open>
  What the OpenSSL calls of \<open>sign\<close> answer: whether a key object, a context and the initialisation
  are obtained, and the signature of a message, if the signing call succeeds.
\<close>

record openssl =
  EVP_PKEY_new_raw_private_key :: "bytes \<Rightarrow> bool"
  EVP_MD_CTX_new :: bool
  EVP_DigestSignInit :: "bytes \<Rightarrow> bool"
  EVP_DigestSign :: "bytes \<Rightarrow> bytes \<Rightarrow> bytes option"

definition resize_bytes :: "nat \<Rightarrow> bytes \<Rightarrow> bytes" where
  "resize_bytes n xs = take n xs @ replicate (n - length xs) 0"

definition Transaction_sign ::
    "openssl \<Rightarrow> (bytes \<Rightarrow> bytes) \<Rightarrow> bytes \<Rightarrow> 'a Transaction_scheme \<Rightarrow> bool \<times> 'a Transaction_scheme" where
  "Transaction_sign ssl blake3 private_key tx =
     (if \<not> EVP_PKEY_new_raw_private_key ssl private_key then (False, tx)
      else if \<not> EVP_MD_CTX_new ssl then (False, tx)
      else if \<not> EVP_DigestSignInit ssl private_key then (False, tx)
      else case EVP_DigestSign ssl private_key (Transaction_compute_hash blake3 tx) of
             None \<Rightarrow> (False, tx\<lparr>tx_signature := resize_bytes 64 (tx_signature tx)\<rparr>)
           | Some s \<Rightarrow> (True, tx\<lparr>tx_signature := s\<rparr>))"

definition Transaction_to_string :: "'a Transaction_scheme \<Rightarrow> string" where
  "Transaction_to_string tx =
     ''Transaction{'' @ ''from: '' @ tx_from tx @ '', to: '' @ tx_to tx
     @ '', value: '' @ to_string (unat (tx_value tx))
     @ '', nonce: '' @ to_string (unat (tx_nonce tx)) @ ''}''"

definition Transaction_serialize :: "'a Transaction_scheme \<Rightarrow> bytes" where
  "Transaction_serialize tx = []"

text \<open>\<open>std::string(const char*)\<close> on the bytes of a vector: the characters before the next NUL.\<close>

definition c_string_at :: "bytes \<Rightarrow> nat \<Rightarrow> string res" where
  "c_string_at data offset =
     (if 0 \<in> set (drop offset data)
      then Inr (string_of_bytes (takeWhile (\<lambda>b. b \<noteq> 0) (drop offset data)))
      else Inl (Undefined ''no terminator in the vector''))"

definition memcpy_u64 :: "bytes \<Rightarrow> nat \<Rightarrow> u64 res" where
  "memcpy_u64 data offset =
     (if offset + 8 \<le> length data then Inr (bytes_u64 (take 8 (drop offset data)))
      else Inl (Undefined ''memcpy past the vector''))"

definition Transaction_deserialize :: "int \<Rightarrow> bytes \<Rightarrow> bytes \<Rightarrow> Transaction option res" where
  "Transaction_deserialize now h data =
     (if length data < 16 then Inr None
      else let tx = Transaction_default now h in
       case c_string_at data 0 of Inl e \<Rightarrow> Inl e | Inr sender \<Rightarrow>
        (let tx = tx\<lparr>tx_from := sender\<rparr>; offset = length sender + 1 in
         case c_string_at data offset of Inl e \<Rightarrow> Inl e | Inr recipient \<Rightarrow>
          (let tx = tx\<lparr>tx_to := recipient\<rparr>; offset = offset + (length recipient + 1) in
           case memcpy_u64 data offset of Inl e \<Rightarrow> Inl e | Inr amount \<Rightarrow>
            (let tx = tx\<lparr>tx_value := amount\<rparr>; offset = offset + 8 in
             case memcpy_u64 data offset of Inl e \<Rightarrow> Inl e | Inr nonce \<Rightarrow>
               Inr (Some (tx\<lparr>tx_nonce := nonce\<rparr>))))))"

definition Transaction_is_valid :: "'a Transaction_scheme \<Rightarrow> bool" where
  "Transaction_is_valid tx \<longleftrightarrow>
     (if tx_from tx = [] \<or> tx_to tx = [] then False else if tx_value tx = 0 then False else True)"

definition Transaction_calculate_gas_cost :: "'a Transaction_scheme \<Rightarrow> u64" where
  "Transaction_calculate_gas_cost tx = tx_gas_limit tx + of_nat (length (tx_data tx)) * 16"

definition Transaction_calculate_total_cost :: "'a Transaction_scheme \<Rightarrow> u64" where
  "Transaction_calculate_total_cost tx =
     Transaction_calculate_gas_cost tx * tx_gas_price tx + tx_value tx"

definition Transaction_less :: "'a Transaction_scheme \<Rightarrow> 'a Transaction_scheme \<Rightarrow> bool" where
  "Transaction_less tx other \<longleftrightarrow> tx_value tx > tx_value other"

definition Transaction_eq :: "'a Transaction_scheme \<Rightarrow> 'a Transaction_scheme \<Rightarrow> bool" where
  "Transaction_eq tx other \<longleftrightarrow>
     tx_from tx = tx_from other \<and> tx_to tx = tx_to other \<and> tx_value tx = tx_value other
     \<and> tx_nonce tx = tx_nonce other \<and> tx_gas_limit tx = tx_gas_limit other
     \<and> tx_gas_price tx = tx_gas_price other \<and> tx_signature tx = tx_signature other"

section \<open>The derived class\<close>

record RTransaction = Transaction +
  rtx_nonce :: u64
  rtx_amount :: u64
  rtx_sender :: string
  rtx_recipient :: string
  rtx_signature :: bytes

text \<open>An object of the derived class from its base part and its own five fields.\<close>

definition RTransaction_of :: "'a Transaction_scheme \<Rightarrow> u64 \<Rightarrow> u64 \<Rightarrow> string \<Rightarrow> string \<Rightarrow> bytes \<Rightarrow> RTransaction" where
  "RTransaction_of b nonce amount sender recipient sig =
     \<lparr>tx_from = tx_from b, tx_to = tx_to b, tx_value = tx_value b, tx_gas_price = tx_gas_price b,
      tx_gas_limit = tx_gas_limit b, tx_data = tx_data b, tx_signature = tx_signature b,
      tx_nonce = tx_nonce b, tx_timestamp = tx_timestamp b, tx_hash = tx_hash b,
      rtx_nonce = nonce, rtx_amount = amount, rtx_sender = sender, rtx_recipient = recipient,
      rtx_signature = sig\<rparr>"

definition RTransaction_default :: "int \<Rightarrow> bytes \<Rightarrow> RTransaction" where
  "RTransaction_default now h = RTransaction_of (Transaction_default now h) 0 0 [] [] []"

text \<open>The user-defined copy constructor: the base is copied, then three of the five own fields.\<close>

definition RTransaction_copy :: "RTransaction \<Rightarrow> RTransaction" where
  "RTransaction_copy other =
     RTransaction_of other 0 (rtx_amount other) (rtx_sender other) (rtx_recipient other) []"

definition RTransaction_assign :: "RTransaction \<Rightarrow> RTransaction \<Rightarrow> RTransaction" where
  "RTransaction_assign this other =
     RTransaction_of other (rtx_nonce this) (rtx_amount other) (rtx_sender other)
       (rtx_recipient other) (rtx_signature this)"

definition RTransaction_create :: "int \<Rightarrow> bytes \<Rightarrow> string \<Rightarrow> string \<Rightarrow> u64 \<Rightarrow> RTransaction" where
  "RTransaction_create now h sender recipient amount =
     (RTransaction_default now h)
       \<lparr>rtx_sender := sender, rtx_recipient := recipient, rtx_amount := amount\<rparr>"

definition RTransaction_sign :: "bytes \<Rightarrow> RTransaction \<Rightarrow> bool \<times> RTransaction" where
  "RTransaction_sign private_key tx = (True, tx\<lparr>rtx_signature := replicate 64 1\<rparr>)"

definition RTransaction_isValid :: "RTransaction \<Rightarrow> bool" where
  "RTransaction_isValid tx \<longleftrightarrow>
     rtx_nonce tx \<ge> 0 \<and> rtx_amount tx > 0 \<and> rtx_sender tx \<noteq> [] \<and> rtx_recipient tx \<noteq> []
     \<and> length (rtx_signature tx) \<ge> 64"

section \<open>Lemmas\<close>

lemma c_string_at_image:
  assumes "0 \<notin> set (bytes_of_string s)" and "drop off data = bytes_of_string s @ 0 # rest"
  shows "c_string_at data off = Inr s" and "drop (off + (length s + 1)) data = rest"
proof -
  have "takeWhile (\<lambda>b. b \<noteq> 0) (bytes_of_string s @ 0 # rest) = bytes_of_string s"
    using assms(1) by (subst takeWhile_append2) auto
  then show "c_string_at data off = Inr s"
    using assms(2) by (simp add: c_string_at_def)
  have "drop (off + (length s + 1)) data = drop (length s + 1) (drop off data)"
    by (simp add: add.commute)
  then show "drop (off + (length s + 1)) data = rest"
    by (simp add: assms(2))
qed

lemma memcpy_u64_image:
  assumes "drop off data = u64_bytes w @ rest" and "off \<le> length data"
  shows "memcpy_u64 data off = Inr w" and "drop (off + 8) data = rest" and "off + 8 \<le> length data"
proof -
  have "length data - off = 8 + length rest"
    using arg_cong [OF assms(1), of length] by simp
  then show le: "off + 8 \<le> length data"
    using assms(2) by simp
  then show "memcpy_u64 data off = Inr w"
    by (simp add: memcpy_u64_def assms(1))
  have "drop (off + 8) data = drop 8 (drop off data)"
    by (simp add: add.commute)
  then show "drop (off + 8) data = rest"
    by (simp add: assms(1))
qed

lemma nul_free_bytes:
  "0 \<notin> set (bytes_of_string s) \<longleftrightarrow> CHR 0x00 \<notin> set s"
proof -
  have "(of_char c :: u8) = 0 \<longleftrightarrow> c = CHR 0x00" for c
  proof
    assume "(of_char c :: u8) = 0"
    then have "of_char c = (0 :: nat)"
      using unat_of_char [of c] by simp
    then have "c = char_of (0 :: nat)"
      by (metis char_of_char)
    then show "c = CHR 0x00"
      by (simp add: char_of_def)
  qed simp
  then show ?thesis
    by (auto simp: bytes_of_string_def image_iff)
qed

lemma Transaction_preimage_split:
  "Transaction_preimage x = bytes_of_string (tx_from x @ tx_to x) @ u64_bytes (tx_value x)
    @ u64_bytes (tx_nonce x)"
  by (simp add: Transaction_preimage_def bytes_of_string_append)

section \<open>Properties\<close>

text \<open>
  \<open>deserialize\<close> decodes the wire image it is written for (two NUL-terminated strings, then amount and
  nonce in little-endian), whatever follows it; but \<open>serialize\<close> is a stub whose output it rejects, so
  no transaction survives its own round trip.
\<close>

theorem Transaction_wire_format:
  assumes "CHR 0x00 \<notin> set s" and "CHR 0x00 \<notin> set r"
  shows "Transaction_deserialize now h
      (bytes_of_string s @ 0 # bytes_of_string r @ 0 # u64_bytes v @ u64_bytes n @ rest)
    = Inr (Some ((Transaction_default now h)\<lparr>tx_from := s, tx_to := r, tx_value := v, tx_nonce := n\<rparr>))
    \<and> Transaction_deserialize now h (Transaction_serialize tx) = Inr None"
proof (rule conjI)
  show "Transaction_deserialize now h (Transaction_serialize tx) = Inr None"
    by (simp add: Transaction_deserialize_def Transaction_serialize_def)
next
  define data where "data =
    bytes_of_string s @ 0 # bytes_of_string r @ 0 # u64_bytes v @ u64_bytes n @ rest"
  have s0: "drop 0 data = bytes_of_string s @ 0 # (bytes_of_string r @ 0 # u64_bytes v @ u64_bytes n @ rest)"
    by (simp add: data_def)
  note s1 = c_string_at_image [OF nul_free_bytes [THEN iffD2, OF assms(1)] s0]
  note r1 = c_string_at_image [OF nul_free_bytes [THEN iffD2, OF assms(2)] s1(2)]
  have len: "length data = length s + length r + 18 + length rest"
    by (simp add: data_def)
  have "0 + (length s + 1) + (length r + 1) \<le> length data"
    by (simp add: len)
  note v1 = memcpy_u64_image [OF r1(2) this]
  note n1 = memcpy_u64_image [OF v1(2) v1(3)]
  show "Transaction_deserialize now h
      (bytes_of_string s @ 0 # bytes_of_string r @ 0 # u64_bytes v @ u64_bytes n @ rest)
    = Inr (Some ((Transaction_default now h)\<lparr>tx_from := s, tx_to := r, tx_value := v, tx_nonce := n\<rparr>))"
    using s1(1) r1(1) v1(1) n1(1) len
    by (simp add: Transaction_deserialize_def Let_def flip: data_def)
qed

theorem Transaction_wire_format_witness:
  "Transaction_deserialize 0 [] (bytes_of_string ''ab'' @ 0 # bytes_of_string ''c'' @ 0 # u64_bytes 7 @ u64_bytes 9 @ [])
    = Inr (Some ((Transaction_default 0 [])\<lparr>tx_from := ''ab'', tx_to := ''c'', tx_value := 7, tx_nonce := 9\<rparr>))"
  by (rule Transaction_wire_format [THEN conjunct1]) auto

text \<open>
  The hash of a transaction commits to the concatenation of sender and recipient, the amount and
  the nonce, and to nothing else: two transactions have the same preimage exactly when these agree,
  so moving characters from the sender to the recipient keeps the hash.
\<close>

theorem Transaction_preimage_iff:
  "Transaction_preimage t = Transaction_preimage t' \<longleftrightarrow>
     tx_from t @ tx_to t = tx_from t' @ tx_to t' \<and> tx_value t = tx_value t' \<and> tx_nonce t = tx_nonce t'"
  by (auto simp: Transaction_preimage_split)

text \<open>
  Copying a rollup transaction drops its nonce and its signature, so a copy never passes
  \<open>isValid\<close>; and the transactions made by \<open>create\<close> all have the same hash, because \<open>compute_hash\<close> reads
  the fields of the base class, which \<open>create\<close> leaves empty.
\<close>

theorem RTransaction_copy_invalid:
  "\<not> RTransaction_isValid (RTransaction_copy t)
   \<and> rtx_nonce (RTransaction_copy t) = 0
   \<and> rtx_amount (RTransaction_copy t) = rtx_amount t
   \<and> Transaction_compute_hash b3 (RTransaction_create now h s r a)
     = Transaction_compute_hash b3 (RTransaction_create now' h' s' r' a')"
  by (simp add: RTransaction_isValid_def RTransaction_copy_def RTransaction_create_def
      RTransaction_default_def Transaction_default_def Transaction_compute_hash_def
      Transaction_preimage_def RTransaction_of_def)

end
