(* ===== verification/Evm_Executor.thy ===== *)
theory Evm_Executor
  imports Evm_Stack Evm_Memory Evm_Storage Transaction
begin

text \<open>
  The contract executor (\<open>include/evm/EVMExecutor.hpp\<close>, \<open>src/evm/EVMExecutor.cpp\<close>): opcodes and gas
  constants, \<open>require_gas\<close>, the interpreter loop of \<open>execute_contract\<close>, the value transfer of
  \<open>execute\<close>, \<open>deploy\<close> and the state accessors. The executor's state is one record; the three shared
  pointers to memory, stack and storage are fields of it, since nothing else holds them. The interpreter
  loop is a function on the program counter whose distance to the end of the code decreases.
\<close>

section \<open>Opcodes and gas costs\<close>

text \<open>The enumeration \<open>Opcodes\<close> of the code, as far as the switch names them.\<close>

abbreviation (input) STOP :: u8 where "STOP \<equiv> 0x00"
abbreviation (input) SLOAD :: u8 where "SLOAD \<equiv> 0x54"
abbreviation (input) SSTORE :: u8 where "SSTORE \<equiv> 0x55"
abbreviation (input) PUSH0 :: u8 where "PUSH0 \<equiv> 0x5f"
abbreviation (input) PUSH1 :: u8 where "PUSH1 \<equiv> 0x60"
abbreviation (input) PUSH32 :: u8 where "PUSH32 \<equiv> 0x7f"
abbreviation (input) INVALID :: u8 where "INVALID \<equiv> 0xfe"
abbreviation (input) SELFDESTRUCT :: u8 where "SELFDESTRUCT \<equiv> 0xff"

text \<open>
  The cases of the switch whose body is a gas charge only, with the charge: \<open>VERYLOW\<close> 3 (ADD SUB OR XOR
  NOT BYTE; CALLDATALOAD MLOAD MSTORE MSTORE8), \<open>LOW\<close> 5 (MUL DIV SDIV MOD SMOD), \<open>MID\<close> 8 (ADDMOD MULMOD;
  JUMP), \<open>SHA3_GAS\<close> 30, \<open>BASE\<close> 2 (ADDRESS ORIGIN CALLER CALLVALUE CALLDATASIZE CODESIZE GASPRICE COINBASE
  TIMESTAMP NUMBER GASLIMIT CHAINID BASEFEE), \<open>WARM_STORAGE_READ_COST\<close> 100 (BALANCE EXTCODESIZE
  EXTCODEHASH; CALL CALLCODE), \<open>HIGH\<close> 10 (JUMPI), 1 (JUMPDEST), \<open>CREATE_GAS\<close> 32000, \<open>ZERO\<close> 0 (RETURN
  REVERT), \<open>SELFDESTRUCT_GAS\<close> 5000.
\<close>

definition charge_only :: "u8 \<Rightarrow> u64 option" where
  "charge_only opcode =
     (if opcode \<in> {0x01, 0x03, 0x17, 0x18, 0x19, 0x1a} then Some 3
      else if opcode \<in> {0x02, 0x04, 0x05, 0x06, 0x07} then Some 5
      else if opcode \<in> {0x08, 0x09} then Some 8
      else if opcode = 0x20 then Some 30
      else if opcode \<in> {0x30, 0x32, 0x33, 0x34, 0x36, 0x38, 0x3a, 0x41, 0x42, 0x43, 0x45, 0x46, 0x48} then Some 2
      else if opcode \<in> {0x31, 0x3b, 0x3f} then Some 100
      else if opcode \<in> {0x35, 0x51, 0x52, 0x53} then Some 3
      else if opcode = 0x56 then Some 8
      else if opcode = 0x57 then Some 10
      else if opcode = 0x5b then Some 1
      else if opcode = 0xf0 then Some 32000
      else if opcode \<in> {0xf1, 0xf2} then Some 100
      else if opcode \<in> {0xf3, 0xfd} then Some 0
      else if opcode = 0xff then Some 5000
      else None)"

section \<open>State\<close>

record EVMImpl =
  balances :: "(string, u64) smap"
  code_of :: "(string, bytes) smap"
  acct_storage :: "(string, (u256, bytes) smap) smap"

record EVMExecutor =
  ex_memory :: memory
  ex_stack :: stack
  ex_storage :: storage
  gas_used :: u64
  ex_gas_limit :: u64
  ex_impl :: EVMImpl

definition EVMExecutor_new :: EVMExecutor where
  "EVMExecutor_new =
     \<lparr>ex_memory = [], ex_stack = [], ex_storage = [], gas_used = 0, ex_gas_limit = 0,
      ex_impl = \<lparr>balances = [], code_of = [], acct_storage = []\<rparr>\<rparr>"

record ExecutionResult =
  success :: bool
  return_data :: bytes
  result_gas :: u64
  error_message :: string

section \<open>The interpreter\<close>

definition require_gas :: "u64 \<Rightarrow> EVMExecutor \<Rightarrow> EVMExecutor res" where
  "require_gas gas ex =
     (if gas_used ex + gas > ex_gas_limit ex then Inl (Runtime_error ''Out of gas'')
      else Inr (ex\<lparr>gas_used := gas_used ex + gas\<rparr>))"

text \<open>The value of a PUSH: \<open>value = (value << 8) | code[pc + 1 + i]\<close> over the operand bytes.\<close>

definition push_value :: "bytes \<Rightarrow> u256" where
  "push_value bs = foldl (\<lambda>value b. (push_bit 8 value) OR ucast b) 0 bs"

text \<open>
  One iteration of the loop body. \<open>Halt\<close> is the \<open>return\<close> of STOP, \<open>Next\<close> continues at the given \<open>pc\<close>,
  \<open>Throw\<close> leaves the loop with an exception; each carries the executor as it is at that moment, since
  gas and pops before an exception are not undone.
\<close>

datatype flow = Halt EVMExecutor | Next nat EVMExecutor | Throw string EVMExecutor

definition with_gas :: "u64 \<Rightarrow> EVMExecutor \<Rightarrow> (EVMExecutor \<Rightarrow> flow) \<Rightarrow> flow" where
  "with_gas g ex k = (case require_gas g ex of Inl e \<Rightarrow> Throw (what e) ex | Inr ex' \<Rightarrow> k ex')"

definition do_pop :: "EVMExecutor \<Rightarrow> (u256 \<Rightarrow> EVMExecutor \<Rightarrow> flow) \<Rightarrow> flow" where
  "do_pop ex k = (case Stack_pop (ex_stack ex) of
     Inl e \<Rightarrow> Throw (what e) ex | Inr (v, st) \<Rightarrow> k v (ex\<lparr>ex_stack := st\<rparr>))"

definition do_push :: "u256 \<Rightarrow> EVMExecutor \<Rightarrow> (EVMExecutor \<Rightarrow> flow) \<Rightarrow> flow" where
  "do_push v ex k = (case Stack_push v (ex_stack ex) of
     Inl e \<Rightarrow> Throw (what e) ex | Inr st \<Rightarrow> k (ex\<lparr>ex_stack := st\<rparr>))"

definition exec_op :: "Address \<Rightarrow> bytes \<Rightarrow> nat \<Rightarrow> EVMExecutor \<Rightarrow> flow" where
  "exec_op contract_address code pc ex =
     (let opcode = code ! pc in
      if opcode = STOP then with_gas 0 ex Halt
      else case charge_only opcode of
        Some g \<Rightarrow> with_gas g ex (Next (pc + 1))
      | None \<Rightarrow>
          if opcode = SLOAD then
            with_gas 100 ex (\<lambda>ex. do_pop ex (\<lambda>key ex.
              do_push (Storage_load contract_address key (ex_storage ex)) ex (Next (pc + 1))))
          else if opcode = SSTORE then
            with_gas 20000 ex (\<lambda>ex. do_pop ex (\<lambda>value ex. do_pop ex (\<lambda>key ex.
              Next (pc + 1) (ex\<lparr>ex_storage := Storage_store contract_address key value (ex_storage ex)\<rparr>))))
          else if opcode = PUSH0 then
            with_gas 2 ex (\<lambda>ex. do_push 0 ex (Next (pc + 1)))
          else if PUSH1 \<le> opcode \<and> opcode \<le> PUSH32 then
            with_gas 3 ex (\<lambda>ex.
              let push_bytes = unat ((opcode - PUSH1) + 1) in
              if pc + push_bytes \<ge> length code then Throw ''Push exceeds code size'' ex
              else do_push (push_value (take push_bytes (drop (pc + 1) code))) ex
                     (Next (pc + push_bytes + 1)))
          else Throw ''Unknown or unimplemented opcode'' ex)"

lemma with_gas_NextD:
  "with_gas g ex k = Next pc' ex' \<Longrightarrow> \<exists>ex1. require_gas g ex = Inr ex1 \<and> k ex1 = Next pc' ex'"
  by (auto simp: with_gas_def split: sum.splits)

lemma do_pop_NextD:
  "do_pop ex k = Next pc' ex' \<Longrightarrow> \<exists>v st. Stack_pop (ex_stack ex) = Inr (v, st) \<and> k v (ex\<lparr>ex_stack := st\<rparr>) = Next pc' ex'"
  by (auto simp: do_pop_def split: sum.splits)

lemma do_push_NextD:
  "do_push v ex k = Next pc' ex' \<Longrightarrow> \<exists>st. Stack_push v (ex_stack ex) = Inr st \<and> k (ex\<lparr>ex_stack := st\<rparr>) = Next pc' ex'"
  by (auto simp: do_push_def split: sum.splits)

lemmas NextD = with_gas_NextD do_pop_NextD do_push_NextD

lemma exec_op_advances: "exec_op a code pc ex = Next pc' ex' \<Longrightarrow> pc < pc'"
  by (auto simp: exec_op_def Let_def dest!: NextD split: if_splits option.splits)

function exec_loop :: "Address \<Rightarrow> bytes \<Rightarrow> nat \<Rightarrow> EVMExecutor \<Rightarrow> ExecutionResult \<times> EVMExecutor" where
  "exec_loop a code pc ex =
     (if pc < length code then
        (case exec_op a code pc ex of
           Halt ex' \<Rightarrow> (\<lparr>success = True, return_data = [], result_gas = gas_used ex', error_message = []\<rparr>, ex')
         | Next pc' ex' \<Rightarrow> exec_loop a code pc' ex'
         | Throw m ex' \<Rightarrow> (\<lparr>success = False, return_data = [], result_gas = gas_used ex', error_message = m\<rparr>, ex'))
      else (\<lparr>success = True, return_data = [], result_gas = gas_used ex, error_message = []\<rparr>, ex))"
  by pat_completeness auto
termination
  by (relation "measure (\<lambda>(a, code, pc, ex). length code - pc)") (auto dest: exec_op_advances)

declare exec_loop.simps [simp del]

definition execute_contract ::
    "Address \<Rightarrow> bytes \<Rightarrow> bytes \<Rightarrow> u64 \<Rightarrow> EVMExecutor \<Rightarrow> ExecutionResult \<times> EVMExecutor" where
  "execute_contract contract_address code input_data gas_limit ex =
     exec_loop contract_address code 0 (ex\<lparr>gas_used := 0, ex_gas_limit := gas_limit\<rparr>)"

section \<open>Transactions and accessors\<close>

definition EVMExecutor_execute :: "'a Transaction_scheme \<Rightarrow> EVMExecutor \<Rightarrow> bool \<times> EVMExecutor" where
  "EVMExecutor_execute tx ex =
     (let im = ex_impl ex;
          (sender_balance, b) = map_index 0 (tx_from tx) (balances im)
      in if sender_balance < tx_value tx then (False, ex\<lparr>ex_impl := im\<lparr>balances := b\<rparr>\<rparr>)
         else let b = map_put (tx_from tx) (sender_balance - tx_value tx) b;
                  (to_balance, b) = map_index 0 (tx_to tx) b;
                  b = map_put (tx_to tx) (to_balance + tx_value tx) b;
                  c = (if tx_data tx \<noteq> [] then snd (map_index [] (tx_to tx) (code_of im)) else code_of im)
              in (True, ex\<lparr>ex_impl := im\<lparr>balances := b, code_of := c\<rparr>\<rparr>))"

definition EVMExecutor_deploy :: "bytes \<Rightarrow> bool" where
  "EVMExecutor_deploy code \<longleftrightarrow> code \<noteq> [] \<and> \<not> list_ex (\<lambda>b. b = INVALID \<or> b = SELFDESTRUCT) code"

definition getBalance :: "string \<Rightarrow> EVMExecutor \<Rightarrow> u64" where
  "getBalance address ex = (case map_find (balances (ex_impl ex)) address of Some b \<Rightarrow> b | None \<Rightarrow> 0)"

definition getCode :: "string \<Rightarrow> EVMExecutor \<Rightarrow> bytes" where
  "getCode address ex = (case map_find (code_of (ex_impl ex)) address of Some c \<Rightarrow> c | None \<Rightarrow> [])"

definition getStorage :: "string \<Rightarrow> u256 \<Rightarrow> EVMExecutor \<Rightarrow> bytes" where
  "getStorage address key ex =
     (case map_find (acct_storage (ex_impl ex)) address of
        None \<Rightarrow> []
      | Some inner \<Rightarrow> (case map_find inner key of Some v \<Rightarrow> v | None \<Rightarrow> []))"

section \<open>The abstract machine\<close>

text \<open>
  What execution promises, without program counters, words for gas or record plumbing: the code is
  decoded once into instructions, which run on the gas that is left (a natural number), the stack with
  its top first, and the slots of the one contract as a function.
\<close>

datatype instr = I_Stop | I_Charge nat | I_Sload | I_Sstore | I_Push nat u256 | I_BadPush | I_Bad

type_synonym machine = "nat \<times> u256 list \<times> (u256 \<Rightarrow> u256)"

definition decode_first :: "bytes \<Rightarrow> instr \<times> bytes" where
  "decode_first code =
     (let opcode = hd code; rest = tl code; n = unat (opcode - PUSH1 + 1) in
      if opcode = STOP then (I_Stop, rest)
      else case charge_only opcode of
        Some g \<Rightarrow> (I_Charge (unat g), rest)
      | None \<Rightarrow>
          if opcode = SLOAD then (I_Sload, rest)
          else if opcode = SSTORE then (I_Sstore, rest)
          else if opcode = PUSH0 then (I_Push 2 0, rest)
          else if PUSH1 \<le> opcode \<and> opcode \<le> PUSH32 then
            if length rest < n then (I_BadPush, []) else (I_Push 3 (push_value (take n rest)), drop n rest)
          else (I_Bad, rest))"

lemma decode_first_shorter: "code \<noteq> [] \<Longrightarrow> length (snd (decode_first code)) < length code"
  by (cases code) (auto simp: decode_first_def Let_def split: option.splits)

function decode :: "bytes \<Rightarrow> instr list" where
  "decode code = (if code = [] then []
     else let (i, rest) = decode_first code in i # decode rest)"
  by pat_completeness auto
termination
  by (relation "measure length") (use decode_first_shorter in \<open>auto simp: prod_eq_iff\<close>)

declare decode.simps [simp del]

text \<open>The first component is \<open>None\<close> to go on, \<open>Some None\<close> to stop, \<open>Some (Some m)\<close> for the error \<open>m\<close>.\<close>

fun spec_step :: "instr \<Rightarrow> machine \<Rightarrow> string option option \<times> machine" where
  "spec_step I_Stop (g, st, m) = (Some None, (g, st, m))"
| "spec_step (I_Charge c) (g, st, m) =
     (if g < c then (Some (Some ''Out of gas''), (g, st, m)) else (None, (g - c, st, m)))"
| "spec_step I_Sload (g, st, m) =
     (if g < 100 then (Some (Some ''Out of gas''), (g, st, m))
      else case st of
        [] \<Rightarrow> (Some (Some ''Stack underflow''), (g - 100, [], m))
      | k # st' \<Rightarrow> (None, (g - 100, m k # st', m)))"
| "spec_step I_Sstore (g, st, m) =
     (if g < 20000 then (Some (Some ''Out of gas''), (g, st, m))
      else case st of
        v # k # st' \<Rightarrow> (None, (g - 20000, st', m(k := v)))
      | _ \<Rightarrow> (Some (Some ''Stack underflow''), (g - 20000, [], m)))"
| "spec_step (I_Push c v) (g, st, m) =
     (if g < c then (Some (Some ''Out of gas''), (g, st, m))
      else if length st \<ge> stack_limit then (Some (Some ''Stack overflow''), (g - c, st, m))
      else (None, (g - c, v # st, m)))"
| "spec_step I_BadPush (g, st, m) =
     (if g < 3 then (Some (Some ''Out of gas''), (g, st, m))
      else (Some (Some ''Push exceeds code size''), (g - 3, st, m)))"
| "spec_step I_Bad (g, st, m) = (Some (Some ''Unknown or unimplemented opcode''), (g, st, m))"

fun spec_run :: "instr list \<Rightarrow> machine \<Rightarrow> string option \<times> machine" where
  "spec_run [] s = (None, s)"
| "spec_run (i # is) s = (case spec_step i s of (None, s') \<Rightarrow> spec_run is s' | (Some r, s') \<Rightarrow> (r, s'))"

definition machine_of :: "Address \<Rightarrow> EVMExecutor \<Rightarrow> machine" where
  "machine_of a ex =
     (unat (ex_gas_limit ex) - unat (gas_used ex), rev (ex_stack ex), \<lambda>k. Storage_load a k (ex_storage ex))"

definition outcome_of :: "ExecutionResult \<Rightarrow> string option" where
  "outcome_of r = (if success r then None else Some (error_message r))"

section \<open>Frame and gas\<close>

fun flow_ex :: "flow \<Rightarrow> EVMExecutor" where
  "flow_ex (Halt ex) = ex" | "flow_ex (Next pc ex) = ex" | "flow_ex (Throw m ex) = ex"

text \<open>What one opcode may change: gas within the limit, the stack within its limit, the own slots.\<close>

definition evm_frame :: "Address \<Rightarrow> EVMExecutor \<Rightarrow> EVMExecutor \<Rightarrow> bool" where
  "evm_frame a ex ex' \<longleftrightarrow>
     ex_memory ex' = ex_memory ex \<and> ex_impl ex' = ex_impl ex \<and> ex_gas_limit ex' = ex_gas_limit ex
     \<and> (gas_used ex \<le> ex_gas_limit ex \<longrightarrow> gas_used ex' \<le> ex_gas_limit ex)
     \<and> (length (ex_stack ex) \<le> stack_limit \<longrightarrow> length (ex_stack ex') \<le> stack_limit)
     \<and> (\<forall>b k. b \<noteq> a \<longrightarrow> Storage_load b k (ex_storage ex') = Storage_load b k (ex_storage ex))"

lemma evm_frame_refl [simp]: "evm_frame a ex ex"
  by (simp add: evm_frame_def)

lemma evm_frame_trans: "evm_frame a ex ex' \<Longrightarrow> evm_frame a ex' ex'' \<Longrightarrow> evm_frame a ex ex''"
  by (auto simp: evm_frame_def)

lemma with_gas_frame:
  "(\<And>ex'. evm_frame a ex' (flow_ex (k ex'))) \<Longrightarrow> evm_frame a ex (flow_ex (with_gas g ex k))"
proof -
  assume k: "\<And>ex'. evm_frame a ex' (flow_ex (k ex'))"
  have "evm_frame a ex ex'" if "require_gas g ex = Inr ex'" for ex'
    using that by (auto simp: require_gas_def evm_frame_def split: if_splits)
  then show ?thesis
    using k by (auto simp: with_gas_def split: sum.split intro: evm_frame_trans)
qed

lemma do_pop_frame:
  "(\<And>v ex'. evm_frame a ex' (flow_ex (k v ex'))) \<Longrightarrow> evm_frame a ex (flow_ex (do_pop ex k))"
proof -
  assume k: "\<And>v ex'. evm_frame a ex' (flow_ex (k v ex'))"
  have "evm_frame a ex (ex\<lparr>ex_stack := st\<rparr>)" if "Stack_pop (ex_stack ex) = Inr (v, st)" for v st
    using evm_stack.popD [OF that] by (auto simp: evm_frame_def)
  then show ?thesis
    using k by (auto simp: do_pop_def split: sum.split intro: evm_frame_trans)
qed

lemma do_push_frame:
  "(\<And>ex'. evm_frame a ex' (flow_ex (k ex'))) \<Longrightarrow> evm_frame a ex (flow_ex (do_push v ex k))"
proof -
  assume k: "\<And>ex'. evm_frame a ex' (flow_ex (k ex'))"
  have "evm_frame a ex (ex\<lparr>ex_stack := st\<rparr>)" if "Stack_push v (ex_stack ex) = Inr st" for st
    using evm_stack.pushD [OF that] by (auto simp: evm_frame_def)
  then show ?thesis
    using k by (auto simp: do_push_def split: sum.split intro: evm_frame_trans)
qed

lemma exec_op_frame: "evm_frame a ex (flow_ex (exec_op a code pc ex))"
  unfolding exec_op_def Let_def
  by (auto intro!: with_gas_frame do_pop_frame do_push_frame split: option.split)
    (auto simp: evm_frame_def Storage_load_store)

lemma exec_loop_frame:
  "evm_frame a ex (snd (exec_loop a code pc ex))
   \<and> result_gas (fst (exec_loop a code pc ex)) = gas_used (snd (exec_loop a code pc ex))"
proof (induction a code pc ex rule: exec_loop.induct)
  case (1 a code pc ex)
  show ?case
  proof (cases "pc < length code")
    case True
    then show ?thesis
      using "1.IH" [OF True] exec_op_frame [of a ex code pc]
      by (subst (1 2 3) exec_loop.simps) (auto split: flow.split intro: evm_frame_trans)
  qed (simp add: exec_loop.simps)
qed

text \<open>
  C2. Safety of contract execution. Whatever the code and the executor's state, the gas reported is the
  gas recorded and never exceeds the limit (also where the 64-bit sum in \<open>require_gas\<close> wraps); the
  memory, the account maps and the slots of every other contract are unchanged; and the stack stays
  within 1024 items if it was.
\<close>

theorem execute_contract_safe:
  "let (r, ex') = execute_contract a code inp limit ex in
     result_gas r = gas_used ex' \<and> gas_used ex' \<le> limit
     \<and> ex_memory ex' = ex_memory ex \<and> ex_impl ex' = ex_impl ex
     \<and> (\<forall>b k. b \<noteq> a \<longrightarrow> Storage_load b k (ex_storage ex') = Storage_load b k (ex_storage ex))
     \<and> (length (ex_stack ex) \<le> stack_limit \<longrightarrow> length (ex_stack ex') \<le> stack_limit)"
  using exec_loop_frame [of a "ex\<lparr>gas_used := 0, ex_gas_limit := limit\<rparr>" code 0]
  by (auto simp: execute_contract_def evm_frame_def Let_def split: prod.split)

theorem execute_contract_safe_witness:
  "length (ex_stack (snd (execute_contract (Address []) [0x5f, 0x5f, 0x55] [] 20010 EVMExecutor_new))) \<le> stack_limit"
  using execute_contract_safe [of "Address []" "[0x5f, 0x5f, 0x55]" "[]" 20010 EVMExecutor_new]
  by (simp add: Let_def EVMExecutor_new_def split: prod.splits)

section \<open>Refinement of the abstract machine\<close>

lemma charge_only_bound: "charge_only opcode = Some g \<Longrightarrow> unat g \<le> 32000"
  by (auto simp: charge_only_def split: if_splits)

text \<open>The executor states of a run that has charged less than \<open>2^64\<close> so far.\<close>

definition evm_ok :: "nat \<Rightarrow> EVMExecutor \<Rightarrow> bool" where
  "evm_ok c ex \<longleftrightarrow> unat (gas_used ex) \<le> c \<and> c + 32000 < 2 ^ 64
     \<and> gas_used ex \<le> ex_gas_limit ex \<and> length (ex_stack ex) \<le> stack_limit"

text \<open>One flow of the interpreter against one step of the abstract machine.\<close>

definition flow_sim :: "Address \<Rightarrow> bytes \<Rightarrow> nat \<Rightarrow> bytes \<Rightarrow> flow \<Rightarrow> string option option \<times> machine \<Rightarrow> bool" where
  "flow_sim a code c rest fl r \<longleftrightarrow>
     (case fl of
        Halt ex' \<Rightarrow> r = (Some None, machine_of a ex')
      | Throw m ex' \<Rightarrow> r = (Some (Some m), machine_of a ex')
      | Next pc' ex' \<Rightarrow> r = (None, machine_of a ex') \<and> drop pc' code = rest
          \<and> unat (gas_used ex') \<le> c + 32000 \<and> gas_used ex' \<le> ex_gas_limit ex'
          \<and> length (ex_stack ex') \<le> stack_limit)"

lemma require_gas_spec:
  assumes "evm_ok c ex" and "unat g \<le> 32000"
  shows "require_gas g ex = (if unat (ex_gas_limit ex) - unat (gas_used ex) < unat g
    then Inl (Runtime_error ''Out of gas'') else Inr (ex\<lparr>gas_used := gas_used ex + g\<rparr>))"
    and "unat (gas_used ex + g) = unat (gas_used ex) + unat g"
proof -
  have sum: "unat (gas_used ex) + unat g < 2 ^ 64"
    using assms by (simp add: evm_ok_def)
  then show u: "unat (gas_used ex + g) = unat (gas_used ex) + unat g"
    by (rule unat_add_u64)
  show "require_gas g ex = (if unat (ex_gas_limit ex) - unat (gas_used ex) < unat g
    then Inl (Runtime_error ''Out of gas'') else Inr (ex\<lparr>gas_used := gas_used ex + g\<rparr>))"
    using assms(1) by (auto simp: require_gas_def word_less_nat_alt word_le_nat_alt u evm_ok_def)
qed

lemma with_gas_sim:
  assumes ok: "evm_ok c ex" and g: "unat g \<le> 32000"
    and oog: "unat (ex_gas_limit ex) - unat (gas_used ex) < unat g \<Longrightarrow>
      r = (Some (Some ''Out of gas''), machine_of a ex)"
    and go: "\<And>ex'. ex' = ex\<lparr>gas_used := gas_used ex + g\<rparr> \<Longrightarrow>
      \<not> unat (ex_gas_limit ex) - unat (gas_used ex) < unat g \<Longrightarrow>
      unat (gas_used ex') = unat (gas_used ex) + unat g \<Longrightarrow> gas_used ex' \<le> ex_gas_limit ex' \<Longrightarrow>
      flow_sim a code c rest (k ex') r"
  shows "flow_sim a code c rest (with_gas g ex k) r"
proof (cases "unat (ex_gas_limit ex) - unat (gas_used ex) < unat g")
  case True
  then show ?thesis
    using oog by (simp add: with_gas_def require_gas_spec(1) [OF ok g] flow_sim_def)
next
  case False
  have "gas_used ex + g \<le> ex_gas_limit ex"
    using False ok require_gas_spec(2) [OF ok g] by (auto simp: word_le_nat_alt evm_ok_def)
  then show ?thesis
    using go [of "ex\<lparr>gas_used := gas_used ex + g\<rparr>"] False
    by (simp add: with_gas_def require_gas_spec [OF ok g])
qed

lemma stack_pop_cases:
  "(st = [] \<and> Stack_pop st = Inl (Runtime_error ''Stack underflow'')) \<or>
   (\<exists>v st'. st = st' @ [v] \<and> Stack_pop st = Inr (v, st'))"
  by (cases st rule: rev_cases) (auto simp: Stack_pop_def)

lemma sload_sim:
  assumes ok: "evm_ok c ex" and rest: "drop (pc + 1) code = rest"
  shows "flow_sim a code c rest
    (with_gas 100 ex (\<lambda>ex. do_pop ex (\<lambda>key ex. do_push (Storage_load a key (ex_storage ex)) ex (Next (pc + 1)))))
    (spec_step I_Sload (machine_of a ex))"
proof (rule with_gas_sim [OF ok], goal_cases)
  case (3 ex')
  then show ?case
    using stack_pop_cases [of "ex_stack ex"] ok rest
    by (auto simp: do_pop_def do_push_def machine_of_def flow_sim_def Stack_push_def evm_ok_def)
qed (simp_all add: machine_of_def)

lemma sstore_sim:
  assumes ok: "evm_ok c ex" and rest: "drop (pc + 1) code = rest"
  shows "flow_sim a code c rest
    (with_gas 20000 ex (\<lambda>ex. do_pop ex (\<lambda>value ex. do_pop ex (\<lambda>key ex.
        Next (pc + 1) (ex\<lparr>ex_storage := Storage_store a key value (ex_storage ex)\<rparr>)))))
    (spec_step I_Sstore (machine_of a ex))"
proof (rule with_gas_sim [OF ok], goal_cases)
  case (3 ex')
  show ?case
  proof (cases "ex_stack ex" rule: rev_cases)
    case Nil
    with 3 show ?thesis
      by (simp add: do_pop_def machine_of_def flow_sim_def Stack_pop_def)
  next
    case (snoc st v)
    with 3 show ?thesis
      using stack_pop_cases [of st] ok rest
      by (auto simp: do_pop_def machine_of_def flow_sim_def Stack_pop_def evm_ok_def
          Storage_load_store fun_eq_iff)
  qed
qed (simp_all add: machine_of_def)

lemma push_sim:
  assumes ok: "evm_ok c ex" and rest: "drop pc' code = rest" and g: "unat g \<le> 32000"
  shows "flow_sim a code c rest (with_gas g ex (\<lambda>ex. do_push v ex (Next pc')))
    (spec_step (I_Push (unat g) v) (machine_of a ex))"
proof (rule with_gas_sim [OF ok g], goal_cases)
  case (2 ex')
  then show ?case
    using ok rest g
    by (auto simp: do_push_def machine_of_def flow_sim_def Stack_push_def evm_ok_def)
qed (simp_all add: machine_of_def)

lemma charge_sim:
  assumes ok: "evm_ok c ex" and rest: "drop pc' code = rest" and g: "unat g \<le> 32000"
  shows "flow_sim a code c rest (with_gas g ex (Next pc')) (spec_step (I_Charge (unat g)) (machine_of a ex))"
proof (rule with_gas_sim [OF ok g], goal_cases)
  case (2 ex')
  then show ?case
    using ok rest g by (auto simp: machine_of_def flow_sim_def evm_ok_def)
qed (simp_all add: machine_of_def)

lemma bad_push_sim:
  assumes ok: "evm_ok c ex"
  shows "flow_sim a code c rest (with_gas 3 ex (Throw ''Push exceeds code size'')) (spec_step I_BadPush (machine_of a ex))"
proof (rule with_gas_sim [OF ok], goal_cases)
  case (3 ex')
  then show ?case
    by (auto simp: machine_of_def flow_sim_def)
qed (simp_all add: machine_of_def)

lemma stop_sim:
  assumes ok: "evm_ok c ex"
  shows "flow_sim a code c rest (with_gas 0 ex Halt) (spec_step I_Stop (machine_of a ex))"
proof (rule with_gas_sim [OF ok], goal_cases)
  case (3 ex')
  then show ?case
    by (auto simp: machine_of_def flow_sim_def)
qed (simp_all add: machine_of_def)

lemma exec_op_sim:
  assumes ok: "evm_ok c ex" and pc: "pc < length code"
  shows "flow_sim a code c (snd (decode_first (drop pc code))) (exec_op a code pc ex)
    (spec_step (fst (decode_first (drop pc code))) (machine_of a ex))"
proof -
  define opcode where "opcode = code ! pc"
  define n where "n = unat (opcode - PUSH1 + 1)"
  have d: "drop pc code = opcode # drop (pc + 1) code"
    using pc by (simp add: opcode_def Cons_nth_drop_Suc)
  have len: "(length (drop (pc + 1) code) < n) = (length code \<le> pc + n)"
    using pc by auto
  have nxt: "drop (pc + n + 1) code = drop n (drop (pc + 1) code)"
    by (simp add: algebra_simps)
  have bad: "flow_sim a code c rest (Throw ''Unknown or unimplemented opcode'' ex)
      (spec_step I_Bad (machine_of a ex))" for rest
    by (simp add: machine_of_def flow_sim_def)
  have push_two: "flow_sim a code c (drop (pc + 1) code) (with_gas 2 ex (\<lambda>ex. do_push v ex (Next (pc + 1))))
      (spec_step (I_Push 2 v) (machine_of a ex))" for v
    using push_sim [OF ok refl, of 2] by simp
  have push_three: "flow_sim a code c (drop n (drop (pc + 1) code))
      (with_gas 3 ex (\<lambda>ex. do_push v ex (Next (pc + n + 1)))) (spec_step (I_Push 3 v) (machine_of a ex))" for v
    using push_sim [OF ok nxt, of 3] by simp
  note op = exec_op_def [of a code pc ex, folded opcode_def, unfolded Let_def, folded n_def]
    and dec = decode_first_def [of "opcode # drop (pc + 1) code", unfolded Let_def list.sel, folded n_def, unfolded len]
  note sims = stop_sim [OF ok] sload_sim [OF ok refl] sstore_sim [OF ok refl] charge_sim [OF ok refl]
    bad_push_sim [OF ok] bad push_two push_three
  show ?thesis
  proof (cases "opcode = STOP")
    case True
    show ?thesis
      unfolding d op dec if_P [OF True] prod.sel by (rule sims)
  next
    case stop: False
    show ?thesis
    proof (cases "charge_only opcode")
      case (Some g)
      show ?thesis
        unfolding d op dec if_not_P [OF stop] Some option.case prod.sel
        by (rule sims, rule charge_only_bound [OF Some])
    next
      case None
      note start = d op dec if_not_P [OF stop] None option.case
      consider (sload) "opcode = SLOAD" | (sstore) "opcode \<noteq> SLOAD" "opcode = SSTORE"
        | (push0) "opcode \<noteq> SLOAD" "opcode \<noteq> SSTORE" "opcode = PUSH0"
        | (push) "opcode \<noteq> SLOAD" "opcode \<noteq> SSTORE" "opcode \<noteq> PUSH0" "PUSH1 \<le> opcode \<and> opcode \<le> PUSH32"
        | (bad) "opcode \<noteq> SLOAD" "opcode \<noteq> SSTORE" "opcode \<noteq> PUSH0" "\<not> (PUSH1 \<le> opcode \<and> opcode \<le> PUSH32)"
        by blast
      then show ?thesis
      proof cases
        case sload
        show ?thesis unfolding start if_P [OF sload] prod.sel by (rule sims)
      next
        case sstore
        show ?thesis unfolding start if_not_P [OF sstore(1)] if_P [OF sstore(2)] prod.sel by (rule sims)
      next
        case push0
        show ?thesis
          unfolding start if_not_P [OF push0(1)] if_not_P [OF push0(2)] if_P [OF push0(3)] prod.sel
          by (rule sims)
      next
        case push
        note pre = start if_not_P [OF push(1)] if_not_P [OF push(2)] if_not_P [OF push(3)] if_P [OF push(4)]
        show ?thesis
          by (cases "length code \<le> pc + n") (simp_all only: pre if_True if_False prod.sel sims)
      next
        case bad
        show ?thesis
          unfolding start if_not_P [OF bad(1)] if_not_P [OF bad(2)] if_not_P [OF bad(3)]
            if_not_P [OF bad(4)] prod.sel
          by (rule sims)
      qed
    qed
  qed
qed

lemma decode_Cons: "code \<noteq> [] \<Longrightarrow> decode code = fst (decode_first code) # decode (snd (decode_first code))"
  by (subst decode.simps) (simp add: case_prod_beta)

lemma exec_loop_sim:
  assumes "unat (gas_used ex) + 32000 * (length code - pc) < 2 ^ 64"
    and "gas_used ex \<le> ex_gas_limit ex" and "length (ex_stack ex) \<le> stack_limit"
  shows "(outcome_of (fst (exec_loop a code pc ex)), machine_of a (snd (exec_loop a code pc ex)))
    = spec_run (decode (drop pc code)) (machine_of a ex)"
  using assms
proof (induction a code pc ex rule: exec_loop.induct)
  case (1 a code pc ex)
  show ?case
  proof (cases "pc < length code")
    case False
    then show ?thesis
      by (simp add: exec_loop.simps decode.simps outcome_of_def)
  next
    case True
    let ?i = "fst (decode_first (drop pc code))" and ?rest = "snd (decode_first (drop pc code))"
    have dec: "decode (drop pc code) = ?i # decode ?rest"
      using True by (simp add: decode_Cons)
    have "evm_ok (unat (gas_used ex)) ex"
      using "1.prems" True by (auto simp: evm_ok_def)
    note sim = exec_op_sim [OF this True, of a]
    show ?thesis
    proof (cases "exec_op a code pc ex")
      case (Next pc' ex')
      have step: "spec_step ?i (machine_of a ex) = (None, machine_of a ex')" and
        inv: "drop pc' code = ?rest" "unat (gas_used ex') \<le> unat (gas_used ex) + 32000"
          "gas_used ex' \<le> ex_gas_limit ex'" "length (ex_stack ex') \<le> stack_limit"
        using sim by (simp_all add: Next flow_sim_def)
      have "unat (gas_used ex') + 32000 * (length code - pc') < 2 ^ 64"
        using inv(2) exec_op_advances [OF Next] True "1.prems"(1) by simp
      with "1.IH" [OF True Next _ inv(3,4)] show ?thesis
        using True by (simp add: exec_loop.simps [of a code pc] Next dec step inv(1))
    qed (use sim True in \<open>simp_all add: exec_loop.simps [of a code pc] flow_sim_def dec outcome_of_def\<close>)
  qed
qed

section \<open>Decoding of PUSH operands\<close>

fun be_nat :: "bytes \<Rightarrow> nat" where
  "be_nat [] = 0"
| "be_nat (b # bs) = unat b * 256 ^ length bs + be_nat bs"

lemma be_nat_snoc: "be_nat (bs @ [b]) = be_nat bs * 256 + unat b"
  by (induction bs) (auto simp: algebra_simps)

lemma be_nat_bound: "be_nat bs < 256 ^ length bs"
proof (induction bs)
  case (Cons b bs)
  have "unat b + 1 \<le> 256"
    using unat_bound [of b] by simp
  then have "unat b * 256 ^ length bs + 256 ^ length bs \<le> 256 * 256 ^ length bs"
    using mult_le_mono1 [of "unat b + 1" 256 "256 ^ length bs"] by (simp only: add_mult_distrib mult_1)
  then show ?case
    using Cons.IH by (simp only: be_nat.simps list.size(4) add_0_right One_nat_def add_Suc_right power_Suc)
qed simp

lemma push_shift_or: "(push_bit 8 v) OR ucast b = v * 256 + (ucast (b :: u8) :: u256)"
proof -
  have "push_bit 8 v AND (ucast b :: u256) = 0"
    using bit_imp_le_length [of b] by (intro bit_eqI) (fastforce simp: bit_simps)
  then have "push_bit 8 v + (ucast b :: u256) = (push_bit 8 v) OR ucast b"
    by (rule disjunctive_add_eq_or)
  then show ?thesis
    by (simp add: push_bit_eq_mult)
qed

lemma unat_push_value: "length bs \<le> 32 \<Longrightarrow> unat (push_value bs) = be_nat bs"
proof (induction bs rule: rev_induct)
  case (snoc b bs)
  have v: "push_value (bs @ [b]) = push_value bs * 256 + ucast b"
    by (simp add: push_value_def push_shift_or)
  have "be_nat (bs @ [b]) < 256 ^ 32"
    by (rule less_le_trans [OF be_nat_bound power_increasing [OF snoc.prems]]) simp
  moreover have "unat (ucast b :: u256) = unat b"
    using unat_bound [of b] by (simp add: unsigned_ucast_eq take_bit_nat_eq_self)
  ultimately show ?case
    using snoc by (simp add: v be_nat_snoc unat_word_ariths)
qed (simp add: push_value_def)

section \<open>Properties of execution\<close>

lemma execute_contract_sim:
  assumes "32000 * length code < 2 ^ 64" and "length (ex_stack ex) \<le> stack_limit"
  shows "let (r, ex') = execute_contract a code inp limit ex in
    (outcome_of r, machine_of a ex') =
      spec_run (decode code) (unat limit, rev (ex_stack ex), \<lambda>k. Storage_load a k (ex_storage ex))"
  using exec_loop_sim [of "ex\<lparr>gas_used := 0, ex_gas_limit := limit\<rparr>" code 0 a] assms
  by (simp add: execute_contract_def machine_of_def case_prod_beta)

text \<open>
  C1. Refinement. Running the interpreter is running the decoded instructions on the abstract machine:
  same outcome (success or error message), same gas left, same stack, same slots of the contract, for
  every code short enough that its total charge fits in 64 bits.
\<close>

theorem execute_contract_refines:
  assumes "32000 * length code < 2 ^ 64" and "length (ex_stack ex) \<le> stack_limit"
  shows "let (r, ex') = execute_contract a code inp limit ex in
    (outcome_of r, machine_of a ex') =
      spec_run (decode code) (unat limit, rev (ex_stack ex), \<lambda>k. Storage_load a k (ex_storage ex))"
  using assms by (rule execute_contract_sim)

theorem execute_contract_refines_witness:
  "outcome_of (fst (execute_contract (Address []) [0x5f, 0x54, 0x01, 0x00] [] 1000 EVMExecutor_new)) = None"
  using execute_contract_refines [of "[0x5f, 0x54, 0x01, 0x00]" EVMExecutor_new "Address []" "[]" 1000]
  by (simp add: EVMExecutor_new_def case_prod_beta decode.simps decode_first_def charge_only_def
      Storage_load_def)

lemma decode_push32:
  "length bs = 32 \<Longrightarrow> decode (0x7f # bs @ rest) = I_Push 3 (push_value bs) # decode rest"
  by (subst decode.simps) (simp add: decode_first_def charge_only_def)

text \<open>
  A program that pushes a key, then a value, and executes SSTORE writes the slot: SSTORE takes the
  value from the top of the stack and the key below it. Reading the slot back with SLOAD pushes the
  value. Both operands are the big-endian values of the 32 bytes after their PUSH32.
\<close>

theorem sstore_sload_program:
  assumes "length kb = 32" and "length vb = 32" and "20109 \<le> limit"
    and "length (ex_stack ex) < 1023"
  shows "let (r, ex') = execute_contract a
           (0x7f # kb @ 0x7f # vb @ 0x55 # 0x7f # kb @ [0x54, 0x00]) inp limit ex in
    success r \<and> Storage_load a (push_value kb) (ex_storage ex') = push_value vb
    \<and> ex_stack ex' = ex_stack ex @ [push_value vb]
    \<and> unat (push_value kb) = be_nat kb \<and> unat (push_value vb) = be_nat vb"
proof -
  let ?code = "0x7f # kb @ 0x7f # vb @ 0x55 # 0x7f # kb @ [0x54, 0x00]"
  obtain g where limit: "unat limit = 20109 + g"
    using assms(3) by (auto simp: word_le_nat_alt le_iff_add)
  have dec: "decode ?code = [I_Push 3 (push_value kb), I_Push 3 (push_value vb), I_Sstore,
      I_Push 3 (push_value kb), I_Sload, I_Stop]"
    using assms(1,2) by (simp add: decode_push32 decode.simps [of "85 # _"] decode.simps [of "84 # _"]
        decode.simps [of "0 # _"] decode.simps [of "[]"] decode_first_def charge_only_def)
  obtain r ex' where run: "execute_contract a ?code inp limit ex = (r, ex')"
    by fastforce
  have "(outcome_of r, machine_of a ex')
    = spec_run (decode ?code) (unat limit, rev (ex_stack ex), \<lambda>k. Storage_load a k (ex_storage ex))"
    using execute_contract_sim [of ?code ex a inp limit] assms run by simp
  then have "outcome_of r = None" "rev (ex_stack ex') = push_value vb # rev (ex_stack ex)"
    "(\<lambda>k. Storage_load a k (ex_storage ex')) =
      (\<lambda>k. Storage_load a k (ex_storage ex))(push_value kb := push_value vb)"
    using assms(4) limit by (simp_all add: dec machine_of_def)
  then show ?thesis
    using assms(1,2) unfolding run
    by (auto simp: outcome_of_def rev_swap unat_push_value fun_eq_iff split: if_splits)
qed

theorem sstore_sload_program_witness:
  "success (fst (execute_contract (Address [])
     (0x7f # replicate 32 1 @ 0x7f # replicate 32 2 @ 0x55 # 0x7f # replicate 32 1 @ [0x54, 0x00])
     [] 20109 EVMExecutor_new))"
  using sstore_sload_program [of "replicate 32 1" "replicate 32 2" 20109 EVMExecutor_new "Address []" "[]"]
  by (simp add: EVMExecutor_new_def case_prod_beta)

lemma decode_charges:
  "\<forall>b \<in> set code. charge_only b \<noteq> None \<Longrightarrow>
    decode code = map (\<lambda>b. I_Charge (unat (the (charge_only b)))) code"
proof (induction code)
  case Nil
  show ?case by (simp add: decode.simps)
next
  case (Cons b code)
  then obtain g where g: "charge_only b = Some g"
    by auto
  have "b \<noteq> STOP"
    using g by (auto simp: charge_only_def)
  then show ?case
    using Cons g by (simp add: decode_Cons decode_first_def Let_def)
qed

lemma spec_run_charges:
  "snd (snd (spec_run (map (\<lambda>b. I_Charge (f b)) bs) (g, st, m))) = (st, m)
   \<and> (fst (spec_run (map (\<lambda>b. I_Charge (f b)) bs) (g, st, m)) = None \<longleftrightarrow> sum_list (map f bs) \<le> g)"
proof (induction bs arbitrary: g)
  case (Cons b bs)
  then show ?case
    using Cons.IH [of "g - f b"] by (cases "g < f b") (simp_all, linarith)
qed simp

text \<open>
  The arithmetic, memory, context, jump, call and return opcodes only charge gas: a program of such
  opcodes leaves the stack and the storage as they were, whatever operands they would take, and runs to
  the end (RETURN, REVERT and SELFDESTRUCT do not stop it) exactly when the gas limit covers the sum of
  the charges.
\<close>

theorem unimplemented_opcodes_only_charge:
  assumes "\<forall>b \<in> set code. charge_only b \<noteq> None" and "32000 * length code < 2 ^ 64"
    and "length (ex_stack ex) \<le> stack_limit"
  shows "let (r, ex') = execute_contract a code inp limit ex in
    ex_stack ex' = ex_stack ex \<and> (\<forall>b k. Storage_load b k (ex_storage ex') = Storage_load b k (ex_storage ex))
    \<and> (success r \<longleftrightarrow> (\<Sum>b \<leftarrow> code. unat (the (charge_only b))) \<le> unat limit)"
proof -
  obtain r ex' where run: "execute_contract a code inp limit ex = (r, ex')"
    by fastforce
  have "(outcome_of r, machine_of a ex') = spec_run (decode code)
      (unat limit, rev (ex_stack ex), \<lambda>k. Storage_load a k (ex_storage ex))"
    using execute_contract_sim [OF assms(2,3), of a inp limit] run by simp
  then have "rev (ex_stack ex') = rev (ex_stack ex)"
    and own: "(\<lambda>k. Storage_load a k (ex_storage ex')) = (\<lambda>k. Storage_load a k (ex_storage ex))"
    and "outcome_of r = None \<longleftrightarrow> (\<Sum>b \<leftarrow> code. unat (the (charge_only b))) \<le> unat limit"
    using spec_run_charges [of "\<lambda>b. unat (the (charge_only b))" code "unat limit" "rev (ex_stack ex)"
        "\<lambda>k. Storage_load a k (ex_storage ex)"]
    by (auto simp: decode_charges [OF assms(1)] machine_of_def dest: sym)
  moreover have "Storage_load b k (ex_storage ex') = Storage_load b k (ex_storage ex)" for b k
    using fun_cong [OF own, of k] exec_loop_frame [of a "ex\<lparr>gas_used := 0, ex_gas_limit := limit\<rparr>" code 0] run
    by (cases "b = a") (auto simp: evm_frame_def execute_contract_def)
  ultimately show ?thesis
    unfolding run by (simp add: outcome_of_def split: if_splits)
qed

theorem unimplemented_opcodes_only_charge_witness:
  "ex_stack (snd (execute_contract (Address []) [0x01, 0xf3, 0x02] [] 100 (EVMExecutor_new\<lparr>ex_stack := [2, 3]\<rparr>))) = [2, 3]"
  using unimplemented_opcodes_only_charge [of "[0x01, 0xf3, 0x02]" "EVMExecutor_new\<lparr>ex_stack := [2, 3]\<rparr>"
      "Address []" "[]" 100]
  by (simp add: case_prod_beta charge_only_def)

section \<open>Value transfer\<close>

lemma EVMExecutor_execute_move:
  "EVMExecutor_execute tx ex =
     (if tx_value tx \<le> getBalance (tx_from tx) ex
      then (True, ex\<lparr>ex_impl := (ex_impl ex)\<lparr>
              balances := amounts.move (tx_from tx) (tx_to tx) (tx_value tx) (balances (ex_impl ex)),
              code_of := if tx_data tx \<noteq> [] then snd (map_index [] (tx_to tx) (code_of (ex_impl ex)))
                         else code_of (ex_impl ex)\<rparr>\<rparr>)
      else (False, ex\<lparr>ex_impl := (ex_impl ex)\<lparr>balances := snd (map_index 0 (tx_from tx) (balances (ex_impl ex)))\<rparr>\<rparr>))"
proof -
  have "fst (map_index 0 (tx_from tx) (balances (ex_impl ex))) = getBalance (tx_from tx) ex"
    by (simp add: getBalance_def map_get_def)
  then show ?thesis
    by (auto simp: EVMExecutor_execute_def Let_def case_prod_beta amounts.move_def not_less
        getBalance_def map_get_def)
qed

lemma transfer_total:
  assumes "x \<le> map_get 0 m i" "i \<noteq> j"
  shows "map_total uint (amounts.move i j x m) =
    map_total uint m - (if 2 ^ 64 \<le> uint (map_get 0 m j) + uint x then 2 ^ 64 else 0)"
proof -
  have put: "map_total uint (map_put k v n) = map_total uint n - uint (map_get 0 n k) + uint v" for k v and n :: "('a, u64) smap"
    by (auto simp: map_total_put map_get_def split: option.split)
  have "uint (map_get 0 m i - x) = uint (map_get 0 m i) - uint x"
    using assms(1) by (simp add: uint_minus_simple_alt)
  moreover have "uint (map_get 0 m j + x) = uint (map_get 0 m j) + uint x - (if 2 ^ 64 \<le> uint (map_get 0 m j) + uint x then 2 ^ 64 else 0)"
    by (simp add: uint_plus_if')
  ultimately show ?thesis
    using assms(2) by (simp add: amounts.move_def put)
qed

lemma move_self:
  assumes "x \<le> map_get 0 m i"
  shows "map_total uint (amounts.move i i x m) = map_total uint m"
  by (auto simp: amounts.move_def map_total_put map_get_def split: option.split)

text \<open>
  C24. \<open>execute\<close> succeeds exactly when the sender's balance covers the value; it then moves the value
  from the sender to the recipient and changes no other balance, a transfer to oneself changes none,
  and a refused transfer changes none. The sum of all balances, as an unbounded integer, is preserved
  unless the recipient's balance exceeds 64 bits, when \<open>2 ^ 64\<close> is lost.
\<close>

theorem EVMExecutor_execute_conserves:
  "let (ok, ex') = EVMExecutor_execute tx ex in
     (ok \<longleftrightarrow> tx_value tx \<le> getBalance (tx_from tx) ex)
     \<and> map_total uint (balances (ex_impl ex')) = map_total uint (balances (ex_impl ex))
         - (if ok \<and> tx_from tx \<noteq> tx_to tx \<and> 2 ^ 64 \<le> uint (getBalance (tx_to tx) ex) + uint (tx_value tx) then 2 ^ 64 else 0)
     \<and> (\<forall>j. getBalance j ex' =
          (if \<not> ok \<or> tx_from tx = tx_to tx then getBalance j ex
           else if j = tx_from tx then getBalance j ex - tx_value tx
           else if j = tx_to tx then getBalance j ex + tx_value tx
           else getBalance j ex))"
proof -
  have bal: "getBalance j e = map_get 0 (balances (ex_impl e)) j" for j e
    by (simp add: getBalance_def map_get_def)
  show ?thesis
    by (cases "tx_from tx = tx_to tx")
      (auto simp: EVMExecutor_execute_move bal transfer_total move_self amounts.move_bal map_total_index)
qed

theorem EVMExecutor_execute_conserves_witness:
  "fst (EVMExecutor_execute ((Transaction_default 0 [])\<lparr>tx_from := ''a'', tx_to := ''b'', tx_value := 5\<rparr>)
     (EVMExecutor_new\<lparr>ex_impl := \<lparr>balances = [(''a'', 7)], code_of = [], acct_storage = []\<rparr>\<rparr>))"
  using EVMExecutor_execute_conserves [of "(Transaction_default 0 [])\<lparr>tx_from := ''a'', tx_to := ''b'', tx_value := 5\<rparr>"
      "EVMExecutor_new\<lparr>ex_impl := \<lparr>balances = [(''a'', 7)], code_of = [], acct_storage = []\<rparr>\<rparr>"]
  by (simp add: case_prod_beta getBalance_def map_find_def)

text \<open>
  What the unit tests of the executor expect and the code does not do: a transfer of 1000 on a new executor, where every balance is
  zero, is refused (\<open>BasicTransfer\<close>), and code that is one JUMPDEST succeeds with a limit of 100 after a charge of 1, since there is
  no jump back (\<open>OutOfGas\<close>).
\<close>

theorem basic_transfer_refused:
  "tx_value tx = 1000 \<Longrightarrow> \<not> fst (EVMExecutor_execute tx EVMExecutor_new)"
  by (simp add: EVMExecutor_execute_move getBalance_def EVMExecutor_new_def map_find_def)

theorem jumpdest_in_gas:
  "fst (execute_contract a [0x5b] inp 100 EVMExecutor_new)
     = \<lparr>success = True, return_data = [], result_gas = 1, error_message = []\<rparr>"
  by (simp add: execute_contract_def exec_loop.simps exec_op_def with_gas_def require_gas_def charge_only_def EVMExecutor_new_def)

end
