(* ===== verification/Chain.thy ===== *)
theory Chain
  imports Evm_Executor
begin

text \<open>
  Blocks and the chain (\<open>src/blockchain/Block.cpp\<close>, \<open>src/blockchain/Chain.cpp\<close>). The chain holds a
  pointer to the executor, whose state a block's transactions change: it is a field of the chain's
  state here. The configuration argument of the constructor is not stored and not used.
\<close>

section \<open>Definitions\<close>

record Block =
  blk_number :: u64
  blk_hash :: string
  blk_prev_hash :: string
  blk_timestamp :: u64
  blk_transactions :: "Transaction list"

definition Block_default :: Block where
  "Block_default = \<lparr>blk_number = 0, blk_hash = [], blk_prev_hash = [], blk_timestamp = 0, blk_transactions = []\<rparr>"

definition Block_verify :: "Block \<Rightarrow> bool" where
  "Block_verify b =
     (if blk_hash b = [] \<or> blk_prev_hash b = [] then False
      else list_all Transaction_verify (blk_transactions b))"

record Chain =
  current_height :: u64
  evm_executor :: EVMExecutor
  chain_blocks :: "Block list"
  pending_transactions :: "Transaction list"

definition Chain_new :: "EVMExecutor \<Rightarrow> Chain" where
  "Chain_new ex =
     \<lparr>current_height = 1, evm_executor = ex, chain_blocks = [Block_default], pending_transactions = []\<rparr>"

text \<open>The loop over the transactions stops at the first that fails, keeping what the earlier ones did.\<close>

fun execute_all :: "Transaction list \<Rightarrow> EVMExecutor \<Rightarrow> bool \<times> EVMExecutor" where
  "execute_all [] ex = (True, ex)"
| "execute_all (tx # txs) ex =
     (case EVMExecutor_execute tx ex of (True, ex') \<Rightarrow> execute_all txs ex' | (False, ex') \<Rightarrow> (False, ex'))"

definition addBlock :: "Block \<Rightarrow> Chain \<Rightarrow> bool \<times> Chain" where
  "addBlock block c =
     (if \<not> Block_verify block then (False, c)
      else case execute_all (blk_transactions block) (evm_executor c) of
             (False, ex) \<Rightarrow> (False, c\<lparr>evm_executor := ex\<rparr>)
           | (True, ex) \<Rightarrow> (True, c\<lparr>evm_executor := ex, chain_blocks := chain_blocks c @ [block],
                                  current_height := current_height c + 1\<rparr>))"

definition Chain_addTransaction :: "Transaction \<Rightarrow> Chain \<Rightarrow> bool \<times> Chain" where
  "Chain_addTransaction tx c =
     (if \<not> Transaction_verify tx then (False, c)
      else (True, c\<lparr>pending_transactions := pending_transactions c @ [tx]\<rparr>))"

definition getLatestBlock :: "Chain \<Rightarrow> Block res" where
  "getLatestBlock c =
     (if chain_blocks c = [] then Inl (Undefined ''back of an empty vector'') else Inr (last (chain_blocks c)))"

definition getPendingTransactions :: "Chain \<Rightarrow> Transaction list" where
  "getPendingTransactions c = pending_transactions c"

section \<open>Reachable chains\<close>

inductive chain_step :: "Chain \<Rightarrow> Chain \<Rightarrow> bool" where
  step_block: "addBlock b c = (ok, c') \<Longrightarrow> chain_step c c'"
| step_tx: "Chain_addTransaction tx c = (ok, c') \<Longrightarrow> chain_step c c'"

inductive chain_reachable :: "EVMExecutor \<Rightarrow> Chain \<Rightarrow> bool" for ex where
  chain_init: "chain_reachable ex (Chain_new ex)"
| chain_more: "chain_reachable ex c \<Longrightarrow> chain_step c c' \<Longrightarrow> chain_reachable ex c'"

abbreviation total_balance :: "EVMExecutor \<Rightarrow> u64" where
  "total_balance ex \<equiv> map_total (\<lambda>x. x) (balances (ex_impl ex))"

lemma execute_total: "total_balance (snd (EVMExecutor_execute tx ex)) = total_balance ex"
  by (simp add: EVMExecutor_execute_move amounts.move_total map_total_index)

lemma execute_all_total: "total_balance (snd (execute_all txs ex)) = total_balance ex"
proof (induction txs ex rule: execute_all.induct)
  case (2 tx txs ex)
  show ?case
    using 2 execute_total [of tx ex] by (auto split: prod.split bool.split)
qed simp

text \<open>
  C7. In every reachable chain the height counts the blocks (in 64 bits), the genesis block is first and
  every later block passed \<open>verify\<close>, every pending transaction passed \<open>verify\<close>, and the sum of all
  balances is what it was in the executor the chain was created with: blocks only move value.
\<close>

theorem chain_reachable_inv:
  assumes "chain_reachable ex c"
  shows "current_height c = of_nat (length (chain_blocks c))
    \<and> chain_blocks c \<noteq> [] \<and> hd (chain_blocks c) = Block_default
    \<and> list_all Block_verify (tl (chain_blocks c))
    \<and> list_all Transaction_verify (pending_transactions c)
    \<and> total_balance (evm_executor c) = total_balance ex"
  using assms
proof (induction rule: chain_reachable.induct)
  case chain_init
  show ?case by (simp add: Chain_new_def)
next
  case (chain_more c c')
  from chain_more.hyps(2) show ?case
  proof cases
    case (step_block b ok)
    then show ?thesis
      using chain_more.IH execute_all_total [of "blk_transactions b" "evm_executor c"]
      by (auto simp: addBlock_def split: if_splits prod.splits bool.splits)
  next
    case (step_tx tx ok)
    then show ?thesis
      using chain_more.IH by (auto simp: Chain_addTransaction_def split: if_splits)
  qed
qed

definition demo_block :: Block where
  "demo_block = \<lparr>blk_number = 1, blk_hash = ''h'', blk_prev_hash = ''g'', blk_timestamp = 0,
     blk_transactions = [(Transaction_default 0 [])\<lparr>tx_from := ''a'', tx_to := ''b'', tx_value := 3\<rparr>,
       (Transaction_default 0 [])\<lparr>tx_from := ''a'', tx_to := ''b'', tx_value := 9\<rparr>]\<rparr>"

definition demo_executor :: EVMExecutor where
  "demo_executor = EVMExecutor_new\<lparr>ex_impl := \<lparr>balances = [(''a'', 5)], code_of = [], acct_storage = []\<rparr>\<rparr>"

theorem chain_reachable_inv_witness:
  "current_height (snd (addBlock demo_block (Chain_new demo_executor)))
    = of_nat (length (chain_blocks (snd (addBlock demo_block (Chain_new demo_executor)))))"
proof -
  have "chain_reachable demo_executor (snd (addBlock demo_block (Chain_new demo_executor)))"
    by (rule chain_more [OF chain_init], rule step_block) (rule prod.collapse [symmetric])
  from chain_reachable_inv [OF this] show ?thesis by blast
qed

text \<open>
  Adding a block is not atomic: if a transaction of the block fails, the block is refused but the
  transfers of the transactions before it stay in the executor. For every block whose first
  transactions succeed and whose next one fails, the refused chain differs from the old one exactly by
  these executions.
\<close>

theorem addBlock_keeps_partial_execution:
  assumes "Block_verify block" and "blk_transactions block = done @ tx # rest"
    and "execute_all done (evm_executor c) = (True, ex)" and "EVMExecutor_execute tx ex = (False, ex')"
  shows "addBlock block c = (False, c\<lparr>evm_executor := ex'\<rparr>)
    \<and> (\<forall>k. getBalance k ex' = getBalance k ex)"
proof -
  have "execute_all (done @ tx # rest) e = (False, ex')" if "execute_all done e = (True, ex)" for e
    using that assms(4)
    by (induction "done" e rule: execute_all.induct) (auto split: prod.splits bool.splits)
  moreover have "getBalance k ex' = getBalance k ex" for k
    using assms(4) by (auto simp: EVMExecutor_execute_move getBalance_def map_get_def split: if_splits option.splits)
  ultimately show ?thesis
    using assms(1-3) by (simp add: addBlock_def)
qed

theorem addBlock_keeps_partial_execution_witness:
  "fst (addBlock demo_block (Chain_new demo_executor)) = False
   \<and> getBalance ''b'' (evm_executor (snd (addBlock demo_block (Chain_new demo_executor)))) = 3"
proof -
  let ?t = "\<lambda>v. (Transaction_default 0 [])\<lparr>tx_from := ''a'', tx_to := ''b'', tx_value := v\<rparr>"
  have v: "Block_verify demo_block" "blk_transactions demo_block = [?t 3] @ ?t 9 # []"
    by (simp_all add: Block_verify_def demo_block_def Transaction_verify_def)
  obtain ex where ex: "execute_all [?t 3] (evm_executor (Chain_new demo_executor)) = (True, ex)"
    and bal: "getBalance ''a'' ex = 2" "getBalance ''b'' ex = 3"
    by (simp add: Chain_new_def demo_executor_def EVMExecutor_execute_move getBalance_def map_find_def
        amounts.move_def map_put_def map_get_def Let_def)
  obtain ex' where ex': "EVMExecutor_execute (?t 9) ex = (False, ex')"
    using bal(1) by (simp add: EVMExecutor_execute_move)
  show ?thesis
    using addBlock_keeps_partial_execution [OF v ex ex'] bal(2) by simp
qed

end
