(* ===== verification/Merkle.thy ===== *)
theory Merkle
  imports Prelude
begin

text \<open>
  What the two Merkle trees of the sources (\<open>AIBlock::computeMerkleRoot\<close>, \<open>compute_proof_merkle_root\<close>)
  have in common: a loop that halves a list of 32-byte nodes, level by level, until one is left. The
  locale states what a level must satisfy; from it follows that the root binds the leaves, in the form
  of a reduction: two lists of the same length with the same root are equal, or two of the strings that
  were hashed to compute the two roots are different and collide.
\<close>

definition nodes :: "bytes list \<Rightarrow> bool" where
  "nodes hs \<longleftrightarrow> (\<forall>h \<in> set hs. length h = 32)"

definition hash32 :: "(bytes \<Rightarrow> bytes) \<Rightarrow> bool" where
  "hash32 H \<longleftrightarrow> (\<forall>b. length (H b) = 32)"

text \<open>
  A collision between a string of \<open>X\<close> and one of \<open>Y\<close>: the sets are those of the strings that two computations
  have hashed, since a hash of fixed length has some collision anyway.
\<close>

definition collides :: "(bytes \<Rightarrow> bytes) \<Rightarrow> bytes set \<Rightarrow> bytes set \<Rightarrow> bool" where
  "collides H X Y \<longleftrightarrow> (\<exists>u \<in> X. \<exists>v \<in> Y. u \<noteq> v \<and> H u = H v)"

lemma collides_Un:
  "collides H (A \<union> B) (C \<union> D) \<longleftrightarrow> collides H A C \<or> collides H A D \<or> collides H B C \<or> collides H B D"
  by (auto simp: collides_def)

lemma collides_insert:
  "collides H (insert a B) (insert c D) \<longleftrightarrow> collides H {a} {c} \<or> collides H {a} D \<or> collides H B {c} \<or> collides H B D"
  by (auto simp: collides_def)

lemma map_hash_eq:
  assumes "map H us = map H vs"
  shows "us = vs \<or> collides H (set us) (set vs)"
proof -
  have l: "length us = length vs"
    using assms map_eq_imp_length_eq by blast
  have "us ! i = vs ! i \<or> collides H (set us) (set vs)" if "i < length us" for i
    using that l arg_cong [OF assms, of "\<lambda>hs. hs ! i"] nth_mem [of i us] nth_mem [of i vs]
    by (fastforce simp: collides_def)
  then show ?thesis
    using l by (auto simp: list_eq_iff_nth_eq)
qed

text \<open>The strings hashed in at most \<open>n\<close> levels of a tree, those of one level being given by \<open>inputs\<close>.\<close>

fun tree_inputs :: "(bytes list \<Rightarrow> bytes list) \<Rightarrow> (bytes list \<Rightarrow> bytes list) \<Rightarrow> nat \<Rightarrow> bytes list \<Rightarrow> bytes list" where
  "tree_inputs inputs level 0 hs = []"
| "tree_inputs inputs level (Suc n) hs =
     (if length hs > 1 then inputs hs @ tree_inputs inputs level n (level hs) else [])"

lemma nodes_simps [simp]:
  "nodes []" "nodes (h # hs) \<longleftrightarrow> length h = 32 \<and> nodes hs" "nodes (hs @ hs') \<longleftrightarrow> nodes hs \<and> nodes hs'"
  by (auto simp: nodes_def)

text \<open>Two nodes of 32 bytes are hashed one after the other, so their concatenation determines them.\<close>

lemma pair_bind:
  assumes "H (a @ b) = H (c @ d)" and "length a = length c"
  shows "a = c \<and> b = d \<or> collides H {a @ b} {c @ d}"
  using assms by (cases "a @ b = c @ d") (auto simp: collides_def)

locale merkle_tree =
  fixes H :: "bytes \<Rightarrow> bytes"
    and level :: "bytes list \<Rightarrow> bytes list"
    and inputs :: "bytes list \<Rightarrow> bytes list"
    and root :: "bytes list \<Rightarrow> bytes"
  assumes level_length: "length (level hs) = (length hs + 1) div 2"
    and level_nodes: "hash32 H \<Longrightarrow> nodes hs \<Longrightarrow> nodes (level hs)"
    and level_bind: "nodes hs \<Longrightarrow> nodes hs' \<Longrightarrow> length hs = length hs' \<Longrightarrow> level hs = level hs' \<Longrightarrow>
      hs = hs' \<or> collides H (set (inputs hs)) (set (inputs hs'))"
    and root_one: "root [h] = h"
    and root_step: "1 < length hs \<Longrightarrow> root hs = root (level hs)"
begin

lemma root_binds:
  assumes "hash32 H" and "nodes hs" and "nodes hs'" and "length hs = length hs'" and "hs \<noteq> []"
    and "root hs = root hs'" and "length hs \<le> n"
  shows "hs = hs' \<or> collides H (set (tree_inputs inputs level n hs)) (set (tree_inputs inputs level n hs'))"
  using assms(2-)
proof (induction n arbitrary: hs hs')
  case (Suc n)
  show ?case
  proof (cases "length hs = 1")
    case True
    then obtain h h' where "hs = [h]" "hs' = [h']"
      using Suc.prems(3) by (metis One_nat_def length_0_conv length_Suc_conv)
    then show ?thesis
      using Suc.prems(5) by (simp add: root_one)
  next
    case False
    moreover have "0 < length hs"
      using Suc.prems(4) by simp
    ultimately have l: "1 < length hs" "1 < length hs'"
      using Suc.prems(3) by linarith+
    let ?in = "\<lambda>hs. set (tree_inputs inputs level n (level hs))"
    have "level hs = level hs' \<or> collides H (?in hs) (?in hs')"
    proof (rule Suc.IH)
      show "nodes (level hs)" "nodes (level hs')"
        using assms(1) Suc.prems(1,2) by (simp_all add: level_nodes)
      show "length (level hs) = length (level hs')"
        by (simp add: level_length Suc.prems(3))
      have "0 < length (level hs)"
        using l(1) by (simp add: level_length)
      then show "level hs \<noteq> []"
        by auto
      show "root (level hs) = root (level hs')"
        using Suc.prems(5) l by (simp add: root_step)
      show "length (level hs) \<le> n"
        using l(1) Suc.prems(6) by (simp add: level_length)
    qed
    moreover have "collides H (?in hs) (?in hs') \<Longrightarrow> ?thesis"
      using l by (simp add: collides_Un)
    moreover have "level hs = level hs' \<Longrightarrow> ?thesis"
      using level_bind [OF Suc.prems(1,2,3)] l by (auto simp: collides_Un)
    ultimately show ?thesis
      by blast
  qed
qed simp

lemma root_node: "hash32 H \<Longrightarrow> nodes hs \<Longrightarrow> hs \<noteq> [] \<Longrightarrow> length (root hs) = 32"
proof (induction "length hs" arbitrary: hs rule: less_induct)
  case less
  show ?case
  proof (cases "length hs = 1")
    case True
    then obtain h where "hs = [h]"
      by (metis One_nat_def length_0_conv length_Suc_conv)
    then show ?thesis
      using less.prems(2) by (simp add: root_one)
  next
    case False
    then have l: "1 < length hs"
      using less.prems(3) by (cases hs) auto
    have "length (level hs) < length hs" "0 < length (level hs)"
      using l by (simp_all add: level_length)
    then show ?thesis
      using less.hyps [of "level hs"] less.prems(1,2) l by (auto simp: root_step level_nodes)
  qed
qed

end

end
