(* ===== verification/Doubles.thy ===== *)
theory Doubles
  imports Prelude
begin

text \<open>
  Arithmetic on \<open>double\<close> is a parameter: the type is a type variable and the operations that the sources
  use are the fields of \<open>dops\<close>. Nothing is assumed of them, so no property of the development depends on
  how a platform rounds. \<open>lit\<close> is the value of a literal as the source spells it, \<open>of_int_d\<close> the conversion
  from an unsigned integer, \<open>image_d\<close> the 8 bytes that \<open>&x\<close>, \<open>sizeof(double)\<close> hand to a hash function.
\<close>

record 'd dops =
  lit :: "string \<Rightarrow> 'd"
  of_int_d :: "nat \<Rightarrow> 'd"
  fadd :: "'d \<Rightarrow> 'd \<Rightarrow> 'd"
  fsub :: "'d \<Rightarrow> 'd \<Rightarrow> 'd"
  fmul :: "'d \<Rightarrow> 'd \<Rightarrow> 'd"
  fdiv :: "'d \<Rightarrow> 'd \<Rightarrow> 'd"
  fmax :: "'d \<Rightarrow> 'd \<Rightarrow> 'd"
  fmin :: "'d \<Rightarrow> 'd \<Rightarrow> 'd"
  flog2 :: "'d \<Rightarrow> 'd"
  fless :: "'d \<Rightarrow> 'd \<Rightarrow> bool"
  image_d :: "'d \<Rightarrow> bytes"

end
