(* ===== verification/AI_Block.thy ===== *)
theory AI_Block
  imports Merkle Transaction Doubles Std_Map "HOL-Library.List_Lexorder" "HOL-Library.Char_ord"
begin

text \<open>
  Blocks with metrics (\<open>include/blockchain/AIBlock.hpp\<close>, \<open>src/blockchain/AIBlock.cpp\<close>): adding
  transactions, the Merkle root of their hashes, block verification, the block hash and the metrics
  that every addition recomputes.
\<close>

section \<open>Definitions\<close>

record 'd AIMetrics =
  quantum_security_score :: 'd
  transaction_efficiency :: 'd
  network_health :: 'd
  consensus_confidence :: 'd
  ml_features :: "'d list"

record 'd BlockHeader =
  bh_number :: u64
  previous_hash :: bytes
  transactions_root :: bytes
  state_root :: bytes
  receipts_root :: bytes
  bh_timestamp :: u64
  metrics :: "'d AIMetrics"

record 'd AIBlock =
  header :: "'d BlockHeader"
  transactions :: "Transaction list"
  quantum_proof :: bytes

definition AIBlock_new :: "'d BlockHeader \<Rightarrow> 'd AIBlock" where
  "AIBlock_new h = \<lparr>header = h, transactions = [], quantum_proof = []\<rparr>"

subsection \<open>The Merkle root\<close>

fun block_level :: "(bytes \<Rightarrow> bytes) \<Rightarrow> bytes list \<Rightarrow> bytes list" where
  "block_level H [] = []"
| "block_level H [h] = [H (h @ h)]"
| "block_level H (h # h' # hs) = H (h @ h') # block_level H hs"

lemma length_block_level: "length (block_level H hs) = (length hs + 1) div 2"
  by (induction H hs rule: block_level.induct) auto

function block_loop :: "(bytes \<Rightarrow> bytes) \<Rightarrow> bytes list \<Rightarrow> bytes list" where
  "block_loop H hashes = (if length hashes > 1 then block_loop H (block_level H hashes) else hashes)"
  by pat_completeness auto
termination
  by (relation "measure (length \<circ> snd)") (auto simp: length_block_level)

declare block_loop.simps [simp del]

definition computeMerkleRoot :: "(bytes \<Rightarrow> bytes) \<Rightarrow> Transaction list \<Rightarrow> bytes" where
  "computeMerkleRoot blake3 txs =
     (if txs = [] then replicate 32 0
      else hd (block_loop blake3 (map (Transaction_compute_hash blake3) txs)))"

subsection \<open>Verification and hashing\<close>

definition validateTransactions :: "'d AIBlock \<Rightarrow> bool" where
  "validateTransactions b \<longleftrightarrow> list_all Transaction_is_valid (transactions b)"

definition verifyQuantumProof :: "'d AIBlock \<Rightarrow> bool" where
  "verifyQuantumProof b \<longleftrightarrow> quantum_proof b \<noteq> []"

definition verifyBlock :: "(bytes \<Rightarrow> bytes) \<Rightarrow> 'd AIBlock \<Rightarrow> bool" where
  "verifyBlock blake3 b =
     (if transactions b = [] then False
      else if \<not> validateTransactions b then False
      else if computeMerkleRoot blake3 (transactions b) \<noteq> transactions_root (header b) then False
      else if quantum_proof b \<noteq> [] \<and> \<not> verifyQuantumProof b then False
      else True)"

definition AIBlock_computeHash :: "'d dops \<Rightarrow> (bytes \<Rightarrow> bytes) \<Rightarrow> 'd AIBlock \<Rightarrow> bytes" where
  "AIBlock_computeHash ops blake3 b =
     (let h = header b; m = metrics h in
      blake3 (u64_bytes (bh_number h) @ previous_hash h @ transactions_root h @ state_root h
        @ receipts_root h @ u64_bytes (bh_timestamp h)
        @ image_d ops (quantum_security_score m) @ image_d ops (transaction_efficiency m)
        @ image_d ops (network_health m) @ image_d ops (consensus_confidence m)))"

subsection \<open>Metrics\<close>

definition set_metrics :: "('d AIMetrics \<Rightarrow> 'd AIMetrics) \<Rightarrow> 'd AIBlock \<Rightarrow> 'd AIBlock" where
  "set_metrics f b = b\<lparr>header := (header b)\<lparr>metrics := f (metrics (header b))\<rparr>\<rparr>"

abbreviation (input) n_txs :: "'d dops \<Rightarrow> 'd AIBlock \<Rightarrow> 'd" where
  "n_txs ops b \<equiv> of_int_d ops (length (transactions b))"

definition address_freq :: "Transaction list \<Rightarrow> (string, nat) smap" where
  "address_freq txs = sort_key fst (foldl (\<lambda>m tx.
     let m = map_put (tx_from tx) (map_get 0 m (tx_from tx) + 1) m
     in map_put (tx_to tx) (map_get 0 m (tx_to tx) + 1) m) [] txs)"

definition calculateSecurityScore :: "'d dops \<Rightarrow> 'd AIBlock \<Rightarrow> 'd" where
  "calculateSecurityScore ops b =
     (if transactions b = [] then lit ops ''0.0''
      else
        let signature_strength = fdiv ops
              (foldl (\<lambda>s tx. fadd ops s (if length (tx_signature tx) \<ge> 64 then lit ops ''1.0'' else lit ops ''0.0''))
                 (lit ops ''0.0'') (transactions b)) (n_txs ops b);
            freqs = address_freq (transactions b);
            total_addresses = of_int_d ops (length freqs);
            entropy = foldl (\<lambda>e (_, freq).
                let p = fdiv ops (of_int_d ops freq) (fmul ops (lit ops ''2.0'') (n_txs ops b))
                in fsub ops e (fmul ops p (flog2 ops p))) (lit ops ''0.0'') freqs;
            entropy = fdiv ops entropy (flog2 ops (fmax ops (lit ops ''2.0'') total_addresses));
            complexity = fmin ops (lit ops ''1.0'') (fdiv ops (n_txs ops b) (lit ops ''1000.0''));
            quantum_resistance = (if quantum_proof b \<noteq> [] then lit ops ''1.0'' else lit ops ''0.0'')
        in fadd ops (fadd ops (fadd ops (fmul ops (lit ops ''0.3'') signature_strength)
             (fmul ops (lit ops ''0.2'') entropy)) (fmul ops (lit ops ''0.2'') complexity))
             (fmul ops (lit ops ''0.3'') quantum_resistance))"

definition updateQuantumSecurityScore :: "'d dops \<Rightarrow> 'd AIBlock \<Rightarrow> 'd AIBlock" where
  "updateQuantumSecurityScore ops b =
     (let proof_strength = (if quantum_proof b \<noteq> [] then lit ops ''1.0'' else lit ops ''0.0'');
          signature_score = foldl (\<lambda>s tx. if Transaction_verify tx then fadd ops s (lit ops ''1.0'') else s)
            (lit ops ''0.0'') (transactions b);
          signature_score = fdiv ops signature_score (of_int_d ops (max 1 (length (transactions b))))
      in set_metrics (\<lambda>m. m\<lparr>quantum_security_score :=
           fadd ops (fadd ops (fmul ops (lit ops ''0.4'') proof_strength) (fmul ops (lit ops ''0.4'') signature_score))
             (fmul ops (lit ops ''0.2'') (calculateSecurityScore ops b))\<rparr>) b)"

definition updateTransactionEfficiency :: "'d dops \<Rightarrow> 'd AIBlock \<Rightarrow> 'd AIBlock" where
  "updateTransactionEfficiency ops b =
     (if transactions b = [] then set_metrics (\<lambda>m. m\<lparr>transaction_efficiency := lit ops ''0.0''\<rparr>) b
      else
        let avg = foldl (\<lambda>s tx. fadd ops s (fdiv ops (of_int_d ops (unat (Transaction_calculate_gas_cost tx)))
                                  (of_int_d ops (unat (tx_gas_limit tx))))) (lit ops ''0.0'') (transactions b);
            avg = fdiv ops avg (n_txs ops b);
            density = fdiv ops (n_txs ops b) (lit ops ''1000.0'')
        in set_metrics (\<lambda>m. m\<lparr>transaction_efficiency :=
             fadd ops (fmul ops (lit ops ''0.6'') avg) (fmul ops (lit ops ''0.4'') density)\<rparr>) b)"

definition updateNetworkHealth :: "'d dops \<Rightarrow> 'd AIBlock \<Rightarrow> 'd AIBlock" where
  "updateNetworkHealth ops b =
     (let successful_txs = length (filter Transaction_is_valid (transactions b));
          success_rate = (if transactions b = [] then lit ops ''0.0''
                          else fdiv ops (of_int_d ops successful_txs) (n_txs ops b))
      in set_metrics (\<lambda>m. m\<lparr>network_health := success_rate\<rparr>) b)"

definition updateConsensusConfidence :: "'d dops \<Rightarrow> 'd AIBlock \<Rightarrow> 'd AIBlock" where
  "updateConsensusConfidence ops b =
     (let base_confidence = lit ops ''0.8'';
          base_confidence = (if quantum_proof b \<noteq> [] then fadd ops base_confidence (lit ops ''0.2'') else base_confidence);
          valid_txs = length (filter Transaction_is_valid (transactions b));
          tx_confidence = (if transactions b = [] then lit ops ''1.0''
                           else fdiv ops (of_int_d ops valid_txs) (n_txs ops b))
      in set_metrics (\<lambda>m. m\<lparr>consensus_confidence :=
           fadd ops (fmul ops (lit ops ''0.7'') base_confidence) (fmul ops (lit ops ''0.3'') tx_confidence)\<rparr>) b)"

definition updateMLFeatures :: "'d dops \<Rightarrow> 'd AIBlock \<Rightarrow> 'd AIBlock" where
  "updateMLFeatures ops b =
     (let avg_gas_price = (if transactions b = [] then lit ops ''0.0''
            else fdiv ops (foldl (\<lambda>s tx. fadd ops s (of_int_d ops (unat (tx_gas_price tx)))) (lit ops ''0.0'') (transactions b))
                   (n_txs ops b))
      in set_metrics (\<lambda>m. m\<lparr>ml_features :=
           [fdiv ops (n_txs ops b) (lit ops ''1000.0''), fdiv ops avg_gas_price (lit ops ''100.0''),
            quantum_security_score m, network_health m]\<rparr>) b)"

definition updateMetrics :: "'d dops \<Rightarrow> 'd AIBlock \<Rightarrow> 'd AIBlock" where
  "updateMetrics ops b =
     updateMLFeatures ops (updateConsensusConfidence ops (updateNetworkHealth ops
       (updateTransactionEfficiency ops (updateQuantumSecurityScore ops b))))"

definition predictOptimalGasPrice :: "'d dops \<Rightarrow> 'd AIBlock \<Rightarrow> 'd" where
  "predictOptimalGasPrice ops b =
     (let features = ml_features (metrics (header b)) in
      if features = [] then lit ops ''1.0''
      else fmax ops (lit ops ''1.0'')
        (foldl (\<lambda>s (f, w). fadd ops s (fmul ops f (lit ops w))) (lit ops ''0.0'')
           (zip features [''0.3'', ''0.2'', ''0.3'', ''0.2''])))"

subsection \<open>Adding transactions\<close>

definition AIBlock_addTransaction ::
    "'d dops \<Rightarrow> (bytes \<Rightarrow> bytes) \<Rightarrow> Transaction \<Rightarrow> 'd AIBlock \<Rightarrow> bool \<times> 'd AIBlock" where
  "AIBlock_addTransaction ops blake3 tx b =
     (if \<not> Transaction_is_valid tx then (False, b)
      else if list_ex (\<lambda>existing. Transaction_compute_hash blake3 existing = Transaction_compute_hash blake3 tx) (transactions b)
      then (False, b)
      else (True, updateMetrics ops (b\<lparr>transactions := transactions b @ [tx]\<rparr>)))"

section \<open>The tree of a block\<close>

lemma block_level_nodes: "hash32 H \<Longrightarrow> nodes (block_level H hs)"
  by (induction H hs rule: block_level.induct) (auto simp: hash32_def)

text \<open>The strings that are hashed to make one level.\<close>

fun block_inputs :: "bytes list \<Rightarrow> bytes list" where
  "block_inputs [] = []"
| "block_inputs [h] = [h @ h]"
| "block_inputs (a # b # hs) = (a @ b) # block_inputs hs"

lemma block_level_inputs: "block_level H hs = map H (block_inputs hs)"
  by (induction H hs rule: block_level.induct) simp_all

lemma block_inputs_inj:
  "nodes hs \<Longrightarrow> nodes hs' \<Longrightarrow> length hs = length hs' \<Longrightarrow> block_inputs hs = block_inputs hs' \<Longrightarrow> hs = hs'"
proof (induction hs arbitrary: hs' rule: block_inputs.induct)
  case (2 h)
  then obtain k where k: "hs' = [k]"
    by (cases hs') auto
  have "h @ h = k @ k" and "length h = length k"
    using "2.prems" by (simp_all add: k)
  then show ?case by (simp add: k)
next
  case (3 a b hs)
  obtain c d hs2 where hs': "hs' = c # d # hs2"
    using "3.prems"(3) by (auto simp: Suc_length_conv length_Suc_conv)
  have "a @ b = c @ d" and "length a = length c" and "hs = hs2"
    using "3.prems" "3.IH" [of hs2] by (simp_all add: hs')
  then show ?case by (simp add: hs')
qed auto

lemma block_level_bind:
  "nodes hs \<Longrightarrow> nodes hs' \<Longrightarrow> length hs = length hs' \<Longrightarrow> block_level H hs = block_level H hs' \<Longrightarrow>
    hs = hs' \<or> collides H (set (block_inputs hs)) (set (block_inputs hs'))"
  using block_inputs_inj map_hash_eq by (metis block_level_inputs)

interpretation block_tree: merkle_tree H "block_level H" block_inputs "\<lambda>hs. hd (block_loop H hs)" for H
proof
  show "1 < length hs \<Longrightarrow> hd (block_loop H hs) = hd (block_loop H (block_level H hs))" for hs
    by (simp add: block_loop.simps [of H hs])
qed (auto simp: length_block_level block_level_nodes block_level_bind block_loop.simps)

lemma block_level_pad:
  "odd (length hs) \<Longrightarrow> block_level H (hs @ [last hs]) = block_level H hs"
  by (induction H hs rule: block_level.induct) (auto split: if_splits)

section \<open>Properties\<close>

lemma compute_hash_comp: "Transaction_compute_hash blake3 = blake3 \<circ> Transaction_preimage"
  by (simp add: fun_eq_iff Transaction_compute_hash_def)

lemma metrics_keep [simp]:
  "transactions (updateMetrics ops b) = transactions b"
  "quantum_proof (updateMetrics ops b) = quantum_proof b"
  "transactions_root (header (updateMetrics ops b)) = transactions_root (header b)"
  by (simp_all add: updateMetrics_def updateMLFeatures_def updateConsensusConfidence_def
      updateNetworkHealth_def updateTransactionEfficiency_def updateQuantumSecurityScore_def
      set_metrics_def Let_def)

text \<open>What is hashed for the root of a block: the preimages of its transactions and the nodes.\<close>

definition root_inputs :: "(bytes \<Rightarrow> bytes) \<Rightarrow> Transaction list \<Rightarrow> bytes set" where
  "root_inputs blake3 txs = set (map Transaction_preimage txs)
     \<union> set (tree_inputs block_inputs (block_level blake3) (length txs) (map (Transaction_compute_hash blake3) txs))"

text \<open>
  C10. The transactions root of a block binds its transactions: two blocks with the same number of
  transactions and the same root have transactions with the same hash preimages, position by position,
  or two different strings hashed to compute the two roots collide.
\<close>

theorem block_root_binds:
  assumes "hash32 blake3" and "length txs = length txs'"
    and "computeMerkleRoot blake3 txs = computeMerkleRoot blake3 txs'"
  shows "map Transaction_preimage txs = map Transaction_preimage txs' \<or> collides blake3 (root_inputs blake3 txs) (root_inputs blake3 txs')"
proof (cases "txs = []")
  case True
  then show ?thesis using assms(2) by simp
next
  case False
  have nodes: "nodes (map (Transaction_compute_hash blake3) ts)" for ts :: "Transaction list"
    using assms(1) by (auto simp: nodes_def hash32_def Transaction_compute_hash_def)
  have "txs' \<noteq> []"
    using False assms(2) by auto
  then have "hd (block_loop blake3 (map (Transaction_compute_hash blake3) txs))
      = hd (block_loop blake3 (map (Transaction_compute_hash blake3) txs'))"
    using assms(3) False by (simp add: computeMerkleRoot_def)
  then have "map (Transaction_compute_hash blake3) txs = map (Transaction_compute_hash blake3) txs'
      \<or> collides blake3 (root_inputs blake3 txs) (root_inputs blake3 txs')"
    using block_tree.root_binds [OF assms(1) nodes nodes, of txs txs' "length txs"] assms(2) False
    by (auto simp: root_inputs_def collides_Un)
  moreover have "map (Transaction_compute_hash blake3) txs = map (Transaction_compute_hash blake3) txs' \<Longrightarrow> ?thesis"
    using map_hash_eq [of blake3 "map Transaction_preimage txs" "map Transaction_preimage txs'"]
    by (auto simp: compute_hash_comp root_inputs_def collides_Un)
  ultimately show ?thesis
    by blast
qed

theorem block_root_binds_witness:
  "collides (\<lambda>b. replicate 32 (of_nat (length b)))
     (root_inputs (\<lambda>b. replicate 32 (of_nat (length b))) [(Transaction_default 0 [])\<lparr>tx_from := ''a'', tx_to := ''b'', tx_value := 1\<rparr>])
     (root_inputs (\<lambda>b. replicate 32 (of_nat (length b))) [(Transaction_default 0 [])\<lparr>tx_from := ''a'', tx_to := ''b'', tx_value := 2\<rparr>])"
proof -
  let ?t = "\<lambda>v. (Transaction_default 0 [])\<lparr>tx_from := ''a'', tx_to := ''b'', tx_value := v\<rparr>"
    and ?H = "\<lambda>b. replicate 32 (of_nat (length b)) :: bytes"
  have "computeMerkleRoot ?H [?t 1] = computeMerkleRoot ?H [?t 2]"
    by (simp add: computeMerkleRoot_def block_loop.simps Transaction_compute_hash_def Transaction_preimage_def)
  then have "map Transaction_preimage [?t 1] = map Transaction_preimage [?t 2] \<or> collides ?H (root_inputs ?H [?t 1]) (root_inputs ?H [?t 2])"
    by (intro block_root_binds) (auto simp: hash32_def)
  moreover have "Transaction_preimage (?t 1) \<noteq> Transaction_preimage (?t 2)"
    by (simp add: Transaction_preimage_split)
  ultimately show ?thesis
    by simp
qed

text \<open>
  The padding of odd levels is ambiguous: repeating the last transaction of a block with an odd
  number of at least three transactions does not change its root, whatever the hash function.
\<close>

theorem block_root_duplicates:
  assumes "odd (length txs)" and "1 < length txs"
  shows "computeMerkleRoot blake3 (txs @ [last txs]) = computeMerkleRoot blake3 txs"
proof -
  let ?hs = "map (Transaction_compute_hash blake3) txs"
  have "last ?hs = Transaction_compute_hash blake3 (last txs)"
    using assms by (intro last_map) auto
  then have "block_level blake3 (?hs @ [Transaction_compute_hash blake3 (last txs)]) = block_level blake3 ?hs"
    using block_level_pad [of ?hs blake3] assms(1) by simp
  then show ?thesis
    using assms(2) block_tree.root_step [of ?hs blake3]
      block_tree.root_step [of "?hs @ [Transaction_compute_hash blake3 (last txs)]" blake3]
    by (auto simp: computeMerkleRoot_def)
qed

theorem block_root_duplicates_witness:
  "computeMerkleRoot (\<lambda>b. b) (replicate 3 (Transaction_default 0 []) @ [last (replicate 3 (Transaction_default 0 []))])
    = computeMerkleRoot (\<lambda>b. b) (replicate 3 (Transaction_default 0 []))"
  by (rule block_root_duplicates) simp_all

lemma addTransaction_step:
  fixes b :: "'d AIBlock"
  assumes "\<forall>t \<in> set (transactions b). Transaction_is_valid t"
    and "distinct (map (Transaction_compute_hash H) (transactions b))"
    and "b' = snd (AIBlock_addTransaction ops H tx b)"
  shows "\<forall>t \<in> set (transactions b'). Transaction_is_valid t"
    and "distinct (map (Transaction_compute_hash H) (transactions b'))"
    and "set (transactions b) \<subseteq> set (transactions b')" and "set (transactions b') \<subseteq> insert tx (set (transactions b))"
    and "Transaction_is_valid tx \<Longrightarrow>
      Transaction_compute_hash H tx \<in> Transaction_compute_hash H ` set (transactions b')"
    and "transactions_root (header b') = transactions_root (header b)" and "quantum_proof b' = quantum_proof b"
  using assms(1,2) unfolding assms(3)
  by (auto simp: AIBlock_addTransaction_def list_ex_iff image_iff) metis

text \<open>
  C9. A block filled by \<open>addTransaction\<close> holds only valid transactions with pairwise different hashes,
  every valid transaction offered to it is represented by one with its hash, and it passes
  \<open>verifyBlock\<close> exactly when it is not empty and the transactions root that its header was created with
  is the Merkle root of what was added.
\<close>

theorem filled_block_spec:
  "let b = foldl (\<lambda>b tx. snd (AIBlock_addTransaction ops H tx b)) (AIBlock_new h) txs in
    distinct (map (Transaction_compute_hash H) (transactions b))
    \<and> set (transactions b) \<subseteq> {t \<in> set txs. Transaction_is_valid t}
    \<and> (Transaction_compute_hash H ` {t \<in> set txs. Transaction_is_valid t}
        = Transaction_compute_hash H ` set (transactions b))
    \<and> (verifyBlock H b \<longleftrightarrow> transactions b \<noteq> [] \<and> computeMerkleRoot H (transactions b) = transactions_root h)"
proof -
  define b where "b = foldl (\<lambda>b tx. snd (AIBlock_addTransaction ops H tx b)) (AIBlock_new h) txs"
  have inv: "(\<forall>t \<in> set (transactions b). Transaction_is_valid t)
    \<and> distinct (map (Transaction_compute_hash H) (transactions b))
    \<and> set (transactions b) \<subseteq> {t \<in> set txs. Transaction_is_valid t}
    \<and> (\<forall>t \<in> set txs. Transaction_is_valid t \<longrightarrow>
         Transaction_compute_hash H t \<in> Transaction_compute_hash H ` set (transactions b))
    \<and> transactions_root (header b) = transactions_root h \<and> quantum_proof b = []"
    unfolding b_def
  proof (induction txs rule: rev_induct)
    case Nil
    show ?case by (simp add: AIBlock_new_def)
  next
    case (snoc tx txs)
    define c where "c = foldl (\<lambda>b tx. snd (AIBlock_addTransaction ops H tx b)) (AIBlock_new h) txs"
    note IH = snoc.IH [folded c_def]
    note step = addTransaction_step [where b = c and H = H and ops = ops and tx = tx, OF _ _ refl]
    have "foldl (\<lambda>b tx. snd (AIBlock_addTransaction ops H tx b)) (AIBlock_new h) (txs @ [tx])
        = snd (AIBlock_addTransaction ops H tx c)"
      by (simp add: c_def)
    then show ?case
      using IH step by (auto simp: image_iff) blast+
  qed
  then show ?thesis
    unfolding b_def [symmetric] Let_def
    by (auto simp: verifyBlock_def validateTransactions_def list_all_iff verifyQuantumProof_def)
qed

end
