(* ===== verification/Address_Manager.thy ===== *)
theory Address_Manager
  imports Std_Map
begin

text \<open>
  The address manager (\<open>include/blockchain/AddressManager.hpp\<close>, \<open>src/blockchain/AddressManager.cpp\<close>,
  \<open>include/blockchain/Account.hpp\<close>): accounts and transfers, the quantum states and proofs registered
  for them, address encoding and the verifiable secret sharing of locations. The types of quantum
  states, proofs, \<open>double\<close> and \<open>complex<double>\<close> are type variables; the floating-point operations the
  sharing uses are the record \<open>cops\<close>, so what is proved of it holds in any arithmetic.
\<close>

section \<open>Accounts\<close>

record BAccount =
  ba_address :: string
  ba_balance :: u64
  ba_nonce :: u64
  ba_code :: bytes
  ba_is_contract :: bool

definition BAccount_balance_ctor :: "string \<Rightarrow> u64 \<Rightarrow> BAccount" where
  "BAccount_balance_ctor addr bal =
     \<lparr>ba_address = addr, ba_balance = bal, ba_nonce = 0, ba_code = [], ba_is_contract = False\<rparr>"

definition BAccount_code_ctor :: "string \<Rightarrow> bytes \<Rightarrow> u64 \<Rightarrow> BAccount" where
  "BAccount_code_ctor addr code bal =
     \<lparr>ba_address = addr, ba_balance = bal, ba_nonce = 0, ba_code = code, ba_is_contract = False\<rparr>"

record ('q, 'p) AddressManager =
  am_accounts :: "(string, BAccount) smap"
  quantum_states :: "(string, 'q) smap"
  stored_proofs :: "(string, 'p) smap"

definition AddressManager_new :: "('q, 'p) AddressManager" where
  "AddressManager_new = \<lparr>am_accounts = [], quantum_states = [], stored_proofs = []\<rparr>"

definition create_account :: "string \<Rightarrow> u64 \<Rightarrow> ('q, 'p) AddressManager \<Rightarrow> bool \<times> ('q, 'p) AddressManager" where
  "create_account address initial_balance am =
     (if map_find (am_accounts am) address \<noteq> None then (False, am)
      else (True, am\<lparr>am_accounts :=
        map_put address (BAccount_balance_ctor address initial_balance) (am_accounts am)\<rparr>))"

definition create_contract_account ::
    "string \<Rightarrow> bytes \<Rightarrow> u64 \<Rightarrow> ('q, 'p) AddressManager \<Rightarrow> bool \<times> ('q, 'p) AddressManager" where
  "create_contract_account address code initial_balance am =
     (if map_find (am_accounts am) address \<noteq> None then (False, am)
      else (True, am\<lparr>am_accounts :=
        map_put address (BAccount_code_ctor address code initial_balance) (am_accounts am)\<rparr>))"

definition delete_account :: "string \<Rightarrow> ('q, 'p) AddressManager \<Rightarrow> bool \<times> ('q, 'p) AddressManager" where
  "delete_account address am =
     (map_count (am_accounts am) address, am\<lparr>am_accounts := map_erase address (am_accounts am)\<rparr>)"

text \<open>Both iterators are taken before the balances change; they alias when \<open>from\<close> is \<open>to\<close>.\<close>

definition am_transfer :: "string \<Rightarrow> string \<Rightarrow> u64 \<Rightarrow> ('q, 'p) AddressManager \<Rightarrow> bool \<times> ('q, 'p) AddressManager" where
  "am_transfer from to amount am =
     (case (map_find (am_accounts am) from, map_find (am_accounts am) to) of
        (Some f, Some t) \<Rightarrow>
          if ba_balance f < amount then (False, am)
          else let accs = map_put from (f\<lparr>ba_balance := ba_balance f - amount\<rparr>) (am_accounts am) in
               (case map_find accs to of
                  Some t \<Rightarrow> (True, am\<lparr>am_accounts := map_put to (t\<lparr>ba_balance := ba_balance t + amount\<rparr>) accs\<rparr>)
                | None \<Rightarrow> (False, am))
      | _ \<Rightarrow> (False, am))"

definition am_get_balance :: "string \<Rightarrow> ('q, 'p) AddressManager \<Rightarrow> u64" where
  "am_get_balance address am =
     (case map_find (am_accounts am) address of None \<Rightarrow> 0 | Some a \<Rightarrow> ba_balance a)"

definition am_set_balance :: "string \<Rightarrow> u64 \<Rightarrow> ('q, 'p) AddressManager \<Rightarrow> bool \<times> ('q, 'p) AddressManager" where
  "am_set_balance address bal am =
     (case map_find (am_accounts am) address of
        None \<Rightarrow> (False, am)
      | Some a \<Rightarrow> (True, am\<lparr>am_accounts := map_put address (a\<lparr>ba_balance := bal\<rparr>) (am_accounts am)\<rparr>))"

definition deploy_code :: "string \<Rightarrow> bytes \<Rightarrow> ('q, 'p) AddressManager \<Rightarrow> bool \<times> ('q, 'p) AddressManager" where
  "deploy_code address code am =
     (case map_find (am_accounts am) address of
        None \<Rightarrow> (False, am)
      | Some a \<Rightarrow> (True, am\<lparr>am_accounts := map_put address (a\<lparr>ba_code := code\<rparr>) (am_accounts am)\<rparr>))"

definition am_get_code :: "string \<Rightarrow> ('q, 'p) AddressManager \<Rightarrow> bytes" where
  "am_get_code address am =
     (case map_find (am_accounts am) address of None \<Rightarrow> [] | Some a \<Rightarrow> ba_code a)"

definition am_get_nonce :: "string \<Rightarrow> ('q, 'p) AddressManager \<Rightarrow> u64" where
  "am_get_nonce address am =
     (case map_find (am_accounts am) address of None \<Rightarrow> 0 | Some a \<Rightarrow> ba_nonce a)"

definition increment_nonce :: "string \<Rightarrow> ('q, 'p) AddressManager \<Rightarrow> bool \<times> ('q, 'p) AddressManager" where
  "increment_nonce address am =
     (case map_find (am_accounts am) address of
        None \<Rightarrow> (False, am)
      | Some a \<Rightarrow> (True, am\<lparr>am_accounts := map_put address (a\<lparr>ba_nonce := ba_nonce a + 1\<rparr>) (am_accounts am)\<rparr>))"

definition account_exists :: "string \<Rightarrow> ('q, 'p) AddressManager \<Rightarrow> bool" where
  "account_exists address am \<longleftrightarrow> map_find (am_accounts am) address \<noteq> None"

definition is_contract_account :: "string \<Rightarrow> ('q, 'p) AddressManager \<Rightarrow> bool" where
  "is_contract_account address am \<longleftrightarrow>
     (case map_find (am_accounts am) address of None \<Rightarrow> False | Some a \<Rightarrow> ba_code a \<noteq> [])"

definition register_quantum_state :: "string \<Rightarrow> 'q \<Rightarrow> ('q, 'p) AddressManager \<Rightarrow> bool \<times> ('q, 'p) AddressManager" where
  "register_quantum_state address state am =
     (if \<not> account_exists address am then (False, am)
      else (True, am\<lparr>quantum_states := map_put address state (quantum_states am)\<rparr>))"

definition verify_quantum_state :: "('q \<Rightarrow> 'q \<Rightarrow> bool) \<Rightarrow> string \<Rightarrow> 'q \<Rightarrow> ('q, 'p) AddressManager \<Rightarrow> bool" where
  "verify_quantum_state eq address state am =
     (case map_find (quantum_states am) address of None \<Rightarrow> False | Some q \<Rightarrow> eq q state)"

definition store_proof :: "string \<Rightarrow> 'p \<Rightarrow> ('q, 'p) AddressManager \<Rightarrow> bool \<times> ('q, 'p) AddressManager" where
  "store_proof address proof am =
     (if \<not> account_exists address am then (False, am)
      else (True, am\<lparr>stored_proofs := map_put address proof (stored_proofs am)\<rparr>))"

definition am_verify_proof :: "('p \<Rightarrow> 'q \<Rightarrow> bool) \<Rightarrow> 'q \<Rightarrow> 'p \<Rightarrow> bool" where
  "am_verify_proof qzkp_verify_proof state proof = qzkp_verify_proof proof state"

section \<open>Addresses\<close>

record 'd LocationData =
  latitude :: 'd
  longitude :: 'd
  country :: string
  city :: string

record AddressComponents =
  location_hash :: bytes
  zkp_commitment :: bytes
  zkp_proof :: bytes
  purpose :: string

abbreviation ADDRESS_LENGTH :: nat where "ADDRESS_LENGTH \<equiv> 42"
abbreviation ADDRESS_PREFIX :: string where "ADDRESS_PREFIX \<equiv> ''qu_0x''"

definition starts_with :: "string \<Rightarrow> string \<Rightarrow> bool" where
  "starts_with s p \<longleftrightarrow> take (length p) s = p"

definition computeLocationHash :: "(bytes \<Rightarrow> bytes) \<Rightarrow> ('d LocationData \<Rightarrow> bytes) \<Rightarrow> 'd LocationData \<Rightarrow> bytes" where
  "computeLocationHash blake3 to_json location = blake3 (to_json location)"

definition createLocationVector :: "'d \<Rightarrow> 'd LocationData \<Rightarrow> 'd list" where
  "createLocationVector zero location = [latitude location, longitude location, zero, zero]"

definition generateZKPCommitment :: "'d list \<Rightarrow> bytes \<Rightarrow> bytes" where
  "generateZKPCommitment location_vector identifier = replicate 32 0"

definition generateZKPProof :: "'d list \<Rightarrow> bytes \<Rightarrow> bytes" where
  "generateZKPProof location_vector commitment = replicate 64 0"

text \<open>The body of \<open>encodeAddress\<close> is empty: control flows off the end of a function that returns a value.\<close>

definition encodeAddress :: "AddressComponents \<Rightarrow> string res" where
  "encodeAddress components = Inl (Undefined ''no return statement'')"

text \<open>\<open>decodeAddress\<close> leaves the array \<open>location_hash\<close> uninitialised: \<open>h\<close> is what it happens to hold.\<close>

definition decodeAddress :: "bytes \<Rightarrow> string \<Rightarrow> AddressComponents option" where
  "decodeAddress h address =
     (if \<not> starts_with address ADDRESS_PREFIX then None
      else Some \<lparr>location_hash = h, zkp_commitment = [], zkp_proof = [], purpose = ''EOA''\<rparr>)"

definition generateAddress :: "'d \<Rightarrow> (bytes \<Rightarrow> bytes) \<Rightarrow> ('d LocationData \<Rightarrow> bytes) \<Rightarrow>
    'd LocationData \<Rightarrow> string \<Rightarrow> string option res" where
  "generateAddress zero blake3 to_json location purp =
     (let location_vector = createLocationVector zero location;
          loc_hash = computeLocationHash blake3 to_json location;
          commitment = generateZKPCommitment location_vector loc_hash;
          proof = generateZKPProof location_vector commitment
      in case encodeAddress \<lparr>location_hash = loc_hash, zkp_commitment = commitment,
                             zkp_proof = proof, purpose = purp\<rparr> of
           Inl e \<Rightarrow> Inl e | Inr s \<Rightarrow> Inr (Some s))"

definition is_xdigit :: "char \<Rightarrow> bool" where
  "is_xdigit c \<longleftrightarrow> (let n = (of_char c :: nat) in
     48 \<le> n \<and> n \<le> 57 \<or> 65 \<le> n \<and> n \<le> 70 \<or> 97 \<le> n \<and> n \<le> 102)"

definition verifyAddress :: "bytes \<Rightarrow> string \<Rightarrow> bool" where
  "verifyAddress h address =
     (if length address \<noteq> ADDRESS_LENGTH \<or> \<not> starts_with address ADDRESS_PREFIX then False
      else case decodeAddress h address of
             None \<Rightarrow> False
           | Some components \<Rightarrow>
               if length (location_hash components) \<noteq> 32 \<or> zkp_commitment components = []
                  \<or> zkp_proof components = [] then False
               else if purpose components \<noteq> ''EOA'' \<and> purpose components \<noteq> ''CONTRACT'' then False
               else if \<not> list_all is_xdigit (drop (length ADDRESS_PREFIX) address) then False
               else True)"

definition verifyLocation :: "bytes \<Rightarrow> (bytes \<Rightarrow> bytes) \<Rightarrow> ('d LocationData \<Rightarrow> bytes) \<Rightarrow> string \<Rightarrow> 'd LocationData \<Rightarrow> bool" where
  "verifyLocation h blake3 to_json address location =
     (case decodeAddress h address of
        None \<Rightarrow> False
      | Some components \<Rightarrow> computeLocationHash blake3 to_json location = location_hash components)"

section \<open>Secret sharing\<close>

text \<open>
  The operations on \<open>double\<close> ('d) and \<open>complex<double>\<close> ('c) that the sharing uses; \<open>cimage\<close> is the
  16-byte memory image that \<open>computeShareCommitment\<close> hashes part by part.
\<close>

record ('d, 'c) cops =
  czero :: 'c
  cadd :: "'c \<Rightarrow> 'c \<Rightarrow> 'c"
  cmul :: "'c \<Rightarrow> 'c \<Rightarrow> 'c"
  cdiv :: "'c \<Rightarrow> 'c \<Rightarrow> 'c"
  creal :: "'d \<Rightarrow> 'c"
  cre :: "'c \<Rightarrow> 'd"
  dzero :: 'd
  dneg :: "'d \<Rightarrow> 'd"
  of_size :: "u64 \<Rightarrow> 'd"
  cimage :: "'c \<Rightarrow> bytes"
  coords_ok :: "'d \<Rightarrow> 'd \<Rightarrow> bool"

abbreviation LOCATION_VECTOR_SIZE :: nat where "LOCATION_VECTOR_SIZE \<equiv> 4"
abbreviation MIN_SHARES :: u64 where "MIN_SHARES \<equiv> 3"
abbreviation MAX_SHARES :: u64 where "MAX_SHARES \<equiv> 10"
abbreviation POLYNOMIAL_DEGREE :: nat where "POLYNOMIAL_DEGREE \<equiv> 8"

record 'c VSSShare =
  share_data :: "'c list"
  share_index :: u64
  share_commitment :: bytes

record 'c VSSScheme =
  shares :: "'c VSSShare list"
  threshold_of :: u64
  root_commitment :: bytes

text \<open>\<open>vector poly(degree + 1)\<close>: the size wraps to 0 for the largest degree, and then the first write is out of range.\<close>

definition createPolynomial :: "('d, 'c) cops \<Rightarrow> 'd list \<Rightarrow> u64 \<Rightarrow> 'c list res" where
  "createPolynomial ops coefficients degree =
     (let n = unat (degree + 1);
          writes = min (unat degree + 1) (length coefficients)
      in if n < writes then Inl (Undefined ''poly subscript'')
         else Inr (map (creal ops) (take writes coefficients) @ replicate (n - writes) (czero ops)))"

text \<open>The two nested loops: every component accumulates the same terms.\<close>

definition evaluatePolynomial :: "('d, 'c) cops \<Rightarrow> 'c \<Rightarrow> 'c list \<Rightarrow> 'c \<Rightarrow> 'c list" where
  "evaluatePolynomial ops one poly x =
     fst (foldl (\<lambda>(result, x_power) coeff.
            (map (\<lambda>r. cadd ops r (cmul ops coeff x_power)) result, cmul ops x_power x))
          (replicate LOCATION_VECTOR_SIZE (czero ops), one) poly)"

definition computeShareCommitment :: "('d, 'c) cops \<Rightarrow> (bytes \<Rightarrow> bytes) \<Rightarrow> 'c list \<Rightarrow> bytes" where
  "computeShareCommitment ops blake3 data = blake3 (concat (map (cimage ops) data))"

text \<open>
  \<open>generateShares\<close>. \<open>amplitudes_ok\<close> says that setting the amplitudes of the temporary state does not
  throw, \<open>dist\<close> are the random coefficients, \<open>one\<close> is \<open>complex(1, 0)\<close>.
\<close>

definition generateShares :: "('d, 'c) cops \<Rightarrow> 'c \<Rightarrow> (bytes \<Rightarrow> bytes) \<Rightarrow> ('d list \<Rightarrow> exn option) \<Rightarrow>
    (nat \<Rightarrow> 'd) \<Rightarrow> 'd LocationData \<Rightarrow> u64 \<Rightarrow> u64 \<Rightarrow> 'c VSSScheme res" where
  "generateShares ops one blake3 amplitudes_ok dist location num_shares threshold =
     (if num_shares < MIN_SHARES \<or> num_shares > MAX_SHARES \<or> threshold > num_shares
      then Inl (Invalid_argument ''Invalid share parameters'')
      else let location_vector = createLocationVector (dzero ops) location in
        case amplitudes_ok location_vector of
          Some e \<Rightarrow> Inl e
        | None \<Rightarrow>
            let coefficients = [location_vector ! 0, location_vector ! 1] @ map dist [2..<POLYNOMIAL_DEGREE] in
            (case createPolynomial ops coefficients (threshold - 1) of
               Inl e \<Rightarrow> Inl e
             | Inr polynomial \<Rightarrow>
                 Inr \<lparr>shares = map (\<lambda>i. let d = evaluatePolynomial ops one polynomial (creal ops (of_size ops (of_nat i)))
                                        in \<lparr>share_data = d, share_index = of_nat i,
                                            share_commitment = computeShareCommitment ops blake3 d\<rparr>)
                              [1..<unat num_shares + 1],
                      threshold_of = threshold,
                      root_commitment = computeShareCommitment ops blake3 polynomial\<rparr>))"

definition verifyShare :: "('d, 'c) cops \<Rightarrow> (bytes \<Rightarrow> bytes) \<Rightarrow> ('c list \<Rightarrow> exn option) \<Rightarrow>
    ('c list \<Rightarrow> bytes \<Rightarrow> bool) \<Rightarrow> 'c VSSShare \<Rightarrow> bytes \<Rightarrow> bool" where
  "verifyShare ops blake3 amplitudes_ok qzkp_verify_share share root =
     (if share_data share = [] \<or> length (share_data share) \<noteq> LOCATION_VECTOR_SIZE then False
      else if share_index share = 0 then False
      else if computeShareCommitment ops blake3 (share_data share) \<noteq> share_commitment share then False
      else case amplitudes_ok (share_data share) of
             Some e \<Rightarrow> False
           | None \<Rightarrow> qzkp_verify_share (share_data share) root)"

text \<open>The index difference is taken in \<open>size_t\<close> before it is converted to \<open>double\<close>.\<close>

definition lagrange_basis :: "('d, 'c) cops \<Rightarrow> 'c \<Rightarrow> 'c VSSShare list \<Rightarrow> nat \<Rightarrow> nat \<Rightarrow> 'c" where
  "lagrange_basis ops one ss threshold i =
     foldl (\<lambda>b j. if i \<noteq> j
              then cmul ops b (cdiv ops (creal ops (dneg ops (of_size ops (share_index (ss ! j)))))
                                 (creal ops (of_size ops (share_index (ss ! i) - share_index (ss ! j)))))
              else b) one [0..<threshold]"

definition reconstruct_vector :: "('d, 'c) cops \<Rightarrow> 'c \<Rightarrow> 'c VSSShare list \<Rightarrow> nat \<Rightarrow> 'c list" where
  "reconstruct_vector ops one ss threshold =
     foldl (\<lambda>rec i. map (\<lambda>k. cadd ops (rec ! k) (cmul ops (share_data (ss ! i) ! k) (lagrange_basis ops one ss threshold i)))
                       [0..<LOCATION_VECTOR_SIZE])
       (replicate LOCATION_VECTOR_SIZE (czero ops)) [0..<threshold]"

definition reconstructLocation :: "('d, 'c) cops \<Rightarrow> 'c \<Rightarrow> ('c list \<Rightarrow> exn option) \<Rightarrow> ('c list \<Rightarrow> bool) \<Rightarrow>
    'c VSSShare list \<Rightarrow> u64 \<Rightarrow> 'd LocationData option" where
  "reconstructLocation ops one amplitudes_ok isValid ss threshold =
     (if ss = [] then None
      else if of_nat (length ss) < threshold then None
      else if \<not> list_all (\<lambda>share. length (share_data share) = LOCATION_VECTOR_SIZE) ss then None
      else let reconstructed = reconstruct_vector ops one ss (unat threshold);
               location = \<lparr>latitude = cre ops (reconstructed ! 0), longitude = cre ops (reconstructed ! 1),
                           country = [], city = []\<rparr>
           in case amplitudes_ok reconstructed of
                Some e \<Rightarrow> None
              | None \<Rightarrow>
                  if \<not> isValid reconstructed then None
                  else if \<not> coords_ok ops (latitude location) (longitude location) then None
                  else Some location)"

section \<open>Transfers conserve the total\<close>

definition acct_set_balance :: "string \<Rightarrow> u64 \<Rightarrow> (string, BAccount) smap \<Rightarrow> (string, BAccount) smap" where
  "acct_set_balance k v m = (case map_find m k of Some a \<Rightarrow> map_put k (a\<lparr>ba_balance := v\<rparr>) m | None \<Rightarrow> m)"

definition acct_balance :: "(string, BAccount) smap \<Rightarrow> string \<Rightarrow> u64" where
  "acct_balance m k = (case map_find m k of Some a \<Rightarrow> ba_balance a | None \<Rightarrow> 0)"

interpretation accts: ledger acct_set_balance acct_balance "map_total ba_balance" map_count
  by unfold_locales
    (auto simp: acct_set_balance_def acct_balance_def map_count_find map_total_put split: option.splits)

lemma am_transfer_move:
  "am_transfer from to amount am =
     (if account_exists from am \<and> account_exists to am \<and> amount \<le> am_get_balance from am
      then (True, am\<lparr>am_accounts := accts.move from to amount (am_accounts am)\<rparr>) else (False, am))"
  by (auto simp: am_transfer_def account_exists_def am_get_balance_def accts.move_def Let_def not_less
      acct_set_balance_def acct_balance_def split: option.splits)

text \<open>
  \<open>transfer\<close> succeeds exactly when both accounts exist and the sender's balance covers the amount; it
  then debits the sender and credits the recipient (a transfer to oneself changes nothing), touches no
  other account, and keeps the sum of all balances. A refused transfer changes nothing.
\<close>

theorem am_transfer_spec:
  "let (ok, am') = am_transfer from to amount am in
     (ok \<longleftrightarrow> account_exists from am \<and> account_exists to am \<and> amount \<le> am_get_balance from am)
     \<and> map_total ba_balance (am_accounts am') = map_total ba_balance (am_accounts am)
     \<and> (\<forall>k. am_get_balance k am' =
          (if \<not> ok \<or> from = to then am_get_balance k am
           else if k = from then am_get_balance k am - amount
           else if k = to then am_get_balance k am + amount
           else am_get_balance k am))"
proof -
  have bal: "am_get_balance k m = acct_balance (am_accounts m) k" for k m
    by (simp add: am_get_balance_def acct_balance_def split: option.split)
  have ex: "account_exists k am \<longleftrightarrow> map_count (am_accounts am) k" for k
    by (auto simp: account_exists_def map_count_find)
  show ?thesis
    by (auto simp: am_transfer_move bal ex accts.move_total accts.move_bal)
qed

theorem am_transfer_spec_witness:
  "am_get_balance ''b'' (snd (am_transfer ''a'' ''b'' 4
     \<lparr>am_accounts = [(''a'', BAccount_balance_ctor ''a'' 9), (''b'', BAccount_balance_ctor ''b'' 1)],
      quantum_states = [] :: (string, nat) smap, stored_proofs = [] :: (string, nat) smap\<rparr>)) = 5"
  using am_transfer_spec [of "''a''" "''b''" 4
     "\<lparr>am_accounts = [(''a'', BAccount_balance_ctor ''a'' 9), (''b'', BAccount_balance_ctor ''b'' 1)],
      quantum_states = [] :: (string, nat) smap, stored_proofs = [] :: (string, nat) smap\<rparr>"]
  by (simp add: case_prod_beta account_exists_def am_get_balance_def map_find_def BAccount_balance_ctor_def)

section \<open>Addresses and shares\<close>

lemma verifyAddress_rejects: "\<not> verifyAddress h address"
  by (auto simp: verifyAddress_def decodeAddress_def)

lemma generateAddress_undefined: "is_Undefined (generateAddress zero blake3 to_json location purp)"
  by (simp add: generateAddress_def encodeAddress_def Let_def)

lemma generateShares_threshold_zero:
  assumes "MIN_SHARES \<le> n" and "n \<le> MAX_SHARES" and "amp (createLocationVector (dzero ops) loc) = None"
  shows "is_Undefined (generateShares ops one blake3 amp dist loc n 0)"
  using assms by (simp add: generateShares_def createPolynomial_def Let_def not_less)

lemma evaluatePolynomial_constant: "\<exists>v. evaluatePolynomial ops one poly x = replicate LOCATION_VECTOR_SIZE v"
proof -
  have "\<exists>v q. foldl (\<lambda>(result, x_power) coeff.
      (map (\<lambda>r. cadd ops r (cmul ops coeff x_power)) result, cmul ops x_power x))
      (replicate LOCATION_VECTOR_SIZE u, w) poly = (replicate LOCATION_VECTOR_SIZE v, q)" for u w
  proof (induction poly arbitrary: u w)
    case (Cons c poly)
    show ?case
      using Cons.IH [of "cadd ops u (cmul ops c w)" "cmul ops w x"] by simp
  qed auto
  from this [of "czero ops" one] show ?thesis
    by (auto simp: evaluatePolynomial_def)
qed

lemma reconstruct_constant:
  assumes "\<forall>i < n. \<exists>v. share_data (ss ! i) = replicate LOCATION_VECTOR_SIZE v"
  shows "\<exists>v. reconstruct_vector ops one ss n = replicate LOCATION_VECTOR_SIZE v"
proof -
  let ?f = "\<lambda>rec i. map (\<lambda>k. cadd ops (rec ! k) (cmul ops (share_data (ss ! i) ! k) (lagrange_basis ops one ss n i)))
    [0..<LOCATION_VECTOR_SIZE]"
  have "\<exists>v. foldl ?f (replicate LOCATION_VECTOR_SIZE u) is = replicate LOCATION_VECTOR_SIZE v"
    if "set is \<subseteq> {..<n}" for u "is"
    using that
  proof (induction "is" arbitrary: u)
    case (Cons i "is")
    obtain v where v: "share_data (ss ! i) = replicate LOCATION_VECTOR_SIZE v"
      using Cons.prems assms by auto
    have "?f (replicate LOCATION_VECTOR_SIZE u) i =
        replicate LOCATION_VECTOR_SIZE (cadd ops u (cmul ops v (lagrange_basis ops one ss n i)))"
      by (auto simp: v intro!: nth_equalityI)
    then show ?case
      using Cons by simp
  qed auto
  from this [of "[0..<n]" "czero ops"] show ?thesis
    by (simp add: reconstruct_vector_def lessThan_def subset_iff)
qed

text \<open>
  The shares of a location cannot give it back: the polynomial is evaluated with the same
  coefficients for every component, so whatever the arithmetic, the random coefficients and the choice
  of shares, a reconstructed location has its latitude equal to its longitude.
\<close>

theorem shares_lose_coordinates:
  assumes "generateShares ops one blake3 amp dist loc n t = Inr scheme"
    and "set ss \<subseteq> set (shares scheme)"
    and "reconstructLocation ops' one' amp' isValid ss t' = Some loc'"
  shows "latitude loc' = longitude loc'"
proof -
  have "\<exists>v. share_data sh = replicate LOCATION_VECTOR_SIZE v" if "sh \<in> set (shares scheme)" for sh
    using assms(1) that evaluatePolynomial_constant
    by (auto simp: generateShares_def Let_def split: if_splits option.splits sum.splits)
  then have "\<exists>v. share_data (ss ! i) = replicate LOCATION_VECTOR_SIZE v" if "i < length ss" for i
    using that assms(2) by (auto dest: nth_mem)
  moreover have "unat t' \<le> length ss"
    using assms(3) unat_of_nat [of "length ss", where 'a = 64]
    by (auto simp: reconstructLocation_def word_less_nat_alt not_less split: if_splits
        intro: order_trans [OF _ mod_less_eq_dividend])
  ultimately obtain v where "reconstruct_vector ops' one' ss (unat t') = replicate LOCATION_VECTOR_SIZE v"
    using reconstruct_constant [of "unat t'" ss ops' one'] by auto
  then show ?thesis
    using assms(3) by (auto simp: reconstructLocation_def Let_def split: if_splits option.splits)
qed

definition int_ops :: "(int, int) cops" where
  "int_ops = \<lparr>czero = 0, cadd = (+), cmul = (*), cdiv = (div), creal = (\<lambda>x. x), cre = (\<lambda>x. x), dzero = 0,
     dneg = uminus, of_size = (\<lambda>w. int (unat w)), cimage = (\<lambda>_. []), coords_ok = (\<lambda>_ _. True)\<rparr>"

theorem shares_lose_coordinates_witness:
  "\<exists>scheme loc'. generateShares int_ops 1 (\<lambda>b. b) (\<lambda>_. None) (\<lambda>_. 0)
       \<lparr>latitude = 40, longitude = 7, country = [], city = []\<rparr> 3 1 = Inr scheme
     \<and> reconstructLocation int_ops 1 (\<lambda>_. None) (\<lambda>_. True) (shares scheme) 1 = Some loc'
     \<and> latitude loc' = longitude loc'"
proof -
  let ?loc = "\<lparr>latitude = 40, longitude = 7, country = [], city = []\<rparr>"
  obtain scheme where sch: "generateShares int_ops 1 (\<lambda>b. b) (\<lambda>_. None) (\<lambda>_. 0) ?loc 3 1 = Inr scheme"
    by (simp add: generateShares_def createPolynomial_def Let_def)
  have "shares scheme \<noteq> []" "list_all (\<lambda>share. length (share_data share) = 4) (shares scheme)"
    "length (shares scheme) = 3"
    using sch evaluatePolynomial_constant [of int_ops 1]
    by (auto simp: generateShares_def createPolynomial_def Let_def list_all_iff)
      (metis length_replicate)
  then obtain loc' where "reconstructLocation int_ops 1 (\<lambda>_. None) (\<lambda>_. True) (shares scheme) 1 = Some loc'"
    by (simp add: reconstructLocation_def Let_def int_ops_def)
  with sch shares_lose_coordinates [OF sch order_refl this] show ?thesis
    by blast
qed

end
