(* ===== verification/Codec.thy ===== *)
theory Codec
  imports Prelude
begin

text \<open>
  Decoders that walk a vector with a \<open>size_t offset\<close>, as \<open>StateManager::Account::deserialize\<close> does: each
  field is guarded by a test \<open>offset + n > data.size()\<close> in 64-bit arithmetic, answers \<open>std::nullopt\<close> when
  the test fires, and otherwise copies the range and advances the offset. A field that passes the test
  because the sum wrapped copies a range outside the vector, which is \<open>Undefined\<close>. The locale
  \<open>field_codec\<close> is the contract of a decoder with its encoder.
\<close>

definition opt_bind :: "'a option res \<Rightarrow> ('a \<Rightarrow> 'b option res) \<Rightarrow> 'b option res" where
  "opt_bind x f = (case x of Inl e \<Rightarrow> Inl e | Inr None \<Rightarrow> Inr None | Inr (Some a) \<Rightarrow> f a)"

lemma opt_bind_simps [simp, flow_simps]:
  "opt_bind (Inl e) f = Inl e" "opt_bind (Inr None) f = Inr None" "opt_bind (Inr (Some a)) f = f a"
  by (simp_all add: opt_bind_def)

definition vsize :: "bytes \<Rightarrow> u64" where
  "vsize data = of_nat (length data)"

text \<open>\<open>if (offset + n > data.size()) return nullopt;\<close> then the range of \<open>n\<close> bytes and the new offset.\<close>

definition take_block :: "bytes \<Rightarrow> u64 \<Rightarrow> u64 \<Rightarrow> (bytes \<times> u64) option res" where
  "take_block data off n =
     (if off + n > vsize data then Inr None
      else case slice_at data off n of Inl e \<Rightarrow> Inl e | Inr bs \<Rightarrow> Inr (Some (bs, off + n)))"

text \<open>A guarded \<open>memcpy(&x, data.data() + offset, sizeof(size_t))\<close>.\<close>

definition take_u64 :: "bytes \<Rightarrow> u64 \<Rightarrow> (u64 \<times> u64) option res" where
  "take_u64 data off =
     opt_bind (take_block data off 8) (\<lambda>(bs, off). Inr (Some (bytes_u64 bs, off)))"

text \<open>A block preceded by its length.\<close>

definition take_sized :: "bytes \<Rightarrow> u64 \<Rightarrow> (bytes \<times> u64) option res" where
  "take_sized data off = opt_bind (take_u64 data off) (\<lambda>(n, off). take_block data off n)"

definition sized :: "bytes \<Rightarrow> bytes" where
  "sized bs = u64_bytes (of_nat (length bs)) @ bs"

section \<open>The contract\<close>

text \<open>The unread part of the vector is \<open>suf\<close>.\<close>

definition unread :: "bytes \<Rightarrow> u64 \<Rightarrow> bytes \<Rightarrow> bool" where
  "unread data off suf \<longleftrightarrow>
     drop (unat off) data = suf \<and> unat off \<le> length data \<and> length data < 2 ^ 64"

lemma unat_vsize: "length data < 2 ^ 64 \<Longrightarrow> unat (vsize data) = length data"
  by (simp add: vsize_def unat_of_nat)

lemma unread_start: "length data < 2 ^ 64 \<Longrightarrow> unread data 0 data"
  by (simp add: unread_def)

lemma unread_advance:
  "unread data off (xs @ rest) \<Longrightarrow> unread data (off + of_nat (length xs)) rest"
  using drop_advance [of off data xs rest] by (simp add: unread_def)

lemma take_block_unread:
  assumes "unread data off (xs @ rest)" and "n = of_nat (length xs)"
  shows "take_block data off n = Inr (Some (xs, off + n))"
proof -
  have a: "drop (unat off) data = xs @ rest" "length data < 2 ^ 64" "unat off \<le> length data"
    using assms(1) by (simp_all add: unread_def)
  note adv = drop_advance [OF a]
  have n: "unat n = length xs"
    using adv(3) a(2) by (simp add: assms(2) unat_of_nat)
  have "\<not> off + n > vsize data"
    using adv(1,3) a(2) by (simp add: assms(2) vsize_def word_less_nat_alt unat_of_nat)
  then show ?thesis
    using slice_at_drop [OF a(1) n a(3)] by (simp add: take_block_def)
qed

locale field_codec =
  fixes enc :: "'a \<Rightarrow> bytes"
    and dec :: "bytes \<Rightarrow> u64 \<Rightarrow> ('a \<times> u64) option res"
    and ok :: "'a \<Rightarrow> bool"
  assumes dec_enc: "unread data off (enc x @ rest) \<Longrightarrow> ok x \<Longrightarrow>
      dec data off = Inr (Some (x, off + of_nat (length (enc x))))"
begin

lemma dec_encE:
  assumes "unread data off (enc x @ rest)" and "ok x"
  obtains off' where "dec data off = Inr (Some (x, off'))" and "unread data off' rest"
  using dec_enc [OF assms] unread_advance [OF assms(1)] by blast

end

text \<open>
  A decoder that starts at the front of the vector and ignores what follows the value it reads. Its
  encoder is a prefix code: no encoding is a proper prefix of another, so concatenated encodings can be
  told apart.
\<close>

locale prefix_codec =
  fixes enc :: "'a \<Rightarrow> bytes"
    and dec_front :: "bytes \<Rightarrow> 'a option res"
    and ok :: "'a \<Rightarrow> bool"
  assumes dec_front_enc: "length (enc x @ rest) < 2 ^ 64 \<Longrightarrow> ok x \<Longrightarrow> dec_front (enc x @ rest) = Inr (Some x)"
begin

lemma enc_unique:
  assumes "enc x @ r = enc y @ s" and "ok x" and "ok y" and "length (enc x @ r) < 2 ^ 64"
  shows "x = y \<and> r = s"
proof -
  have "x = y"
    using dec_front_enc [of x r] dec_front_enc [of y s] assms by simp
  then show ?thesis
    using assms(1) by simp
qed

lemma concat_enc_unique:
  assumes "concat (map enc xs) = concat (map enc ys)" and "\<forall>x \<in> set xs \<union> set ys. ok x \<and> enc x \<noteq> []"
    and "length (concat (map enc xs)) < 2 ^ 64"
  shows "xs = ys"
  using assms
proof (induction xs arbitrary: ys)
  case Nil
  then show ?case by (cases ys) auto
next
  case (Cons x xs)
  show ?case
  proof (cases ys)
    case Nil
    then show ?thesis using Cons.prems by auto
  next
    case (Cons y ys')
    have "x = y \<and> concat (map enc xs) = concat (map enc ys')"
      using Cons.prems by (intro enc_unique) (auto simp: Cons)
    then show ?thesis
      using Cons.IH [of ys'] Cons.prems by (auto simp: Cons)
  qed
qed

end

sublocale field_codec \<subseteq> front: prefix_codec enc "\<lambda>data. opt_bind (dec data 0) (\<lambda>(x, _). Inr (Some x))" ok
  by unfold_locales (simp add: dec_enc [OF unread_start])

interpretation u64_field: field_codec u64_bytes take_u64 "\<lambda>_. True"
  by unfold_locales (simp add: take_u64_def take_block_unread)

interpretation sized_field: field_codec sized take_sized "\<lambda>bs. length bs < 2 ^ 64"
proof
  fix data off rest and x :: bytes
  assume u: "unread data off (sized x @ rest)" and x: "length x < 2 ^ 64"
  then have "unread data off (u64_bytes (of_nat (length x)) @ x @ rest)"
    by (simp add: sized_def)
  then obtain off' where d: "take_u64 data off = Inr (Some (of_nat (length x), off'))"
    and u': "unread data off' (x @ rest)"
    by (rule u64_field.dec_encE) simp
  moreover have "off' = off + 8"
    using d u64_field.dec_enc [OF \<open>unread data off (u64_bytes (of_nat (length x)) @ x @ rest)\<close>] by simp
  ultimately show "take_sized data off = Inr (Some (x, off + of_nat (length (sized x))))"
    by (simp add: take_sized_def take_block_unread [where rest = rest] sized_def add.assoc)
qed

end
