(* ===== verification/State_Manager.thy ===== *)
theory State_Manager
  imports Codec Std_Map Transaction Evm_Storage Evm_Memory "HOL-Library.Multiset"
    "HOL-Library.List_Lexorder" "HOL-Library.Char_ord"
begin

text \<open>
  The rollup's state manager (\<open>include/rollup/StateManager.hpp\<close>, \<open>src/rollup/StateManager.cpp\<close>):
  accounts with their binary encoding, the state root, the transaction rules, reverting, the bounded
  history, and the roots kept by commit and rollback. The \<open>unordered_map\<close>s are association lists whose
  order is the iteration order. Every member function takes \<open>mutex_\<close>; some do so while they already own
  it, which the standard leaves undefined: the ownership of the calling thread is part of the state and
  the parameter \<open>tol\<close> says which such acquisitions the platform tolerates.
\<close>

record Account =
  acc_address :: string
  acc_balance :: u64
  acc_nonce :: u64
  acc_code :: bytes
  acc_storage :: "(bytes, bytes) smap"

datatype lock_mode = Shared | Unique

record StateManager =
  accounts :: "(string, Account) smap"
  current_state_root :: bytes
  previous_state_root :: bytes
  history :: "(string, Transaction list) smap"
  owned :: "lock_mode list"

abbreviation MAX_HISTORY_PER_ACCOUNT :: nat where
  "MAX_HISTORY_PER_ACCOUNT \<equiv> 1000"

section \<open>Encoding of accounts\<close>

definition Account_serialize :: "Account \<Rightarrow> bytes" where
  "Account_serialize a =
     sized (bytes_of_string (acc_address a))
     @ u64_bytes (acc_balance a) @ u64_bytes (acc_nonce a)
     @ sized (acc_code a)
     @ u64_bytes (of_nat (length (acc_storage a)))
     @ concat (map (\<lambda>(key, value). sized key @ sized value) (acc_storage a))"

fun deserialize_storage ::
    "nat \<Rightarrow> bytes \<Rightarrow> u64 \<Rightarrow> (bytes, bytes) smap \<Rightarrow> (bytes, bytes) smap option res" where
  "deserialize_storage 0 data offset st = Inr (Some st)"
| "deserialize_storage (Suc i) data offset st =
     opt_bind (take_sized data offset) (\<lambda>(key, offset).
     opt_bind (take_sized data offset) (\<lambda>(value, offset).
       deserialize_storage i data offset (map_put key value st)))"

text \<open>Balance and nonce are read under one test for both.\<close>

definition take_balance_nonce :: "bytes \<Rightarrow> u64 \<Rightarrow> ((u64 \<times> u64) \<times> u64) option res" where
  "take_balance_nonce data offset =
     opt_bind (take_block data offset 16) (\<lambda>(bs, offset).
       Inr (Some ((bytes_u64 (take 8 bs), bytes_u64 (drop 8 bs)), offset)))"

definition Account_deserialize :: "bytes \<Rightarrow> Account option res" where
  "Account_deserialize data =
     (if vsize data < 8 then Inr None
      else opt_bind (take_sized data 0) (\<lambda>(addr, offset).
           opt_bind (take_balance_nonce data offset) (\<lambda>((bal, non), offset).
           opt_bind (take_sized data offset) (\<lambda>(code, offset).
           opt_bind (take_u64 data offset) (\<lambda>(storage_size, offset).
           opt_bind (deserialize_storage (unat storage_size) data offset []) (\<lambda>st.
             Inr (Some \<lparr>acc_address = string_of_bytes addr, acc_balance = bal, acc_nonce = non,
                        acc_code = code, acc_storage = st\<rparr>)))))))"

section \<open>The state root\<close>

definition address_to_hex :: "Address \<Rightarrow> string" where
  "address_to_hex a = concat (map hex2 (addr_bytes a))"

definition state_preimage :: "(string, Account) smap \<Rightarrow> bytes" where
  "state_preimage accs = concat (map (\<lambda>(addr, account). Account_serialize account) (sort_key fst accs))"

definition calculate_state_root :: "(bytes \<Rightarrow> bytes) \<Rightarrow> (string, Account) smap \<Rightarrow> bytes" where
  "calculate_state_root blake3 accs = blake3 (state_preimage accs)"

definition StateManager_new :: "(bytes \<Rightarrow> bytes) \<Rightarrow> StateManager" where
  "StateManager_new blake3 =
     (let root = calculate_state_root blake3 [] in
      \<lparr>accounts = [], current_state_root = root, previous_state_root = root, history = [], owned = []\<rparr>)"

section \<open>Locking\<close>

text \<open>
  A scoped lock on \<open>mutex_\<close> around \<open>body\<close>. Acquiring a mutex the thread already owns is undefined
  unless \<open>tol\<close> tolerates it; the destructor of the lock releases it.
\<close>

type_synonym tolerance = "lock_mode list \<Rightarrow> lock_mode \<Rightarrow> bool"

definition with_lock :: "tolerance \<Rightarrow> lock_mode \<Rightarrow> (StateManager \<Rightarrow> ('a \<times> StateManager) res) \<Rightarrow>
    StateManager \<Rightarrow> ('a \<times> StateManager) res" where
  "with_lock tol m body s =
     (if owned s \<noteq> [] \<and> \<not> tol (owned s) m then Inl (Undefined ''mutex_ owned by the calling thread'')
      else case body (s\<lparr>owned := m # owned s\<rparr>) of
             Inl e \<Rightarrow> Inl e
           | Inr (x, s') \<Rightarrow> Inr (x, s'\<lparr>owned := owned s\<rparr>))"

definition sm_bind :: "('a \<times> StateManager) res \<Rightarrow> ('a \<Rightarrow> StateManager \<Rightarrow> ('b \<times> StateManager) res) \<Rightarrow>
    ('b \<times> StateManager) res" where
  "sm_bind x f = (case x of Inl e \<Rightarrow> Inl e | Inr (a, s) \<Rightarrow> f a s)"

lemma sm_bind_simps [simp, flow_simps]:
  "sm_bind (Inl e) f = Inl e" "sm_bind (Inr (a, s)) f = f a s"
  by (simp_all add: sm_bind_def)

section \<open>Operations\<close>

definition add_account :: "tolerance \<Rightarrow> string \<Rightarrow> Account \<Rightarrow> StateManager \<Rightarrow> (unit \<times> StateManager) res" where
  "add_account tol address account =
     with_lock tol Unique (\<lambda>s. Inr ((), s\<lparr>accounts := map_put address account (accounts s)\<rparr>))"

definition get_account :: "tolerance \<Rightarrow> string \<Rightarrow> StateManager \<Rightarrow> (Account option \<times> StateManager) res" where
  "get_account tol address = with_lock tol Shared (\<lambda>s. Inr (map_find (accounts s) address, s))"

definition verify_transaction :: "tolerance \<Rightarrow> Transaction \<Rightarrow> StateManager \<Rightarrow> (bool \<times> StateManager) res" where
  "verify_transaction tol tx =
     with_lock tol Shared (\<lambda>s.
       sm_bind (get_account tol (tx_from tx) s) (\<lambda>sender s.
         Inr (case sender of
                None \<Rightarrow> False
              | Some a \<Rightarrow>
                  if tx_nonce tx \<noteq> acc_nonce a + 1 then False
                  else if acc_balance a < tx_value tx + Transaction_calculate_gas_cost tx then False
                  else Transaction_verify tx, s)))"

definition record_transaction ::
    "tolerance \<Rightarrow> string \<Rightarrow> Transaction \<Rightarrow> StateManager \<Rightarrow> (unit \<times> StateManager) res" where
  "record_transaction tol address tx =
     with_lock tol Unique (\<lambda>s.
       let (h, hs) = map_index [] address (history s);
           h = h @ [tx];
           h = (if length h > MAX_HISTORY_PER_ACCOUNT then tl h else h)
       in Inr ((), s\<lparr>history := map_put address h hs\<rparr>))"

definition apply_transaction :: "tolerance \<Rightarrow> Transaction \<Rightarrow> StateManager \<Rightarrow> (bool \<times> StateManager) res" where
  "apply_transaction tol tx =
     with_lock tol Unique (\<lambda>s.
       sm_bind (get_account tol (tx_from tx) s) (\<lambda>sender s.
       sm_bind (get_account tol (tx_to tx) s) (\<lambda>recipient s.
         case (sender, recipient) of
           (Some sa, Some ra) \<Rightarrow>
             if tx_nonce tx \<noteq> acc_nonce sa + 1 then Inr (False, s)
             else let total_cost = tx_value tx + Transaction_calculate_gas_cost tx in
             if acc_balance sa < total_cost then Inr (False, s)
             else if \<not> Transaction_verify tx then Inr (False, s)
             else let sa = sa\<lparr>acc_balance := acc_balance sa - total_cost\<rparr>;
                      ra = ra\<lparr>acc_balance := acc_balance ra + tx_value tx\<rparr>;
                      sa = sa\<lparr>acc_nonce := acc_nonce sa + 1\<rparr>;
                      accs = map_put (acc_address sa) sa (accounts s);
                      accs = map_put (acc_address ra) ra accs
                  in sm_bind (record_transaction tol (acc_address sa) tx (s\<lparr>accounts := accs\<rparr>)) (\<lambda>_ s.
                     sm_bind (record_transaction tol (acc_address ra) tx s) (\<lambda>_ s. Inr (True, s)))
         | _ \<Rightarrow> Inr (False, s))))"

definition revert_transaction :: "tolerance \<Rightarrow> Transaction \<Rightarrow> StateManager \<Rightarrow> (bool \<times> StateManager) res" where
  "revert_transaction tol tx =
     with_lock tol Unique (\<lambda>s.
       sm_bind (get_account tol (tx_from tx) s) (\<lambda>sender s.
       sm_bind (get_account tol (tx_to tx) s) (\<lambda>recipient s.
         case (sender, recipient) of
           (Some sa, Some ra) \<Rightarrow>
             let sa = sa\<lparr>acc_balance := acc_balance sa + (tx_value tx + Transaction_calculate_gas_cost tx)\<rparr>;
                 ra = ra\<lparr>acc_balance := acc_balance ra - tx_value tx\<rparr>;
                 sa = sa\<lparr>acc_nonce := acc_nonce sa - 1\<rparr>
             in Inr (True, s\<lparr>accounts := map_put (acc_address ra) ra (map_put (acc_address sa) sa (accounts s))\<rparr>)
         | _ \<Rightarrow> Inr (False, s))))"

text \<open>The first loop of \<open>apply_transactions\<close>, then the second with its \<open>break\<close>.\<close>

fun verify_all :: "tolerance \<Rightarrow> Transaction list \<Rightarrow> StateManager \<Rightarrow> (bool list \<times> StateManager) res" where
  "verify_all tol [] s = Inr ([], s)"
| "verify_all tol (tx # txs) s =
     sm_bind (verify_transaction tol tx s) (\<lambda>v s. sm_bind (verify_all tol txs s) (\<lambda>vs s. Inr (v # vs, s)))"

fun apply_valid :: "tolerance \<Rightarrow> (Transaction \<times> bool) list \<Rightarrow> StateManager \<Rightarrow> (bool \<times> StateManager) res" where
  "apply_valid tol [] s = Inr (True, s)"
| "apply_valid tol ((tx, v) # txs) s =
     (if v then sm_bind (apply_transaction tol tx s) (\<lambda>ok s. if ok then apply_valid tol txs s else Inr (False, s))
      else apply_valid tol txs s)"

definition apply_transactions :: "tolerance \<Rightarrow> Transaction list \<Rightarrow> StateManager \<Rightarrow> (bool \<times> StateManager) res" where
  "apply_transactions tol txs s =
     sm_bind (with_lock tol Shared (verify_all tol txs) s) (\<lambda>valid_txs s.
       with_lock tol Unique (\<lambda>s.
         apply_valid tol (zip txs valid_txs) (s\<lparr>previous_state_root := current_state_root s\<rparr>)) s)"

definition get_account_history :: "tolerance \<Rightarrow> string \<Rightarrow> StateManager \<Rightarrow> (Transaction list \<times> StateManager) res" where
  "get_account_history tol address = with_lock tol Shared (\<lambda>s. Inr (map_get [] (history s) address, s))"

definition get_state_root :: "tolerance \<Rightarrow> StateManager \<Rightarrow> (bytes \<times> StateManager) res" where
  "get_state_root tol = with_lock tol Shared (\<lambda>s. Inr (current_state_root s, s))"

definition get_previous_root :: "tolerance \<Rightarrow> StateManager \<Rightarrow> (bytes \<times> StateManager) res" where
  "get_previous_root tol = with_lock tol Shared (\<lambda>s. Inr (previous_state_root s, s))"

definition get_accounts_snapshot :: "tolerance \<Rightarrow> StateManager \<Rightarrow> ((string, Account) smap \<times> StateManager) res" where
  "get_accounts_snapshot tol = with_lock tol Shared (\<lambda>s. Inr (sort_key fst (accounts s), s))"

definition commit_state :: "tolerance \<Rightarrow> (bytes \<Rightarrow> bytes) \<Rightarrow> StateManager \<Rightarrow> (bool \<times> StateManager) res" where
  "commit_state tol blake3 = with_lock tol Unique (\<lambda>s. Inr (True,
     s\<lparr>previous_state_root := current_state_root s,
       current_state_root := calculate_state_root blake3 (accounts s)\<rparr>))"

definition rollback_state :: "tolerance \<Rightarrow> StateManager \<Rightarrow> (bool \<times> StateManager) res" where
  "rollback_state tol = with_lock tol Unique (\<lambda>s. Inr (True, s\<lparr>current_state_root := previous_state_root s\<rparr>))"

definition get_balance :: "tolerance \<Rightarrow> string \<Rightarrow> StateManager \<Rightarrow> (u64 \<times> StateManager) res" where
  "get_balance tol address = with_lock tol Shared (\<lambda>s.
     Inr (case map_find (accounts s) address of Some a \<Rightarrow> acc_balance a | None \<Rightarrow> 0, s))"

definition get_nonce :: "tolerance \<Rightarrow> string \<Rightarrow> StateManager \<Rightarrow> (u64 \<times> StateManager) res" where
  "get_nonce tol address = with_lock tol Shared (\<lambda>s.
     Inr (case map_find (accounts s) address of Some a \<Rightarrow> acc_nonce a | None \<Rightarrow> 0, s))"

definition get_storage :: "tolerance \<Rightarrow> Address \<Rightarrow> bytes \<Rightarrow> StateManager \<Rightarrow> (bytes \<times> StateManager) res" where
  "get_storage tol address key = with_lock tol Shared (\<lambda>s.
     Inr (case map_find (accounts s) (address_to_hex address) of
            Some a \<Rightarrow> (case map_find (acc_storage a) key of Some v \<Rightarrow> v | None \<Rightarrow> [])
          | None \<Rightarrow> [], s))"

definition get_code :: "tolerance \<Rightarrow> Address \<Rightarrow> StateManager \<Rightarrow> (bytes \<times> StateManager) res" where
  "get_code tol address = with_lock tol Shared (\<lambda>s.
     Inr (case map_find (accounts s) (address_to_hex address) of Some a \<Rightarrow> acc_code a | None \<Rightarrow> [], s))"

text \<open>The four setters find the account and modify it in place, or answer false.\<close>

definition modify_account ::
    "tolerance \<Rightarrow> string \<Rightarrow> (Account \<Rightarrow> Account) \<Rightarrow> StateManager \<Rightarrow> (bool \<times> StateManager) res" where
  "modify_account tol address f = with_lock tol Unique (\<lambda>s.
     case map_find (accounts s) address of
       Some a \<Rightarrow> Inr (True, s\<lparr>accounts := map_put address (f a) (accounts s)\<rparr>)
     | None \<Rightarrow> Inr (False, s))"

definition set_balance :: "tolerance \<Rightarrow> string \<Rightarrow> u64 \<Rightarrow> StateManager \<Rightarrow> (bool \<times> StateManager) res" where
  "set_balance tol address v = modify_account tol address (\<lambda>a. a\<lparr>acc_balance := v\<rparr>)"

definition set_nonce :: "tolerance \<Rightarrow> string \<Rightarrow> u64 \<Rightarrow> StateManager \<Rightarrow> (bool \<times> StateManager) res" where
  "set_nonce tol address v = modify_account tol address (\<lambda>a. a\<lparr>acc_nonce := v\<rparr>)"

definition set_storage :: "tolerance \<Rightarrow> Address \<Rightarrow> bytes \<Rightarrow> bytes \<Rightarrow> StateManager \<Rightarrow> (bool \<times> StateManager) res" where
  "set_storage tol address key value =
     modify_account tol (address_to_hex address) (\<lambda>a. a\<lparr>acc_storage := map_put key value (acc_storage a)\<rparr>)"

definition set_code :: "tolerance \<Rightarrow> Address \<Rightarrow> bytes \<Rightarrow> StateManager \<Rightarrow> (bool \<times> StateManager) res" where
  "set_code tol address code = modify_account tol (address_to_hex address) (\<lambda>a. a\<lparr>acc_code := code\<rparr>)"

text \<open>The clone has a mutex of its own, which nobody holds.\<close>

definition clone_state :: "tolerance \<Rightarrow> StateManager \<Rightarrow> (StateManager \<times> StateManager) res" where
  "clone_state tol = with_lock tol Shared (\<lambda>s. Inr (s\<lparr>owned := []\<rparr>, s))"

section \<open>The encoding is a prefix code\<close>

definition Account_ok :: "Account \<Rightarrow> bool" where
  "Account_ok a \<longleftrightarrow> map_ok (acc_storage a)"

lemma map_puts_distinct:
  "distinct (map fst (st @ kvs)) \<Longrightarrow> fold (\<lambda>(k, v). map_put k v) kvs st = st @ kvs"
proof (induction kvs arbitrary: st)
  case (Cons kv kvs)
  have "map_put (fst kv) (snd kv) st = st @ [kv]"
    using Cons.prems by (induction st) (auto simp: map_put_def)
  then show ?case
    using Cons.IH [of "st @ [kv]"] Cons.prems by (simp add: case_prod_beta)
qed simp

lemma deserialize_storage_enc:
  assumes "unread data off (concat (map (\<lambda>(k, v). sized k @ sized v) kvs) @ rest)"
  shows "deserialize_storage (length kvs) data off st = Inr (Some (fold (\<lambda>(k, v). map_put k v) kvs st))"
  using assms
proof (induction kvs arbitrary: off st)
  case (Cons kv kvs)
  obtain k v where kv: "kv = (k, v)"
    by fastforce
  have u: "unread data off (sized k @ (sized v @ concat (map (\<lambda>(k, v). sized k @ sized v) kvs) @ rest))"
    using Cons.prems by (simp add: kv)
  have "length data < 2 ^ 64" "length (sized k @ sized v) \<le> length data"
    using u by (auto simp: unread_def dest!: arg_cong [of _ _ length])
  then have len: "length k < 2 ^ 64" "length v < 2 ^ 64"
    by (auto simp: sized_def)
  obtain off1 where 1: "take_sized data off = Inr (Some (k, off1))"
    and u1: "unread data off1 (sized v @ (concat (map (\<lambda>(k, v). sized k @ sized v) kvs) @ rest))"
    using sized_field.dec_encE [OF u len(1)] by blast
  obtain off2 where 2: "take_sized data off1 = Inr (Some (v, off2))"
    and u2: "unread data off2 (concat (map (\<lambda>(k, v). sized k @ sized v) kvs) @ rest)"
    using sized_field.dec_encE [OF u1 len(2)] by blast
  show ?case
    using Cons.IH [OF u2] by (simp add: kv 1 2)
qed simp

lemma take_balance_nonce_enc:
  assumes "unread data off (u64_bytes b @ u64_bytes n @ rest)"
  obtains off' where "take_balance_nonce data off = Inr (Some ((b, n), off'))" and "unread data off' rest"
proof -
  have u: "unread data off ((u64_bytes b @ u64_bytes n) @ rest)"
    using assms by simp
  show ?thesis
    using take_block_unread [OF u, of 16] unread_advance [OF u]
    by (intro that [of "off + 16"]) (simp_all add: take_balance_nonce_def)
qed

lemma Account_deserialize_serialize:
  assumes "length (Account_serialize a @ rest) < 2 ^ 64" and "Account_ok a"
  shows "Account_deserialize (Account_serialize a @ rest) = Inr (Some a)"
proof -
  define data where "data = Account_serialize a @ rest"
  let ?kvs = "concat (map (\<lambda>(k, v). sized k @ sized v) (acc_storage a))"
  have len: "length data < 2 ^ 64"
    using assms(1) by (simp add: data_def)
  have l: "length (bytes_of_string (acc_address a)) < 2 ^ 64" "length (acc_code a) < 2 ^ 64"
    using len by (simp_all add: data_def Account_serialize_def sized_def)
  have "length ?kvs \<ge> 16 * length (acc_storage a)"
    by (induction "acc_storage a") (auto simp: sized_def length_concat comp_def case_prod_beta sum_list_triv
        intro: order_trans [OF _ sum_list_mono [where f = "\<lambda>_. 16"]])
  then have n: "length (acc_storage a) < 2 ^ 64"
    using len by (simp add: data_def Account_serialize_def)
  have "unread data 0 (sized (bytes_of_string (acc_address a)) @ (u64_bytes (acc_balance a)
      @ u64_bytes (acc_nonce a) @ (sized (acc_code a) @ (u64_bytes (of_nat (length (acc_storage a))) @ (?kvs @ rest)))))"
    using unread_start [OF len] by (simp add: data_def Account_serialize_def)
  then obtain o1 where 1: "take_sized data 0 = Inr (Some (bytes_of_string (acc_address a), o1))"
    and u1: "unread data o1 (u64_bytes (acc_balance a) @ u64_bytes (acc_nonce a)
      @ (sized (acc_code a) @ (u64_bytes (of_nat (length (acc_storage a))) @ (?kvs @ rest))))"
    by (rule sized_field.dec_encE [OF _ l(1)])
  obtain o2 where 2: "take_balance_nonce data o1 = Inr (Some ((acc_balance a, acc_nonce a), o2))"
    and u2: "unread data o2 (sized (acc_code a) @ (u64_bytes (of_nat (length (acc_storage a))) @ (?kvs @ rest)))"
    using u1 by (rule take_balance_nonce_enc)
  obtain o3 where 3: "take_sized data o2 = Inr (Some (acc_code a, o3))"
    and u3: "unread data o3 (u64_bytes (of_nat (length (acc_storage a))) @ (?kvs @ rest))"
    using u2 by (rule sized_field.dec_encE [OF _ l(2)])
  obtain o4 where 4: "take_u64 data o3 = Inr (Some (of_nat (length (acc_storage a)), o4))"
    and u4: "unread data o4 (?kvs @ rest)"
    using u3 by (rule u64_field.dec_encE) simp
  have 5: "deserialize_storage (length (acc_storage a)) data o4 [] = Inr (Some (acc_storage a))"
    using deserialize_storage_enc [OF u4] map_puts_distinct [of "[]" "acc_storage a"] assms(2)
    by (simp add: Account_ok_def map_ok_def)
  have "8 \<le> length data"
    by (simp add: data_def Account_serialize_def sized_def)
  then have "\<not> vsize data < 8"
    using len by (simp add: word_less_nat_alt unat_vsize)
  then show ?thesis
    using 1 2 3 4 5 n by (simp add: Account_deserialize_def unat_of_nat_u64 flip: data_def)
qed

interpretation account_codec: prefix_codec Account_serialize Account_deserialize Account_ok
  by unfold_locales (rule Account_deserialize_serialize)

lemma Account_serialize_nonempty [simp]: "Account_serialize a \<noteq> []"
  by (simp add: Account_serialize_def flip: length_greater_0_conv)

text \<open>
  C6. Decoding an encoded account gives the account back, whatever bytes follow the encoding, for every
  account whose encoding fits the address space.
\<close>

theorem Account_roundtrip:
  assumes "Account_ok a" and "length (Account_serialize a @ rest) < 2 ^ 64"
  shows "Account_deserialize (Account_serialize a @ rest) = Inr (Some a)"
  using assms by (intro account_codec.dec_front_enc)

theorem Account_roundtrip_witness:
  "Account_deserialize (Account_serialize \<lparr>acc_address = ''ab'', acc_balance = 5, acc_nonce = 1,
      acc_code = [1, 2], acc_storage = [([3], [4, 5])]\<rparr> @ [9])
    = Inr (Some \<lparr>acc_address = ''ab'', acc_balance = 5, acc_nonce = 1, acc_code = [1, 2],
      acc_storage = [([3], [4, 5])]\<rparr>)"
  by (rule Account_roundtrip) (simp_all add: Account_ok_def map_ok_def Account_serialize_def sized_def)

text \<open>
  The test \<open>offset + addr_size > data.size()\<close> wraps: a vector that announces an address of
  \<open>2^64 - 8\<close> bytes passes it, and the decoder copies a range outside the vector.
\<close>

theorem Account_deserialize_wraps:
  assumes "length rest < 2 ^ 63"
  shows "is_Undefined (Account_deserialize (u64_bytes (- 8) @ rest))"
proof -
  let ?data = "u64_bytes (- 8) @ rest"
  have len: "length ?data < 2 ^ 64"
    using assms by simp
  have "unread ?data 0 (u64_bytes (- 8) @ rest)"
    using unread_start [OF len] .
  then have "take_u64 ?data 0 = Inr (Some (- 8, 8))"
    using u64_field.dec_enc by fastforce
  moreover have "is_Undefined (take_block ?data 8 (- 8))"
  proof -
    have "unat (- 8 :: u64) = 2 ^ 64 - 8"
      by (simp add: unat_eq_nat_uint uint_word_ariths)
    then have "slice_at ?data 8 (- 8) = Inl (Undefined ''range outside the vector'')"
      using assms by (simp add: slice_at_def)
    then show ?thesis
      by (simp add: take_block_def)
  qed
  moreover have "\<not> vsize ?data < 8"
    using unat_vsize [OF len] by (simp add: word_less_nat_alt)
  ultimately show ?thesis
    by (auto simp: Account_deserialize_def take_sized_def opt_bind_def is_Undefined_def
        split: sum.splits option.splits exn.splits)
qed

theorem Account_deserialize_wraps_witness: "is_Undefined (Account_deserialize (u64_bytes (- 8) @ [1, 2]))"
  by (rule Account_deserialize_wraps) simp

section \<open>The preimage of the state root\<close>

definition accounts_ok :: "(string, Account) smap \<Rightarrow> bool" where
  "accounts_ok accs \<longleftrightarrow> map_ok accs \<and> (\<forall>(k, a) \<in> set accs. acc_address a = k)"

definition encodable :: "(string, Account) smap \<Rightarrow> bool" where
  "encodable accs \<longleftrightarrow> (\<forall>(k, a) \<in> set accs. Account_ok a) \<and> length (state_preimage accs) < 2 ^ 64"

lemma state_preimage_concat:
  "state_preimage accs = concat (map Account_serialize (map snd (sort_key fst accs)))"
  by (auto simp: state_preimage_def intro!: arg_cong [where f = concat])

lemma sort_accounts_cong:
  assumes "map_ok m" and "map_ok m'" and "set m = set m'"
  shows "sort_key fst m = sort_key fst m'"
proof (rule sort_key_inj_key_eq)
  show "mset m = mset (sort_key fst m')"
    using assms by (simp add: map_ok_def distinct_map set_eq_iff_mset_eq_distinct)
  show "inj_on fst (set m)"
    using assms(1) by (simp add: map_ok_def distinct_map)
qed simp

lemma keys_from_addresses:
  assumes "accounts_ok accs"
  shows "sort_key fst accs = map (\<lambda>a. (acc_address a, a)) (map snd (sort_key fst accs))"
  using assms by (auto simp: accounts_ok_def intro!: map_idI [symmetric])

text \<open>Two accounts that agree, with their storage taken as a map; and with the order in which it is iterated.\<close>

definition same_account :: "Account \<Rightarrow> Account \<Rightarrow> bool" where
  "same_account a b \<longleftrightarrow> acc_address a = acc_address b \<and> acc_balance a = acc_balance b \<and> acc_nonce a = acc_nonce b
     \<and> acc_code a = acc_code b \<and> map_find (acc_storage a) = map_find (acc_storage b)"

definition same_order :: "(string, Account) smap \<Rightarrow> (string, Account) smap \<Rightarrow> bool" where
  "same_order m m' \<longleftrightarrow> (\<forall>k a b. map_find m k = Some a \<and> map_find m' k = Some b \<longrightarrow> map fst (acc_storage a) = map fst (acc_storage b))"

lemma storage_by_order:
  assumes "map_ok st" "map_ok st'" "map_find st = map_find st'" "map fst st = map fst st'"
  shows "st = st'"
proof -
  have "map_of st = map_of st'"
    using assms(3) by (simp add: map_find_def fun_eq_iff)
  then have "snd (st ! i) = snd (st' ! i)" if "i < length st" for i
    using that assms(1,2,4) unfolding map_ok_def
    by (metis length_map map_of_eq_Some_iff nth_map nth_mem option.inject prod.collapse)
  then show ?thesis
    using assms(4) by (intro nth_equalityI) (auto dest: map_eq_imp_length_eq intro!: prod_eqI, metis length_map nth_map)
qed

text \<open>
  C3. What the state root commits to. Two well-formed account tables have the same preimage exactly when they hold the same
  accounts, the storage of accounts taken as maps, and the hash tables of the storages are iterated in the same order. The order in
  which the table of accounts is iterated does not matter (they are sorted), and no two tables with different accounts collide
  before hashing; but the same storage iterated in another order changes the preimage.
\<close>

theorem state_preimage_iff:
  assumes "accounts_ok m" and "accounts_ok m'" and "encodable m" and "encodable m'"
  shows "state_preimage m = state_preimage m' \<longleftrightarrow>
    (\<forall>k. rel_option same_account (map_find m k) (map_find m' k)) \<and> same_order m m'"
proof -
  have ok: "map_ok m" "map_ok m'"
    using assms by (simp_all add: accounts_ok_def)
  have maps: "map_find m = map_find m' \<longleftrightarrow> set m = set m'"
    using map_of_inject_set [of m m'] ok by (auto simp: map_ok_def map_find_def fun_eq_iff)
  have "Account_ok a" if "map_find m k = Some a \<or> map_find m' k = Some a" for k a
    using that assms(3,4) by (auto simp: encodable_def map_find_def dest!: map_of_SomeD)
  then have "map_find m k = map_find m' k"
    if "rel_option same_account (map_find m k) (map_find m' k)" "same_order m m'" for k
    using that by (cases "map_find m k"; cases "map_find m' k")
      (auto simp: same_account_def same_order_def Account_ok_def intro!: Account.equality storage_by_order)
  moreover have "same_account a a" for a
    by (simp add: same_account_def)
  ultimately have eq: "(\<forall>k. rel_option same_account (map_find m k) (map_find m' k)) \<and> same_order m m' \<longleftrightarrow> map_find m = map_find m'"
    by (auto simp: fun_eq_iff same_order_def option.rel_refl)
  show ?thesis
    unfolding eq
  proof
    assume "state_preimage m = state_preimage m'"
    moreover have "\<forall>x \<in> set (map snd (sort_key fst m)) \<union> set (map snd (sort_key fst m')).
        Account_ok x \<and> Account_serialize x \<noteq> []"
      using assms(3,4) by (auto simp: encodable_def)
    ultimately have "map snd (sort_key fst m) = map snd (sort_key fst m')"
      using assms(3) unfolding state_preimage_concat encodable_def
      by (intro account_codec.concat_enc_unique) auto
    then have "sort_key fst m = sort_key fst m'"
      using keys_from_addresses [OF assms(1)] keys_from_addresses [OF assms(2)] by metis
    then show "map_find m = map_find m'"
      unfolding maps by (metis set_sort)
  next
    assume "map_find m = map_find m'"
    then show "state_preimage m = state_preimage m'"
      using sort_accounts_cong [OF ok] by (simp add: maps state_preimage_def)
  qed
qed

theorem state_preimage_iff_witness:
  "state_preimage [(''a'', \<lparr>acc_address = ''a'', acc_balance = 1, acc_nonce = 0, acc_code = [], acc_storage = [([1], [2]), ([3], [4])]\<rparr>)]
   \<noteq> state_preimage [(''a'', \<lparr>acc_address = ''a'', acc_balance = 1, acc_nonce = 0, acc_code = [], acc_storage = [([3], [4]), ([1], [2])]\<rparr>)]"
proof -
  let ?m = "\<lambda>st. [(''a'', \<lparr>acc_address = ''a'', acc_balance = 1, acc_nonce = 0, acc_code = [], acc_storage = st\<rparr>)]"
  have "accounts_ok (?m [([1], [2]), ([3], [4])])" "encodable (?m [([1], [2]), ([3], [4])])"
    "accounts_ok (?m [([3], [4]), ([1], [2])])" "encodable (?m [([3], [4]), ([1], [2])])"
    by (simp_all add: accounts_ok_def map_ok_def encodable_def Account_ok_def state_preimage_def
        Account_serialize_def sized_def)
  then show ?thesis
    using state_preimage_iff [of "?m [([1], [2]), ([3], [4])]" "?m [([3], [4]), ([1], [2])]"]
    by (auto simp: same_order_def map_find_def)
qed

section \<open>Behaviour on a mutex that tolerates its owner\<close>

abbreviation tolerant :: tolerance where
  "tolerant \<equiv> \<lambda>_ _. True"

definition push_history :: "string \<Rightarrow> Transaction \<Rightarrow> (string, Transaction list) smap \<Rightarrow> (string, Transaction list) smap" where
  "push_history address tx hs =
     (let h = map_get [] hs address @ [tx] in map_put address (if length h > MAX_HISTORY_PER_ACCOUNT then tl h else h) hs)"

lemma get_account_tolerant [simp, flow_simps]: "get_account tolerant a s = Inr (map_find (accounts s) a, s)"
  by (simp add: get_account_def with_lock_def)

lemma record_transaction_tolerant [simp, flow_simps]:
  "record_transaction tolerant a tx s = Inr ((), s\<lparr>history := push_history a tx (history s)\<rparr>)"
  by (simp add: record_transaction_def with_lock_def push_history_def case_prod_beta Let_def)

lemma apply_transaction_tolerant:
  "apply_transaction tolerant tx s = Inr
     (case (map_find (accounts s) (tx_from tx), map_find (accounts s) (tx_to tx)) of
        (Some sa, Some ra) \<Rightarrow>
          (let cost = tx_value tx + Transaction_calculate_gas_cost tx in
           if tx_nonce tx = acc_nonce sa + 1 \<and> cost \<le> acc_balance sa \<and> Transaction_verify tx
           then (True, s\<lparr>accounts := map_put (acc_address ra) (ra\<lparr>acc_balance := acc_balance ra + tx_value tx\<rparr>)
                   (map_put (acc_address sa) (sa\<lparr>acc_balance := acc_balance sa - cost, acc_nonce := acc_nonce sa + 1\<rparr>) (accounts s)),
                 history := push_history (acc_address ra) tx (push_history (acc_address sa) tx (history s))\<rparr>)
           else (False, s))
      | _ \<Rightarrow> (False, s))"
  by (auto simp: apply_transaction_def with_lock_def Let_def not_less split: option.split)

lemma revert_transaction_tolerant:
  "revert_transaction tolerant tx s = Inr
     (case (map_find (accounts s) (tx_from tx), map_find (accounts s) (tx_to tx)) of
        (Some sa, Some ra) \<Rightarrow>
          (True, s\<lparr>accounts := map_put (acc_address ra) (ra\<lparr>acc_balance := acc_balance ra - tx_value tx\<rparr>)
             (map_put (acc_address sa) (sa\<lparr>acc_balance := acc_balance sa + (tx_value tx + Transaction_calculate_gas_cost tx),
                acc_nonce := acc_nonce sa - 1\<rparr>) (accounts s))\<rparr>)
      | _ \<Rightarrow> (False, s))"
  by (auto simp: revert_transaction_def with_lock_def Let_def split: option.split)

lemma accounts_ok_address:
  "accounts_ok accs \<Longrightarrow> map_find accs k = Some a \<Longrightarrow> acc_address a = k"
  by (auto simp: accounts_ok_def map_find_def dest: map_of_SomeD)

lemma accounts_ok_put: "accounts_ok accs \<Longrightarrow> acc_address a = k \<Longrightarrow> accounts_ok (map_put k a accs)"
  by (auto simp: accounts_ok_def map_put_set)

section \<open>Operations that complete do so as on a tolerant mutex\<close>

lemma with_lock_Inr:
  assumes "with_lock tol m body s = Inr (x, s')"
    and "\<And>t x t'. body t = Inr (x, t') \<Longrightarrow> body' t = Inr (x, t')"
  shows "with_lock tolerant m body' s = Inr (x, s')"
  using assms by (auto simp: with_lock_def split: if_splits sum.splits dest: assms(2))

lemma sm_bind_Inr:
  assumes "sm_bind u f = Inr r" and "\<And>x t. u = Inr (x, t) \<Longrightarrow> u' = Inr (x, t)"
    and "\<And>x t. f x t = Inr r \<Longrightarrow> f' x t = Inr r"
  shows "sm_bind u' f' = Inr r"
proof -
  obtain x t where u: "u = Inr (x, t)" and "f x t = Inr r"
    using assms(1) by (auto simp: sm_bind_def split: sum.splits)
  then have "f' x t = Inr r"
    by (intro assms(3))
  then show ?thesis
    by (simp add: assms(2) [OF u])
qed

lemma get_account_success: "get_account tol a s = Inr r \<Longrightarrow> get_account tolerant a s = Inr r"
  by (cases r) (auto simp: get_account_def intro: with_lock_Inr)

lemma record_transaction_success:
  "record_transaction tol a tx s = Inr r \<Longrightarrow> record_transaction tolerant a tx s = Inr r"
  by (cases r) (simp only: record_transaction_def, erule with_lock_Inr, assumption)

lemma get_accountD: "get_account tol a s = Inr (x, s') \<Longrightarrow> x = map_find (accounts s) a \<and> s' = s"
  by (auto dest: get_account_success)

lemma record_transactionD:
  "record_transaction tol a tx s = Inr (u, s') \<Longrightarrow> s' = s\<lparr>history := push_history a tx (history s)\<rparr>"
  by (auto dest: record_transaction_success)

lemma verify_transaction_success:
  assumes "verify_transaction tol tx s = Inr r"
  shows "verify_transaction tolerant tx s = Inr r"
proof -
  obtain v s' where r: "r = (v, s')"
    by fastforce
  show ?thesis
    using assms unfolding verify_transaction_def r
    by (rule with_lock_Inr) (erule sm_bind_Inr, erule get_account_success)
qed

lemma apply_transaction_success:
  assumes "apply_transaction tol tx s = Inr r"
  shows "apply_transaction tolerant tx s = Inr r"
proof -
  obtain v s' where r: "r = (v, s')"
    by fastforce
  show ?thesis
    using assms unfolding apply_transaction_def r
    by (rule with_lock_Inr)
      (elim sm_bind_Inr get_account_success, auto simp: Let_def sm_bind_def
        split: option.splits if_splits sum.splits dest!: record_transactionD)
qed

lemma revert_transaction_success:
  assumes "revert_transaction tol tx s = Inr r"
  shows "revert_transaction tolerant tx s = Inr r"
proof -
  obtain v s' where r: "r = (v, s')"
    by fastforce
  show ?thesis
    using assms unfolding revert_transaction_def r
    by (rule with_lock_Inr) (elim sm_bind_Inr get_account_success)
qed

section \<open>Properties of transactions\<close>

text \<open>What a successful \<open>apply_transaction\<close> did, on any platform.\<close>

lemma apply_transactionE:
  assumes "apply_transaction tol tx s = Inr (True, s')" and "accounts_ok (accounts s)"
  obtains sa ra where "map_find (accounts s) (tx_from tx) = Some sa"
    and "map_find (accounts s) (tx_to tx) = Some ra"
    and "acc_address sa = tx_from tx" and "acc_address ra = tx_to tx"
    and "tx_nonce tx = acc_nonce sa + 1"
    and "tx_value tx + Transaction_calculate_gas_cost tx \<le> acc_balance sa"
    and "accounts s' = map_put (tx_to tx) (ra\<lparr>acc_balance := acc_balance ra + tx_value tx\<rparr>)
      (map_put (tx_from tx) (sa\<lparr>acc_balance := acc_balance sa - (tx_value tx + Transaction_calculate_gas_cost tx),
         acc_nonce := acc_nonce sa + 1\<rparr>) (accounts s))"
  using apply_transaction_success [OF assms(1)] accounts_ok_address [OF assms(2)]
  by (auto simp: apply_transaction_tolerant Let_def split: option.splits if_splits)






lemma small_state:
  fixes b :: u64
  defines "a \<equiv> \<lambda>k. \<lparr>acc_address = k, acc_balance = b, acc_nonce = 0, acc_code = [], acc_storage = []\<rparr>"
  shows "accounts_ok [(''a'', a ''a''), (''b'', a ''b'')]"
  by (simp add: accounts_ok_def map_ok_def a_def)

definition demo_state :: StateManager where
  "demo_state = \<lparr>accounts = [(''a'', \<lparr>acc_address = ''a'', acc_balance = 30000, acc_nonce = 0, acc_code = [], acc_storage = []\<rparr>),
      (''b'', \<lparr>acc_address = ''b'', acc_balance = 30000, acc_nonce = 0, acc_code = [], acc_storage = []\<rparr>)],
    current_state_root = [], previous_state_root = [], history = [], owned = []\<rparr>"

definition demo_tx :: "string \<Rightarrow> Transaction" where
  "demo_tx r = (Transaction_default 0 [])\<lparr>tx_from := ''a'', tx_to := r, tx_value := 7, tx_nonce := 1\<rparr>"

lemmas demo_simps = demo_state_def demo_tx_def Transaction_default_def Transaction_calculate_gas_cost_def
  Transaction_verify_def


text \<open>
  Money from nothing: a transaction of \<open>2^64\<close> less its gas cost is accepted from an empty account, costs it nothing and
  credits the recipient.
\<close>

theorem apply_transaction_wraps:
  "\<exists>s'. apply_transaction tolerant ((demo_tx ''b'')\<lparr>tx_value := - 21000\<rparr>)
       (demo_state\<lparr>accounts := [(''a'', \<lparr>acc_address = ''a'', acc_balance = 0, acc_nonce = 0, acc_code = [], acc_storage = []\<rparr>),
          (''b'', \<lparr>acc_address = ''b'', acc_balance = 0, acc_nonce = 0, acc_code = [], acc_storage = []\<rparr>)]\<rparr>) = Inr (True, s')
     \<and> map_total acc_balance (accounts s') = - 21000"
  by (auto simp: apply_transaction_tolerant demo_simps map_find_def Let_def map_put_def)

text \<open>
  Reverting a transaction that was just applied between two different accounts restores every
  account: balances, nonces, code and storage.
\<close>

theorem revert_undoes_apply:
  assumes "apply_transaction tol tx s = Inr (True, s')" and "accounts_ok (accounts s)"
    and "tx_from tx \<noteq> tx_to tx"
  shows "\<exists>s''. revert_transaction tolerant tx s' = Inr (True, s'')
    \<and> map_find (accounts s'') = map_find (accounts s)"
proof -
  obtain sa ra where f: "map_find (accounts s) (tx_from tx) = Some sa" "map_find (accounts s) (tx_to tx) = Some ra"
    and adr: "acc_address sa = tx_from tx" "acc_address ra = tx_to tx"
    and put: "accounts s' = map_put (tx_to tx) (ra\<lparr>acc_balance := acc_balance ra + tx_value tx\<rparr>)
      (map_put (tx_from tx) (sa\<lparr>acc_balance := acc_balance sa - (tx_value tx + Transaction_calculate_gas_cost tx),
         acc_nonce := acc_nonce sa + 1\<rparr>) (accounts s))"
    using apply_transactionE [OF assms(1,2)] by metis
  show ?thesis
    using assms(3) f adr by (auto simp: revert_transaction_tolerant put fun_eq_iff)
qed

theorem revert_undoes_apply_witness:
  "\<exists>s' s''. apply_transaction tolerant (demo_tx ''b'') demo_state = Inr (True, s')
    \<and> revert_transaction tolerant (demo_tx ''b'') s' = Inr (True, s'')
    \<and> map_find (accounts s'') = map_find (accounts demo_state)"
proof -
  obtain s' where s': "apply_transaction tolerant (demo_tx ''b'') demo_state = Inr (True, s')"
    by (auto simp: apply_transaction_tolerant demo_simps map_find_def Let_def)
  have "accounts_ok (accounts demo_state)"
    by (simp add: demo_state_def small_state)
  from revert_undoes_apply [OF s' this] s' show ?thesis
    by (auto simp: demo_tx_def)
qed

text \<open>
  On a platform that does not tolerate taking \<open>mutex_\<close> shared while the thread holds it exclusively
  (the standard makes it undefined), \<open>apply_transaction\<close> and \<open>revert_transaction\<close> never complete, for
  any transaction and any state: both call \<open>get_account\<close> under their own lock.
\<close>

theorem apply_transaction_relocks:
  assumes "\<not> tol [Unique] Shared" and "owned s = []"
  shows "is_Undefined (apply_transaction tol tx s) \<and> is_Undefined (revert_transaction tol tx s)"
proof -
  have "get_account tol a (s\<lparr>owned := [Unique]\<rparr>) = Inl (Undefined ''mutex_ owned by the calling thread'')" for a
    using assms(1) by (simp add: get_account_def with_lock_def)
  then show ?thesis
    using assms(2) by (simp add: apply_transaction_def revert_transaction_def with_lock_def)
qed

theorem apply_transaction_relocks_witness:
  "is_Undefined (apply_transaction (\<lambda>_ _. False) (demo_tx ''b'') demo_state)"
  using apply_transaction_relocks [of "\<lambda>_ _. False" demo_state "demo_tx ''b''"] by (simp add: demo_state_def)

section \<open>Reachable states\<close>

text \<open>
  One step is a call of a member function that changes the state. \<open>add_account\<close> takes any address; \<open>own\<close> says that
  the callers add every account under its own address, as those in the sources do.
\<close>

inductive sm_step :: "tolerance \<Rightarrow> (bytes \<Rightarrow> bytes) \<Rightarrow> bool \<Rightarrow> StateManager \<Rightarrow> StateManager \<Rightarrow> bool" for tol blake3 own where
  step_add: "add_account tol address a s = Inr (u, s') \<Longrightarrow> own \<longrightarrow> address = acc_address a \<Longrightarrow> sm_step tol blake3 own s s'"
| step_apply: "apply_transaction tol tx s = Inr (b, s') \<Longrightarrow> sm_step tol blake3 own s s'"
| step_apply_all: "apply_transactions tol txs s = Inr (b, s') \<Longrightarrow> sm_step tol blake3 own s s'"
| step_revert: "revert_transaction tol tx s = Inr (b, s') \<Longrightarrow> sm_step tol blake3 own s s'"
| step_record: "record_transaction tol k tx s = Inr (u, s') \<Longrightarrow> sm_step tol blake3 own s s'"
| step_commit: "commit_state tol blake3 s = Inr (b, s') \<Longrightarrow> sm_step tol blake3 own s s'"
| step_rollback: "rollback_state tol s = Inr (b, s') \<Longrightarrow> sm_step tol blake3 own s s'"
| step_balance: "set_balance tol k v s = Inr (b, s') \<Longrightarrow> sm_step tol blake3 own s s'"
| step_nonce: "set_nonce tol k v s = Inr (b, s') \<Longrightarrow> sm_step tol blake3 own s s'"
| step_storage: "set_storage tol adr key val s = Inr (b, s') \<Longrightarrow> sm_step tol blake3 own s s'"
| step_code: "set_code tol adr code s = Inr (b, s') \<Longrightarrow> sm_step tol blake3 own s s'"

inductive sm_reachable :: "tolerance \<Rightarrow> (bytes \<Rightarrow> bytes) \<Rightarrow> bool \<Rightarrow> StateManager \<Rightarrow> bool" for tol blake3 own where
  init: "sm_reachable tol blake3 own (StateManager_new blake3)"
| step: "sm_reachable tol blake3 own s \<Longrightarrow> sm_step tol blake3 own s s' \<Longrightarrow> sm_reachable tol blake3 own s'"

definition sm_inv :: "bool \<Rightarrow> StateManager \<Rightarrow> bool" where
  "sm_inv own s \<longleftrightarrow> map_ok (accounts s) \<and> (own \<longrightarrow> accounts_ok (accounts s)) \<and> map_ok (history s)
     \<and> (\<forall>k. length (map_get [] (history s) k) \<le> MAX_HISTORY_PER_ACCOUNT)"

lemma sm_inv_owned [simp]: "sm_inv own (s\<lparr>owned := l\<rparr>) = sm_inv own s"
  by (simp add: sm_inv_def)

lemma sm_inv_roots [simp]:
  "sm_inv own (s\<lparr>current_state_root := r\<rparr>) = sm_inv own s" "sm_inv own (s\<lparr>previous_state_root := r\<rparr>) = sm_inv own s"
  by (simp_all add: sm_inv_def)

lemma with_lock_inv:
  assumes "with_lock tol m body s = Inr (x, s')" and "sm_inv own s"
    and "\<And>t x t'. sm_inv own t \<Longrightarrow> owned t = m # owned s \<Longrightarrow> body t = Inr (x, t') \<Longrightarrow> sm_inv own t'"
  shows "sm_inv own s' \<and> owned s' = owned s"
  using assms(1,2) assms(3) [of "s\<lparr>owned := m # owned s\<rparr>"]
  by (auto simp: with_lock_def split: if_splits sum.splits)

lemma push_history_inv:
  assumes "map_ok hs" and "\<forall>k. length (map_get [] hs k) \<le> MAX_HISTORY_PER_ACCOUNT"
  shows "map_ok (push_history a tx hs) \<and>
    (\<forall>k. length (map_get [] (push_history a tx hs) k) \<le> MAX_HISTORY_PER_ACCOUNT)"
  using assms by (auto simp: push_history_def Let_def)

lemma apply_transaction_inv:
  assumes "apply_transaction tol tx s = Inr (b, s')" and "sm_inv own s"
  shows "sm_inv own s' \<and> owned s' = owned s"
proof -
  have "apply_transaction tolerant tx s = Inr (b, s')"
    using assms(1) by (rule apply_transaction_success)
  then show ?thesis
    using assms(2)
    by (auto simp: apply_transaction_tolerant sm_inv_def Let_def accounts_ok_put push_history_inv
        split: option.splits if_splits)
qed

lemma revert_transaction_inv:
  assumes "revert_transaction tol tx s = Inr (b, s')" and "sm_inv own s"
  shows "sm_inv own s' \<and> owned s' = owned s"
proof -
  have "revert_transaction tolerant tx s = Inr (b, s')"
    using assms(1) by (rule revert_transaction_success)
  then show ?thesis
    using assms(2)
    by (auto simp: revert_transaction_tolerant sm_inv_def accounts_ok_put split: option.splits)
qed

lemma verify_transaction_state: "verify_transaction tol tx s = Inr (b, s') \<Longrightarrow> s' = s"
  by (drule verify_transaction_success) (auto simp: verify_transaction_def with_lock_def)

lemma verify_all_state: "verify_all tol txs s = Inr (bs, s') \<Longrightarrow> s' = s"
  by (induction txs arbitrary: s bs)
    (auto simp: sm_bind_def split: sum.splits dest!: verify_transaction_state)

lemma apply_valid_inv:
  "apply_valid tol ps s = Inr (b, s') \<Longrightarrow> sm_inv own s \<Longrightarrow> sm_inv own s'"
  by (induction tol ps s rule: apply_valid.induct)
    (auto simp: sm_bind_def split: sum.splits if_splits dest!: apply_transaction_inv)

lemma apply_transactions_inv:
  assumes "apply_transactions tol txs s = Inr (b, s')" and "sm_inv own s"
  shows "sm_inv own s' \<and> owned s' = owned s"
proof -
  obtain vs t where v: "with_lock tol Shared (verify_all tol txs) s = Inr (vs, t)"
    and a: "with_lock tol Unique (\<lambda>s. apply_valid tol (zip txs vs)
      (s\<lparr>previous_state_root := current_state_root s\<rparr>)) t = Inr (b, s')"
    using assms(1) by (auto simp: apply_transactions_def sm_bind_def split: sum.splits)
  have t: "sm_inv own t \<and> owned t = owned s"
    using v assms(2) by (rule with_lock_inv) (auto dest: verify_all_state)
  then have "sm_inv own s' \<and> owned s' = owned t"
    using a by (intro with_lock_inv [OF a]) (auto dest: apply_valid_inv)
  with t show ?thesis by simp
qed

lemma modify_account_inv:
  assumes "modify_account tol k f s = Inr (b, s')" and "sm_inv own s" and "\<And>a. acc_address (f a) = acc_address a"
  shows "sm_inv own s' \<and> owned s' = owned s"
  using assms(1,2) unfolding modify_account_def
  by (rule with_lock_inv) (auto simp: sm_inv_def assms(3) accounts_ok_put accounts_ok_address split: option.splits)

lemma sm_step_inv: "sm_step tol blake3 own s s' \<Longrightarrow> sm_inv own s \<Longrightarrow> sm_inv own s' \<and> owned s' = owned s"
proof (induction rule: sm_step.induct)
  case (step_add address a s u s')
  then show ?case
    unfolding add_account_def by (elim with_lock_inv) (auto simp: sm_inv_def accounts_ok_put)
next
  case (step_record k tx s u s')
  then show ?case
    by (auto simp: sm_inv_def push_history_inv dest!: record_transactionD)
qed (auto simp: commit_state_def rollback_state_def set_balance_def set_nonce_def set_storage_def set_code_def
    elim!: with_lock_inv modify_account_inv apply_transaction_inv apply_transactions_inv revert_transaction_inv
    dest: apply_transaction_inv apply_transactions_inv revert_transaction_inv)

text \<open>
  C4. In every state that calls of the member functions reach, with any arguments, an address has one account and one history, no
  account's history is longer than 1000 transactions, and no lock is left held. When every account was added under its own address,
  every account is stored under its own address.
\<close>

theorem sm_reachable_inv: "sm_reachable tol blake3 own s \<Longrightarrow> sm_inv own s \<and> owned s = []"
proof (induction rule: sm_reachable.induct)
  case init
  show ?case
    by (simp add: sm_inv_def StateManager_new_def accounts_ok_def Let_def)
next
  case (step s s')
  then show ?case
    using sm_step_inv by simp
qed

theorem sm_reachable_inv_witness:
  "\<exists>s. sm_reachable tolerant (\<lambda>_. []) True s \<and> accounts s \<noteq> [] \<and> sm_inv True s"
proof -
  define a where "a = \<lparr>acc_address = ''a'', acc_balance = 1, acc_nonce = 0, acc_code = [], acc_storage = []\<rparr>"
  obtain s' where s': "add_account tolerant (acc_address a) a (StateManager_new (\<lambda>_. [])) = Inr ((), s')"
    and ne: "accounts s' \<noteq> []"
    by (auto simp: add_account_def with_lock_def StateManager_new_def map_put_def Let_def)
  have "sm_reachable tolerant (\<lambda>_. []) True s'"
    using sm_reachable.step [OF sm_reachable.init sm_step.step_add [OF s']] by simp
  then show ?thesis
    using ne sm_reachable_inv by blast
qed

text \<open>
  An account that was added under another address than its own is never debited: the account is found under the address
  it was added at and written back to its own.
\<close>

theorem foreign_account_not_debited:
  "\<exists>s'. apply_transaction tolerant (demo_tx ''b'')
       (demo_state\<lparr>accounts := [(''a'', \<lparr>acc_address = ''c'', acc_balance = 30000, acc_nonce = 0, acc_code = [], acc_storage = []\<rparr>),
          (''b'', \<lparr>acc_address = ''b'', acc_balance = 0, acc_nonce = 0, acc_code = [], acc_storage = []\<rparr>)]\<rparr>) = Inr (True, s')
     \<and> map_option acc_balance (map_find (accounts s') ''a'') = Some 30000
     \<and> map_option acc_balance (map_find (accounts s') ''b'') = Some 7"
  by (auto simp: apply_transaction_tolerant demo_simps map_find_def Let_def map_put_def)

end
