(* ===== verification/Proof_Aggregator.thy ===== *)
theory Proof_Aggregator
  imports Merkle
begin

text \<open>
  The proof aggregator (\<open>src/rollup/ProofAggregator.cpp\<close>): the Merkle root of a list of proofs, computed
  in place in one vector, the aggregate that appends it to the concatenated proofs, and its
  verification. SHA-256 is a parameter, and so is \<open>evp\<close>: \<open>None\<close> when every OpenSSL call succeeds, otherwise
  the message thrown after the first that fails. The proof objects are represented by their
  \<open>proof_data\<close>, the only field the code reads.
\<close>

section \<open>Definitions\<close>

text \<open>One round of the in-place loop: \<open>hashes[i] = H(hashes[2*i], hashes[2*i+1])\<close> for \<open>i < pairs\<close>.\<close>

definition combine_at :: "(bytes \<Rightarrow> bytes) \<Rightarrow> bytes list \<Rightarrow> nat \<Rightarrow> bytes list" where
  "combine_at H hashes i = hashes[i := H (hashes ! (2 * i) @ hashes ! (2 * i + 1))]"

definition merkle_round :: "(bytes \<Rightarrow> bytes) \<Rightarrow> bytes list \<Rightarrow> bytes list" where
  "merkle_round H hashes =
     (let pairs = length hashes div 2;
          hashes' = foldl (combine_at H) hashes [0..<pairs]
      in if length hashes mod 2 = 1 then take (pairs + 1) (hashes'[pairs := last hashes'])
         else take pairs hashes')"

lemma length_merkle_round: "length (merkle_round H hs) = (length hs + 1) div 2"
proof -
  have "length (foldl (combine_at H) hs is) = length hs" for "is"
    by (induction "is" arbitrary: hs) (simp_all add: combine_at_def)
  then show ?thesis
    by (simp add: merkle_round_def Let_def) presburger
qed

function merkle_loop :: "(bytes \<Rightarrow> bytes) \<Rightarrow> bytes list \<Rightarrow> bytes list" where
  "merkle_loop H hashes = (if length hashes > 1 then merkle_loop H (merkle_round H hashes) else hashes)"
  by pat_completeness auto
termination
  by (relation "measure (length \<circ> snd)") (auto simp: length_merkle_round)

declare merkle_loop.simps [simp del]

definition compute_proof_merkle_root :: "string option \<Rightarrow> (bytes \<Rightarrow> bytes) \<Rightarrow> bytes list \<Rightarrow> bytes res" where
  "compute_proof_merkle_root evp sha256 proofs =
     (case evp of
        Some m \<Rightarrow> if proofs = [] then Inl (Undefined ''hashes[0] of an empty vector'') else Inl (Runtime_error m)
      | None \<Rightarrow> (case merkle_loop sha256 (map sha256 proofs) of
                   [] \<Rightarrow> Inl (Undefined ''hashes[0] of an empty vector'')
                 | h # _ \<Rightarrow> Inr h))"

definition aggregate_proofs :: "string option \<Rightarrow> (bytes \<Rightarrow> bytes) \<Rightarrow> bytes list \<Rightarrow> bytes res" where
  "aggregate_proofs evp sha256 proofs =
     (if proofs = [] then Inl (Invalid_argument ''No proofs to aggregate'')
      else case compute_proof_merkle_root evp sha256 proofs of
             Inl e \<Rightarrow> Inl e
           | Inr merkle_root \<Rightarrow> Inr (concat proofs @ merkle_root))"

definition verify_aggregated_proof :: "string option \<Rightarrow> (bytes \<Rightarrow> bytes) \<Rightarrow> bytes \<Rightarrow> bytes list \<Rightarrow> bool res" where
  "verify_aggregated_proof evp sha256 aggregated_proof original_proofs =
     (if original_proofs = [] \<or> length aggregated_proof < 32 then Inr False
      else case compute_proof_merkle_root evp sha256 original_proofs of
             Inl e \<Rightarrow> Inl e
           | Inr expected_root \<Rightarrow> Inr (drop (length aggregated_proof - 32) aggregated_proof = expected_root))"

section \<open>The in-place loop against the functional level\<close>

fun pair_up :: "(bytes \<Rightarrow> bytes) \<Rightarrow> bytes list \<Rightarrow> bytes list" where
  "pair_up H (a # b # hs) = H (a @ b) # pair_up H hs"
| "pair_up H hs = hs"

lemma length_pair_up: "length (pair_up H hs) = (length hs + 1) div 2"
  by (induction H hs rule: pair_up.induct) auto

lemma nth_pair_up:
  "i < (length hs + 1) div 2 \<Longrightarrow>
    pair_up H hs ! i = (if 2 * i + 1 < length hs then H (hs ! (2 * i) @ hs ! (2 * i + 1)) else hs ! (2 * i))"
proof (induction H hs arbitrary: i rule: pair_up.induct)
  case (1 H a b hs)
  then show ?case by (cases i) auto
qed (auto simp: nth_Cons split: nat.split)

lemma combine_prefix:
  assumes "2 * n \<le> length hs"
  shows "length (foldl (combine_at H) hs [0..<n]) = length hs \<and>
    (\<forall>i < length hs. foldl (combine_at H) hs [0..<n] ! i =
      (if i < n then H (hs ! (2 * i) @ hs ! (2 * i + 1)) else hs ! i))"
  using assms
proof (induction n)
  case (Suc n)
  then show ?case by (auto simp: combine_at_def nth_list_update less_Suc_eq)
qed simp

lemma merkle_round_pair_up: "merkle_round H hs = pair_up H hs"
proof (rule nth_equalityI)
  let ?n = "length hs div 2"
  define f where "f = foldl (combine_at H) hs [0..<?n]"
  have f: "length f = length hs"
    "\<And>i. i < length hs \<Longrightarrow> f ! i = (if i < ?n then H (hs ! (2 * i) @ hs ! (2 * i + 1)) else hs ! i)"
    using combine_prefix [of ?n hs H] by (auto simp: f_def)
  show "length (merkle_round H hs) = length (pair_up H hs)"
    by (simp add: length_merkle_round length_pair_up)
  fix i
  assume "i < length (merkle_round H hs)"
  then have i: "i < (length hs + 1) div 2"
    by (simp add: length_merkle_round)
  show "merkle_round H hs ! i = pair_up H hs ! i"
  proof (cases "length hs mod 2 = 1")
    case True
    then have n: "length hs = 2 * ?n + 1" and lst: "last f = hs ! (2 * ?n)"
    proof -
      show n: "length hs = 2 * ?n + 1"
        using True by presburger
      have "0 < length f" and "length f - 1 = 2 * ?n"
        using n f(1) by linarith+
      then have "last f = f ! (2 * ?n)"
        using last_conv_nth [of f] by simp
      then show "last f = hs ! (2 * ?n)"
        using f(2) [of "2 * ?n"] n by auto
    qed
    have "merkle_round H hs ! i = f[?n := hs ! (2 * ?n)] ! i"
      using True i n lst by (simp add: merkle_round_def Let_def f_def)
    also have "\<dots> = pair_up H hs ! i"
      using i n f by (subst nth_pair_up) (auto simp: nth_list_update)
    finally show ?thesis .
  next
    case False
    then have "length hs = 2 * ?n"
      by presburger
    then show ?thesis
      using False i f by (subst nth_pair_up) (auto simp: merkle_round_def Let_def f_def [symmetric])
  qed
qed

lemma pair_up_nodes: "hash32 H \<Longrightarrow> nodes hs \<Longrightarrow> nodes (pair_up H hs)"
  by (induction H hs rule: pair_up.induct) (auto simp: hash32_def)

fun pair_inputs :: "bytes list \<Rightarrow> bytes list" where
  "pair_inputs (a # b # hs) = (a @ b) # pair_inputs hs"
| "pair_inputs hs = []"

lemma pair_up_bind:
  "nodes hs \<Longrightarrow> nodes hs' \<Longrightarrow> length hs = length hs' \<Longrightarrow> pair_up H hs = pair_up H hs' \<Longrightarrow>
    hs = hs' \<or> collides H (set (pair_inputs hs)) (set (pair_inputs hs'))"
proof (induction hs arbitrary: hs' rule: induct_list012)
  case (2 h)
  then show ?case by (cases hs') auto
next
  case (3 a b hs)
  then obtain c d hs2 where hs': "hs' = c # d # hs2"
    by (auto simp: Suc_length_conv length_Suc_conv)
  then have "a = c \<and> b = d \<or> collides H {a @ b} {c @ d}"
    using "3.prems" by (intro pair_bind) auto
  moreover have "hs = hs2 \<or> collides H (set (pair_inputs hs)) (set (pair_inputs hs2))"
    using 3 hs' by auto
  ultimately show ?case
    unfolding hs' pair_inputs.simps list.set(2) collides_insert [of H "a @ b" "set (pair_inputs hs)" "c @ d" "set (pair_inputs hs2)"]
    by blast
qed auto

definition merkle_root_of :: "(bytes \<Rightarrow> bytes) \<Rightarrow> bytes list \<Rightarrow> bytes" where
  "merkle_root_of H hs = hd (merkle_loop H hs)"

interpretation proofs_tree: merkle_tree H "merkle_round H" pair_inputs "merkle_root_of H" for H
proof
  show "1 < length hs \<Longrightarrow> merkle_root_of H hs = merkle_root_of H (merkle_round H hs)" for hs
    by (simp add: merkle_root_of_def merkle_loop.simps [of H hs])
qed (auto simp: length_pair_up merkle_round_pair_up pair_up_nodes pair_up_bind merkle_root_of_def
    merkle_loop.simps)

lemma merkle_loop_single: "hs \<noteq> [] \<Longrightarrow> merkle_loop H hs = [merkle_root_of H hs]"
proof (induction H hs rule: merkle_loop.induct)
  case (1 H hs)
  show ?case
  proof (cases "length hs > 1")
    case True
    then have "merkle_round H hs \<noteq> []"
      using length_merkle_round [of H hs] by (auto simp flip: length_greater_0_conv)
    then show ?thesis
      using True 1 by (simp add: merkle_loop.simps [of H hs] proofs_tree.root_step)
  next
    case False
    then obtain h where "hs = [h]"
      using "1.prems" by (cases hs) auto
    then show ?thesis
      by (simp add: merkle_root_of_def merkle_loop.simps)
  qed
qed

lemma compute_root: "ps \<noteq> [] \<Longrightarrow> compute_proof_merkle_root None sha ps = Inr (merkle_root_of sha (map sha ps))"
  by (simp add: compute_proof_merkle_root_def merkle_loop_single)

section \<open>Properties\<close>

text \<open>What is hashed for the root of a list of proofs.\<close>

definition proof_inputs :: "(bytes \<Rightarrow> bytes) \<Rightarrow> bytes list \<Rightarrow> bytes set" where
  "proof_inputs sha ps = set ps \<union> set (tree_inputs pair_inputs (merkle_round sha) (length ps) (map sha ps))"

text \<open>
  C8. Aggregating is complete and binding. The aggregate of a non-empty list of proofs verifies against
  that list; and if it verifies against another list of as many proofs, then the two lists are equal or
  two different strings hashed to compute the two roots collide.
\<close>

theorem aggregate_binds:
  assumes "hash32 sha" and "ps \<noteq> []"
  shows "\<exists>agg. aggregate_proofs None sha ps = Inr agg
    \<and> verify_aggregated_proof None sha agg ps = Inr True
    \<and> (\<forall>qs. length qs = length ps \<and> verify_aggregated_proof None sha agg qs = Inr True
          \<longrightarrow> qs = ps \<or> collides sha (proof_inputs sha qs) (proof_inputs sha ps))"
proof (intro exI conjI allI impI)
  let ?root = "\<lambda>ps. merkle_root_of sha (map sha ps)"
  have nodes: "nodes (map sha qs)" for qs
    using assms(1) by (auto simp: nodes_def hash32_def)
  have len: "length (?root qs) = 32" if "qs \<noteq> []" for qs
    using proofs_tree.root_node [OF assms(1) nodes] that by simp
  let ?agg = "concat ps @ ?root ps"
  have verify: "verify_aggregated_proof None sha ?agg qs = Inr (?root ps = ?root qs)" if "qs \<noteq> []" for qs
    using that len [OF assms(2)] by (simp add: verify_aggregated_proof_def compute_root)
  show "aggregate_proofs None sha ps = Inr ?agg"
    using assms(2) by (simp add: aggregate_proofs_def compute_root)
  show "verify_aggregated_proof None sha ?agg ps = Inr True"
    using verify [OF assms(2)] by simp
  fix qs
  assume qs: "length qs = length ps \<and> verify_aggregated_proof None sha ?agg qs = Inr True"
  then have ne: "qs \<noteq> []"
    using assms(2) by auto
  have "?root qs = ?root ps"
    using qs verify [OF ne] by simp
  then have "map sha qs = map sha ps \<or> collides sha (proof_inputs sha qs) (proof_inputs sha ps)"
    using ne proofs_tree.root_binds [OF assms(1) nodes nodes, of qs ps "length qs"] qs
    by (auto simp: proof_inputs_def collides_Un)
  moreover have "map sha qs = map sha ps \<Longrightarrow> qs = ps \<or> collides sha (proof_inputs sha qs) (proof_inputs sha ps)"
    by (drule map_hash_eq) (auto simp: proof_inputs_def collides_Un)
  ultimately show "qs = ps \<or> collides sha (proof_inputs sha qs) (proof_inputs sha ps)"
    by blast
qed

theorem aggregate_binds_witness:
  "\<exists>agg. aggregate_proofs None (\<lambda>b. replicate 32 (of_nat (length b))) [[1], [2, 3], [4]] = Inr agg
    \<and> verify_aggregated_proof None (\<lambda>b. replicate 32 (of_nat (length b))) agg [[1], [2, 3], [4]] = Inr True"
  using aggregate_binds [of "\<lambda>b. replicate 32 (of_nat (length b))" "[[1], [2, 3], [4]]"]
  by (auto simp: hash32_def)

text \<open>
  The in-place computation of a tree level agrees with the functional one: adjacent nodes are hashed
  in pairs and an odd last node is carried up unchanged, although the loop overwrites the vector it
  reads from.
\<close>

theorem merkle_round_in_place: "merkle_round H hs = pair_up H hs"
  by (rule merkle_round_pair_up)

end
