(* ===== verification/Evm_Decimal.thy ===== *)
theory Evm_Decimal
  imports Prelude
begin

text \<open>
  Fixed-point decimals (\<open>include/evm/FloatingPoint.hpp\<close>, \<open>src/evm/FloatingPoint.cpp\<close>): a 256-bit integer
  that counts units of \<open>10^-18\<close>, reduced modulo \<open>10^36\<close> by every constructor. \<open>FloatingPointError\<close> derives
  from \<open>std::runtime_error\<close> and is modelled as that.
\<close>

section \<open>Definitions\<close>

type_synonym Decimal = u256

abbreviation DECIMALS :: nat where "DECIMALS \<equiv> 18"

datatype RoundingMode = ROUND_DOWN | ROUND_UP | ROUND_HALF_UP

definition powers :: "u256 list" where
  "powers = [1, 10, 100, 1000, 10000, 100000, 1000000, 10000000, 100000000, 1000000000]"

fun pow10_loop :: "nat \<Rightarrow> u256 \<Rightarrow> u256" where
  "pow10_loop 0 result = result"
| "pow10_loop (Suc i) result = pow10_loop i (result * 10)"

definition pow10 :: "nat \<Rightarrow> u256" where
  "pow10 exponent = (if exponent < length powers then powers ! exponent else pow10_loop exponent 1)"

definition Decimal_normalize :: "u256 \<Rightarrow> Decimal" where
  "Decimal_normalize v = v mod pow10 (DECIMALS * 2)"

definition Decimal_of_uint :: "u256 \<Rightarrow> Decimal" where
  "Decimal_of_uint v = Decimal_normalize v"

text \<open>\<open>getline(ss, s, '.')\<close> takes what precedes the first point; the second call stops at a newline.\<close>

definition Decimal_parse :: "string \<Rightarrow> Decimal res" where
  "Decimal_parse s =
     (let integer_part = takeWhile (\<lambda>c. c \<noteq> CHR ''.'') s;
          decimal_part = takeWhile (\<lambda>c. c \<noteq> CHR 0x0A) (tl (dropWhile (\<lambda>c. c \<noteq> CHR ''.'') s))
      in case stoull integer_part of
           Inl e \<Rightarrow> Inl e
         | Inr i \<Rightarrow>
             let v = (ucast i :: u256) * pow10 DECIMALS in
             if decimal_part = [] then Inr (Decimal_normalize v)
             else let decimal_part =
                        (if length decimal_part > DECIMALS then take DECIMALS decimal_part
                         else decimal_part @ replicate (DECIMALS - length decimal_part) (CHR ''0''))
                  in case stoull decimal_part of
                       Inl e \<Rightarrow> Inl e
                     | Inr d \<Rightarrow> Inr (Decimal_normalize (v + ucast d)))"

definition Decimal_add :: "Decimal \<Rightarrow> Decimal \<Rightarrow> Decimal res" where
  "Decimal_add a b =
     (if a > - 1 - b then Inl (Runtime_error ''Addition overflow'') else Inr (Decimal_of_uint (a + b)))"

definition Decimal_subtract :: "Decimal \<Rightarrow> Decimal \<Rightarrow> Decimal res" where
  "Decimal_subtract a b =
     (if a < b then Inl (Runtime_error ''Subtraction underflow'') else Inr (Decimal_of_uint (a - b)))"

definition Decimal_multiply :: "Decimal \<Rightarrow> Decimal \<Rightarrow> Decimal res" where
  "Decimal_multiply a b =
     (if a \<noteq> 0 \<and> b > - 1 div a then Inl (Runtime_error ''Multiplication overflow'')
      else Inr (Decimal_of_uint (a * b div pow10 DECIMALS)))"

definition Decimal_divide :: "Decimal \<Rightarrow> Decimal \<Rightarrow> Decimal res" where
  "Decimal_divide a b =
     (if b = 0 then Inl (Runtime_error ''Division by zero'')
      else Inr (Decimal_of_uint (a * pow10 DECIMALS div b)))"

definition Decimal_eq :: "Decimal \<Rightarrow> Decimal \<Rightarrow> bool" where
  "Decimal_eq a b \<longleftrightarrow> a = b"

definition Decimal_less :: "Decimal \<Rightarrow> Decimal \<Rightarrow> bool" where
  "Decimal_less a b \<longleftrightarrow> a < b"

definition Decimal_greater :: "Decimal \<Rightarrow> Decimal \<Rightarrow> bool" where
  "Decimal_greater a b \<longleftrightarrow> a > b"

function strip_zeros :: "string \<Rightarrow> string" where
  "strip_zeros s = (if s \<noteq> [] \<and> last s = CHR ''0'' \<and> CHR ''.'' \<in> set s then strip_zeros (butlast s) else s)"
  by pat_completeness auto
termination
  by (relation "measure length") auto

declare strip_zeros.simps [simp del]

definition setw0 :: "nat \<Rightarrow> string \<Rightarrow> string" where
  "setw0 n s = replicate (n - length s) (CHR ''0'') @ s"

definition Decimal_toString :: "Decimal \<Rightarrow> string" where
  "Decimal_toString v =
     (let integer_part = v div pow10 DECIMALS;
          decimal_part = v mod pow10 DECIMALS;
          result = to_string (unat integer_part) @ ''.'' @ setw0 DECIMALS (to_string (unat decimal_part));
          result = strip_zeros result
      in if last result = CHR ''.'' then butlast result else result)"

definition Decimal_toInteger :: "Decimal \<Rightarrow> u256" where
  "Decimal_toInteger v = v div pow10 DECIMALS"

definition Decimal_round :: "nat \<Rightarrow> RoundingMode \<Rightarrow> Decimal \<Rightarrow> Decimal" where
  "Decimal_round decimal_places mode v =
     (if decimal_places \<ge> DECIMALS then v
      else let scale = pow10 (DECIMALS - decimal_places);
               scaled_value = v div scale
           in case mode of
                ROUND_DOWN \<Rightarrow> Decimal_of_uint (scaled_value * scale)
              | ROUND_UP \<Rightarrow>
                  let scaled_value = (if v mod scale \<noteq> 0 then scaled_value + 1 else scaled_value)
                  in Decimal_of_uint (scaled_value * scale)
              | ROUND_HALF_UP \<Rightarrow>
                  let remainder = v mod scale;
                      scaled_value = (if remainder \<ge> scale div 2 then scaled_value + 1 else scaled_value)
                  in Decimal_of_uint (scaled_value * scale))"

section \<open>Powers and the invariant\<close>

definition Decimal_ok :: "Decimal \<Rightarrow> bool" where
  "Decimal_ok v \<longleftrightarrow> unat v < 10 ^ 36"

lemma pow10_loop_eq: "pow10_loop n r = r * 10 ^ n"
  by (induction n arbitrary: r) (auto simp: algebra_simps)

lemma powers_eq: "i < length powers \<Longrightarrow> powers ! i = 10 ^ i"
  by (auto simp: powers_def nth_Cons less_Suc_eq numeral_2_eq_2 eval_nat_numeral split: nat.split)

lemma pow10_eq: "pow10 n = 10 ^ n"
  by (simp add: pow10_def powers_eq pow10_loop_eq)

lemma unat_pow10: "n \<le> 36 \<Longrightarrow> unat (pow10 n) = 10 ^ n"
proof -
  assume "n \<le> 36"
  then have "(10 :: nat) ^ n \<le> 10 ^ 36"
    by (intro power_increasing) auto
  then have "(10 :: nat) ^ n < 2 ^ 256"
    by (rule le_less_trans) simp
  moreover have "pow10 n = of_nat (10 ^ n)"
    by (simp add: pow10_eq)
  ultimately show ?thesis
    by (simp only: unat_of_nat) simp
qed

lemma unat_normalize [simp]: "unat (Decimal_normalize v) = unat v mod 10 ^ 36"
  using unat_pow10 [of 36] by (simp add: Decimal_normalize_def unat_mod_distrib)

lemma Decimal_of_uint_ok [simp]: "Decimal_ok (Decimal_of_uint v)"
  by (simp add: Decimal_ok_def Decimal_of_uint_def)

lemma unat_add_u256: "unat a + unat b < 2 ^ 256 \<Longrightarrow> unat (a + b) = unat a + unat (b :: u256)"
  by (simp add: unat_word_ariths)

lemma unat_mult_u256: "unat a * unat b < 2 ^ 256 \<Longrightarrow> unat (a * b) = unat a * unat (b :: u256)"
  by (simp add: unat_word_ariths)

lemma unat_max_u256: "unat (- 1 :: u256) = 2 ^ 256 - 1"
  by (simp add: unsigned_minus_1_eq_mask mask_eq_exp_minus_1)

lemma ok_mult_bound: "Decimal_ok a \<Longrightarrow> Decimal_ok b \<Longrightarrow> unat a * unat b < 2 ^ 256"
proof -
  assume "Decimal_ok a" "Decimal_ok b"
  then have "unat a * unat b \<le> 10 ^ 36 * 10 ^ 36"
    by (intro mult_le_mono) (simp_all add: Decimal_ok_def)
  then show ?thesis
    by (rule le_less_trans) simp
qed

section \<open>Arithmetic\<close>

text \<open>
  C37. On normalised values the overflow tests of \<open>add\<close> and \<open>multiply\<close> never fire: the sum and the product
  are computed exactly in 256 bits and then silently reduced modulo \<open>10^36\<close>, as is the quotient; only
  \<open>subtract\<close> and \<open>divide\<close> can throw, on a larger subtrahend and on zero. Results are rounded towards zero.
\<close>

theorem Decimal_arith:
  assumes "Decimal_ok a" and "Decimal_ok b"
  shows "(\<exists>c. Decimal_add a b = Inr c \<and> unat c = (unat a + unat b) mod 10 ^ 36)
    \<and> (\<exists>c. Decimal_multiply a b = Inr c \<and> unat c = unat a * unat b div 10 ^ 18 mod 10 ^ 36)
    \<and> (if unat a < unat b then Decimal_subtract a b = Inl (Runtime_error ''Subtraction underflow'')
       else \<exists>c. Decimal_subtract a b = Inr c \<and> unat c = unat a - unat b)
    \<and> (if unat b = 0 then Decimal_divide a b = Inl (Runtime_error ''Division by zero'')
       else \<exists>c. Decimal_divide a b = Inr c \<and> unat c = unat a * 10 ^ 18 div unat b mod 10 ^ 36)"
proof (intro conjI)
  have a: "unat a < 10 ^ 36" and b: "unat b < 10 ^ 36"
    using assms by (simp_all add: Decimal_ok_def)
  have p: "unat (pow10 18) = 10 ^ 18"
    by (rule unat_pow10) simp
  have "unat (- 1 - b) = 2 ^ 256 - 1 - unat b"
    using b by (subst unat_sub) (simp_all add: unat_max_u256 word_le_nat_alt)
  then have "\<not> a > - 1 - b"
    using a b by (simp add: word_less_nat_alt)
  then show "\<exists>c. Decimal_add a b = Inr c \<and> unat c = (unat a + unat b) mod 10 ^ 36"
    using unat_add_u256 [of a b] a b by (simp add: Decimal_add_def Decimal_of_uint_def)
  have ab: "unat (a * b) = unat a * unat b"
    by (rule unat_mult_u256 [OF ok_mult_bound [OF assms]])
  have "\<not> b > - 1 div a" if "a \<noteq> 0"
  proof -
    have "0 < unat a"
      using that by (simp add: unat_gt_0)
    moreover have "unat b * unat a \<le> 2 ^ 256 - 1"
      using ok_mult_bound [OF assms] by (simp add: mult.commute)
    ultimately have "unat b \<le> (2 ^ 256 - 1) div unat a"
      by (simp only: less_eq_div_iff_mult_less_eq)
    then show ?thesis
      by (simp only: word_less_nat_alt unat_div_distrib unat_max_u256 not_less)
  qed
  then show "\<exists>c. Decimal_multiply a b = Inr c \<and> unat c = unat a * unat b div 10 ^ 18 mod 10 ^ 36"
    using ab p by (auto simp: Decimal_multiply_def Decimal_of_uint_def unat_div_distrib)
  show "if unat a < unat b then Decimal_subtract a b = Inl (Runtime_error ''Subtraction underflow'')
      else \<exists>c. Decimal_subtract a b = Inr c \<and> unat c = unat a - unat b"
    using a by (auto simp: Decimal_subtract_def word_less_nat_alt Decimal_of_uint_def unat_sub word_le_nat_alt)
  have "unat a * unat (pow10 18) \<le> 10 ^ 36 * 10 ^ 18"
    using a by (intro mult_le_mono) (simp_all add: p)
  then have "unat a * unat (pow10 18) < 2 ^ 256"
    by (rule le_less_trans) simp
  then have "unat (a * pow10 18) = unat a * 10 ^ 18"
    by (simp only: unat_mult_u256 p)
  then show "if unat b = 0 then Decimal_divide a b = Inl (Runtime_error ''Division by zero'')
      else \<exists>c. Decimal_divide a b = Inr c \<and> unat c = unat a * 10 ^ 18 div unat b mod 10 ^ 36"
    by (auto simp: Decimal_divide_def Decimal_of_uint_def unat_div_distrib unat_eq_0)
qed

theorem Decimal_arith_witness:
  "\<exists>c. Decimal_multiply (2 * 10 ^ 18) (3 * 10 ^ 18) = Inr c \<and> unat c = 6 * 10 ^ 18"
proof -
  have "Decimal_ok (2 * 10 ^ 18)" "Decimal_ok (3 * 10 ^ 18)"
    by (simp_all add: Decimal_ok_def)
  from Decimal_arith [OF this] show ?thesis by simp
qed

section \<open>Rounding\<close>

lemma round_up_nat:
  assumes "0 < (s :: nat)"
  shows "(if v mod s \<noteq> 0 then v div s + 1 else v div s) = (v + (s - 1)) div s"
proof -
  define q r where "q = v div s" and "r = v mod s"
  have v: "v = q * s + r" and r: "r < s"
    using assms by (simp_all add: q_def r_def)
  have "(v + (s - 1)) div s = (r + (s - 1) + q * s) div s"
    by (simp only: v ac_simps)
  also have "\<dots> = q + (r + (s - 1)) div s"
    using assms by (simp only: div_mult_self3 add.commute)
  also have "(r + (s - 1)) div s = (if r = 0 then 0 else 1)"
    using r assms by (auto simp: div_nat_eqI)
  finally show ?thesis
    by (simp add: q_def r_def)
qed

lemma round_half_nat:
  assumes "0 < (h :: nat)"
  shows "(if v mod (2 * h) \<ge> h then v div (2 * h) + 1 else v div (2 * h)) = (v + h) div (2 * h)"
proof -
  define q r where "q = v div (2 * h)" and "r = v mod (2 * h)"
  have v: "v = q * (2 * h) + r" and r: "r < 2 * h"
    unfolding q_def r_def using assms by (simp_all only: div_mult_mod_eq) simp
  have "(v + h) div (2 * h) = (r + h + q * (2 * h)) div (2 * h)"
    by (simp only: v ac_simps)
  also have "\<dots> = q + (r + h) div (2 * h)"
    using assms by simp
  also have "(r + h) div (2 * h) = (if r \<ge> h then 1 else 0)"
    using r assms by (auto simp: div_nat_eqI)
  finally show ?thesis
    by (simp add: q_def r_def)
qed

lemma round_product:
  assumes "unat x \<le> unat v div s + 1" and "s = unat w" and "s \<le> 10 ^ 18" and "Decimal_ok v"
  shows "unat (Decimal_of_uint (x * w)) = unat x * s mod 10 ^ 36"
proof -
  have "unat x * s \<le> unat v div s * s + s"
    using mult_le_mono1 [OF assms(1), of s] by (simp add: add_mult_distrib)
  also have "\<dots> \<le> unat v + 10 ^ 18"
    using assms(3) by (intro add_mono) (simp_all add: div_times_less_eq_dividend)
  also have "\<dots> < 2 ^ 256"
    using assms(4) by (simp add: Decimal_ok_def)
  finally have "unat (x * w) = unat x * s"
    by (simp add: unat_mult_u256 assms(2))
  then show ?thesis
    by (simp add: Decimal_of_uint_def)
qed

text \<open>
  Rounding to \<open>p < 18\<close> places, with \<open>s = 10^(18-p)\<close> units per step: down is the multiple of \<open>s\<close> at or
  below the value, up the multiple at or above it, half-up the nearest multiple with ties upwards; the
  two that can grow are then reduced modulo \<open>10^36\<close>, so that rounding up near the maximum gives zero.
\<close>

theorem Decimal_round_spec:
  assumes "p < 18" and "Decimal_ok v"
  shows "let s = 10 ^ (18 - p) in
    unat (Decimal_round p ROUND_DOWN v) = unat v div s * s
    \<and> unat (Decimal_round p ROUND_UP v) = (unat v + (s - 1)) div s * s mod 10 ^ 36
    \<and> unat (Decimal_round p ROUND_HALF_UP v) = (unat v + s div 2) div s * s mod 10 ^ 36"
proof -
  define s :: nat where "s = 10 ^ (18 - p)"
  define w where "w = pow10 (18 - p)"
  have w: "s = unat w"
    by (simp add: s_def w_def unat_pow10)
  have s18: "s \<le> 10 ^ 18"
    unfolding s_def by (rule power_increasing) simp_all
  have "s = 10 * 10 ^ (17 - p)"
    using assms(1) by (simp add: s_def Suc_diff_le flip: power_Suc)
  moreover define h :: nat where "h = 5 * 10 ^ (17 - p)"
  ultimately have h: "s = 2 * h" "0 < h"
    by simp_all
  have v36: "unat v < 10 ^ 36"
    using assms(2) by (simp add: Decimal_ok_def)
  have q: "unat (v div w) = unat v div s" and r: "unat (v mod w) = unat v mod s"
    by (simp_all add: w unat_div_distrib unat_mod_distrib)
  have "unat v div s + 1 \<le> unat v + 1"
    by simp
  also have "\<dots> < 2 ^ 256"
    using v36 by simp
  finally have q1: "unat (v div w + 1) = unat v div s + 1"
    using unat_add_u256 [of "v div w" 1] by (simp add: q)
  note prod = round_product [OF _ w s18 assms(2)]
  have "unat (Decimal_round p ROUND_DOWN v) = unat v div s * s mod 10 ^ 36"
    using assms(1) prod [of "v div w"] by (simp add: Decimal_round_def Let_def q flip: w_def)
  moreover have "unat v div s * s < 10 ^ 36"
    using v36 div_times_less_eq_dividend le_less_trans by blast
  moreover have "unat (Decimal_round p ROUND_UP v) = (unat v + (s - 1)) div s * s mod 10 ^ 36"
  proof -
    define x where "x = (if v mod w \<noteq> 0 then v div w + 1 else v div w)"
    have "v mod w \<noteq> 0 \<longleftrightarrow> unat v mod s \<noteq> 0"
      by (simp add: unat_eq_0 [symmetric] r)
    then have "unat x = (unat v + (s - 1)) div s"
      unfolding x_def using round_up_nat [of s "unat v"] h by (simp only: q q1 if_distrib [of unat])
    moreover have "unat x \<le> unat v div s + 1"
      by (simp add: x_def q q1)
    moreover have "Decimal_round p ROUND_UP v = Decimal_of_uint (x * w)"
      using assms(1) by (simp add: Decimal_round_def Let_def x_def w_def)
    ultimately show ?thesis
      using prod [of x] by simp
  qed
  moreover have "unat (Decimal_round p ROUND_HALF_UP v) = (unat v + s div 2) div s * s mod 10 ^ 36"
  proof -
    define x where "x = (if v mod w \<ge> w div 2 then v div w + 1 else v div w)"
    have "v mod w \<ge> w div 2 \<longleftrightarrow> unat v mod s \<ge> h"
      by (simp add: word_le_nat_alt r unat_div_distrib h(1) flip: w)
    then have "unat x = (unat v + s div 2) div s"
      unfolding x_def using round_half_nat [OF h(2), of "unat v"] h(1)
      by (simp only: q q1 if_distrib [of unat]) simp
    moreover have "unat x \<le> unat v div s + 1"
      by (simp add: x_def q q1)
    moreover have "Decimal_round p ROUND_HALF_UP v = Decimal_of_uint (x * w)"
      using assms(1) by (simp add: Decimal_round_def Let_def x_def w_def)
    ultimately show ?thesis
      using prod [of x] by simp
  qed
  ultimately show ?thesis
    by (simp add: Let_def flip: s_def)
qed

theorem Decimal_round_spec_witness:
  "unat (Decimal_round 0 ROUND_UP (10 ^ 36 - 1)) = 0"
proof -
  have "Decimal_ok (10 ^ 36 - 1)"
    by (simp add: Decimal_ok_def)
  from Decimal_round_spec [OF _ this, of 0] show ?thesis
    by (simp add: Let_def)
qed

section \<open>Printing and parsing\<close>

definition rstrip :: "string \<Rightarrow> string" where
  "rstrip ds = rev (dropWhile (\<lambda>c. c = CHR ''0'') (rev ds))"

lemma rstrip_snoc [simp]: "rstrip [] = []" "rstrip (ds @ [c]) = (if c = CHR ''0'' then rstrip ds else ds @ [c])"
  by (simp_all add: rstrip_def)

lemma strip_zeros_fraction:
  "\<forall>c \<in> set ds. is_digit c \<Longrightarrow> strip_zeros (p @ CHR ''.'' # ds) = p @ CHR ''.'' # rstrip ds"
proof (induction ds rule: rev_induct)
  case Nil
  show ?case by (simp add: strip_zeros.simps)
next
  case (snoc c ds)
  then show ?case
    by (auto simp: strip_zeros.simps [of "p @ CHR ''.'' # ds @ [c]"] butlast_append)
qed

lemma rstrip_pad: "rstrip ds @ replicate (length ds - length (rstrip ds)) (CHR ''0'') = ds"
proof (induction ds rule: rev_induct)
  case (snoc c ds)
  have "length (rstrip ds) \<le> length ds"
    using length_dropWhile_le [of "\<lambda>c. c = CHR ''0''" "rev ds"] by (simp add: rstrip_def)
  with snoc show ?case
    by (auto simp: Suc_diff_le replicate_append_same [symmetric] simp flip: append_assoc)
qed simp

lemma rstrip_subset: "set (rstrip ds) \<subseteq> set ds"
  by (metis rstrip_pad set_append sup_ge1)

lemma rstrip_length: "length (rstrip ds) \<le> length ds"
  using length_dropWhile_le [of "\<lambda>c. c = CHR ''0''" "rev ds"] by (simp add: rstrip_def)

lemma is_digit_zero [simp]: "is_digit (CHR ''0'')" "digit_val (CHR ''0'') = 0"
  by (simp_all add: is_digit_def digit_val_def)

lemma decimal_val_zeros: "decimal_val (replicate n (CHR ''0'') @ s) = decimal_val s"
  by (induction n) (auto simp: decimal_val_def)

lemma setw0_digits: "\<forall>c \<in> set (setw0 n (to_string k)). is_digit c"
  using to_string_digits [of k] by (auto simp: setw0_def)

lemma decimal_val_setw0: "decimal_val (setw0 n (to_string k)) = k"
  by (simp add: setw0_def decimal_val_zeros)

lemma length_to_string: "0 < n \<Longrightarrow> k < 10 ^ n \<Longrightarrow> length (to_string k) \<le> n"
proof (induction k arbitrary: n rule: to_string.induct)
  case (1 k)
  show ?case
  proof (cases "k < 10")
    case True
    then show ?thesis using "1.prems" by (simp add: to_string.simps [of k])
  next
    case False
    obtain m where m: "n = Suc m"
      using "1.prems"(1) gr0_implies_Suc by blast
    have "0 < m"
      using False "1.prems"(2) m by (cases m) auto
    have "k div 10 < 10 ^ m"
      using "1.prems"(2) by (simp add: m less_mult_imp_div_less mult.commute)
    then show ?thesis
      using "1.IH" [OF False \<open>0 < m\<close>] False by (simp add: to_string.simps [of k] m)
  qed
qed

lemma takeWhile_digits:
  assumes "\<forall>c \<in> set ds. is_digit c"
  shows "takeWhile (\<lambda>c. c \<noteq> CHR ''.'') (ds @ CHR ''.'' # es) = ds"
    and "dropWhile (\<lambda>c. c \<noteq> CHR ''.'') (ds @ CHR ''.'' # es) = CHR ''.'' # es"
    and "takeWhile (\<lambda>c. c \<noteq> CHR ''.'') ds = ds" and "dropWhile (\<lambda>c. c \<noteq> CHR ''.'') ds = []"
    and "takeWhile (\<lambda>c. c \<noteq> CHR 0x0A) ds = ds"
proof -
  have ne: "c \<noteq> CHR ''.'' \<and> c \<noteq> CHR 0x0A" if "c \<in> set ds" for c
    using assms that by (auto simp: is_digit_def)
  then show "takeWhile (\<lambda>c. c \<noteq> CHR ''.'') (ds @ CHR ''.'' # es) = ds"
    "dropWhile (\<lambda>c. c \<noteq> CHR ''.'') (ds @ CHR ''.'' # es) = CHR ''.'' # es"
    by (subst takeWhile_append2 dropWhile_append2; auto)+
  show "takeWhile (\<lambda>c. c \<noteq> CHR ''.'') ds = ds" "dropWhile (\<lambda>c. c \<noteq> CHR ''.'') ds = []"
    "takeWhile (\<lambda>c. c \<noteq> CHR 0x0A) ds = ds"
    using ne by (auto simp: takeWhile_eq_all_conv)
qed

text \<open>The two parts of a decimal: put together again, printed, and read back.\<close>

lemma Decimal_recombine:
  assumes v: "unat v = i * 10 ^ 18 + d" and i18: "i < 10 ^ 18" and d18: "d < 10 ^ 18"
  shows "Decimal_normalize (ucast (of_nat i :: u64) * pow10 18 + ucast (of_nat d :: u64)) = v"
proof -
  let ?i = "ucast (of_nat i :: u64) :: u256" and ?d = "ucast (of_nat d :: u64) :: u256"
  have ui: "unat ?i = i" "unat ?d = d"
    using i18 d18 by (simp_all add: unsigned_ucast_eq unat_of_nat take_bit_nat_eq_self)
  have "unat (?i * pow10 18) = i * 10 ^ 18"
    using unat_mult_u256 [of ?i "pow10 18"] unat_pow10 [of 18] ui(1) i18 by simp
  moreover have v36: "unat v < 10 ^ 36"
    using i18 d18 by (simp add: v)
  ultimately have "unat (?i * pow10 18 + ?d) = unat v"
    using unat_add_u256 [of "?i * pow10 18" ?d] by (simp add: ui v)
  then show ?thesis
    using v36 by (intro word_unat_eq_iff [THEN iffD2]) simp
qed

lemma fraction_digits:
  assumes "d < 10 ^ 18"
  shows "length (setw0 18 (to_string d)) = 18" "stoull (setw0 18 (to_string d)) = Inr (of_nat d)"
proof -
  show len: "length (setw0 18 (to_string d)) = 18"
    using length_to_string [of 18 d] assms by (simp add: setw0_def)
  then have "setw0 18 (to_string d) \<noteq> []"
    by auto
  then show "stoull (setw0 18 (to_string d)) = Inr (of_nat d)"
    using stoull_digits [of "setw0 18 (to_string d)"] setw0_digits [of 18 d] assms by (simp add: decimal_val_setw0)
qed

lemma Decimal_toString_parts:
  assumes v: "unat v = i * 10 ^ 18 + d" and d18: "d < 10 ^ 18" and ds: "ds = setw0 18 (to_string d)"
  shows "Decimal_toString v = (if rstrip ds = [] then to_string i else to_string i @ CHR ''.'' # rstrip ds)"
proof -
  have dig: "\<forall>c \<in> set ds. is_digit c" "\<forall>c \<in> set (rstrip ds). is_digit c"
    using setw0_digits [of 18 d] rstrip_subset [of ds] by (auto simp: ds)
  have "last (rstrip ds) \<noteq> CHR ''.''" if "rstrip ds \<noteq> []"
    using dig(2) that digit_not_special(4) last_in_set by blast
  moreover have "unat (v div pow10 18) = i" "unat (v mod pow10 18) = d"
    using d18 unat_pow10 [of 18] by (simp_all add: unat_div_distrib unat_mod_distrib v)
  ultimately show ?thesis
    using strip_zeros_fraction [OF dig(1), of "to_string i"]
    by (auto simp: Decimal_toString_def Let_def butlast_append simp flip: ds)
qed

text \<open>
  Printing a normalised decimal and parsing the text gives the value back: the integer part and the
  eighteen digits of the fraction fit \<open>std::stoull\<close>, and the zeros that \<open>toString\<close> strips are the ones
  that the constructor appends.
\<close>

theorem Decimal_string_roundtrip:
  assumes "Decimal_ok v"
  shows "Decimal_parse (Decimal_toString v) = Inr v"
proof -
  define i d where "i = unat v div 10 ^ 18" and "d = unat v mod 10 ^ 18"
  have i18: "i < 10 ^ 18" and d18: "d < 10 ^ 18" and id: "unat v = i * 10 ^ 18 + d"
    using assms by (simp_all add: Decimal_ok_def i_def d_def less_mult_imp_div_less)
  define ip ds where "ip = to_string i" and "ds = setw0 18 (to_string d)"
  have dig: "\<forall>c \<in> set ip. is_digit c" "\<forall>c \<in> set (rstrip ds). is_digit c"
    using to_string_digits [of i] setw0_digits [of 18 d] rstrip_subset [of ds] by (auto simp: ip_def ds_def)
  have str: "Decimal_toString v = (if rstrip ds = [] then ip else ip @ CHR ''.'' # rstrip ds)"
    using Decimal_toString_parts [OF id d18 ds_def] by (simp add: ip_def)
  have si: "stoull ip = Inr (of_nat i)"
    using i18 by (simp add: ip_def)
  note fraction = fraction_digits [OF d18, folded ds_def] and sum = Decimal_recombine [OF id i18 d18]
  show ?thesis
  proof (cases "rstrip ds = []")
    case True
    then have "ds = replicate 18 (CHR ''0'')"
      using rstrip_pad [of ds] fraction(1) by simp
    then have "d = 0"
      using decimal_val_setw0 [of 18 d] decimal_val_zeros [of 18 "[]"] by (simp add: ds_def)
    then show ?thesis
      using True sum si by (simp add: Decimal_parse_def str takeWhile_digits [OF dig(1)])
  next
    case False
    then show ?thesis
      using sum si fraction rstrip_length [of ds] rstrip_pad [of ds]
      by (simp add: Decimal_parse_def str takeWhile_digits [OF dig(1)] takeWhile_digits [OF dig(2)] Let_def)
  qed
qed

theorem Decimal_string_roundtrip_witness: "Decimal_parse (Decimal_toString 1500000000000000000) = Inr 1500000000000000000"
  by (rule Decimal_string_roundtrip) (simp add: Decimal_ok_def)

end
