(* ===== verification/Lock_Free_Queue.thy ===== *)
theory Lock_Free_Queue
  imports Prelude
begin

text \<open>
  The lock-free queue (\<open>include/utils/LockFreeQueue.hpp\<close>) as a step function: every atomic operation of
  \<open>push\<close> and \<open>pop\<close> is one step of a thread on the shared heap of nodes, so that threads can be
  interleaved between any two of them. Running one thread alone gives the sequential behaviour, which
  refines a first-in-first-out list; interleaving two threads shows what the queue does not guarantee.
  A weak compare-exchange may fail spuriously: the flag of a step says whether it does.
\<close>

section \<open>Shared state\<close>

text \<open>
  What a node's \<open>unique_ptr\<close> holds: nothing (the initial dummy), a value, or a value that has been moved
  from, which is valid but unspecified.
\<close>

datatype 'a cell = Null | Val 'a | MovedFrom

record 'a lf_node =
  ndata :: "'a cell"
  nnext :: "nat option"

record 'a lf_queue =
  heap :: "nat \<rightharpoonup> 'a lf_node"
  head_ptr :: nat
  tail_ptr :: nat
  lf_size :: u64
  fresh :: nat

definition lf_new :: "'a lf_queue" where
  "lf_new = \<lparr>heap = [0 \<mapsto> \<lparr>ndata = Null, nnext = None\<rparr>], head_ptr = 0, tail_ptr = 0, lf_size = 0, fresh = 1\<rparr>"

section \<open>Threads\<close>

text \<open>The points between the atomic operations of \<open>push\<close> and \<open>pop\<close>, with the local variables live there.\<close>

datatype 'a thread =
    Push_load_tail nat
  | Push_load_next nat nat
  | Push_check_tail nat nat "nat option"
  | Push_link nat nat
  | Push_swing nat nat
  | Push_help nat nat nat
  | Push_count
  | Pushed
  | Pop_load_head
  | Pop_load_tail nat
  | Pop_load_next nat nat
  | Pop_check_head nat nat "nat option"
  | Pop_help nat nat
  | Pop_move nat nat
  | Pop_advance nat nat "'a cell"
  | Pop_count nat "'a cell"
  | Pop_delete nat "'a cell"
  | Popped "'a cell option"

definition start_push :: "'a \<Rightarrow> 'a lf_queue \<Rightarrow> 'a lf_queue \<times> 'a thread" where
  "start_push item q =
     (q\<lparr>heap := (heap q)(fresh q \<mapsto> \<lparr>ndata = Val item, nnext = None\<rparr>), fresh := fresh q + 1\<rparr>,
      Push_load_tail (fresh q))"

abbreviation freed :: "'b res" where
  "freed \<equiv> Inl (Undefined ''access to a deleted node'')"

fun lf_step :: "bool \<Rightarrow> 'a lf_queue \<times> 'a thread \<Rightarrow> ('a lf_queue \<times> 'a thread) res" where
  "lf_step sp (q, Push_load_tail n) = Inr (q, Push_load_next n (tail_ptr q))"
| "lf_step sp (q, Push_load_next n t) =
     (case heap q t of None \<Rightarrow> freed | Some nd \<Rightarrow> Inr (q, Push_check_tail n t (nnext nd)))"
| "lf_step sp (q, Push_check_tail n t nx) =
     (if t = tail_ptr q
      then Inr (q, case nx of None \<Rightarrow> Push_link n t | Some x \<Rightarrow> Push_help n t x)
      else Inr (q, Push_load_tail n))"
| "lf_step sp (q, Push_link n t) =
     (case heap q t of
        None \<Rightarrow> freed
      | Some nd \<Rightarrow>
          if nnext nd = None \<and> \<not> sp
          then Inr (q\<lparr>heap := (heap q)(t \<mapsto> nd\<lparr>nnext := Some n\<rparr>)\<rparr>, Push_swing n t)
          else Inr (q, Push_load_tail n))"
| "lf_step sp (q, Push_swing n t) =
     Inr (if tail_ptr q = t then q\<lparr>tail_ptr := n\<rparr> else q, Push_count)"
| "lf_step sp (q, Push_help n t x) =
     Inr (if tail_ptr q = t then q\<lparr>tail_ptr := x\<rparr> else q, Push_load_tail n)"
| "lf_step sp (q, Push_count) = Inr (q\<lparr>lf_size := lf_size q + 1\<rparr>, Pushed)"
| "lf_step sp (q, Pushed) = Inr (q, Pushed)"
| "lf_step sp (q, Pop_load_head) = Inr (q, Pop_load_tail (head_ptr q))"
| "lf_step sp (q, Pop_load_tail h) = Inr (q, Pop_load_next h (tail_ptr q))"
| "lf_step sp (q, Pop_load_next h t) =
     (case heap q h of None \<Rightarrow> freed | Some nd \<Rightarrow> Inr (q, Pop_check_head h t (nnext nd)))"
| "lf_step sp (q, Pop_check_head h t nx) =
     (if h = head_ptr q
      then if h = t
           then (case nx of None \<Rightarrow> Inr (q, Popped None) | Some x \<Rightarrow> Inr (q, Pop_help t x))
           else (case nx of Some x \<Rightarrow> Inr (q, Pop_move h x) | None \<Rightarrow> Inr (q, Pop_load_head))
      else Inr (q, Pop_load_head))"
| "lf_step sp (q, Pop_help t x) =
     Inr (if tail_ptr q = t then q\<lparr>tail_ptr := x\<rparr> else q, Pop_load_head)"
| "lf_step sp (q, Pop_move h x) =
     (case heap q x of
        None \<Rightarrow> freed
      | Some nd \<Rightarrow>
          if ndata nd = Null then Inl (Undefined ''null data pointer'')
          else Inr (q\<lparr>heap := (heap q)(x \<mapsto> nd\<lparr>ndata := MovedFrom\<rparr>)\<rparr>, Pop_advance h x (ndata nd)))"
| "lf_step sp (q, Pop_advance h x r) =
     (if head_ptr q = h \<and> \<not> sp then Inr (q\<lparr>head_ptr := x\<rparr>, Pop_count h r) else Inr (q, Pop_load_head))"
| "lf_step sp (q, Pop_count h r) = Inr (q\<lparr>lf_size := lf_size q - 1\<rparr>, Pop_delete h r)"
| "lf_step sp (q, Pop_delete h r) =
     (case heap q h of
        None \<Rightarrow> Inl (Undefined ''double delete'')
      | Some nd \<Rightarrow> Inr (q\<lparr>heap := (heap q)(h := None)\<rparr>, Popped (Some r)))"
| "lf_step sp (q, Popped r) = Inr (q, Popped r)"

definition LockFreeQueue_size :: "'a lf_queue \<Rightarrow> u64" where
  "LockFreeQueue_size q = lf_size q"

definition LockFreeQueue_empty :: "'a lf_queue \<Rightarrow> bool" where
  "LockFreeQueue_empty q \<longleftrightarrow> lf_size q = 0"

text \<open>
  A thread running alone, with a flag per step whether a weak compare-exchange in it fails spuriously, and the two operations with
  the number of such failures. A turn of the loop of \<open>push\<close> that fails takes 4 steps and the rest 6, for \<open>pop\<close> it is 6 and at
  most 8; a thread that is done stays so.
\<close>

fun lf_run :: "bool list \<Rightarrow> 'a lf_queue \<times> 'a thread \<Rightarrow> ('a lf_queue \<times> 'a thread) res" where
  "lf_run [] s = Inr s"
| "lf_run (sp # sps) s = (case lf_step sp s of Inl e \<Rightarrow> Inl e | Inr s' \<Rightarrow> lf_run sps s')"

definition lf_push :: "nat \<Rightarrow> 'a \<Rightarrow> 'a lf_queue \<Rightarrow> ('a lf_queue \<times> 'a thread) res" where
  "lf_push k item q = lf_run (replicate (4 * k) True @ replicate 8 False) (start_push item q)"

definition lf_pop :: "nat \<Rightarrow> 'a lf_queue \<Rightarrow> ('a lf_queue \<times> 'a thread) res" where
  "lf_pop k q = lf_run (replicate (6 * k) True @ replicate 8 False) (q, Pop_load_head)"

text \<open>A sequence of operations of one thread, with the results of its pops.\<close>

datatype 'a lf_op = Push_op 'a nat | Pop_op nat

fun lf_ops :: "'a lf_op list \<Rightarrow> 'a lf_queue \<Rightarrow> ('a cell option list \<times> 'a lf_queue) res" where
  "lf_ops [] q = Inr ([], q)"
| "lf_ops (Push_op v k # ops) q =
     (case lf_push k v q of Inl e \<Rightarrow> Inl e
      | Inr (q, th) \<Rightarrow> if th = Pushed then lf_ops ops q else Inl (Runtime_error ''push does not return''))"
| "lf_ops (Pop_op k # ops) q =
     (case lf_pop k q of Inl e \<Rightarrow> Inl e
      | Inr (q, Popped r) \<Rightarrow> (case lf_ops ops q of Inl e \<Rightarrow> Inl e | Inr (rs, q) \<Rightarrow> Inr (r # rs, q))
      | Inr _ \<Rightarrow> Inl (Runtime_error ''pop does not return''))"

text \<open>Two threads and a schedule of whose turn it is.\<close>

fun lf_schedule :: "bool list \<Rightarrow> 'a lf_queue \<Rightarrow> 'a thread \<Rightarrow> 'a thread \<Rightarrow> ('a lf_queue \<times> 'a thread \<times> 'a thread) res" where
  "lf_schedule [] q a b = Inr (q, a, b)"
| "lf_schedule (True # w) q a b = (case lf_step False (q, a) of Inl e \<Rightarrow> Inl e | Inr (q', a') \<Rightarrow> lf_schedule w q' a' b)"
| "lf_schedule (False # w) q a b = (case lf_step False (q, b) of Inl e \<Rightarrow> Inl e | Inr (q', b') \<Rightarrow> lf_schedule w q' a b')"

section \<open>Queues as lists\<close>

locale fifo_queue =
  fixes rep :: "'s \<Rightarrow> 'a list \<Rightarrow> bool"
    and enq :: "'a \<Rightarrow> 's \<Rightarrow> 's"
    and deq :: "'s \<Rightarrow> 'a option \<times> 's"
  assumes rep_enq: "rep s xs \<Longrightarrow> rep (enq x s) (xs @ [x])"
    and deq_empty: "rep s [] \<Longrightarrow> fst (deq s) = None \<and> rep (snd (deq s)) []"
    and deq_front: "rep s (x # xs) \<Longrightarrow> fst (deq s) = Some x \<and> rep (snd (deq s)) xs"
begin

fun deqs :: "nat \<Rightarrow> 's \<Rightarrow> 'a option list \<times> 's" where
  "deqs 0 s = ([], s)"
| "deqs (Suc n) s = (let (r, s') = deq s; (rs, t) = deqs n s' in (r # rs, t))"

lemma rep_enqs: "rep s xs \<Longrightarrow> rep (fold enq ys s) (xs @ ys)"
proof (induction ys arbitrary: s xs)
  case (Cons y ys)
  then show ?case
    using Cons.IH [OF rep_enq] by simp
qed simp

text \<open>Taking \<open>n\<close> elements gives the first \<open>n\<close> in order, then nothing.\<close>

lemma deqs_rep:
  "rep s xs \<Longrightarrow> fst (deqs n s) = map Some (take n xs) @ replicate (n - length xs) None
    \<and> rep (snd (deqs n s)) (drop n xs)"
proof (induction n arbitrary: s xs)
  case (Suc n)
  show ?case
  proof (cases xs)
    case Nil
    then show ?thesis
      using Suc.IH [of "snd (deq s)" "[]"] deq_empty [of s] Suc.prems by (auto simp: case_prod_beta Let_def)
  next
    case (Cons x xs')
    then show ?thesis
      using Suc.IH [of "snd (deq s)" xs'] deq_front [of s x xs'] Suc.prems by (auto simp: case_prod_beta Let_def)
  qed
qed simp

end

section \<open>Sequential refinement\<close>

text \<open>The nodes from head to tail, in order; the first one is the dummy.\<close>

definition lf_nodes :: "'a lf_queue \<Rightarrow> nat list \<Rightarrow> 'a list \<Rightarrow> bool" where
  "lf_nodes q ps xs \<longleftrightarrow>
     length ps = Suc (length xs) \<and> distinct ps \<and> (\<forall>p \<in> set ps. p < fresh q)
     \<and> hd ps = head_ptr q \<and> last ps = tail_ptr q \<and> lf_size q = of_nat (length xs)
     \<and> (\<forall>i < length ps. \<exists>c. heap q (ps ! i) = Some \<lparr>ndata = c,
           nnext = if Suc i < length ps then Some (ps ! Suc i) else None\<rparr>
         \<and> (0 < i \<longrightarrow> c = Val (xs ! (i - 1))))"

definition lf_rep :: "'a lf_queue \<Rightarrow> 'a list \<Rightarrow> bool" where
  "lf_rep q xs \<longleftrightarrow> (\<exists>ps. lf_nodes q ps xs)"

lemma lf_rep_new: "lf_rep lf_new []"
  by (auto simp: lf_rep_def lf_nodes_def lf_new_def intro!: exI [of _ "[0]"])

lemma lf_nodes_tail:
  assumes "lf_nodes q ps xs"
  obtains c where "heap q (tail_ptr q) = Some \<lparr>ndata = c, nnext = None\<rparr>" and "tail_ptr q < fresh q"
proof -
  have ps: "ps \<noteq> []" "last ps = tail_ptr q"
    using assms by (auto simp: lf_nodes_def)
  obtain c where "heap q (ps ! (length ps - 1)) = Some \<lparr>ndata = c, nnext = None\<rparr>"
    using assms ps(1) unfolding lf_nodes_def by (metis Suc_pred' length_greater_0_conv lessI less_irrefl)
  moreover have "ps ! (length ps - 1) = tail_ptr q" "tail_ptr q \<in> set ps"
    using ps by (simp_all add: last_conv_nth flip: ps(2))
  ultimately show ?thesis
    using that assms by (auto simp: lf_nodes_def)
qed

text \<open>A spurious failure of \<open>push\<close> changes nothing; one of \<open>pop\<close> leaves the value of the next node moved from.\<close>

lemma lf_run_append: "lf_run (xs @ ys) s = (case lf_run xs s of Inl e \<Rightarrow> Inl e | Inr s \<Rightarrow> lf_run ys s)"
  by (induction xs arbitrary: s) (auto split: sum.split)

lemma push_fails:
  assumes "heap q (tail_ptr q) = Some \<lparr>ndata = c, nnext = None\<rparr>"
  shows "lf_run (replicate (4 * k) True) (q, Push_load_tail n) = Inr (q, Push_load_tail n)"
proof (induction k)
  case (Suc k)
  have "lf_run [True, True, True, True] (q, Push_load_tail n) = Inr (q, Push_load_tail n)"
    using assms by simp
  moreover have "replicate (4 * Suc k) True = [True, True, True, True] @ replicate (4 * k) True"
    by (simp add: eval_nat_numeral)
  ultimately show ?case
    using Suc by (simp only: lf_run_append sum.case)
qed simp

lemma pop_fails:
  assumes "heap q (head_ptr q) = Some \<lparr>ndata = c, nnext = Some n\<rparr>" "head_ptr q \<noteq> tail_ptr q" "head_ptr q \<noteq> n"
    "heap q n = Some \<lparr>ndata = d, nnext = nn\<rparr>" "d \<noteq> Null"
  shows "lf_run (replicate (6 * k) True) (q, Pop_load_head)
    = Inr (if k = 0 then q else q\<lparr>heap := (heap q)(n \<mapsto> \<lparr>ndata = MovedFrom, nnext = nn\<rparr>)\<rparr>, Pop_load_head)"
proof (induction k)
  case (Suc k)
  let ?q = "q\<lparr>heap := (heap q)(n \<mapsto> \<lparr>ndata = MovedFrom, nnext = nn\<rparr>)\<rparr>"
  have "lf_run [True, True, True, True, True, True] (if k = 0 then q else ?q, Pop_load_head) = Inr (?q, Pop_load_head)"
    using assms by simp
  moreover have "replicate (6 * Suc k) True = replicate (6 * k) True @ [True, True, True, True, True, True]"
    by (simp add: eval_nat_numeral flip: replicate_append_same)
  ultimately show ?case
    using Suc by (simp only: lf_run_append sum.case) simp
qed simp

lemma lf_push_run:
  assumes "heap q (tail_ptr q) = Some \<lparr>ndata = c, nnext = None\<rparr>" and "tail_ptr q < fresh q"
  shows "lf_push k v q = Inr
    (q\<lparr>heap := (heap q)(fresh q \<mapsto> \<lparr>ndata = Val v, nnext = None\<rparr>,
                        tail_ptr q \<mapsto> \<lparr>ndata = c, nnext = Some (fresh q)\<rparr>),
       fresh := fresh q + 1, tail_ptr := fresh q, lf_size := lf_size q + 1\<rparr>, Pushed)"
proof -
  let ?q = "q\<lparr>heap := (heap q)(fresh q \<mapsto> \<lparr>ndata = Val v, nnext = None\<rparr>), fresh := fresh q + 1\<rparr>"
  have "lf_run (replicate (4 * k) True) (?q, Push_load_tail (fresh q)) = Inr (?q, Push_load_tail (fresh q))"
    using assms by (intro push_fails [of _ c]) simp
  then show ?thesis
    using assms by (simp add: lf_push_def start_push_def lf_run_append eval_nat_numeral)
qed

lemma lf_push_nodes:
  assumes "lf_nodes q ps xs"
  shows "\<exists>q'. lf_push k v q = Inr (q', Pushed) \<and> lf_nodes q' (ps @ [fresh q]) (xs @ [v])"
proof -
  obtain c where c: "heap q (tail_ptr q) = Some \<lparr>ndata = c, nnext = None\<rparr>" and t: "tail_ptr q < fresh q"
    using lf_nodes_tail [OF assms] by metis
  let ?q = "q\<lparr>heap := (heap q)(fresh q \<mapsto> \<lparr>ndata = Val v, nnext = None\<rparr>,
      tail_ptr q \<mapsto> \<lparr>ndata = c, nnext = Some (fresh q)\<rparr>),
    fresh := fresh q + 1, tail_ptr := fresh q, lf_size := lf_size q + 1\<rparr>"
  have len: "length ps = Suc (length xs)" and dist: "distinct ps" and lt: "\<forall>p \<in> set ps. p < fresh q"
    and ends: "hd ps = head_ptr q" "last ps = tail_ptr q"
    using assms by (auto simp: lf_nodes_def)
  have nd: "\<And>i. i < length ps \<Longrightarrow> \<exists>c. heap q (ps ! i) = Some \<lparr>ndata = c,
        nnext = if Suc i < length ps then Some (ps ! Suc i) else None\<rparr> \<and> (0 < i \<longrightarrow> c = Val (xs ! (i - 1)))"
    using assms unfolding lf_nodes_def by blast
  have lastp: "ps ! length xs = tail_ptr q"
    using len ends(2) by (metis diff_Suc_1 last_conv_nth length_0_conv nat.distinct(1))
  have "\<exists>d. heap ?q ((ps @ [fresh q]) ! i) = Some \<lparr>ndata = d,
      nnext = if Suc i < length (ps @ [fresh q]) then Some ((ps @ [fresh q]) ! Suc i) else None\<rparr>
      \<and> (0 < i \<longrightarrow> d = Val ((xs @ [v]) ! (i - 1)))" if i: "i < length (ps @ [fresh q])" for i
  proof -
    consider "i < length xs" | "i = length xs" | "i = Suc (length xs)"
      using i len by fastforce
    then show ?thesis
    proof cases
      case 1
      have "ps ! i \<noteq> tail_ptr q" "ps ! i < fresh q"
        using 1 len lastp dist lt by (auto simp: nth_eq_iff_index_eq simp flip: lastp)
      with nd [of i] 1 len show ?thesis
        by (auto simp: nth_append)
    next
      case 2
      with nd [of i] c lastp len show ?thesis
        by (auto simp: nth_append)
    next
      case 3
      with t len show ?thesis
        by (auto simp: nth_append)
    qed
  qed
  then have "lf_nodes ?q (ps @ [fresh q]) (xs @ [v])"
    using assms len dist lt ends by (fastforce simp: lf_nodes_def hd_append)
  then show ?thesis
    using lf_push_run [OF c t] by auto
qed

lemma lf_run_popped: "lf_run sps (q, Popped r) = Inr (q, Popped r)"
  by (induction sps) auto

lemma lf_pop_empty:
  assumes "lf_nodes q ps []"
  shows "lf_pop k q = Inr (q, Popped None)"
proof -
  obtain p where "ps = [p]"
    using assms by (auto simp: lf_nodes_def length_Suc_conv)
  then have "head_ptr q = p" "tail_ptr q = p"
    using assms by (auto simp: lf_nodes_def)
  moreover obtain c where "heap q p = Some \<lparr>ndata = c, nnext = None\<rparr>"
    using assms \<open>ps = [p]\<close> by (auto simp: lf_nodes_def)
  ultimately have turn: "lf_run (a # b # c # d # sps) (q, Pop_load_head) = Inr (q, Popped None)" for a b c d sps
    by (simp add: lf_run_popped)
  show ?thesis
  proof (cases k)
    case 0
    then show ?thesis
      using turn [of False False False False "replicate 4 False"] by (simp add: lf_pop_def eval_nat_numeral)
  next
    case (Suc m)
    have "replicate (6 * k) True @ replicate 8 False = True # True # True # True # (True # True # replicate (6 * m) True @ replicate 8 False)"
      by (simp add: Suc eval_nat_numeral)
    then show ?thesis
      using turn by (simp only: lf_pop_def)
  qed
qed

lemma lf_pop_nodes:
  assumes "lf_nodes q ps (x # xs)"
  shows "\<exists>q'. lf_pop k q = Inr (q', Popped (Some (if k = 0 then Val x else MovedFrom))) \<and> lf_nodes q' (tl ps) xs"
proof -
  obtain h n ps' where ps: "ps = h # n # ps'"
    using assms by (auto simp: lf_nodes_def length_Suc_conv)
  have len: "length ps' = length xs" and dist: "distinct ps" and hd: "head_ptr q = h"
    and tl: "last (n # ps') = tail_ptr q" and sz: "lf_size q = of_nat (Suc (length xs))"
    and lt: "\<forall>p \<in> set ps. p < fresh q"
    using assms by (auto simp: lf_nodes_def ps)
  have nd: "\<And>i. i < length ps \<Longrightarrow> \<exists>c. heap q (ps ! i) = Some \<lparr>ndata = c,
        nnext = if Suc i < length ps then Some (ps ! Suc i) else None\<rparr> \<and> (0 < i \<longrightarrow> c = Val ((x # xs) ! (i - 1)))"
    using assms unfolding lf_nodes_def by blast
  obtain c where h: "heap q h = Some \<lparr>ndata = c, nnext = Some n\<rparr>"
    using nd [of 0] by (auto simp: ps)
  obtain nn where n: "heap q n = Some \<lparr>ndata = Val x, nnext = nn\<rparr>"
    and nn: "nn = (if ps' \<noteq> [] then Some (ps' ! 0) else None)"
    using nd [of 1] by (auto simp: ps)
  have ne: "h \<noteq> n" "h \<noteq> tail_ptr q"
    using dist tl by (auto simp: ps dest: last_in_set split: if_splits)
  let ?q = "q\<lparr>heap := (heap q)(n \<mapsto> \<lparr>ndata = MovedFrom, nnext = nn\<rparr>, h := None), head_ptr := n, lf_size := lf_size q - 1\<rparr>"
  have run: "lf_pop k q = Inr (?q, Popped (Some (if k = 0 then Val x else MovedFrom)))"
    using pop_fails [of q c n "Val x" nn k] h n ne hd by (cases "k = 0") (simp_all add: lf_pop_def lf_run_append eval_nat_numeral)
  have "\<exists>d. heap ?q ((n # ps') ! i) = Some \<lparr>ndata = d,
      nnext = if Suc i < length (n # ps') then Some ((n # ps') ! Suc i) else None\<rparr>
      \<and> (0 < i \<longrightarrow> d = Val (xs ! (i - 1)))" if "i < length (n # ps')" for i
  proof (cases i)
    case 0
    then show ?thesis
      using ne nn by (auto simp: neq_Nil_conv)
  next
    case (Suc j)
    have "ps' ! j \<noteq> n" "ps' ! j \<noteq> h"
      using dist that Suc by (auto simp: ps)
    with nd [of "Suc i"] that Suc show ?thesis
      by (auto simp: ps)
  qed
  then have "lf_nodes ?q (n # ps') xs"
    using len dist tl sz lt by (simp add: lf_nodes_def ps)
  then show ?thesis
    using run by (auto simp: ps)
qed

lemma lf_push_rep: "lf_rep q xs \<Longrightarrow> \<exists>q'. lf_push k v q = Inr (q', Pushed) \<and> lf_rep q' (xs @ [v])"
proof -
  assume "lf_rep q xs"
  then obtain ps where "lf_nodes q ps xs"
    by (auto simp: lf_rep_def)
  from lf_push_nodes [OF this, of k v] show ?thesis
    unfolding lf_rep_def by blast
qed

lemma lf_pop_rep:
  "lf_rep q xs \<Longrightarrow> \<exists>q'. lf_pop k q = Inr (q', Popped (case xs of [] \<Rightarrow> None | x # _ \<Rightarrow> Some (if k = 0 then Val x else MovedFrom)))
    \<and> lf_rep q' (tl xs)"
  unfolding lf_rep_def using lf_pop_empty lf_pop_nodes by (cases xs) fastforce+

definition lf_enq :: "'a \<Rightarrow> 'a lf_queue \<Rightarrow> 'a lf_queue" where
  "lf_enq v q = (case lf_push 0 v q of Inr (q', _) \<Rightarrow> q' | Inl _ \<Rightarrow> q)"

definition lf_deq :: "'a lf_queue \<Rightarrow> 'a option \<times> 'a lf_queue" where
  "lf_deq q = (case lf_pop 0 q of Inr (q', Popped (Some (Val x))) \<Rightarrow> (Some x, q') | Inr (q', _) \<Rightarrow> (None, q') | Inl _ \<Rightarrow> (None, q))"

interpretation lfq: fifo_queue lf_rep lf_enq lf_deq
proof
  show "lf_rep q xs \<Longrightarrow> lf_rep (lf_enq x q) (xs @ [x])" for q :: "'a lf_queue" and xs x
    using lf_push_rep [of q xs 0 x] by (auto simp: lf_enq_def)
  show "lf_rep q [] \<Longrightarrow> fst (lf_deq q) = None \<and> lf_rep (snd (lf_deq q)) []" for q :: "'a lf_queue"
    using lf_pop_rep [of q "[]" 0] by (auto simp: lf_deq_def)
  show "lf_rep q (x # xs) \<Longrightarrow> fst (lf_deq q) = Some x \<and> lf_rep (snd (lf_deq q)) xs" for q :: "'a lf_queue" and x xs
    using lf_pop_rep [of q "x # xs" 0] by (auto simp: lf_deq_def)
qed

section \<open>Properties\<close>

text \<open>The operations on a list: a pop in which the compare-exchange fails spuriously returns a value that has been moved from.\<close>

fun fifo_ops :: "'a lf_op list \<Rightarrow> 'a list \<Rightarrow> 'a cell option list \<times> 'a list" where
  "fifo_ops [] xs = ([], xs)"
| "fifo_ops (Push_op v k # ops) xs = fifo_ops ops (xs @ [v])"
| "fifo_ops (Pop_op k # ops) [] = (case fifo_ops ops [] of (rs, ys) \<Rightarrow> (None # rs, ys))"
| "fifo_ops (Pop_op k # ops) (x # xs) =
     (case fifo_ops ops xs of (rs, ys) \<Rightarrow> (Some (if k = 0 then Val x else MovedFrom) # rs, ys))"

lemma lf_ops_rep:
  assumes "lf_rep q xs"
  shows "\<exists>q'. lf_ops ops q = Inr (fst (fifo_ops ops xs), q') \<and> lf_rep q' (snd (fifo_ops ops xs))"
  using assms
proof (induction ops arbitrary: q xs)
  case (Cons op ops)
  show ?case
  proof (cases op)
    case (Push_op v k)
    then show ?thesis
      using lf_push_rep [OF Cons.prems, of k v] Cons.IH by fastforce
  next
    case (Pop_op k)
    obtain q1 where q1: "lf_pop k q = Inr (q1, Popped (case xs of [] \<Rightarrow> None | x # _ \<Rightarrow> Some (if k = 0 then Val x else MovedFrom)))"
      "lf_rep q1 (tl xs)"
      using lf_pop_rep [OF Cons.prems, of k] by blast
    obtain q2 where "lf_ops ops q1 = Inr (fst (fifo_ops ops (tl xs)), q2)" "lf_rep q2 (snd (fifo_ops ops (tl xs)))"
      using Cons.IH [OF q1(2)] by blast
    then show ?thesis
      using q1 Pop_op by (cases xs) (auto split: prod.split)
  qed
qed simp

text \<open>
  C23. Used by one thread, the queue is a first-in-first-out list, but for spurious failures of the weak compare-exchange. For any
  sequence of operations on a new queue, each with any number of spurious failures: every \<open>push\<close> and every \<open>pop\<close> returns, no
  deleted node is touched, a \<open>push\<close> appends its item, a \<open>pop\<close> removes the front item and returns it or, on an empty queue,
  nothing, and the size counts the items. A \<open>pop\<close> whose compare-exchange failed spuriously returns a value that has been moved from
  instead of the item, which is lost.
\<close>

theorem lock_free_queue_sequential:
  "\<exists>q. lf_ops ops lf_new = Inr (fst (fifo_ops ops []), q)
     \<and> lf_rep q (snd (fifo_ops ops []))
     \<and> LockFreeQueue_size q = of_nat (length (snd (fifo_ops ops [])))"
proof -
  obtain q where "lf_ops ops lf_new = Inr (fst (fifo_ops ops []), q)" "lf_rep q (snd (fifo_ops ops []))"
    using lf_ops_rep [OF lf_rep_new] by blast
  then show ?thesis
    by (auto simp: lf_rep_def LockFreeQueue_size_def lf_nodes_def)
qed

text \<open>
  Between threads it is not linearizable. From a queue that holds one item, there is an interleaving
  of two calls of \<open>pop\<close> in which both complete and neither returns the item: the value is moved out of the
  node before the compare-exchange that claims it. And there is one in which the second call reads a
  node that the first has deleted.
\<close>

theorem lock_free_queue_races:
  "(\<exists>w q'. lf_schedule w (lf_enq x lf_new) Pop_load_head Pop_load_head
      = Inr (q', Popped None, Popped (Some MovedFrom)) \<and> lf_rep q' [])
   \<and> (\<exists>w. is_Undefined (lf_schedule w (lf_enq x lf_new) Pop_load_head Pop_load_head))"
proof (intro conjI exI)
  let ?q = "\<lparr>heap = [1 \<mapsto> \<lparr>ndata = MovedFrom, nnext = None\<rparr>], head_ptr = 1, tail_ptr = 1, lf_size = 0, fresh = 2\<rparr>"
  show "lf_schedule (replicate 5 True @ replicate 8 False @ replicate 5 True) (lf_enq x lf_new)
      Pop_load_head Pop_load_head = Inr (?q, Popped None, Popped (Some MovedFrom))"
    by (simp add: lf_enq_def lf_push_def start_push_def lf_new_def eval_nat_numeral)
  show "lf_rep ?q []"
    unfolding lf_rep_def by (rule exI [of _ "[1]"]) (simp add: lf_nodes_def)
  show "is_Undefined (lf_schedule (replicate 2 True @ replicate 8 False @ [True]) (lf_enq x lf_new)
      Pop_load_head Pop_load_head)"
    by (simp add: lf_enq_def lf_push_def start_push_def lf_new_def eval_nat_numeral)
qed

end
