(* ===== verification/State_Transition_Proof.thy ===== *)
theory State_Transition_Proof
  imports Codec
begin

text \<open>
  State transition proofs (\<open>include/rollup/StateTransitionProof.hpp\<close>, \<open>src/rollup/StateTransitionProof.cpp\<close>):
  three 32-byte roots and two byte strings with 32-bit length prefixes. Positions in the decoder are
  sums of values below \<open>2^32\<close> and an index into the vector, so they do not wrap and are natural numbers.
\<close>

section \<open>Definitions\<close>

record ProofData =
  pre_state_root :: bytes
  post_state_root :: bytes
  proof_transactions_root :: bytes
  zk_proof :: bytes
  quantum_signature :: bytes

definition STP_verify :: "ProofData \<Rightarrow> bool" where
  "STP_verify d \<longleftrightarrow> zk_proof d \<noteq> [] \<and> quantum_signature d \<noteq> []"

definition STP_computeHash :: "(bytes \<Rightarrow> bytes) \<Rightarrow> ProofData \<Rightarrow> bytes" where
  "STP_computeHash blake3 d = blake3 (bytes_of_string ''QUIDS_STATE_TRANSITION_PROOF_V1''
     @ pre_state_root d @ post_state_root d @ proof_transactions_root d @ zk_proof d @ quantum_signature d)"

text \<open>\<open>addVector\<close>: the size is truncated to \<open>uint32_t\<close>.\<close>

definition addVector :: "bytes \<Rightarrow> bytes \<Rightarrow> bytes" where
  "addVector result vec = result @ u32_bytes (of_nat (length vec)) @ vec"

definition STP_serialize :: "ProofData \<Rightarrow> bytes" where
  "STP_serialize d =
     addVector (addVector (pre_state_root d @ post_state_root d @ proof_transactions_root d) (zk_proof d))
       (quantum_signature d)"

text \<open>\<open>readVector\<close> with the captured \<open>pos\<close>: a short read of the body has already consumed the length.\<close>

definition readVector :: "bytes \<Rightarrow> nat \<Rightarrow> bytes option \<times> nat" where
  "readVector data pos =
     (if pos + 4 > length data then (None, pos)
      else let n = unat (bytes_u32 (take 4 (drop pos data))); pos = pos + 4 in
           if pos + n > length data then (None, pos)
           else (Some (take n (drop pos data)), pos + n))"

definition STP_deserialize :: "bytes \<Rightarrow> ProofData option" where
  "STP_deserialize data =
     (if length data < 96 then None
      else let pre = take 32 data; post = take 32 (drop 32 data); txr = take 32 (drop 64 data);
               (zk, pos) = readVector data 96;
               (sig, pos) = readVector data pos
           in case (zk, sig) of
                (Some z, Some s) \<Rightarrow>
                  Some \<lparr>pre_state_root = pre, post_state_root = post, proof_transactions_root = txr,
                        zk_proof = z, quantum_signature = s\<rparr>
              | _ \<Rightarrow> None)"

section \<open>Round trip\<close>

definition ProofData_ok :: "ProofData \<Rightarrow> bool" where
  "ProofData_ok d \<longleftrightarrow> length (pre_state_root d) = 32 \<and> length (post_state_root d) = 32
     \<and> length (proof_transactions_root d) = 32 \<and> length (zk_proof d) < 2 ^ 32
     \<and> length (quantum_signature d) < 2 ^ 32"

lemma readVector_enc:
  assumes "drop pos data = u32_bytes (of_nat (length v)) @ v @ rest" and "length v < 2 ^ 32"
    and "pos \<le> length data"
  shows "readVector data pos = (Some v, pos + 4 + length v)" and "drop (pos + 4 + length v) data = rest"
    and "pos + 4 + length v \<le> length data"
proof -
  have n: "unat (of_nat (length v) :: u32) = length v"
    using assms(2) by (simp add: unat_of_nat)
  have len: "length data - pos = 4 + length v + length rest"
    using arg_cong [OF assms(1), of length] by simp
  then show le: "pos + 4 + length v \<le> length data"
    using assms(3) by simp
  have d: "drop (pos + 4) data = v @ rest"
    using arg_cong [OF assms(1), of "drop 4"] by (simp add: add.commute)
  have "drop (pos + 4 + length v) data = drop (length v) (drop (pos + 4) data)"
    by (simp add: ac_simps)
  then show "drop (pos + 4 + length v) data = rest"
    by (simp add: d)
  show "readVector data pos = (Some v, pos + 4 + length v)"
    using le by (simp add: readVector_def Let_def assms(1) d n)
qed

lemma STP_deserialize_serialize:
  assumes "ProofData_ok d"
  shows "STP_deserialize (STP_serialize d @ rest) = Some d"
proof -
  define data where "data = STP_serialize d @ rest"
  have data: "data = pre_state_root d @ post_state_root d @ proof_transactions_root d
      @ u32_bytes (of_nat (length (zk_proof d))) @ zk_proof d
      @ u32_bytes (of_nat (length (quantum_signature d))) @ quantum_signature d @ rest"
    by (simp add: data_def STP_serialize_def addVector_def)
  have roots: "take 32 data = pre_state_root d" "take 32 (drop 32 data) = post_state_root d"
    "take 32 (drop 64 data) = proof_transactions_root d" "96 \<le> length data"
    "drop 96 data = u32_bytes (of_nat (length (zk_proof d))) @ zk_proof d
      @ (u32_bytes (of_nat (length (quantum_signature d))) @ quantum_signature d @ rest)"
    using assms by (simp_all add: data ProofData_ok_def)
  have l: "length (zk_proof d) < 2 ^ 32" "length (quantum_signature d) < 2 ^ 32"
    using assms by (simp_all add: ProofData_ok_def)
  note zk = readVector_enc [OF roots(5) l(1) roots(4)]
  note sig = readVector_enc [OF zk(2) l(2) zk(3)]
  show ?thesis
    using roots zk(1) sig(1) by (simp add: STP_deserialize_def Let_def flip: data_def)
qed

interpretation stp_codec: prefix_codec STP_serialize "\<lambda>data. Inr (STP_deserialize data)" ProofData_ok
  by unfold_locales (simp add: STP_deserialize_serialize)

text \<open>
  A proof with 32-byte roots and parts shorter than 4 GiB survives serialization, whatever follows
  its encoding; and a serialized proof determines the proof and the bytes that follow it.
\<close>

theorem STP_roundtrip:
  assumes "ProofData_ok d"
  shows "STP_deserialize (STP_serialize d @ rest) = Some d
    \<and> (\<forall>d' rest'. ProofData_ok d' \<and> length (STP_serialize d @ rest) < 2 ^ 64
         \<and> STP_serialize d @ rest = STP_serialize d' @ rest' \<longrightarrow> d' = d \<and> rest' = rest)"
  using STP_deserialize_serialize [OF assms] stp_codec.enc_unique [OF _ assms] by metis

theorem STP_roundtrip_witness:
  "STP_deserialize (STP_serialize \<lparr>pre_state_root = replicate 32 1, post_state_root = replicate 32 2,
      proof_transactions_root = replicate 32 3, zk_proof = [4, 5], quantum_signature = [6]\<rparr> @ [7])
    = Some \<lparr>pre_state_root = replicate 32 1, post_state_root = replicate 32 2,
      proof_transactions_root = replicate 32 3, zk_proof = [4, 5], quantum_signature = [6]\<rparr>"
  by (rule STP_roundtrip [THEN conjunct1]) (simp add: ProofData_ok_def)

lemma STP_hash_ambiguous:
  "zk_proof d @ quantum_signature d = zk_proof d' @ quantum_signature d' \<Longrightarrow>
   pre_state_root d = pre_state_root d' \<Longrightarrow> post_state_root d = post_state_root d' \<Longrightarrow>
   proof_transactions_root d = proof_transactions_root d' \<Longrightarrow>
   STP_computeHash blake3 d = STP_computeHash blake3 d'"
  by (simp add: STP_computeHash_def)

end
