(* ===== verification/Parallel_Processor.thy ===== *)
theory Parallel_Processor
  imports Evm_Executor "HOL-Library.Multiset" "HOL-Library.Sublist"
begin

text \<open>
  The parallel transaction processor (\<open>include/rollup/ParallelProcessor.hpp\<close>,
  \<open>src/rollup/ParallelProcessor.cpp\<close>): the queue of transactions, the split of a batch into independent
  batches, the processing of transactions by nonce and of contract calls. \<open>processBatch\<close> starts one
  asynchronous task per transaction, each of which works under the lock of its account: the order in which
  they get there is the parameter \<open>sched\<close>. The object \<open>impl_\<close> points to is optional: no constructor
  in the sources creates it. The latencies that the metrics discard are not modelled.
\<close>

section \<open>Definitions\<close>

record ContractCall =
  cc_address :: Address
  cc_input :: bytes
  cc_gas_limit :: u64

record ContractState =
  is_executing :: bool
  pending_calls :: "ContractCall list"

record AccountState =
  as_balance :: u64
  as_nonce :: u64
  as_pending :: "Transaction list"

definition AccountState_default :: AccountState where
  "AccountState_default = \<lparr>as_balance = 0, as_nonce = 0, as_pending = []\<rparr>"

definition ContractState_default :: ContractState where
  "ContractState_default = \<lparr>is_executing = False, pending_calls = []\<rparr>"

record PPImpl =
  failed_transactions :: u64
  failed_contracts :: u64
  pp_contract_queue :: "ContractCall list"
  contract_states :: "(Address, ContractState) smap"
  account_states :: "(string, AccountState) smap"

record ParallelProcessor =
  pp_should_stop :: bool
  num_worker_threads :: nat
  enable_contract_parallelization :: bool
  max_parallel_contracts :: nat
  max_queue_size :: nat
  worker_threads :: nat
  contract_worker_threads :: nat
  transaction_queue :: "Transaction list"
  evm_executors :: "EVMExecutor list"
  pp_current :: nat
  pp_impl :: "PPImpl option"

definition startWorkers :: "ParallelProcessor \<Rightarrow> ParallelProcessor" where
  "startWorkers pp =
     (let pp = pp\<lparr>pp_should_stop := False, worker_threads := worker_threads pp + num_worker_threads pp\<rparr>
      in if enable_contract_parallelization pp
         then pp\<lparr>contract_worker_threads := contract_worker_threads pp + max_parallel_contracts pp\<rparr> else pp)"

definition ParallelProcessor_new :: "nat \<Rightarrow> nat \<Rightarrow> ParallelProcessor" where
  "ParallelProcessor_new num_threads batch_size = startWorkers
     \<lparr>pp_should_stop = False, num_worker_threads = num_threads, enable_contract_parallelization = True,
      max_parallel_contracts = 4, max_queue_size = batch_size, worker_threads = 0, contract_worker_threads = 0,
      transaction_queue = [], evm_executors = [], pp_current = 0, pp_impl = None\<rparr>"

text \<open>\<open>stopWorkers\<close> returns when every thread was joined.\<close>

definition stopWorkers :: "ParallelProcessor \<Rightarrow> ParallelProcessor" where
  "stopWorkers pp = pp\<lparr>pp_should_stop := True, worker_threads := 0, contract_worker_threads := 0\<rparr>"

definition submitTransaction :: "Transaction \<Rightarrow> ParallelProcessor \<Rightarrow> bool \<times> ParallelProcessor" where
  "submitTransaction tx pp =
     (if pp_should_stop pp then (False, pp)
      else if length (transaction_queue pp) \<ge> max_queue_size pp then (False, pp)
      else (True, pp\<lparr>transaction_queue := transaction_queue pp @ [tx]\<rparr>))"

definition pp_start :: "ParallelProcessor \<Rightarrow> ParallelProcessor" where
  "pp_start pp = startWorkers (pp\<lparr>pp_should_stop := False\<rparr>)"

definition pp_stop :: "ParallelProcessor \<Rightarrow> ParallelProcessor" where
  "pp_stop pp = pp\<lparr>pp_should_stop := True\<rparr>"

subsection \<open>Independent batches\<close>

definition hasDependency :: "Transaction \<Rightarrow> Transaction \<Rightarrow> bool" where
  "hasDependency tx1 tx2 \<longleftrightarrow>
     tx_from tx1 = tx_from tx2 \<or> tx_from tx1 = tx_to tx2 \<or> tx_to tx1 = tx_from tx2"

text \<open>The inner loop over \<open>j\<close>, on the batch and the flags \<open>assigned\<close>.\<close>

definition fill_batch :: "Transaction list \<Rightarrow> nat \<Rightarrow> Transaction list \<times> bool list \<Rightarrow> Transaction list \<times> bool list" where
  "fill_batch transactions j s =
     (let (batch, assigned) = s in
      if assigned ! j then s
      else if list_ex (\<lambda>tx. hasDependency tx (transactions ! j)) batch then s
      else (batch @ [transactions ! j], assigned[j := True]))"

definition outer_step :: "Transaction list \<Rightarrow> nat \<Rightarrow> Transaction list list \<times> bool list \<Rightarrow> Transaction list list \<times> bool list" where
  "outer_step transactions i s =
     (let (batches, assigned) = s in
      if assigned ! i then s
      else let (batch, assigned) = fold (fill_batch transactions) [i + 1..<length transactions]
                 ([transactions ! i], assigned[i := True])
           in (batches @ [batch], assigned))"

definition createIndependentBatches :: "Transaction list \<Rightarrow> Transaction list list" where
  "createIndependentBatches transactions =
     fst (fold (outer_step transactions) [0..<length transactions] ([], replicate (length transactions) False))"

subsection \<open>Processing\<close>

definition pp_account_step :: "Transaction \<Rightarrow> AccountState \<Rightarrow> bool \<times> AccountState" where
  "pp_account_step tx account_state =
     (if tx_nonce tx = as_nonce account_state
      then (True, account_state\<lparr>as_nonce := as_nonce account_state + 1\<rparr>)
      else if tx_nonce tx > as_nonce account_state
      then (False, account_state\<lparr>as_pending := as_pending account_state @ [tx]\<rparr>)
      else (False, account_state))"

definition processTransaction_impl :: "Transaction \<Rightarrow> PPImpl \<Rightarrow> bool \<times> PPImpl" where
  "processTransaction_impl tx im =
     (let (account_state, accs) = map_index AccountState_default (tx_from tx) (account_states im);
          (ok, account_state) = pp_account_step tx account_state;
          im = im\<lparr>account_states := map_put (tx_from tx) account_state accs\<rparr>
      in (ok, if ok then im else im\<lparr>failed_transactions := failed_transactions im + 1\<rparr>))"

definition processTransaction :: "Transaction \<Rightarrow> ParallelProcessor \<Rightarrow> (bool \<times> ParallelProcessor) res" where
  "processTransaction tx pp =
     (case pp_impl pp of
        None \<Rightarrow> Inl (Undefined ''impl_ is null'')
      | Some im \<Rightarrow> let (ok, im') = processTransaction_impl tx im in Inr (ok, pp\<lparr>pp_impl := Some im'\<rparr>))"

text \<open>The tasks of a batch in the order \<open>txs\<close> in which they run; the results are combined with \<open>&=\<close>.\<close>

fun run_tasks :: "Transaction list \<Rightarrow> PPImpl \<Rightarrow> bool \<times> PPImpl" where
  "run_tasks [] im = (True, im)"
| "run_tasks (tx # txs) im =
     (let (ok, im) = processTransaction_impl tx im; (oks, im) = run_tasks txs im in (ok \<and> oks, im))"

definition processBatch :: "(Transaction list \<Rightarrow> Transaction list) \<Rightarrow> Transaction list \<Rightarrow> ParallelProcessor \<Rightarrow>
    (bool \<times> ParallelProcessor) res" where
  "processBatch sched batch pp =
     (case pp_impl pp of
        None \<Rightarrow> if batch = [] then Inr (True, pp) else Inl (Undefined ''impl_ is null'')
      | Some im \<Rightarrow> let (ok, im') = run_tasks (sched batch) im in Inr (ok, pp\<lparr>pp_impl := Some im'\<rparr>))"

text \<open>
  \<open>submitBatch\<close> starts one asynchronous \<open>processBatch\<close> per independent batch before it waits for any of them,
  so the tasks of all of them run together: \<open>sched\<close> orders the tasks of the whole batch.
\<close>

definition submitBatch :: "(Transaction list \<Rightarrow> Transaction list) \<Rightarrow> Transaction list \<Rightarrow> ParallelProcessor \<Rightarrow>
    (bool \<times> ParallelProcessor) res" where
  "submitBatch sched batch pp =
     (if pp_should_stop pp then Inr (False, pp)
      else processBatch sched (concat (createIndependentBatches batch)) pp)"

text \<open>One turn of a worker's loop: it leaves, waits for the condition variable, or handles one element.\<close>

datatype turn = Leaves | Waits | Turns

definition workerThread :: "ParallelProcessor \<Rightarrow> (turn \<times> ParallelProcessor) res" where
  "workerThread pp =
     (if pp_should_stop pp then Inr (Leaves, pp)
      else case transaction_queue pp of
        [] \<Rightarrow> Inr (Waits, pp)
      | tx # rest \<Rightarrow>
          (case processTransaction tx (pp\<lparr>transaction_queue := rest\<rparr>) of
             Inl e \<Rightarrow> Inl e | Inr (_, pp) \<Rightarrow> Inr (Turns, pp)))"

definition getAvailableExecutor :: "ParallelProcessor \<Rightarrow> (nat \<times> ParallelProcessor) res" where
  "getAvailableExecutor pp =
     (if pp_current pp < length (evm_executors pp)
      then Inr (pp_current pp, pp\<lparr>pp_current := (pp_current pp + 1) mod length (evm_executors pp)\<rparr>)
      else Inl (Undefined ''evm_executors_ subscript''))"

definition executeContractInternal :: "ContractCall \<Rightarrow> ParallelProcessor \<Rightarrow> (ExecutionResult option \<times> ParallelProcessor) res" where
  "executeContractInternal call pp =
     (case pp_impl pp of
        None \<Rightarrow> Inl (Undefined ''impl_ is null'')
      | Some im \<Rightarrow>
          let (contract_state, cs) = map_index ContractState_default (cc_address call) (contract_states im) in
          if \<not> is_executing contract_state then
            (case getAvailableExecutor pp of
               Inl e \<Rightarrow> Inl e
             | Inr (n, pp) \<Rightarrow>
                 let (result, ex) = execute_contract (cc_address call) (cc_input call) [] (cc_gas_limit call) (evm_executors pp ! n);
                     im = im\<lparr>contract_states := cs,
                             failed_contracts := if success result then failed_contracts im else failed_contracts im + 1\<rparr>
                 in Inr (Some result, pp\<lparr>evm_executors := (evm_executors pp)[n := ex], pp_impl := Some im\<rparr>))
          else
            let cs = map_put (cc_address call) (contract_state\<lparr>pending_calls := pending_calls contract_state @ [call]\<rparr>) cs
            in Inr (None, pp\<lparr>pp_impl := Some (im\<lparr>contract_states := cs, failed_contracts := failed_contracts im + 1\<rparr>)\<rparr>))"

definition executeContract :: "ContractCall \<Rightarrow> ParallelProcessor \<Rightarrow> (ExecutionResult option \<times> ParallelProcessor) res" where
  "executeContract call pp =
     (if pp_should_stop pp
      then Inr (Some \<lparr>success = False, return_data = [], result_gas = 0, error_message = ''Processor stopped''\<rparr>, pp)
      else case pp_impl pp of
        None \<Rightarrow> Inl (Undefined ''impl_ is null'')
      | Some im \<Rightarrow> executeContractInternal call
          (pp\<lparr>pp_impl := Some (im\<lparr>pp_contract_queue := pp_contract_queue im @ [call]\<rparr>)\<rparr>))"

definition contractWorkerThread :: "ParallelProcessor \<Rightarrow> (turn \<times> ParallelProcessor) res" where
  "contractWorkerThread pp =
     (if pp_should_stop pp then Inr (Leaves, pp)
      else case pp_impl pp of
        None \<Rightarrow> Inl (Undefined ''impl_ is null'')
      | Some im \<Rightarrow>
          (case pp_contract_queue im of
             [] \<Rightarrow> Inr (Waits, pp)
           | call # rest \<Rightarrow>
               (case executeContractInternal call (pp\<lparr>pp_impl := Some (im\<lparr>pp_contract_queue := rest\<rparr>)\<rparr>) of
                  Inl e \<Rightarrow> Inl e | Inr (_, pp) \<Rightarrow> Inr (Turns, pp))))"

text \<open>
  The loop of \<open>process\<close> takes the pending calls from the front; a call that finds the contract executing is
  queued again, so the loop is run with fuel: \<open>None\<close> when it is used up.
\<close>

fun process_loop :: "nat \<Rightarrow> Address \<Rightarrow> ParallelProcessor \<Rightarrow> ParallelProcessor res option" where
  "process_loop 0 contract_address pp = None"
| "process_loop (Suc n) contract_address pp =
     (case pp_impl pp of
        None \<Rightarrow> Some (Inl (Undefined ''impl_ is null''))
      | Some im \<Rightarrow>
          let (contract_state, cs) = map_index ContractState_default contract_address (contract_states im) in
          (case pending_calls contract_state of
             [] \<Rightarrow> Some (Inr (pp\<lparr>pp_impl := Some (im\<lparr>contract_states := cs\<rparr>)\<rparr>))
           | call # rest \<Rightarrow>
               let cs = map_put contract_address (contract_state\<lparr>pending_calls := rest\<rparr>) cs in
               (case executeContractInternal call (pp\<lparr>pp_impl := Some (im\<lparr>contract_states := cs\<rparr>)\<rparr>) of
                  Inl e \<Rightarrow> Some (Inl e)
                | Inr (_, pp) \<Rightarrow> process_loop n contract_address pp)))"

section \<open>The split of a batch\<close>

text \<open>The same greedy choice on lists: take the first transaction and every later one that fits.\<close>

fun pick :: "Transaction list \<Rightarrow> Transaction list \<Rightarrow> Transaction list \<times> Transaction list" where
  "pick b [] = (b, [])"
| "pick b (t # ts) =
     (if list_ex (\<lambda>tx. hasDependency tx t) b then (let (b', r) = pick b ts in (b', t # r)) else pick (b @ [t]) ts)"

lemma pick_mset: "mset (fst (pick b ts)) + mset (snd (pick b ts)) = mset b + mset ts"
  by (induction b ts rule: pick.induct) (auto simp: case_prod_beta Let_def)

lemma pick_shorter: "length (snd (pick b ts)) \<le> length ts"
  by (induction b ts rule: pick.induct) (auto simp: case_prod_beta Let_def)

function greedy :: "Transaction list \<Rightarrow> Transaction list list" where
  "greedy [] = []"
| "greedy (t # ts) = (let (b, r) = pick [t] ts in b # greedy r)"
  by pat_completeness auto
termination
  by (relation "measure length") (use pick_shorter [of "[_]"] in \<open>auto simp: less_Suc_eq_le dest: arg_cong [of _ _ "length \<circ> snd"]\<close>)

definition independent :: "Transaction list \<Rightarrow> bool" where
  "independent b \<longleftrightarrow> sorted_wrt (\<lambda>t u. \<not> hasDependency t u) b"

lemma pick_independent: "independent b \<Longrightarrow> independent (fst (pick b ts))"
  by (induction b ts rule: pick.induct)
    (auto simp: case_prod_beta Let_def independent_def sorted_wrt_append list_ex_iff)

definition remaining :: "Transaction list \<Rightarrow> nat \<Rightarrow> bool list \<Rightarrow> Transaction list" where
  "remaining txs j asg = map (\<lambda>k. txs ! k) (filter (\<lambda>k. \<not> asg ! k) [j..<length txs])"

lemma remaining_step:
  "j < length txs \<Longrightarrow> remaining txs j asg =
    (if asg ! j then remaining txs (Suc j) asg else txs ! j # remaining txs (Suc j) asg)"
  by (simp add: remaining_def upt_conv_Cons)

lemma remaining_update: "k < j \<Longrightarrow> remaining txs j (asg[k := v]) = remaining txs j asg"
  by (auto simp: remaining_def intro!: arg_cong [where f = "map _"] filter_cong)

lemma fill_batch_pick:
  assumes "fold (fill_batch txs) [j..<length txs] (b, asg) = (b', asg')" and "length asg = length txs"
  shows "pick b (remaining txs j asg) = (b', remaining txs j asg') \<and> length asg' = length txs
    \<and> (\<forall>k < j. asg' ! k = asg ! k)"
  using assms
proof (induction "length txs - j" arbitrary: j b asg)
  case 0
  then show ?case by (simp add: remaining_def)
next
  case (Suc m)
  then have j: "j < length txs" and upt: "[j..<length txs] = j # [Suc j..<length txs]"
    by (simp_all add: upt_conv_Cons)
  obtain b1 asg1 where s1: "fill_batch txs j (b, asg) = (b1, asg1)"
    by fastforce
  have rest: "fold (fill_batch txs) [Suc j..<length txs] (b1, asg1) = (b', asg')"
    using Suc.prems(1) by (simp add: upt s1)
  have len: "length asg1 = length txs"
    using s1 Suc.prems(2) by (auto simp: fill_batch_def split: if_splits)
  have IH: "pick b1 (remaining txs (Suc j) asg1) = (b', remaining txs (Suc j) asg')"
    "length asg' = length txs" "\<forall>k < Suc j. asg' ! k = asg1 ! k"
    using Suc.hyps(1) [OF _ rest len] Suc.hyps(2) by auto
  show ?case
    using s1 IH Suc.prems(2) j
    by (auto simp: fill_batch_def remaining_step [OF j] remaining_update split: if_splits)
qed

lemma outer_greedy:
  assumes "length asg = length txs"
  shows "fst (fold (outer_step txs) [i..<length txs] (bs, asg)) = bs @ greedy (remaining txs i asg)"
  using assms
proof (induction "length txs - i" arbitrary: i bs asg)
  case 0
  then show ?case by (simp add: remaining_def)
next
  case (Suc m)
  then have i: "i < length txs" and upt: "[i..<length txs] = i # [Suc i..<length txs]"
    by (simp_all add: upt_conv_Cons)
  show ?case
  proof (cases "asg ! i")
    case True
    then show ?thesis
      using Suc.hyps(1) [of "Suc i" asg bs] Suc.hyps(2) Suc.prems
      by (simp add: upt outer_step_def remaining_step [OF i])
  next
    case False
    obtain b asg' where f: "fold (fill_batch txs) [i + 1..<length txs] ([txs ! i], asg[i := True]) = (b, asg')"
      by fastforce
    have p: "pick [txs ! i] (remaining txs (Suc i) asg) = (b, remaining txs (Suc i) asg')" "length asg' = length txs"
      using fill_batch_pick [of txs "Suc i" "[txs ! i]" "asg[i := True]"] f Suc.prems
      by (simp_all add: remaining_update)
    show ?thesis
      using Suc.hyps(1) [of "Suc i" asg' "bs @ [b]"] Suc.hyps(2) p f False
      by (simp add: upt outer_step_def remaining_step [OF i])
  qed
qed

lemma createIndependentBatches_greedy: "createIndependentBatches txs = greedy txs"
proof -
  have "remaining txs 0 (replicate (length txs) False) = map (\<lambda>k. txs ! k) [0..<length txs]"
    by (auto simp: remaining_def intro!: arg_cong [where f = "map _"] filter_True)
  then show ?thesis
    by (simp add: createIndependentBatches_def outer_greedy map_nth)
qed

lemma greedy_mset: "mset (concat (greedy txs)) = mset txs"
proof (induction txs rule: greedy.induct)
  case (2 t ts)
  then show ?case
    using pick_mset [of "[t]" ts] by (simp add: case_prod_beta prod_eq_iff)
qed simp

lemma greedy_independent: "b \<in> set (greedy txs) \<Longrightarrow> independent b"
proof (induction txs rule: greedy.induct)
  case (2 t ts)
  then show ?case
    using pick_independent [of "[t]" ts] by (auto simp: case_prod_beta prod_eq_iff independent_def)
qed simp

lemma independent_senders: "independent b \<Longrightarrow> distinct (map tx_from b)"
  by (induction b) (auto simp: independent_def hasDependency_def)

lemma pick_subseq: "\<exists>b'. fst (pick b ts) = b @ b' \<and> subseq b' ts \<and> subseq (snd (pick b ts)) ts"
proof (induction b ts rule: pick.induct)
  case (2 b t ts)
  show ?case
  proof (cases "list_ex (\<lambda>tx. hasDependency tx t) b")
    case True
    then obtain b' where "fst (pick b ts) = b @ b'" "subseq b' ts" "subseq (snd (pick b ts)) ts"
      using 2 by blast
    then show ?thesis
      using True by (auto simp: case_prod_beta Let_def intro!: exI [of _ b'])
  next
    case False
    then obtain b' where "fst (pick (b @ [t]) ts) = b @ [t] @ b'" "subseq b' ts" "subseq (snd (pick (b @ [t]) ts)) ts"
      using 2 by auto
    then show ?thesis
      using False by (auto intro!: exI [of _ "t # b'"])
  qed
qed simp

lemma greedy_subseq: "b \<in> set (greedy txs) \<Longrightarrow> subseq b txs"
proof (induction txs rule: greedy.induct)
  case (2 t ts)
  obtain b' where p: "fst (pick [t] ts) = t # b'" "subseq b' ts" "subseq (snd (pick [t] ts)) ts"
    using pick_subseq [of "[t]" ts] by auto
  show ?case
  proof (cases "b = fst (pick [t] ts)")
    case True
    then show ?thesis using p by simp
  next
    case False
    then have "subseq b (snd (pick [t] ts))"
      using 2 by (auto simp: case_prod_beta prod_eq_iff)
    then show ?thesis
      using p(3) subseq_order.trans by blast
  qed
qed simp

text \<open>
  C13. The split of a batch is the one of the greedy reference: the first transaction left and, in their order, all later ones
  that depend on none taken before make a batch, and so on with the rest. It is a partition: every transaction is in exactly
  one of the batches. Within a batch the transactions are in the order they came in and none depends on an earlier one, so that all
  senders of a batch differ.
\<close>

theorem independent_batches_spec:
  "createIndependentBatches txs = greedy txs
   \<and> mset (concat (createIndependentBatches txs)) = mset txs
   \<and> list_all (\<lambda>b. subseq b txs \<and> sorted_wrt (\<lambda>t u. \<not> hasDependency t u) b \<and> distinct (map tx_from b)) (createIndependentBatches txs)"
  using greedy_mset greedy_independent independent_senders greedy_subseq
  by (auto simp: createIndependentBatches_greedy list_all_iff independent_def)

section \<open>Schedules\<close>

text \<open>What a batch with different senders does to every account, in any order.\<close>

lemma run_tasks_closed_form:
  assumes "distinct (map tx_from txs)"
  shows "fst (run_tasks txs im) =
      (\<forall>tx \<in> set txs. fst (pp_account_step tx (map_get AccountState_default (account_states im) (tx_from tx))))
    \<and> (\<forall>k. map_find (account_states (snd (run_tasks txs im))) k =
         (case map_of (map (\<lambda>tx. (tx_from tx, tx)) txs) k of
            Some tx \<Rightarrow> Some (snd (pp_account_step tx (map_get AccountState_default (account_states im) k)))
          | None \<Rightarrow> map_find (account_states im) k))
    \<and> failed_transactions (snd (run_tasks txs im)) = failed_transactions im
         + of_nat (length (filter (\<lambda>tx. \<not> fst (pp_account_step tx (map_get AccountState_default (account_states im) (tx_from tx)))) txs))"
  using assms
proof (induction txs arbitrary: im)
  case (Cons tx txs)
  define a where "a = map_get AccountState_default (account_states im) (tx_from tx)"
  define im1 where "im1 = snd (processTransaction_impl tx im)"
  have ok: "fst (processTransaction_impl tx im) = fst (pp_account_step tx a)"
    and accs: "account_states im1 = map_put (tx_from tx) (snd (pp_account_step tx a)) (account_states im)"
    and failed: "failed_transactions im1 = failed_transactions im + (if fst (pp_account_step tx a) then 0 else 1)"
    by (simp_all add: processTransaction_impl_def case_prod_beta Let_def a_def im1_def)
  have get: "map_get AccountState_default (account_states im1) (tx_from u) =
      map_get AccountState_default (account_states im) (tx_from u)" if "u \<in> set txs" for u
  proof -
    have "tx_from u \<noteq> tx_from tx"
      using Cons.prems that by (metis distinct.simps(2) image_eqI list.set_map list.simps(9))
    then show ?thesis by (simp add: accs)
  qed
  have run: "run_tasks (tx # txs) im = (fst (pp_account_step tx a) \<and> fst (run_tasks txs im1), snd (run_tasks txs im1))"
    by (simp add: case_prod_beta Let_def ok im1_def)
  have flt: "filter (\<lambda>u. \<not> fst (pp_account_step u (map_get AccountState_default (account_states im1) (tx_from u)))) txs
      = filter (\<lambda>u. \<not> fst (pp_account_step u (map_get AccountState_default (account_states im) (tx_from u)))) txs"
    using get by (intro filter_cong) auto
  have "tx_from tx \<notin> fst ` set (map (\<lambda>u. (tx_from u, u)) txs)"
    using Cons.prems by auto
  then have none: "map_of (map (\<lambda>u. (tx_from u, u)) txs) (tx_from tx) = None"
    by (simp only: map_of_eq_None_iff) simp
  have d: "distinct (map tx_from txs)"
    using Cons.prems by simp
  note IH = Cons.IH [OF d, of im1]
  show ?case
    unfolding run fst_conv snd_conv
  proof (intro conjI allI)
    show "(fst (pp_account_step tx a) \<and> fst (run_tasks txs im1)) = (\<forall>u \<in> set (tx # txs).
        fst (pp_account_step u (map_get AccountState_default (account_states im) (tx_from u))))"
      using IH get by (simp add: a_def)
    show "map_find (account_states (snd (run_tasks txs im1))) k =
        (case map_of (map (\<lambda>tx. (tx_from tx, tx)) (tx # txs)) k of
           Some tx \<Rightarrow> Some (snd (pp_account_step tx (map_get AccountState_default (account_states im) k)))
         | None \<Rightarrow> map_find (account_states im) k)" for k
    proof (cases "k = tx_from tx")
      case True
      then show ?thesis using IH none by (simp add: accs a_def)
    next
      case False
      then have "map_find (account_states im1) k = map_find (account_states im) k"
        and "map_get AccountState_default (account_states im1) k = map_get AccountState_default (account_states im) k"
        by (simp_all add: accs)
      then show ?thesis using IH False by (simp split: option.split)
    qed
    show "failed_transactions (snd (run_tasks txs im1)) = failed_transactions im
        + of_nat (length (filter (\<lambda>u. \<not> fst (pp_account_step u
            (map_get AccountState_default (account_states im) (tx_from u)))) (tx # txs)))"
      using IH by (simp add: flt failed a_def [symmetric])
  qed
qed simp

text \<open>
  The outcome of an independent batch does not depend on the schedule: whatever order its tasks run
  in, the combined result, the state of every account and the number of failures are the same.
\<close>

theorem processBatch_schedule_irrelevant:
  assumes "b \<in> set (createIndependentBatches txs)" and "pp_impl pp = Some im"
    and "mset (sched b) = mset b" and "mset (sched' b) = mset b"
  shows "\<exists>ok im1 im2. processBatch sched b pp = Inr (ok, pp\<lparr>pp_impl := Some im1\<rparr>)
    \<and> processBatch sched' b pp = Inr (ok, pp\<lparr>pp_impl := Some im2\<rparr>)
    \<and> map_find (account_states im1) = map_find (account_states im2)
    \<and> failed_transactions im1 = failed_transactions im2"
proof -
  have "distinct (map tx_from b)"
    using assms(1) independent_senders greedy_independent by (simp add: createIndependentBatches_greedy)
  then have d: "distinct (map tx_from c)" if "mset c = mset b" for c
    using that by (metis mset_eq_imp_distinct_iff mset_map)
  have s: "set (sched b) = set (sched' b)" and m: "mset (sched b) = mset (sched' b)"
    using assms(3,4) by (auto dest: mset_eq_setD)
  note c1 = run_tasks_closed_form [OF d [OF assms(3)], of im] and c2 = run_tasks_closed_form [OF d [OF assms(4)], of im]
  have "map_of (map (\<lambda>tx. (tx_from tx, tx)) (sched b)) = map_of (map (\<lambda>tx. (tx_from tx, tx)) (sched' b))"
    using d [OF assms(3)] d [OF assms(4)] s by (intro map_of_inject_set [THEN iffD2]) (auto simp: comp_def)
  then have "map_find (account_states (snd (run_tasks (sched b) im))) = map_find (account_states (snd (run_tasks (sched' b) im)))"
    using c1 c2 by (simp add: fun_eq_iff)
  moreover have "fst (run_tasks (sched b) im) = fst (run_tasks (sched' b) im)"
    using c1 c2 s by simp
  moreover have "failed_transactions (snd (run_tasks (sched b) im)) = failed_transactions (snd (run_tasks (sched' b) im))"
    using c1 c2 arg_cong [OF m, of "\<lambda>M. size (filter_mset _ M)"] by (simp flip: size_mset mset_filter)
  ultimately show ?thesis
    using assms(2) by (auto simp: processBatch_def case_prod_beta Let_def)
qed

theorem processBatch_schedule_irrelevant_witness:
  "\<exists>ok im1 im2. processBatch (\<lambda>b. b) [(Transaction_default 0 [])\<lparr>tx_from := ''a'', tx_to := ''b''\<rparr>,
        (Transaction_default 0 [])\<lparr>tx_from := ''c'', tx_to := ''d''\<rparr>]
      ((ParallelProcessor_new 4 10)\<lparr>pp_impl := Some \<lparr>failed_transactions = 0, failed_contracts = 0, pp_contract_queue = [],
         contract_states = [], account_states = []\<rparr>\<rparr>) = Inr (ok, im1)
    \<and> processBatch rev [(Transaction_default 0 [])\<lparr>tx_from := ''a'', tx_to := ''b''\<rparr>,
        (Transaction_default 0 [])\<lparr>tx_from := ''c'', tx_to := ''d''\<rparr>]
      ((ParallelProcessor_new 4 10)\<lparr>pp_impl := Some \<lparr>failed_transactions = 0, failed_contracts = 0, pp_contract_queue = [],
         contract_states = [], account_states = []\<rparr>\<rparr>) = Inr (ok, im2)"
proof -
  let ?a = "(Transaction_default 0 [])\<lparr>tx_from := ''a'', tx_to := ''b''\<rparr>"
    and ?c = "(Transaction_default 0 [])\<lparr>tx_from := ''c'', tx_to := ''d''\<rparr>"
    and ?im = "\<lparr>failed_transactions = 0, failed_contracts = 0, pp_contract_queue = [],
         contract_states = [], account_states = []\<rparr>"
  have "[?a, ?c] \<in> set (createIndependentBatches [?a, ?c])"
    by (simp add: createIndependentBatches_greedy hasDependency_def)
  from processBatch_schedule_irrelevant [OF this, of "(ParallelProcessor_new 4 10)\<lparr>pp_impl := Some ?im\<rparr>" ?im "\<lambda>b. b" rev]
  show ?thesis by force
qed

lemma submitBatch_run:
  assumes "\<not> pp_should_stop pp" and "pp_impl pp = Some im"
  shows "submitBatch sched txs pp = (let b = sched (concat (createIndependentBatches txs))
    in Inr (fst (run_tasks b im), pp\<lparr>pp_impl := Some (snd (run_tasks b im))\<rparr>))"
  using assms by (simp add: submitBatch_def processBatch_def case_prod_beta Let_def)

text \<open>
  The independent batches of one submission are not kept in order: two transactions of one sender with
  consecutive nonces go to different batches, and whether the submission succeeds, and whether the second
  one is processed or only queued, depends on which batch runs first.
\<close>

theorem submitBatch_order_matters:
  assumes "\<not> pp_should_stop pp" and "pp_impl pp = Some im" and "tx_from t = tx_from u"
    and "tx_nonce t = as_nonce (map_get AccountState_default (account_states im) (tx_from u))"
    and "tx_nonce u = tx_nonce t + 1" and "tx_nonce t < tx_nonce u"
  shows "createIndependentBatches [t, u] = [[t], [u]]
    \<and> (\<exists>im1. submitBatch (\<lambda>b. b) [t, u] pp = Inr (True, pp\<lparr>pp_impl := Some im1\<rparr>)
         \<and> as_nonce (map_get AccountState_default (account_states im1) (tx_from u)) = tx_nonce u + 1)
    \<and> (\<exists>im2. submitBatch rev [t, u] pp = Inr (False, pp\<lparr>pp_impl := Some im2\<rparr>)
         \<and> as_nonce (map_get AccountState_default (account_states im2) (tx_from u)) = tx_nonce u
         \<and> u \<in> set (as_pending (map_get AccountState_default (account_states im2) (tx_from u))))"
proof (intro conjI)
  show b: "createIndependentBatches [t, u] = [[t], [u]]"
    using assms(3) by (simp add: createIndependentBatches_greedy hasDependency_def)
  show "\<exists>im1. submitBatch (\<lambda>b. b) [t, u] pp = Inr (True, pp\<lparr>pp_impl := Some im1\<rparr>)
      \<and> as_nonce (map_get AccountState_default (account_states im1) (tx_from u)) = tx_nonce u + 1"
    using assms by (intro exI [of _ "snd (run_tasks [t, u] im)"])
      (simp add: b submitBatch_run processTransaction_impl_def pp_account_step_def case_prod_beta Let_def)
  show "\<exists>im2. submitBatch rev [t, u] pp = Inr (False, pp\<lparr>pp_impl := Some im2\<rparr>)
      \<and> as_nonce (map_get AccountState_default (account_states im2) (tx_from u)) = tx_nonce u
      \<and> u \<in> set (as_pending (map_get AccountState_default (account_states im2) (tx_from u)))"
    using assms by (intro exI [of _ "snd (run_tasks [u, t] im)"])
      (simp add: b submitBatch_run processTransaction_impl_def pp_account_step_def case_prod_beta Let_def)
qed

theorem submitBatch_order_matters_witness:
  "\<exists>pp1 pp2. submitBatch (\<lambda>b. b) [Transaction_default 0 [], (Transaction_default 0 [])\<lparr>tx_nonce := 1\<rparr>]
      ((ParallelProcessor_new 4 10)\<lparr>pp_impl := Some \<lparr>failed_transactions = 0, failed_contracts = 0, pp_contract_queue = [],
         contract_states = [], account_states = []\<rparr>\<rparr>) = Inr (True, pp1)
    \<and> submitBatch rev [Transaction_default 0 [], (Transaction_default 0 [])\<lparr>tx_nonce := 1\<rparr>]
      ((ParallelProcessor_new 4 10)\<lparr>pp_impl := Some \<lparr>failed_transactions = 0, failed_contracts = 0, pp_contract_queue = [],
         contract_states = [], account_states = []\<rparr>\<rparr>) = Inr (False, pp2)"
  using submitBatch_order_matters [of "(ParallelProcessor_new 4 10)\<lparr>pp_impl := Some \<lparr>failed_transactions = 0,
      failed_contracts = 0, pp_contract_queue = [], contract_states = [], account_states = []\<rparr>\<rparr>"
    "\<lparr>failed_transactions = 0, failed_contracts = 0, pp_contract_queue = [], contract_states = [], account_states = []\<rparr>"
    "Transaction_default 0 []" "(Transaction_default 0 [])\<lparr>tx_nonce := 1\<rparr>"]
  by (force simp: ParallelProcessor_new_def startWorkers_def Let_def Transaction_default_def AccountState_default_def map_get_def)

section \<open>Contract calls\<close>

text \<open>What a call does to the table of contracts and to the queue, whichever executor takes it.\<close>

lemma executeContractInternal_states:
  assumes "executeContractInternal call pp = Inr (r, pp')" and "pp_impl pp = Some im"
  shows "\<exists>im'. pp_impl pp' = Some im' \<and> pp_contract_queue im' = pp_contract_queue im
    \<and> (\<forall>a. \<not> is_executing (map_get ContractState_default (contract_states im) a) \<longrightarrow>
           map_get ContractState_default (contract_states im') a = map_get ContractState_default (contract_states im) a)"
  using assms by (auto simp: executeContractInternal_def case_prod_beta Let_def getAvailableExecutor_def
      split: if_splits sum.splits)

text \<open>A call of a running processor is executed at once and stays in the queue of the contract workers.\<close>

lemma executeContract_queues:
  assumes "executeContract call pp = Inr (r, pp')" and "\<not> pp_should_stop pp" and "pp_impl pp = Some im"
  shows "\<exists>im'. pp_impl pp' = Some im' \<and> pp_contract_queue im' = pp_contract_queue im @ [call]"
  using assms by (auto simp: executeContract_def dest!: executeContractInternal_states)

text \<open>
  \<open>process\<close> ends: one more turn than there are pending calls is enough, as long as the contract is not
  executing, which is how every operation leaves it.
\<close>

lemma process_loop_terminates:
  assumes "pp_impl pp = Some im" and "\<not> is_executing (map_get ContractState_default (contract_states im) c)"
    and "length (pending_calls (map_get ContractState_default (contract_states im) c)) < n"
  shows "\<exists>r. process_loop n c pp = Some r"
  using assms
proof (induction n arbitrary: pp im)
  case (Suc n)
  show ?case
  proof (cases "pending_calls (map_get ContractState_default (contract_states im) c)")
    case Nil
    with Suc.prems show ?thesis by (simp add: case_prod_beta Let_def)
  next
    case (Cons call rest)
    let ?im = "im\<lparr>contract_states := map_put c (map_get ContractState_default (contract_states im) c\<lparr>pending_calls := rest\<rparr>)
      (contract_states im)\<rparr>"
    have step: "process_loop (Suc n) c pp = (case executeContractInternal call (pp\<lparr>pp_impl := Some ?im\<rparr>) of
        Inl e \<Rightarrow> Some (Inl e) | Inr (_, pp) \<Rightarrow> process_loop n c pp)"
      using Suc.prems(1) Cons by (simp add: case_prod_beta Let_def)
    show ?thesis
    proof (cases "executeContractInternal call (pp\<lparr>pp_impl := Some ?im\<rparr>)")
      case (Inr rp)
      obtain r pp' where rp: "rp = (r, pp')" by (cases rp)
      obtain im' where "pp_impl pp' = Some im'"
        and "map_get ContractState_default (contract_states im') c = map_get ContractState_default (contract_states ?im) c"
        using Suc.prems(2) executeContractInternal_states [OF Inr [unfolded rp], of ?im] by auto
      then have "\<exists>r. process_loop n c pp' = Some r"
        using Suc.prems(2,3) Cons by (intro Suc.IH [of pp' im']) simp_all
      then show ?thesis by (simp only: step Inr rp sum.case prod.case)
    qed (simp only: step sum.case, blast)
  qed
qed simp

lemma ParallelProcessor_new_unusable:
  "is_Undefined (processTransaction tx (ParallelProcessor_new k n))"
  "is_Undefined (executeContractInternal call (ParallelProcessor_new k n))"
  by (simp_all add: processTransaction_def executeContractInternal_def ParallelProcessor_new_def startWorkers_def Let_def)

text \<open>Starting a processor that already runs doubles its threads.\<close>

lemma pp_start_again:
  "worker_threads (pp_start (ParallelProcessor_new k n)) = 2 * k"
  by (simp add: pp_start_def ParallelProcessor_new_def startWorkers_def Let_def)

end
