(* ===== verification/Batch_Processor.thy ===== *)
theory Batch_Processor
  imports State_Manager
begin

text \<open>
  The batch processor of the rollup (\<open>include/rollup/BatchProcessor.hpp\<close>,
  \<open>src/rollup/BatchProcessor.cpp\<close>): transactions are queued by \<open>submit_transaction\<close> and taken in batches by
  worker threads, which apply them to the state manager. Taking a batch holds \<open>mutex_\<close>, so it is one step; the
  wait on the condition variable ends when its predicate holds or when the time is up, which the parameter
  \<open>timeout\<close> tells. A batch is applied without \<open>mutex_\<close>, one transaction at a time under the lock of the state manager:
  these are steps of their own, with which the steps of other workers and of clients interleave. \<open>should_stop_\<close> is a plain
  \<open>bool\<close> that is written without the lock: the model takes each access as atomic, which the sources do not ensure.
\<close>

section \<open>Definitions\<close>

record BatchConfig =
  max_batch_size :: nat
  min_batch_size :: nat

record BatchProcessor =
  bp_state_manager :: StateManager
  bp_config :: BatchConfig
  pending_transactions :: "Transaction list"
  worker_threads :: "Transaction list list"
  bp_should_stop :: bool




text \<open>The loop that moves transactions from the queue to the batch.\<close>

fun move_pending :: "nat \<Rightarrow> Transaction list \<Rightarrow> Transaction list \<Rightarrow> Transaction list \<times> Transaction list" where
  "move_pending max_size batch [] = (batch, [])"
| "move_pending max_size batch (tx # txs) =
     (if length batch < max_size then move_pending max_size (batch @ [tx]) txs else (batch, tx # txs))"

text \<open>\<open>None\<close>: the caller still waits on the condition variable.\<close>

definition create_batch :: "bool \<Rightarrow> BatchProcessor \<Rightarrow> (Transaction list \<times> BatchProcessor) option" where
  "create_batch timeout bp =
     (if \<not> (length (pending_transactions bp) \<ge> min_batch_size (bp_config bp) \<or> bp_should_stop bp) \<and> \<not> timeout then None
      else if bp_should_stop bp \<or> pending_transactions bp = [] then Some ([], bp)
      else let (batch, rest) = move_pending (max_batch_size (bp_config bp)) [] (pending_transactions bp)
           in Some (batch, bp\<lparr>pending_transactions := rest\<rparr>))"


text \<open>
  The two parts of \<open>process_batch\<close>: an idle worker takes a batch, unless the loop has ended; a worker applies the next
  transaction of its batch, whatever became of \<open>should_stop_\<close>.
\<close>

definition process_batch_take :: "nat \<Rightarrow> bool \<Rightarrow> BatchProcessor \<Rightarrow> BatchProcessor" where
  "process_batch_take w timeout bp =
     (if w < length (worker_threads bp) \<and> worker_threads bp ! w = [] \<and> \<not> bp_should_stop bp
      then case create_batch timeout bp of
             None \<Rightarrow> bp
           | Some (batch, bp) \<Rightarrow> bp\<lparr>worker_threads := (worker_threads bp)[w := batch]\<rparr>
      else bp)"






section \<open>Batches\<close>

lemma move_pending_eq:
  "move_pending n batch txs = (batch @ take (n - length batch) txs, drop (n - length batch) txs)"
  by (induction n batch txs rule: move_pending.induct) (auto simp: take_Cons' drop_Cons' Suc_diff_Suc)

lemma create_batch_eq:
  "create_batch timeout bp =
     (if bp_should_stop bp then Some ([], bp)
      else if length (pending_transactions bp) < min_batch_size (bp_config bp) \<and> \<not> timeout then None
      else Some (take (max_batch_size (bp_config bp)) (pending_transactions bp),
             bp\<lparr>pending_transactions := drop (max_batch_size (bp_config bp)) (pending_transactions bp)\<rparr>))"
  by (auto simp: create_batch_def move_pending_eq not_le)



section \<open>Interleavings\<close>








text \<open>Progress: an idle worker whose wait ended takes a full batch, or all there is.\<close>

lemma process_batch_progress:
  assumes "\<not> bp_should_stop bp" and "timeout \<or> min_batch_size (bp_config bp) \<le> length (pending_transactions bp)"
    and "w < length (worker_threads bp)" "worker_threads bp ! w = []"
  shows "length (pending_transactions (process_batch_take w timeout bp))
    = length (pending_transactions bp) - max_batch_size (bp_config bp)"
  using assms by (auto simp: process_batch_take_def create_batch_eq not_less)

end
