(* ===== verification/Quantum_State.thy ===== *)
theory Quantum_State
  imports Doubles
begin

unbundle bit_operations_syntax

text \<open>
  The simulated register of qubits (\<open>include/quantum/QuantumState.hpp\<close>, \<open>src/quantum/QuantumState.cpp\<close>).
  Complex arithmetic on doubles is a parameter like the arithmetic on doubles itself, and so are the
  operations of Eigen that the class calls on whole vectors (\<open>norm\<close>, \<open>normalize\<close>, the product of a matrix
  and a vector) and the number that the random generator draws. What is modelled is what the class itself
  does: which amplitudes a gate combines, in which order the loops write them, and the checks.
\<close>

section \<open>Definitions\<close>

record ('d, 'c) qops = "'d dops" +
  cplx :: "'d \<Rightarrow> 'd \<Rightarrow> 'c"
  cadd :: "'c \<Rightarrow> 'c \<Rightarrow> 'c"
  cmul :: "'c \<Rightarrow> 'c \<Rightarrow> 'c"
  cconj :: "'c \<Rightarrow> 'c"
  creal :: "'c \<Rightarrow> 'd"
  cimag :: "'c \<Rightarrow> 'd"
  cscale :: "'c \<Rightarrow> 'd \<Rightarrow> 'c"
  cabs :: "'c \<Rightarrow> 'd"
  cnorm :: "'c \<Rightarrow> 'd"
  ceq :: "'c \<Rightarrow> 'c \<Rightarrow> bool"
  fabs :: "'d \<Rightarrow> 'd"
  fsqrt :: "'d \<Rightarrow> 'd"
  fcos :: "'d \<Rightarrow> 'd"
  fsin :: "'d \<Rightarrow> 'd"
  fneg :: "'d \<Rightarrow> 'd"
  fge :: "'d \<Rightarrow> 'd \<Rightarrow> bool"
  fisnan :: "'d \<Rightarrow> bool"
  fisfinite :: "'d \<Rightarrow> bool"
  vnorm :: "'c list \<Rightarrow> 'd"
  vnormalize :: "'c list \<Rightarrow> 'c list"
  mat_vec :: "'c list list \<Rightarrow> 'c list \<Rightarrow> 'c list"

record ('d, 'c) QuantumState =
  num_qubits :: nat
  state_vector :: "'c list"
  entanglement :: "'c list list"
  coherence :: 'd
  entropy :: 'd
  measurement_outcomes :: "bool list"

text \<open>A gate as its four entries, row by row.\<close>

record 'c gate =
  g00 :: 'c
  g01 :: 'c
  g10 :: 'c
  g11 :: 'c

definition calculate_coherence :: "('d, 'c, 'z) qops_scheme \<Rightarrow> 'c list list \<Rightarrow> nat \<Rightarrow> 'd" where
  "calculate_coherence F ent n =
     fold (\<lambda>i c. fold (\<lambda>j c. if i \<noteq> j then fadd F c (cabs F (ent ! i ! j)) else c) [0..<n] c) [0..<n] (lit F ''0.0'')"

definition calculate_entropy :: "('d, 'c, 'z) qops_scheme \<Rightarrow> 'c list \<Rightarrow> 'd" where
  "calculate_entropy F v =
     fold (\<lambda>i e. let p = cnorm F (v ! i)
                 in if fless F (lit F ''0'') p then fsub F e (fmul F p (flog2 F p)) else e) [0..<length v] (lit F ''0.0'')"

definition generate_entanglement_matrix :: "('d, 'c, 'z) qops_scheme \<Rightarrow> ('d, 'c) QuantumState \<Rightarrow> ('d, 'c) QuantumState" where
  "generate_entanglement_matrix F s =
     (let v = state_vector s; ent = map (\<lambda>a. map (\<lambda>b. cmul F a (cconj F b)) v) v
      in s\<lparr>entanglement := ent, coherence := calculate_coherence F ent (length v), entropy := calculate_entropy F v\<rparr>)"

text \<open>\<open>1 << num_qubits\<close> is computed at type \<open>int\<close>, of 32 bits.\<close>

definition QuantumState_new :: "('d, 'c, 'z) qops_scheme \<Rightarrow> nat \<Rightarrow> ('d, 'c) QuantumState res" where
  "QuantumState_new F n =
     (if n \<ge> 32 then Inl (Undefined ''shift count out of range'')
      else if n = 31 then Inl (Undefined ''negative vector size'')
      else Inr (generate_entanglement_matrix F
        \<lparr>num_qubits = n,
         state_vector = (replicate (2 ^ n) (cplx F (lit F ''0'') (lit F ''0'')))[0 := cplx F (lit F ''1.0'') (lit F ''0'')],
         entanglement = [], coherence = lit F ''0.0'', entropy = lit F ''0.0'', measurement_outcomes = []\<rparr>))"

fun ilog2 :: "nat \<Rightarrow> nat" where
  "ilog2 n = (if n < 2 then 0 else Suc (ilog2 (n div 2)))"

definition QuantumState_of_vector :: "('d, 'c, 'z) qops_scheme \<Rightarrow> 'c list \<Rightarrow> ('d, 'c) QuantumState res" where
  "QuantumState_of_vector F v =
     (if v = [] then Inl (Undefined ''conversion of log2(0)'')
      else if length v AND (length v - 1) \<noteq> 0
      then Inl (Invalid_argument ''State vector size must be a power of 2'')
      else Inr (generate_entanglement_matrix F
        \<lparr>num_qubits = ilog2 (length v), state_vector = v, entanglement = [], coherence = lit F ''0.0'',
         entropy = lit F ''0.0'', measurement_outcomes = []\<rparr>))"

abbreviation qubit_out_of_range :: "'b res" where
  "qubit_out_of_range \<equiv> Inl (Out_of_range ''Qubit index out of range'')"

text \<open>One turn of the loop of \<open>apply_single_qubit_gate\<close>: it reads the old vector and writes the new one.\<close>

definition gate_turn :: "('d, 'c, 'z) qops_scheme \<Rightarrow> nat \<Rightarrow> 'c gate \<Rightarrow> 'c list \<Rightarrow> nat \<Rightarrow> 'c list \<Rightarrow> 'c list" where
  "gate_turn F qubit g old i new =
     (if \<not> bit i qubit then
        let i2 = set_bit qubit i; a = old ! i; b = old ! i2
        in new[i := cadd F (cmul F (g00 g) a) (cmul F (g01 g) b), i2 := cadd F (cmul F (g10 g) a) (cmul F (g11 g) b)]
      else new)"

definition apply_single_qubit_gate :: "('d, 'c, 'z) qops_scheme \<Rightarrow> nat \<Rightarrow> 'c gate \<Rightarrow> ('d, 'c) QuantumState \<Rightarrow>
    ('d, 'c) QuantumState res" where
  "apply_single_qubit_gate F qubit g s =
     (if qubit \<ge> num_qubits s then qubit_out_of_range
      else Inr (s\<lparr>state_vector := fold (gate_turn F qubit g (state_vector s)) [0..<2 ^ num_qubits s] (state_vector s)\<rparr>))"

text \<open>One turn of the loop of \<open>apply_cnot\<close>: it swaps two amplitudes of the new vector.\<close>

definition cnot_turn :: "nat \<Rightarrow> nat \<Rightarrow> nat \<Rightarrow> 'c list \<Rightarrow> 'c list" where
  "cnot_turn control target i new =
     (if bit i control then let j = flip_bit target i in new[i := new ! j, j := new ! i] else new)"

definition apply_cnot :: "nat \<Rightarrow> nat \<Rightarrow> ('d, 'c) QuantumState \<Rightarrow> ('d, 'c) QuantumState res" where
  "apply_cnot control target s =
     (if control \<ge> num_qubits s \<or> target \<ge> num_qubits s then qubit_out_of_range
      else Inr (s\<lparr>state_vector := fold (cnot_turn control target) [0..<2 ^ num_qubits s] (state_vector s)\<rparr>))"

definition apply_phase :: "('d, 'c, 'z) qops_scheme \<Rightarrow> nat \<Rightarrow> 'd \<Rightarrow> ('d, 'c) QuantumState \<Rightarrow> ('d, 'c) QuantumState res" where
  "apply_phase F qubit angle s =
     apply_single_qubit_gate F qubit \<lparr>g00 = cplx F (lit F ''1.0'') (lit F ''0''), g01 = cplx F (lit F ''0.0'') (lit F ''0''),
       g10 = cplx F (lit F ''0.0'') (lit F ''0''), g11 = cplx F (fcos F angle) (fsin F angle)\<rparr> s"

definition apply_hadamard :: "('d, 'c, 'z) qops_scheme \<Rightarrow> nat \<Rightarrow> ('d, 'c) QuantumState \<Rightarrow> ('d, 'c) QuantumState res" where
  "apply_hadamard F qubit s =
     (if qubit \<ge> num_qubits s then Inl (Out_of_range ''Target qubit index out of range'')
      else let h = fdiv F (lit F ''1.0'') (fsqrt F (lit F ''2.0''));
               m = fdiv F (fneg F (lit F ''1.0'')) (fsqrt F (lit F ''2.0''));
               H = \<lparr>g00 = cplx F h (lit F ''0''), g01 = cplx F h (lit F ''0''),
                    g10 = cplx F h (lit F ''0''), g11 = cplx F m (lit F ''0'')\<rparr>
           in apply_single_qubit_gate F qubit H s)"

text \<open>\<open>draw\<close> is the random number.\<close>

definition apply_measurement :: "('d, 'c, 'z) qops_scheme \<Rightarrow> 'd \<Rightarrow> nat \<Rightarrow> ('d, 'c) QuantumState \<Rightarrow> ('d, 'c) QuantumState res" where
  "apply_measurement F draw qubit s =
     (if qubit \<ge> num_qubits s then qubit_out_of_range
      else let n = 2 ^ num_qubits s;
               prob_one = fold (\<lambda>i p. if bit i qubit then fadd F p (cnorm F (state_vector s ! i)) else p) [0..<n] (lit F ''0.0'');
               r = fless F draw prob_one;
               norm_factor = fdiv F (lit F ''1.0'') (fsqrt F (if r then prob_one else fsub F (lit F ''1.0'') prob_one));
               v = fold (\<lambda>i v. if bit i qubit \<noteq> r then v[i := cplx F (lit F ''0.0'') (lit F ''0'')]
                              else v[i := cscale F (v ! i) norm_factor]) [0..<n] (state_vector s)
           in Inr (s\<lparr>state_vector := v, measurement_outcomes := measurement_outcomes s @ [r]\<rparr>))"

definition QuantumState_normalize :: "('d, 'c, 'z) qops_scheme \<Rightarrow> ('d, 'c) QuantumState \<Rightarrow> ('d, 'c) QuantumState" where
  "QuantumState_normalize F s = s\<lparr>state_vector := vnormalize F (state_vector s)\<rparr>"

definition prepare_state :: "('d, 'c) QuantumState \<Rightarrow> ('d, 'c) QuantumState" where
  "prepare_state s = s"

definition applyGateOptimized :: "('d, 'c, 'z) qops_scheme \<Rightarrow> 'c list list \<Rightarrow> ('d, 'c) QuantumState \<Rightarrow> ('d, 'c) QuantumState" where
  "applyGateOptimized F g s =
     (let r = mat_vec F g (state_vector s)
      in s\<lparr>state_vector := fold (\<lambda>i v. v[i := r ! i]) [0..<length (state_vector s)] (state_vector s)\<rparr>)"

definition setAmplitude :: "nat \<Rightarrow> 'c \<Rightarrow> ('d, 'c) QuantumState \<Rightarrow> ('d, 'c) QuantumState res" where
  "setAmplitude index v s =
     (if index \<ge> length (state_vector s) then Inl (Out_of_range ''Amplitude index out of range'')
      else Inr (s\<lparr>state_vector := (state_vector s)[index := v]\<rparr>))"

definition getAmplitude :: "nat \<Rightarrow> ('d, 'c) QuantumState \<Rightarrow> 'c res" where
  "getAmplitude index s =
     (if index \<ge> length (state_vector s) then Inl (Out_of_range ''Invalid amplitude index'')
      else Inr (state_vector s ! index))"

definition QuantumState_isValid :: "('d, 'c, 'z) qops_scheme \<Rightarrow> ('d, 'c) QuantumState \<Rightarrow> bool" where
  "QuantumState_isValid F s \<longleftrightarrow> state_vector s \<noteq> []
     \<and> fless F (fabs F (fsub F (vnorm F (state_vector s)) (lit F ''1.0''))) (lit F ''1e-10'')"

fun amplitudes_equal :: "('d, 'c, 'z) qops_scheme \<Rightarrow> nat list \<Rightarrow> ('d, 'c) QuantumState \<Rightarrow> ('d, 'c) QuantumState \<Rightarrow> bool res" where
  "amplitudes_equal F [] s t = Inr True"
| "amplitudes_equal F (i # is) s t =
     (case getAmplitude i s of Inl e \<Rightarrow> Inl e
      | Inr a \<Rightarrow> (case getAmplitude i t of Inl e \<Rightarrow> Inl e
                 | Inr b \<Rightarrow> if \<not> ceq F a b then Inr False else amplitudes_equal F is s t))"

definition QuantumState_equal :: "('d, 'c, 'z) qops_scheme \<Rightarrow> ('d, 'c) QuantumState \<Rightarrow> ('d, 'c) QuantumState \<Rightarrow> bool res" where
  "QuantumState_equal F s t =
     (if num_qubits s \<noteq> num_qubits t then Inr False else amplitudes_equal F [0..<num_qubits s] s t)"

section \<open>The size of the register\<close>

definition qubits_ok :: "('d, 'c) QuantumState \<Rightarrow> bool" where
  "qubits_ok s \<longleftrightarrow> length (state_vector s) = 2 ^ num_qubits s"

text \<open>Facts on the bits of an index.\<close>

declare ilog2.simps [simp del]

lemma ilog2_small: "n < 2 \<Longrightarrow> ilog2 n = 0" and ilog2_step: "\<not> n < 2 \<Longrightarrow> ilog2 n = Suc (ilog2 (n div 2))"
  by (simp_all add: ilog2.simps [of n])

lemma and_div_2: "(a AND b) div 2 = (a div 2) AND (b div 2)" for a b :: nat
  using drop_bit_and [of 1 a b] by (simp only: drop_bit_eq_div power_one_right)

text \<open>The test on \<open>size & (size - 1)\<close> lets exactly the powers of two pass.\<close>

lemma power_of_two_iff:
  assumes "0 < n"
  shows "n AND (n - 1) = 0 \<longleftrightarrow> n = 2 ^ ilog2 n"
  using assms
proof (induction n rule: ilog2.induct)
  case (1 n)
  show ?case
  proof (cases "n < 2")
    case False
    have half: "(n - 1) div 2 = (if even n then n div 2 - 1 else n div 2)"
      by presburger
    show ?thesis
    proof (cases "even n")
      case True
      have "n AND (n - 1) = 0 \<longleftrightarrow> (n AND (n - 1)) div 2 = 0"
        using True even_and_iff [of n "n - 1"] by presburger
      also have "\<dots> \<longleftrightarrow> n div 2 = 2 ^ ilog2 (n div 2)"
        using 1 False True half by (simp add: and_div_2)
      also have "\<dots> \<longleftrightarrow> n = 2 ^ ilog2 n"
        using False True by (simp add: ilog2_step) presburger
      finally show ?thesis .
    next
      case odd: False
      have "(n AND (n - 1)) div 2 = n div 2"
        using odd half by (simp add: and_div_2)
      then have "n AND (n - 1) \<noteq> 0"
        using False by fastforce
      moreover have "n \<noteq> 2 ^ ilog2 n"
        using odd False dvd_triv_left [of 2 "2 ^ ilog2 (n div 2)"] by (metis ilog2_step power_Suc)
      ultimately show ?thesis by simp
    qed
  qed (use 1 in \<open>simp add: ilog2_small\<close>)
qed

lemma ilog2_power [simp]: "ilog2 (2 ^ n) = n"
  by (induction n) (simp_all add: ilog2_small ilog2_step)

lemma length_gate_turns [simp]:
  "length (fold (gate_turn F q g old) is v) = length v" "length (fold (cnot_turn c t) is v) = length v"
  by (induction "is" arbitrary: v) (auto simp: gate_turn_def cnot_turn_def Let_def)

lemma qubits_ok_new: "QuantumState_new F n = Inr s \<Longrightarrow> qubits_ok s \<and> num_qubits s = n"
  by (auto simp: QuantumState_new_def generate_entanglement_matrix_def qubits_ok_def Let_def split: if_splits)

lemma qubits_ok_of_vector: "QuantumState_of_vector F v = Inr s \<Longrightarrow> qubits_ok s \<and> state_vector s = v"
  using power_of_two_iff [of "length v"]
  by (auto simp: QuantumState_of_vector_def generate_entanglement_matrix_def qubits_ok_def Let_def split: if_splits)

lemma qubits_ok_gates:
  "qubits_ok s \<Longrightarrow> apply_single_qubit_gate F q g s = Inr s' \<Longrightarrow> qubits_ok s' \<and> num_qubits s' = num_qubits s"
  "qubits_ok s \<Longrightarrow> apply_cnot c t s = Inr s' \<Longrightarrow> qubits_ok s' \<and> num_qubits s' = num_qubits s"
  by (auto simp: apply_single_qubit_gate_def apply_cnot_def qubits_ok_def split: if_splits)

section \<open>What the gates do\<close>

text \<open>Facts on indices that differ in one bit.\<close>

lemma set_unset_bit:
  fixes k :: nat
  shows "bit k q \<Longrightarrow> set_bit q (unset_bit q k) = k" and "\<not> bit k q \<Longrightarrow> unset_bit q k = k"
    and "unset_bit q (set_bit q k) = unset_bit q k" and "\<not> bit (unset_bit q k) q"
  by (auto intro!: bit_eqI simp: bit_set_bit_iff bit_unset_bit_iff possible_bit_def)

lemma unset_bit_eq_cases:
  fixes k m :: nat
  assumes "unset_bit q k = m"
  shows "k = m \<or> k = set_bit q m"
  using set_unset_bit [of k q] assms by metis

lemma flip_bit_facts:
  fixes k :: nat
  shows "flip_bit t (flip_bit t k) = k" and "flip_bit t k \<noteq> k"
    and "c \<noteq> t \<Longrightarrow> bit (flip_bit t k) c = bit k c" and "bit (flip_bit t k) t \<longleftrightarrow> \<not> bit k t"
proof -
  show "flip_bit t (flip_bit t k) = k"
    by (rule bit_eqI) (auto simp: bit_flip_bit_iff possible_bit_def)
  show b: "bit (flip_bit t k) t \<longleftrightarrow> \<not> bit k t"
    by (simp add: bit_flip_bit_iff possible_bit_def)
  show "flip_bit t k \<noteq> k"
    using b by metis
qed (simp add: bit_flip_bit_iff possible_bit_def)

lemma index_bounds:
  fixes k :: nat
  assumes "q < n"
  shows "flip_bit q k < 2 ^ n \<longleftrightarrow> k < 2 ^ n" and "set_bit q k < 2 ^ n \<longleftrightarrow> k < 2 ^ n"
    and "unset_bit q k < 2 ^ n \<longleftrightarrow> k < 2 ^ n"
proof -
  have up: "k < 2 ^ n \<Longrightarrow> flip_bit q k < 2 ^ n" "k < 2 ^ n \<Longrightarrow> set_bit q k < 2 ^ n" "k < 2 ^ n \<Longrightarrow> unset_bit q k < 2 ^ n" for k :: nat
    using assms by (simp_all add: take_bit_flip_bit_eq take_bit_set_bit_eq take_bit_unset_bit_eq
        flip: take_bit_nat_eq_self_iff)
  show "flip_bit q k < 2 ^ n \<longleftrightarrow> k < 2 ^ n"
    using up(1) flip_bit_facts(1) by metis
  have "k < 2 ^ n" if "set_bit q k < 2 ^ n"
  proof (cases "bit k q")
    case True
    then have "set_bit q k = k" by (auto intro!: bit_eqI simp: bit_set_bit_iff)
    with that show ?thesis by simp
  next
    case False
    then show ?thesis
      using up(3) [OF that] set_unset_bit(2,3) by metis
  qed
  then show "set_bit q k < 2 ^ n \<longleftrightarrow> k < 2 ^ n"
    using up(2) by blast
  have "k < 2 ^ n" if "unset_bit q k < 2 ^ n"
    using that up(2) [of "unset_bit q k"] set_unset_bit(1,2) by metis
  then show "unset_bit q k < 2 ^ n \<longleftrightarrow> k < 2 ^ n"
    using up(3) by blast
qed

text \<open>The new amplitude at \<open>k\<close>.\<close>

definition gate_at :: "('d, 'c, 'z) qops_scheme \<Rightarrow> nat \<Rightarrow> 'c gate \<Rightarrow> 'c list \<Rightarrow> nat \<Rightarrow> 'c" where
  "gate_at F q g v k =
     (if bit k q then cadd F (cmul F (g10 g) (v ! unset_bit q k)) (cmul F (g11 g) (v ! k))
      else cadd F (cmul F (g00 g) (v ! k)) (cmul F (g01 g) (v ! set_bit q k)))"

lemma nth_gate_turn:
  assumes "\<not> bit i q" and "i < length new" and "set_bit q i < length new"
  shows "gate_turn F q g v i new ! k = (if k = i \<or> k = set_bit q i then gate_at F q g v k else new ! k)"
proof -
  have "bit (set_bit q i) q" and "unset_bit q (set_bit q i) = i"
    using assms(1) set_unset_bit(2,3) by (simp_all add: bit_set_bit_iff)
  moreover from this have "set_bit q i \<noteq> i"
    using assms(1) by metis
  ultimately show ?thesis
    using assms by (auto simp: gate_turn_def gate_at_def Let_def)
qed

lemma gate_turns:
  assumes "length v = 2 ^ n" and "q < n" and "m \<le> 2 ^ n" and "k < 2 ^ n"
  shows "fold (gate_turn F q g v) [0..<m] v ! k = (if unset_bit q k < m then gate_at F q g v k else v ! k)"
  using assms(3)
proof (induction m)
  case (Suc m)
  define new where "new = fold (gate_turn F q g v) [0..<m] v"
  have step: "fold (gate_turn F q g v) [0..<Suc m] v = gate_turn F q g v m new" and len: "length new = 2 ^ n"
    using assms(1) by (simp_all add: new_def)
  have IH: "new ! k = (if unset_bit q k < m then gate_at F q g v k else v ! k)"
    using Suc by (simp add: new_def)
  show ?case
  proof (cases "bit m q")
    case True
    then have "unset_bit q k \<noteq> m"
      using set_unset_bit(4) by metis
    then show ?thesis
      unfolding step using True IH by (simp add: gate_turn_def less_Suc_eq)
  next
    case False
    have "set_bit q m < length new" and "m < length new"
      using Suc.prems assms(2) index_bounds(2) len by simp_all
    moreover have "unset_bit q k = m \<longleftrightarrow> k = m \<or> k = set_bit q m"
      using False set_unset_bit(2,3) unset_bit_eq_cases by metis
    ultimately show ?thesis
      unfolding step using IH by (simp add: nth_gate_turn [OF False] less_Suc_eq)
  qed
qed simp

text \<open>
  C22. A single-qubit gate on a well-formed register: every amplitude of the result is the product of the
  matrix with the two amplitudes whose indices differ in that qubit only, all read from the old vector;
  nothing else of the register changes, and a qubit that does not exist is an exception.
\<close>

theorem apply_single_qubit_gate_spec:
  assumes "qubits_ok s"
  shows "apply_single_qubit_gate F q g s =
     (if q < num_qubits s
      then Inr (s\<lparr>state_vector := map (gate_at F q g (state_vector s)) [0..<2 ^ num_qubits s]\<rparr>)
      else qubit_out_of_range)"
proof (cases "q < num_qubits s")
  case True
  have "fold (gate_turn F q g (state_vector s)) [0..<2 ^ num_qubits s] (state_vector s)
      = map (gate_at F q g (state_vector s)) [0..<2 ^ num_qubits s]"
    using assms True index_bounds(3)
    by (intro nth_equalityI) (auto simp: qubits_ok_def gate_turns [where n = "num_qubits s"])
  with True show ?thesis by (simp add: apply_single_qubit_gate_def)
qed (simp add: apply_single_qubit_gate_def)

lemma nth_cnot_turn:
  assumes "i < length new" and "flip_bit t i < length new"
  shows "cnot_turn c t i new ! k = (if bit i c \<and> (k = i \<or> k = flip_bit t i) then new ! flip_bit t k else new ! k)"
  using assms flip_bit_facts(1,2) [of t i] by (auto simp: cnot_turn_def Let_def nth_list_update)

lemma cnot_turns:
  assumes "length v = 2 ^ n" and "t < n" and "c \<noteq> t" and "m \<le> 2 ^ n" and "k < 2 ^ n"
  shows "fold (cnot_turn c t) [0..<m] v ! k =
     (if bit k c \<and> (k < m) \<noteq> (flip_bit t k < m) then v ! flip_bit t k else v ! k)"
  using assms(4,5)
proof (induction m arbitrary: k)
  case (Suc m)
  define new where "new = fold (cnot_turn c t) [0..<m] v"
  have step: "fold (cnot_turn c t) [0..<Suc m] v = cnot_turn c t m new" and len: "length new = 2 ^ n"
    using assms(1) by (simp_all add: new_def)
  have IH: "new ! j = (if bit j c \<and> (j < m) \<noteq> (flip_bit t j < m) then v ! flip_bit t j else v ! j)" if "j < 2 ^ n" for j
    using Suc.IH Suc.prems(1) that by (simp add: new_def)
  have lt: "flip_bit t m < length new" "m < length new" "flip_bit t k < 2 ^ n"
    using Suc.prems assms(2) index_bounds(1) len by simp_all
  obtain j where j: "j = flip_bit t k" "flip_bit t j = k" "j \<noteq> k" "bit j c = bit k c"
    using flip_bit_facts(1,2) [of t k] flip_bit_facts(3) [OF assms(3), of k] by simp
  have "k = flip_bit t m \<longleftrightarrow> j = m"
    using j(1) flip_bit_facts(1) by metis
  then have "cnot_turn c t m new ! k = (if bit m c \<and> (k = m \<or> j = m) then new ! j else new ! k)"
    unfolding nth_cnot_turn [OF lt(2,1)] j(1) by simp
  also have "\<dots> = (if bit k c \<and> (k < Suc m) \<noteq> (j < Suc m) then v ! j else v ! k)"
    using IH [OF Suc.prems(2)] IH [OF lt(3)] j unfolding j(1) [symmetric] j(2)
    by (cases "k = m"; cases "j = m") (simp_all add: less_Suc_eq)
  finally show ?case
    by (simp only: step j(1))
qed simp

text \<open>
  \<open>apply_cnot\<close> does nothing: for two different qubits of a well-formed register it returns the register
  unchanged, because its loop visits both indices of every pair and swaps the pair twice.
\<close>

theorem apply_cnot_identity:
  assumes "qubits_ok s" and "c < num_qubits s" and "t < num_qubits s" and "c \<noteq> t"
  shows "apply_cnot c t s = Inr s"
proof -
  have "fold (cnot_turn c t) [0..<2 ^ num_qubits s] (state_vector s) = state_vector s"
    using assms index_bounds(1)
    by (intro nth_equalityI) (auto simp: qubits_ok_def cnot_turns [where n = "num_qubits s"])
  with assms show ?thesis by (simp add: apply_cnot_def)
qed

text \<open>Integers in the place of doubles, for concrete registers.\<close>

definition int_ops :: "(int, int) qops" where
  "int_ops = \<lparr>lit = (\<lambda>s. if s = ''1.0'' then 1 else 0), of_int_d = int, fadd = (+), fsub = (-), fmul = (*), fdiv = (div),
     fmax = max, fmin = min, flog2 = (\<lambda>x. 0), fless = (<), image_d = (\<lambda>x. []),
     cplx = (\<lambda>r i. r), cadd = (+), cmul = (*), cconj = (\<lambda>x. x), creal = (\<lambda>x. x), cimag = (\<lambda>x. 0), cscale = (*), cabs = abs, cnorm = (\<lambda>x. x * x),
     ceq = (=), fabs = abs, fsqrt = (\<lambda>x. x), fcos = (\<lambda>x. 1), fsin = (\<lambda>x. 0), fneg = uminus, fge = (\<ge>),
     fisnan = (\<lambda>x. False), fisfinite = (\<lambda>x. True), vnorm = sum_list,
     vnormalize = (\<lambda>v. v), mat_vec = (\<lambda>m v. v)\<rparr>"

definition demo_register :: "int list \<Rightarrow> (int, int) QuantumState" where
  "demo_register v = \<lparr>num_qubits = 2, state_vector = v, entanglement = [], coherence = 0, entropy = 0, measurement_outcomes = []\<rparr>"

theorem apply_single_qubit_gate_spec_witness:
  "\<exists>s. apply_single_qubit_gate int_ops 1 \<lparr>g00 = 0, g01 = 1, g10 = 1, g11 = 0\<rparr> (demo_register [1, 2, 3, 4]) = Inr s
     \<and> state_vector s = [3, 4, 1, 2]"
proof -
  let ?g = "\<lparr>g00 = 0, g01 = 1, g10 = 1, g11 = 0\<rparr>"
  have "map (gate_at int_ops 1 ?g [1, 2, 3, 4]) [0..<2 ^ 2] = [3, 4, 1, 2]"
    by code_simp
  then show ?thesis
    using apply_single_qubit_gate_spec [of "demo_register [1, 2, 3, 4]" int_ops 1 ?g]
    by (simp add: qubits_ok_def demo_register_def)
qed

theorem apply_cnot_identity_witness: "apply_cnot 0 1 (demo_register [1, 2, 3, 4]) = Inr (demo_register [1, 2, 3, 4])"
  by (rule apply_cnot_identity) (simp_all add: qubits_ok_def demo_register_def)

text \<open>
  Comparison looks at the first \<open>num_qubits\<close> amplitudes only, of \<open>2 ^ num_qubits\<close>: two registers that differ
  in a later one are equal.
\<close>

lemma QuantumState_equal_prefix:
  "QuantumState_equal int_ops (demo_register [1, 0, 0, 0]) (demo_register [1, 0, 5, 7]) = Inr True"
  by (simp add: QuantumState_equal_def demo_register_def int_ops_def getAmplitude_def eval_nat_numeral upt_rec)

end
