(* ===== verification/QZKP_Generator.thy ===== *)
theory QZKP_Generator
  imports Quantum_State
begin

text \<open>
  The proof generator (\<open>include/zkp/QZKPGenerator.hpp\<close>, \<open>src/zkp/QZKPGenerator.cpp\<close>): proofs from phases and
  measurements of a register, and their verification. The numbers that the random generators give are
  parameters, \<open>meas\<close>, \<open>phase\<close> and \<open>draw\<close>, each as a function of how many were taken before; \<open>now\<close> is the clock.
  Proof generation in threads is modelled up to the order of the threads, which write to different slots; an
  exception that leaves a thread ends the program, which \<open>Undefined\<close> marks. The field \<open>commitment\<close> of a
  proof, which nothing writes or reads, is left out.
\<close>

section \<open>Definitions\<close>

record 'd Proof =
  proof_data :: bytes
  measurement_qubits :: "nat list"
  phase_angles :: "'d list"
  proof_outcomes :: "bool list"
  proof_timestamp :: u64
  proof_is_valid :: bool

definition Proof_default :: "'d Proof" where
  "Proof_default = \<lparr>proof_data = [], measurement_qubits = [], phase_angles = [], proof_outcomes = [],
     proof_timestamp = 0, proof_is_valid = False\<rparr>"

record 'd QZKPGenerator =
  optimal_phase_angles :: "'d list"
  optimal_measurement_qubits :: nat

definition DEFAULT_PHASE_ANGLES :: "('d, 'z) dops_scheme \<Rightarrow> 'd list" where
  "DEFAULT_PHASE_ANGLES F =
     (let M_PI = lit F ''3.14159265358979323846''; M_PI_2 = fdiv F M_PI (lit F ''2.0''); M_PI_4 = fdiv F M_PI (lit F ''4.0'')
      in [lit F ''0.0'', M_PI_4, M_PI_2, fmul F (lit F ''3'') M_PI_4])"

definition QZKPGenerator_new :: "('d, 'z) dops_scheme \<Rightarrow> 'd QZKPGenerator" where
  "QZKPGenerator_new F = \<lparr>optimal_phase_angles = DEFAULT_PHASE_ANGLES F, optimal_measurement_qubits = 8\<rparr>"

definition update_optimal_parameters :: "'d list \<Rightarrow> nat \<Rightarrow> 'd QZKPGenerator \<Rightarrow> 'd QZKPGenerator" where
  "update_optimal_parameters angles qubits gen =
     (if angles = [] \<or> qubits = 0 then gen
      else gen\<lparr>optimal_phase_angles := angles, optimal_measurement_qubits := qubits\<rparr>)"

definition generate_random_measurements :: "(nat \<Rightarrow> nat) \<Rightarrow> 'd QZKPGenerator \<Rightarrow> nat list" where
  "generate_random_measurements meas gen = map meas [0..<optimal_measurement_qubits gen]"

definition generate_random_phases :: "(nat \<Rightarrow> 'd) \<Rightarrow> 'd QZKPGenerator \<Rightarrow> 'd list" where
  "generate_random_phases phase gen = map phase [0..<length (optimal_phase_angles gen)]"

fun apply_phases :: "('d, 'c, 'z) qops_scheme \<Rightarrow> nat \<Rightarrow> 'd list \<Rightarrow> ('d, 'c) QuantumState \<Rightarrow> ('d, 'c) QuantumState res" where
  "apply_phases F i [] state = Inr state"
| "apply_phases F i (p # ps) state =
     (case apply_phase F i p state of Inl e \<Rightarrow> Inl e | Inr state \<Rightarrow> apply_phases F (i + 1) ps state)"

definition apply_random_transformations :: "('d, 'c, 'z) qops_scheme \<Rightarrow> 'd list \<Rightarrow> ('d, 'c) QuantumState \<Rightarrow>
    ('d, 'c) QuantumState res" where
  "apply_random_transformations F phases state = apply_phases F 0 phases state"

fun apply_measurements :: "('d, 'c, 'z) qops_scheme \<Rightarrow> (nat \<Rightarrow> 'd) \<Rightarrow> nat \<Rightarrow> nat list \<Rightarrow> ('d, 'c) QuantumState \<Rightarrow>
    ('d, 'c) QuantumState res" where
  "apply_measurements F draw i [] state = Inr state"
| "apply_measurements F draw i (q # qs) state =
     (case apply_measurement F (draw i) q state of Inl e \<Rightarrow> Inl e
      | Inr state \<Rightarrow> apply_measurements F draw (i + 1) qs state)"

definition generate_proof :: "('d, 'c, 'z) qops_scheme \<Rightarrow> u64 \<Rightarrow> (nat \<Rightarrow> nat) \<Rightarrow> (nat \<Rightarrow> 'd) \<Rightarrow> (nat \<Rightarrow> 'd) \<Rightarrow>
    'd QZKPGenerator \<Rightarrow> ('d, 'c) QuantumState \<Rightarrow> 'd Proof res" where
  "generate_proof F now meas phase draw gen state =
     (let measurements = generate_random_measurements meas gen; phases = generate_random_phases phase gen in
      case apply_random_transformations F phases state of Inl e \<Rightarrow> Inl e
      | Inr transformed_state \<Rightarrow>
          (case apply_measurements F draw 0 measurements transformed_state of Inl e \<Rightarrow> Inl e
           | Inr transformed_state \<Rightarrow>
               Inr (Proof_default\<lparr>proof_outcomes := measurement_outcomes transformed_state,
                  measurement_qubits := measurements, phase_angles := phases, proof_timestamp := now\<rparr>)))"

text \<open>The comparison of outcomes; the subscript of \<open>proof.measurement_outcomes\<close> is not checked.\<close>

fun compare_outcomes :: "('d, 'c, 'z) qops_scheme \<Rightarrow> (nat \<Rightarrow> 'd) \<Rightarrow> bool list \<Rightarrow> nat \<Rightarrow> nat list \<Rightarrow> ('d, 'c) QuantumState \<Rightarrow>
    bool res" where
  "compare_outcomes F draw expected i [] state = Inr True"
| "compare_outcomes F draw expected i (q # qs) state =
     (case apply_measurement F (draw i) q state of Inl e \<Rightarrow> Inl e
      | Inr state \<Rightarrow>
          if measurement_outcomes state \<noteq> [] \<and> i \<ge> length expected then Inl (Undefined ''measurement_outcomes subscript'')
          else if measurement_outcomes state \<noteq> [] \<and> last (measurement_outcomes state) \<noteq> expected ! i then Inr False
          else compare_outcomes F draw expected (i + 1) qs state)"

definition verify_proof :: "('d, 'c, 'z) qops_scheme \<Rightarrow> (nat \<Rightarrow> 'd) \<Rightarrow> 'd Proof \<Rightarrow> ('d, 'c) QuantumState \<Rightarrow> bool res" where
  "verify_proof F draw proof state =
     (if \<not> proof_is_valid proof then Inr False
      else case apply_random_transformations F (phase_angles proof) state of Inl e \<Rightarrow> Inl e
           | Inr verification_state \<Rightarrow>
               compare_outcomes F draw (proof_outcomes proof) 0 (measurement_qubits proof) verification_state)"

definition verify_measurements :: "('d, 'c, 'z) qops_scheme \<Rightarrow> bool list \<Rightarrow> bool list \<Rightarrow> 'd \<Rightarrow> bool" where
  "verify_measurements F expected actual tolerance =
     (if length expected \<noteq> length actual then False
      else let matches = length (filter (\<lambda>i. expected ! i = actual ! i) [0..<length expected]);
               match_ratio = fdiv F (of_int_d F matches) (of_int_d F (length expected))
           in fge F match_ratio (fsub F (lit F ''1.0'') tolerance))"

definition generate_partial_proof :: "('d, 'c, 'z) qops_scheme \<Rightarrow> u64 \<Rightarrow> (nat \<Rightarrow> nat) \<Rightarrow> (nat \<Rightarrow> 'd) \<Rightarrow> (nat \<Rightarrow> 'd) \<Rightarrow>
    'd QZKPGenerator \<Rightarrow> ('d, 'c) QuantumState \<Rightarrow> nat \<Rightarrow> nat \<Rightarrow> bytes res" where
  "generate_partial_proof F now meas phase draw gen state start_idx end_idx =
     (case QuantumState_of_vector F (take (end_idx - start_idx) (drop start_idx (state_vector state))) of Inl e \<Rightarrow> Inl e
      | Inr partial_state \<Rightarrow>
          (case generate_proof F now meas phase draw gen partial_state of Inl e \<Rightarrow> Inl e | Inr proof \<Rightarrow> Inr (proof_data proof)))"

definition combine_partial_proofs :: "u64 \<Rightarrow> (nat \<Rightarrow> nat) \<Rightarrow> (nat \<Rightarrow> 'd) \<Rightarrow> 'd QZKPGenerator \<Rightarrow> bytes list \<Rightarrow> 'd Proof" where
  "combine_partial_proofs now meas phase gen partial_proofs =
     Proof_default\<lparr>proof_data := concat partial_proofs, measurement_qubits := generate_random_measurements meas gen,
       phase_angles := generate_random_phases phase gen,
       proof_outcomes := replicate (length (generate_random_measurements meas gen)) False, proof_timestamp := now\<rparr>"

fun run_threads :: "(nat \<Rightarrow> 'a res) \<Rightarrow> nat list \<Rightarrow> 'a list res" where
  "run_threads task [] = Inr []"
| "run_threads task (i # is) =
     (case task i of Inl _ \<Rightarrow> Inl (Undefined ''std::terminate'')
      | Inr x \<Rightarrow> (case run_threads task is of Inl e \<Rightarrow> Inl e | Inr xs \<Rightarrow> Inr (x # xs)))"

definition generate_proof_parallel :: "('d, 'c, 'z) qops_scheme \<Rightarrow> u64 \<Rightarrow> (nat \<Rightarrow> nat) \<Rightarrow> (nat \<Rightarrow> 'd) \<Rightarrow> (nat \<Rightarrow> 'd) \<Rightarrow>
    'd QZKPGenerator \<Rightarrow> ('d, 'c) QuantumState \<Rightarrow> 'd Proof res" where
  "generate_proof_parallel F now meas phase draw gen state =
     (case run_threads (\<lambda>i. generate_partial_proof F now meas phase draw gen state
             ((length (state_vector state) * i) div 4) ((length (state_vector state) * (i + 1)) div 4)) [0..<4] of
        Inl e \<Rightarrow> Inl e
      | Inr partial_proofs \<Rightarrow> Inr (combine_partial_proofs now meas phase gen partial_proofs))"

section \<open>Properties\<close>

lemma generate_proofE:
  assumes "generate_proof F now meas phase draw gen state = Inr p"
  shows "\<not> proof_is_valid p" and "proof_data p = []"
  using assms by (auto simp: generate_proof_def Proof_default_def Let_def split: sum.splits)

text \<open>The generator returns on every register that has the qubits it rotates and measures.\<close>

lemma apply_phases_total:
  "i + length ps \<le> num_qubits s \<Longrightarrow> \<exists>s'. apply_phases F i ps s = Inr s' \<and> num_qubits s' = num_qubits s"
proof (induction ps arbitrary: i s)
  case (Cons p ps)
  obtain s1 where "apply_phase F i p s = Inr s1" and "num_qubits s1 = num_qubits s"
    using Cons.prems by (simp add: apply_phase_def apply_single_qubit_gate_def)
  then show ?case using Cons.IH [of "Suc i" s1] Cons.prems by simp
qed simp

lemma apply_measurements_total:
  "\<forall>q \<in> set qs. q < num_qubits s \<Longrightarrow> \<exists>s'. apply_measurements F draw i qs s = Inr s'"
proof (induction qs arbitrary: i s)
  case (Cons q qs)
  obtain s1 where "apply_measurement F (draw i) q s = Inr s1" and "num_qubits s1 = num_qubits s"
    using Cons.prems by (simp add: apply_measurement_def Let_def)
  then show ?case using Cons.IH [of s1 "Suc i"] Cons.prems by simp
qed simp

lemma generate_proof_total:
  assumes "length (optimal_phase_angles gen) \<le> num_qubits s" and "\<And>i. meas i < num_qubits s"
  shows "\<exists>p. generate_proof F now meas phase draw gen s = Inr p"
proof -
  obtain s1 where s1: "apply_random_transformations F (generate_random_phases phase gen) s = Inr s1" "num_qubits s1 = num_qubits s"
    using apply_phases_total [of 0 "generate_random_phases phase gen" s F] assms(1)
    by (auto simp: apply_random_transformations_def generate_random_phases_def)
  moreover obtain s2 where "apply_measurements F draw 0 (generate_random_measurements meas gen) s1 = Inr s2"
    using apply_measurements_total [of "generate_random_measurements meas gen" s1 F draw 0] assms(2) s1(2)
    by (auto simp: generate_random_measurements_def)
  ultimately show ?thesis by (simp add: generate_proof_def Let_def)
qed

lemma verify_proof_invalid: "\<not> proof_is_valid p \<Longrightarrow> verify_proof F draw p state = Inr False"
  by (simp add: verify_proof_def)

lemma generate_partial_proof_empty:
  "generate_partial_proof F now meas phase draw gen state i j = Inr bs \<Longrightarrow> bs = []"
  by (auto simp: generate_partial_proof_def dest: generate_proofE(2) split: sum.splits)

lemma run_threads_all: "run_threads task is = Inr xs \<Longrightarrow> \<forall>x \<in> set xs. \<exists>i. task i = Inr x"
  by (induction "is" arbitrary: xs) (auto split: sum.splits)

text \<open>
  No proof that the generator makes is ever accepted: whatever the register, the random numbers and the
  arithmetic, a proof made by \<open>generate_proof\<close> or by \<open>generate_proof_parallel\<close> carries no proof data and is
  rejected by \<open>verify_proof\<close> for every register, because nothing sets \<open>is_valid\<close>.
\<close>

theorem generated_proofs_rejected:
  assumes "generate_proof F now meas phase draw gen state = Inr p \<or> generate_proof_parallel F now meas phase draw gen state = Inr p"
  shows "verify_proof F draw' p state' = Inr False \<and> proof_data p = []"
  using assms
proof
  assume "generate_proof F now meas phase draw gen state = Inr p"
  then show ?thesis by (simp add: generate_proofE verify_proof_invalid)
next
  assume "generate_proof_parallel F now meas phase draw gen state = Inr p"
  then obtain parts where "p = combine_partial_proofs now meas phase gen parts" and "\<forall>b \<in> set parts. b = []"
    by (auto simp: generate_proof_parallel_def dest!: run_threads_all split: sum.splits)
      (metis generate_partial_proof_empty)
  then show ?thesis
    by (simp add: combine_partial_proofs_def Proof_default_def verify_proof_invalid)
qed

theorem generated_proofs_rejected_witness:
  "\<exists>p. generate_proof int_ops 0 (\<lambda>i. 0) (\<lambda>i. 0) (\<lambda>i. 0) (update_optimal_parameters [0, 0] 1 (QZKPGenerator_new int_ops))
        (demo_register [1, 2, 3, 4]) = Inr p
     \<and> verify_proof int_ops (\<lambda>i. 0) p (demo_register [1, 2, 3, 4]) = Inr False"
proof -
  let ?r = "generate_proof int_ops 0 (\<lambda>i. 0) (\<lambda>i. 0) (\<lambda>i. 0) (update_optimal_parameters [0, 0] 1 (QZKPGenerator_new int_ops))
        (demo_register [1, 2, 3, 4])"
  have "case ?r of Inr _ \<Rightarrow> True | Inl _ \<Rightarrow> False"
    by code_simp
  then obtain p where "?r = Inr p"
    by (auto split: sum.splits)
  then show ?thesis
    using generated_proofs_rejected by blast
qed

text \<open>The parameters stay usable: some angle, and at least one measurement.\<close>

lemma update_optimal_parameters_ok:
  assumes "optimal_phase_angles gen \<noteq> [] \<and> 0 < optimal_measurement_qubits gen"
  shows "optimal_phase_angles (update_optimal_parameters a q gen) \<noteq> [] \<and> 0 < optimal_measurement_qubits (update_optimal_parameters a q gen)"
  using assms by (simp add: update_optimal_parameters_def)

end
