(* ===== verification/Rollup_Transition.thy ===== *)
theory Rollup_Transition
  imports State_Manager QZKP_Generator
begin

text \<open>
  State transitions of the rollup (\<open>include/rollup/RollupStateTransition.hpp\<close>,
  \<open>src/rollup/RollupStateTransition.cpp\<close>): the proof of a batch, the verification of a transition and the
  batch checks. BLAKE3 is a parameter; \<open>rnd\<close> collects what the random generators and the clock give to the
  proof generator. \<open>Eigen::VectorXcd(n)\<close> does not initialise its elements: their contents are the
  parameter \<open>garbage\<close>.
\<close>

section \<open>Definitions\<close>

record RSTProof =
  rp_pre_state_root :: bytes
  rp_post_state_root :: bytes
  rp_transactions :: "Transaction list"
  rp_proof_data :: bytes
  rp_timestamp :: u64
  rp_batch_number :: u64
  rp_batch_hash :: bytes

record 'd RollupStateTransition =
  rst_zkp_generator :: "'d QZKPGenerator"
  rst_batch_number :: u64

definition RollupStateTransition_new :: "'d QZKPGenerator \<Rightarrow> 'd RollupStateTransition" where
  "RollupStateTransition_new gen = \<lparr>rst_zkp_generator = gen, rst_batch_number = 0\<rparr>"

record 'd randomness =
  rnd_now :: u64
  rnd_meas :: "nat \<Rightarrow> nat"
  rnd_phase :: "nat \<Rightarrow> 'd"
  rnd_draw :: "nat \<Rightarrow> 'd"

fun write_bytes :: "('d, 'c, 'z) qops_scheme \<Rightarrow> nat \<Rightarrow> bytes \<Rightarrow> 'c list \<Rightarrow> 'c list res" where
  "write_bytes F pos [] v = Inr v"
| "write_bytes F pos (b # bs) v =
     (if pos \<ge> length v then Inl (Undefined ''state_vector index'')
      else write_bytes F (pos + 1) bs
        (v[pos := cplx F (fdiv F (of_int_d F (unat b)) (lit F ''255.0'')) (lit F ''0'')]))"

fun write_batch :: "('d, 'c, 'z) qops_scheme \<Rightarrow> nat \<Rightarrow> Transaction list \<Rightarrow> 'c list \<Rightarrow> 'c list res" where
  "write_batch F i [] v = Inr v"
| "write_batch F i (tx # txs) v =
     (case write_bytes F (i * 256) (Transaction_serialize tx) v of Inl e \<Rightarrow> Inl e | Inr v \<Rightarrow> write_batch F (i + 1) txs v)"

definition encode_batch_to_quantum_state :: "('d, 'c, 'z) qops_scheme \<Rightarrow> (nat \<Rightarrow> 'c) \<Rightarrow> Transaction list \<Rightarrow>
    ('d, 'c) QuantumState res" where
  "encode_batch_to_quantum_state F garbage batch =
     (case write_batch F 0 batch (map garbage [0..<length batch * 256]) of Inl e \<Rightarrow> Inl e
      | Inr v \<Rightarrow> QuantumState_of_vector F v)"

text \<open>\<open>std::copy_n\<close> of 32 elements.\<close>

definition copy_32 :: "bytes \<Rightarrow> bytes res" where
  "copy_32 v = (if length v < 32 then Inl (Undefined ''copy_n past the end'') else Inr (take 32 v))"

definition compute_post_state_root :: "tolerance \<Rightarrow> Transaction list \<Rightarrow> StateManager \<Rightarrow> bytes res" where
  "compute_post_state_root tol batch sm =
     (case get_state_root tol sm of Inl e \<Rightarrow> Inl e | Inr (vec_root, _) \<Rightarrow> copy_32 vec_root)"

definition compute_batch_hash :: "(bytes \<Rightarrow> bytes) \<Rightarrow> Transaction list \<Rightarrow> bytes" where
  "compute_batch_hash blake3 batch = blake3 (concat (map Transaction_serialize batch))"

definition generate_transition_proof :: "('d, 'c, 'z) qops_scheme \<Rightarrow> (bytes \<Rightarrow> bytes) \<Rightarrow> tolerance \<Rightarrow> 'd randomness \<Rightarrow>
    (nat \<Rightarrow> 'c) \<Rightarrow> Transaction list \<Rightarrow> StateManager \<Rightarrow> 'd RollupStateTransition \<Rightarrow> (RSTProof \<times> 'd RollupStateTransition) res" where
  "generate_transition_proof F blake3 tol rnd garbage batch sm self =
     (case encode_batch_to_quantum_state F garbage batch of Inl e \<Rightarrow> Inl e
      | Inr quantum_state \<Rightarrow>
     (case generate_proof F (rnd_now rnd) (rnd_meas rnd) (rnd_phase rnd) (rnd_draw rnd) (rst_zkp_generator self) quantum_state of
        Inl e \<Rightarrow> Inl e
      | Inr proofResult \<Rightarrow>
     (case get_state_root tol sm of Inl e \<Rightarrow> Inl e
      | Inr (vec_root, sm) \<Rightarrow>
          if length vec_root < 32 then Inl (Runtime_error ''State root size is invalid'')
          else case compute_post_state_root tol batch sm of Inl e \<Rightarrow> Inl e
          | Inr post_state_root \<Rightarrow>
              Inr (\<lparr>rp_pre_state_root = take 32 vec_root, rp_post_state_root = post_state_root, rp_transactions = batch,
                    rp_proof_data = proof_data proofResult, rp_timestamp = rnd_now rnd,
                    rp_batch_number = rst_batch_number self, rp_batch_hash = compute_batch_hash blake3 batch\<rparr>,
                   self\<lparr>rst_batch_number := rst_batch_number self + 1\<rparr>))))"

text \<open>Applies transactions until one fails.\<close>

fun apply_until :: "tolerance \<Rightarrow> Transaction list \<Rightarrow> StateManager \<Rightarrow> (bool \<times> StateManager) res" where
  "apply_until tol [] s = Inr (True, s)"
| "apply_until tol (tx # txs) s =
     sm_bind (apply_transaction tol tx s) (\<lambda>ok s. if ok then apply_until tol txs s else Inr (False, s))"

definition verify_transition :: "tolerance \<Rightarrow> StateManager \<Rightarrow> StateManager \<Rightarrow> Transaction list \<Rightarrow> bool res" where
  "verify_transition tol pre_state post_state txs =
     (case get_state_root tol pre_state of Inl e \<Rightarrow> Inl e
      | Inr (pre_root, pre_state) \<Rightarrow>
     (case get_previous_root tol post_state of Inl e \<Rightarrow> Inl e
      | Inr (previous_root, post_state) \<Rightarrow>
          if pre_root \<noteq> previous_root then Inr False
          else
     (case clone_state tol pre_state of Inl e \<Rightarrow> Inl e
      | Inr (temp_state, _) \<Rightarrow>
     (case apply_until tol txs temp_state of Inl e \<Rightarrow> Inl e
      | Inr (ok, temp_state) \<Rightarrow>
          if \<not> ok then Inr False
          else
     (case get_state_root tol temp_state of Inl e \<Rightarrow> Inl e
      | Inr (temp_root, _) \<Rightarrow>
     (case get_state_root tol post_state of Inl e \<Rightarrow> Inl e
      | Inr (post_root, _) \<Rightarrow> Inr (temp_root = post_root)))))))"

definition validate_batch :: "Transaction list \<Rightarrow> bool" where
  "validate_batch batch = True"

definition verify_batch_ordering :: "Transaction list \<Rightarrow> bool" where
  "verify_batch_ordering batch = True"

fun sequence_from :: "u64 \<Rightarrow> Transaction list \<Rightarrow> bool" where
  "sequence_from n [] = True"
| "sequence_from n (tx # txs) = (if tx_nonce tx \<le> n then False else sequence_from (tx_nonce tx) txs)"

definition verify_transaction_sequence :: "Transaction list \<Rightarrow> bool" where
  "verify_transaction_sequence transactions =
     (case transactions of [] \<Rightarrow> True | tx # txs \<Rightarrow> sequence_from (tx_nonce tx) txs)"

section \<open>Roots and transactions\<close>

lemma root_tolerant [simp]:
  "get_state_root tolerant s = Inr (current_state_root s, s)" "get_previous_root tolerant s = Inr (previous_state_root s, s)"
  "clone_state tolerant s = Inr (s\<lparr>owned := []\<rparr>, s)"
  by (simp_all add: get_state_root_def get_previous_root_def clone_state_def with_lock_def)

lemma apply_transaction_root:
  "apply_transaction tol tx s = Inr (ok, s') \<Longrightarrow> current_state_root s' = current_state_root s"
  by (drule apply_transaction_success) (auto simp: apply_transaction_tolerant Let_def split: option.splits if_splits)

lemma apply_until_root: "apply_until tol txs s = Inr (ok, s') \<Longrightarrow> current_state_root s' = current_state_root s"
proof (induction txs arbitrary: s)
  case (Cons tx txs)
  then obtain ok1 s1 where a: "apply_transaction tol tx s = Inr (ok1, s1)"
    by (auto simp: sm_bind_def split: sum.splits)
  then show ?case
    using Cons apply_transaction_root [OF a] by (cases ok1) auto
qed simp

lemma apply_until_tolerant: "\<exists>ok s'. apply_until tolerant txs s = Inr (ok, s')"
proof (induction txs arbitrary: s)
  case (Cons tx txs)
  obtain r where "apply_transaction tolerant tx s = Inr r"
    using apply_transaction_tolerant by blast
  moreover obtain ok s1 where "r = (ok, s1)"
    by (cases r)
  ultimately show ?case using Cons by (cases ok) auto
qed auto

lemma sequence_from_iff: "sequence_from n txs \<longleftrightarrow> (\<forall>tx \<in> set txs. n < tx_nonce tx) \<and> sorted_wrt (\<lambda>t u. tx_nonce t < tx_nonce u) txs"
  by (induction txs arbitrary: n) (auto simp: not_le intro: less_trans)

lemma ilog2_double: "0 < n \<Longrightarrow> ilog2 (n * 2) = Suc (ilog2 n)"
  by (simp add: ilog2_step)

lemma ilog2_times_256: "0 < n \<Longrightarrow> ilog2 (n * 256) = ilog2 n + 8"
proof -
  assume "0 < n"
  moreover have "n * 256 = n * 2 * 2 * 2 * 2 * 2 * 2 * 2 * 2" by simp
  ultimately show ?thesis by (simp only: ilog2_double)
qed

text \<open>Serialised transactions are empty, so the register holds what the memory held before.\<close>

lemma encode_batch_eq: "encode_batch_to_quantum_state F garbage batch = QuantumState_of_vector F (map garbage [0..<length batch * 256])"
proof -
  have "write_batch F i batch v = Inr v" for i v
    by (induction batch arbitrary: i) (simp_all add: Transaction_serialize_def)
  then show ?thesis by (simp add: encode_batch_to_quantum_state_def)
qed

lemma encode_batch_iff:
  "(\<exists>s. encode_batch_to_quantum_state F garbage batch = Inr s) \<longleftrightarrow> length batch = 2 ^ ilog2 (length batch)"
proof (cases batch)
  case Nil
  then show ?thesis by (simp add: encode_batch_eq QuantumState_of_vector_def)
next
  case (Cons tx txs)
  then have "0 < length batch" by simp
  then show ?thesis
    using power_of_two_iff [of "length batch * 256"]
    by (simp add: encode_batch_eq QuantumState_of_vector_def ilog2_times_256 power_add)
qed

section \<open>Properties\<close>

text \<open>
  What \<open>verify_transition\<close> checks. It answers true exactly when the root of the old state is both the
  previous and the current root of the new state and every transaction applies to a copy of the old
  state: the copy's root never moves, since only \<open>commit_state\<close> computes it. So the accounts of the new
  state have no influence on the answer, and a new state whose root differs from the old one is refused
  whatever the transactions did.
\<close>

theorem verify_transition_iff:
  "\<exists>ok s'. apply_until tolerant txs (pre\<lparr>owned := []\<rparr>) = Inr (ok, s')
     \<and> (\<forall>accs. verify_transition tolerant pre (post\<lparr>accounts := accs\<rparr>) txs =
          Inr (current_state_root pre = previous_state_root post \<and> ok \<and> current_state_root pre = current_state_root post))"
proof -
  obtain ok s' where a: "apply_until tolerant txs (pre\<lparr>owned := []\<rparr>) = Inr (ok, s')"
    using apply_until_tolerant by blast
  then show ?thesis
    using apply_until_root [OF a] by (auto simp: verify_transition_def)
qed

text \<open>
  What a transition proof carries. Whenever \<open>generate_transition_proof\<close> returns, the number of
  transactions is a power of two, the root after the batch is the root before it, the proof data is
  empty and the batch hash is that of the empty string: apart from the transactions themselves and the
  running number, the proof does not depend on the batch.
\<close>

theorem transition_proof_content:
  assumes "generate_transition_proof F blake3 tol rnd garbage batch sm self = Inr (p, self')"
  shows "length batch = 2 ^ ilog2 (length batch) \<and> rp_transactions p = batch
    \<and> rp_pre_state_root p = take 32 (current_state_root sm) \<and> rp_post_state_root p = rp_pre_state_root p
    \<and> rp_proof_data p = [] \<and> rp_batch_hash p = blake3 []
    \<and> rp_batch_number p = rst_batch_number self \<and> rst_batch_number self' = rst_batch_number self + 1"
proof -
  obtain q r where e: "encode_batch_to_quantum_state F garbage batch = Inr q"
    and g: "generate_proof F (rnd_now rnd) (rnd_meas rnd) (rnd_phase rnd) (rnd_draw rnd) (rst_zkp_generator self) q = Inr r"
    using assms by (auto simp: generate_transition_proof_def split: sum.splits)
  have root: "get_state_root tol s = Inr (x, s') \<Longrightarrow> x = current_state_root s \<and> s' = s" for s s' x
    by (auto simp: get_state_root_def with_lock_def split: if_splits)
  have "length batch = 2 ^ ilog2 (length batch)"
    using e encode_batch_iff by blast
  moreover have "concat (map Transaction_serialize batch) = []"
    by (simp add: Transaction_serialize_def)
  then have "compute_batch_hash blake3 batch = blake3 []"
    by (simp only: compute_batch_hash_def)
  ultimately show ?thesis
    using assms by (auto simp: generate_transition_proof_def e g generate_proofE(2) [OF g] compute_post_state_root_def copy_32_def
        dest!: root split: sum.splits if_splits)
qed

theorem transition_proof_content_witness:
  "\<exists>p self'. generate_transition_proof int_ops (\<lambda>bs. bs) tolerant \<lparr>rnd_now = 0, rnd_meas = (\<lambda>i. 0), rnd_phase = (\<lambda>i. 0), rnd_draw = (\<lambda>i. 0)\<rparr>
        (\<lambda>i. 0) [demo_tx ''b''] (demo_state\<lparr>current_state_root := replicate 32 1\<rparr>) (RollupStateTransition_new (QZKPGenerator_new int_ops)) = Inr (p, self')
     \<and> rp_post_state_root p = rp_pre_state_root p \<and> rp_batch_hash p = []"
proof -
  let ?rnd = "\<lparr>rnd_now = 0, rnd_meas = (\<lambda>i. 0), rnd_phase = (\<lambda>i. 0), rnd_draw = (\<lambda>i. 0)\<rparr> :: int randomness"
  let ?self = "RollupStateTransition_new (QZKPGenerator_new int_ops)"
  obtain q where e: "encode_batch_to_quantum_state int_ops (\<lambda>i. 0) [demo_tx ''b''] = Inr q"
    using encode_batch_iff [of int_ops "\<lambda>i. 0" "[demo_tx ''b'']"] by (auto simp: ilog2_small)
  then have "256 = (2::nat) ^ num_qubits q"
    using qubits_ok_of_vector [of int_ops "map (\<lambda>i. 0) [0..<256]" q] by (auto simp: encode_batch_eq qubits_ok_def)
  then have "num_qubits q = 8"
    using ilog2_power [of 8] ilog2_power [of "num_qubits q"] by simp
  then obtain r where g: "generate_proof int_ops (rnd_now ?rnd) (rnd_meas ?rnd) (rnd_phase ?rnd) (rnd_draw ?rnd) (rst_zkp_generator ?self) q = Inr r"
    using generate_proof_total [of "rst_zkp_generator ?self" q "rnd_meas ?rnd" int_ops "rnd_now ?rnd" "rnd_phase ?rnd" "rnd_draw ?rnd"]
    by (auto simp: RollupStateTransition_new_def QZKPGenerator_new_def DEFAULT_PHASE_ANGLES_def Let_def)
  obtain p self' where "generate_transition_proof int_ops (\<lambda>bs. bs) tolerant ?rnd (\<lambda>i. 0) [demo_tx ''b'']
      (demo_state\<lparr>current_state_root := replicate 32 1\<rparr>) ?self = Inr (p, self')"
    using e g by (simp add: generate_transition_proof_def compute_post_state_root_def copy_32_def)
  with transition_proof_content [OF this] show ?thesis by blast
qed

text \<open>\<open>verify_transaction_sequence\<close> answers true exactly when the nonces are strictly increasing.\<close>

lemma verify_transaction_sequence_iff:
  "verify_transaction_sequence txs \<longleftrightarrow> sorted_wrt (\<lambda>t u. tx_nonce t < tx_nonce u) txs"
  by (cases txs) (simp_all add: verify_transaction_sequence_def sequence_from_iff)

end
