(* ===== verification/Fraud_Proof.thy ===== *)
theory Fraud_Proof
  imports Rollup_Transition
begin

text \<open>
  Fraud proofs (\<open>include/rollup/FraudProof.hpp\<close>, \<open>src/rollup/FraudProof.cpp\<close>): a claim that a state is not
  what the transactions lead to, with copies of both states. The difference of two states is encoded as a
  vector of balance and nonce differences, each an unsigned difference of 64 bits converted to \<open>double\<close>.
\<close>

section \<open>Definitions\<close>

record StateProof =
  sp_pre_state :: StateManager
  sp_post_state :: StateManager

record 'd InvalidTransitionProof =
  itp_pre_state_root :: bytes
  itp_post_state_root :: bytes
  itp_transactions :: "Transaction list"
  itp_state_proof :: StateProof
  itp_validity_proof :: "'d Proof"

record FraudVerificationResult =
  fvr_is_valid :: bool
  fvr_message :: string

definition account_diff :: "(string, Account) smap \<Rightarrow> string \<times> Account \<Rightarrow> u64 list" where
  "account_diff post_accounts entry =
     (let (address, pre_account) = entry in
      case map_find post_accounts address of
        Some post_account \<Rightarrow> [acc_balance post_account - acc_balance pre_account, acc_nonce post_account - acc_nonce pre_account]
      | None \<Rightarrow> [- acc_balance pre_account, - acc_nonce pre_account])"

definition state_diff :: "(string, Account) smap \<Rightarrow> (string, Account) smap \<Rightarrow> u64 list" where
  "state_diff pre_accounts post_accounts =
     concat (map (account_diff post_accounts) pre_accounts)
     @ concat (map (\<lambda>(address, post_account).
          if map_find pre_accounts address = None then [acc_balance post_account, acc_nonce post_account] else []) post_accounts)"

definition encode_state_diff :: "('d, 'c, 'z) qops_scheme \<Rightarrow> tolerance \<Rightarrow> StateManager \<Rightarrow> StateManager \<Rightarrow> ('d, 'c) QuantumState res" where
  "encode_state_diff F tol pre_state post_state =
     (case get_accounts_snapshot tol pre_state of Inl e \<Rightarrow> Inl e
      | Inr (pre_accounts, _) \<Rightarrow>
     (case get_accounts_snapshot tol post_state of Inl e \<Rightarrow> Inl e
      | Inr (post_accounts, _) \<Rightarrow>
          QuantumState_of_vector F (map (\<lambda>d. cplx F (of_int_d F (unat d)) (lit F ''0.0'')) (state_diff pre_accounts post_accounts))))"

definition generate_state_proof :: "tolerance \<Rightarrow> StateManager \<Rightarrow> StateManager \<Rightarrow> StateProof res" where
  "generate_state_proof tol pre_state post_state =
     (case clone_state tol pre_state of Inl e \<Rightarrow> Inl e
      | Inr (pre, _) \<Rightarrow> (case clone_state tol post_state of Inl e \<Rightarrow> Inl e
                        | Inr (post, _) \<Rightarrow> Inr \<lparr>sp_pre_state = pre, sp_post_state = post\<rparr>))"

definition checked_root :: "tolerance \<Rightarrow> string \<Rightarrow> StateManager \<Rightarrow> bytes res" where
  "checked_root tol message s =
     (case get_state_root tol s of Inl e \<Rightarrow> Inl e
      | Inr (root, _) \<Rightarrow> if length root < 32 then Inl (Runtime_error message) else Inr (take 32 root))"

definition generate_fraud_proof :: "('d, 'c, 'z) qops_scheme \<Rightarrow> tolerance \<Rightarrow> 'd randomness \<Rightarrow> 'd QZKPGenerator \<Rightarrow>
    StateManager \<Rightarrow> StateManager \<Rightarrow> Transaction list \<Rightarrow> 'd InvalidTransitionProof res" where
  "generate_fraud_proof F tol rnd gen pre_state post_state transactions =
     (case generate_state_proof tol pre_state post_state of Inl e \<Rightarrow> Inl e
      | Inr state_proof \<Rightarrow>
     (case encode_state_diff F tol pre_state post_state of Inl e \<Rightarrow> Inl e
      | Inr quantum_state \<Rightarrow>
     (case generate_proof F (rnd_now rnd) (rnd_meas rnd) (rnd_phase rnd) (rnd_draw rnd) gen quantum_state of Inl e \<Rightarrow> Inl e
      | Inr validity_proof \<Rightarrow>
     (case checked_root tol ''Invalid pre-state root size'' pre_state of Inl e \<Rightarrow> Inl e
      | Inr pre_root \<Rightarrow>
     (case checked_root tol ''Invalid post-state root size'' post_state of Inl e \<Rightarrow> Inl e
      | Inr post_root \<Rightarrow>
          Inr \<lparr>itp_pre_state_root = pre_root, itp_post_state_root = post_root, itp_transactions = transactions,
               itp_state_proof = state_proof, itp_validity_proof = validity_proof\<rparr>)))))"

definition verify_state_roots :: "tolerance \<Rightarrow> 'd InvalidTransitionProof \<Rightarrow> bool res" where
  "verify_state_roots tol proof =
     (case checked_root tol ''Invalid pre-state root size'' (sp_pre_state (itp_state_proof proof)) of Inl e \<Rightarrow> Inl e
      | Inr pre_root \<Rightarrow>
          if pre_root \<noteq> itp_pre_state_root proof then Inr False
          else case checked_root tol ''Invalid post-state root size'' (sp_post_state (itp_state_proof proof)) of Inl e \<Rightarrow> Inl e
          | Inr post_root \<Rightarrow> Inr (post_root = itp_post_state_root proof))"

definition verify_state_transition :: "('d, 'c, 'z) qops_scheme \<Rightarrow> tolerance \<Rightarrow> 'd InvalidTransitionProof \<Rightarrow> bool res" where
  "verify_state_transition F tol proof =
     (case clone_state tol (sp_pre_state (itp_state_proof proof)) of Inl e \<Rightarrow> Inl e
      | Inr (temp_state, _) \<Rightarrow>
     (case apply_until tol (itp_transactions proof) temp_state of Inl e \<Rightarrow> Inl e
      | Inr (ok, temp_state) \<Rightarrow>
          if \<not> ok then Inr False
          else case encode_state_diff F tol temp_state (sp_post_state (itp_state_proof proof)) of Inl e \<Rightarrow> Inl e
          | Inr quantum_state \<Rightarrow>
              let norm = vnorm F (state_vector quantum_state)
              in Inr (fless F (lit F ''1e-10'') norm \<and> \<not> fisnan F norm \<and> fisfinite F norm)))"

definition verify_zkp_proof :: "('d, 'c, 'z) qops_scheme \<Rightarrow> tolerance \<Rightarrow> (nat \<Rightarrow> 'd) \<Rightarrow> 'd InvalidTransitionProof \<Rightarrow> bool res" where
  "verify_zkp_proof F tol draw proof =
     (case encode_state_diff F tol (sp_pre_state (itp_state_proof proof)) (sp_post_state (itp_state_proof proof)) of Inl e \<Rightarrow> Inl e
      | Inr quantum_state \<Rightarrow> verify_proof F draw (itp_validity_proof proof) quantum_state)"

definition verify_fraud_proof :: "('d, 'c, 'z) qops_scheme \<Rightarrow> tolerance \<Rightarrow> (nat \<Rightarrow> 'd) \<Rightarrow> 'd InvalidTransitionProof \<Rightarrow>
    FraudVerificationResult res" where
  "verify_fraud_proof F tol draw proof =
     (case verify_state_roots tol proof of Inl e \<Rightarrow> Inl e
      | Inr ok \<Rightarrow> if \<not> ok then Inr \<lparr>fvr_is_valid = False, fvr_message = ''State root verification failed''\<rparr> else
     (case verify_state_transition F tol proof of Inl e \<Rightarrow> Inl e
      | Inr ok \<Rightarrow> if \<not> ok then Inr \<lparr>fvr_is_valid = False, fvr_message = ''State transition verification failed''\<rparr> else
     (case verify_zkp_proof F tol draw proof of Inl e \<Rightarrow> Inl e
      | Inr ok \<Rightarrow> if \<not> ok then Inr \<lparr>fvr_is_valid = False, fvr_message = ''ZKP verification failed''\<rparr>
                 else Inr \<lparr>fvr_is_valid = True, fvr_message = ''Fraud proof verified successfully''\<rparr>)))"

section \<open>The difference of two states\<close>








lemma state_diff_length:
  "length (state_diff m m') = 2 * (length m + length (filter (\<lambda>(k, a). map_find m k = None) m'))"
proof -
  have "length (concat (map (account_diff m') xs)) = 2 * length xs" for xs
    by (induction xs) (auto simp: account_diff_def split: option.split)
  moreover have "length (concat (map (\<lambda>(k, a). if map_find m k = None then [acc_balance a, acc_nonce a] else []) xs))
      = 2 * length (filter (\<lambda>(k, a). map_find m k = None) xs)" for xs
    by (induction xs) auto
  ultimately show ?thesis by (simp add: state_diff_def)
qed


section \<open>Properties\<close>







text \<open>
  No fraud proof made by \<open>generate_fraud_proof\<close> is ever accepted: whatever the two states, the
  transactions, the arithmetic and the random numbers, \<open>verify_fraud_proof\<close> on it never answers with a
  valid result.
\<close>

theorem fraud_proofs_never_verify:
  assumes "generate_fraud_proof F tol rnd gen pre post txs = Inr p" and "verify_fraud_proof F tol' draw p = Inr r"
  shows "\<not> fvr_is_valid r"
proof -
  have "\<not> proof_is_valid (itp_validity_proof p)"
    using assms(1) by (auto simp: generate_fraud_proof_def dest: generate_proofE(1) split: sum.splits)
  then have "verify_zkp_proof F tol' draw p = Inr ok \<Longrightarrow> \<not> ok" for ok
    by (auto simp: verify_zkp_proof_def verify_proof_invalid split: sum.splits)
  then show ?thesis
    using assms(2) by (auto simp: verify_fraud_proof_def split: sum.splits if_splits)
qed

lemma demo_diff: "length (state_diff (sort_key fst (accounts demo_state)) (sort_key fst (accounts demo_state))) = 4"
  by (simp add: state_diff_length demo_state_def map_find_def)

lemma encode_demo:
  assumes "accounts s = accounts demo_state" and "accounts s' = accounts demo_state"
  shows "\<exists>q. encode_state_diff F tolerant s s' = Inr q \<and> num_qubits q = 2"
proof -
  have snap: "get_accounts_snapshot tolerant s = Inr (sort_key fst (accounts s), s)" for s
    by (simp add: get_accounts_snapshot_def with_lock_def)
  have "(4::nat) AND 3 = 0" and "ilog2 4 = 2"
    using ilog2_power [of 2] by simp_all
  then show ?thesis
    using assms demo_diff by (auto simp: encode_state_diff_def snap QuantumState_of_vector_def generate_entanglement_matrix_def Let_def)
qed

theorem fraud_proofs_never_verify_witness:
  "\<exists>p r. generate_fraud_proof int_ops tolerant \<lparr>rnd_now = 0, rnd_meas = (\<lambda>i. 0), rnd_phase = (\<lambda>i. 0), rnd_draw = (\<lambda>i. 0)\<rparr>
        (update_optimal_parameters [0, 0] 1 (QZKPGenerator_new int_ops)) (demo_state\<lparr>current_state_root := replicate 32 1\<rparr>)
        (demo_state\<lparr>current_state_root := replicate 32 2\<rparr>) [] = Inr p
     \<and> verify_fraud_proof int_ops tolerant (\<lambda>i. 0) p = Inr r \<and> \<not> fvr_is_valid r"
proof -
  let ?rnd = "\<lparr>rnd_now = 0, rnd_meas = (\<lambda>i. 0), rnd_phase = (\<lambda>i. 0), rnd_draw = (\<lambda>i. 0)\<rparr> :: int randomness"
  let ?gen = "update_optimal_parameters [0, 0] 1 (QZKPGenerator_new int_ops)"
  let ?pre = "demo_state\<lparr>current_state_root := replicate 32 1\<rparr>" and ?post = "demo_state\<lparr>current_state_root := replicate 32 2\<rparr>"
  obtain q where q: "encode_state_diff int_ops tolerant ?pre ?post = Inr q" "num_qubits q = 2"
    using encode_demo [of ?pre ?post int_ops] by auto
  obtain v where v: "generate_proof int_ops (rnd_now ?rnd) (rnd_meas ?rnd) (rnd_phase ?rnd) (rnd_draw ?rnd) ?gen q = Inr v"
    using generate_proof_total [of ?gen q "rnd_meas ?rnd" int_ops "rnd_now ?rnd" "rnd_phase ?rnd" "rnd_draw ?rnd"] q(2)
    by (auto simp: update_optimal_parameters_def)
  have own: "?pre\<lparr>owned := []\<rparr> = ?pre" "?post\<lparr>owned := []\<rparr> = ?post"
    by (simp_all add: demo_state_def)
  define p where "p = \<lparr>itp_pre_state_root = replicate 32 1, itp_post_state_root = replicate 32 2, itp_transactions = [],
    itp_state_proof = \<lparr>sp_pre_state = ?pre, sp_post_state = ?post\<rparr>, itp_validity_proof = v\<rparr>"
  have g: "generate_fraud_proof int_ops tolerant ?rnd ?gen ?pre ?post [] = Inr p"
    using q v by (simp add: generate_fraud_proof_def generate_state_proof_def checked_root_def own p_def)
  have "verify_zkp_proof int_ops tolerant (\<lambda>i. 0) p = Inr False"
    using q by (simp add: verify_zkp_proof_def p_def verify_proof_invalid [OF generate_proofE(1) [OF v]])
  moreover have "verify_state_roots tolerant p = Inr True"
    by (simp add: verify_state_roots_def checked_root_def p_def)
  moreover obtain ok where "verify_state_transition int_ops tolerant p = Inr ok"
    using q by (simp add: verify_state_transition_def p_def own Let_def)
  ultimately obtain r where r: "verify_fraud_proof int_ops tolerant (\<lambda>i. 0) p = Inr r"
    by (cases ok) (simp_all add: verify_fraud_proof_def)
  show ?thesis
    using g r fraud_proofs_never_verify [OF g r] by blast
qed

end
