(* ===== verification/Emergency_Exit.thy ===== *)
theory Emergency_Exit
  imports State_Manager Quantum_State
begin

text \<open>
  The emergency exit (\<open>include/rollup/EmergencyExit.hpp\<close>, \<open>src/rollup/EmergencyExit.cpp\<close>): a proof that an
  account holds what it holds, and its redemption, which empties the account. \<open>now\<close> is the clock of each
  call. The signature is the signed message itself.
\<close>

section \<open>Definitions\<close>

record EmergencyProof =
  ep_account_address :: string
  ep_signature :: bytes
  ep_timestamp :: u64
  ep_state_root :: bytes

abbreviation x_gate :: "('d, 'c, 'z) qops_scheme \<Rightarrow> 'c gate" where
  "x_gate F \<equiv> (let zero = cplx F (lit F ''0'') (lit F ''0''); one = cplx F (lit F ''1'') (lit F ''0'')
     in \<lparr>g00 = zero, g01 = one, g10 = one, g11 = zero\<rparr>)"

text \<open>The loops apply one gate after the other and stop at the first exception.\<close>

fun each_gate :: "(nat \<Rightarrow> ('d, 'c) QuantumState \<Rightarrow> ('d, 'c) QuantumState res) \<Rightarrow> nat list \<Rightarrow> ('d, 'c) QuantumState \<Rightarrow>
    ('d, 'c) QuantumState res" where
  "each_gate f [] s = Inr s"
| "each_gate f (i # is) s = (case f i s of Inl e \<Rightarrow> Inl e | Inr s \<Rightarrow> each_gate f is s)"

definition res_bind :: "'a res \<Rightarrow> ('a \<Rightarrow> 'b res) \<Rightarrow> 'b res" where
  "res_bind r f = (case r of Inl e \<Rightarrow> Inl e | Inr x \<Rightarrow> f x)"

definition encode_bits :: "('d, 'c, 'z) qops_scheme \<Rightarrow> u64 \<Rightarrow> nat \<Rightarrow> ('d, 'c) QuantumState \<Rightarrow> ('d, 'c) QuantumState res" where
  "encode_bits F w offset =
     each_gate (\<lambda>i s. if bit w i then apply_single_qubit_gate F (i + offset) (x_gate F) s else Inr s) [0..<64]"

definition encode_state :: "('d, 'c, 'z) qops_scheme \<Rightarrow> u64 \<Rightarrow> u64 \<Rightarrow> ('d, 'c) QuantumState res" where
  "encode_state F balance nonce =
     res_bind (QuantumState_new F 128) (\<lambda>state.
     res_bind (encode_bits F balance 0 (prepare_state state)) (\<lambda>state.
     res_bind (encode_bits F nonce 64 state) (\<lambda>state.
     res_bind (each_gate (apply_hadamard F) [0..<128] state) (\<lambda>state.
     res_bind (each_gate (\<lambda>i. apply_cnot i (i + 64)) [0..<63] state) (\<lambda>state.
       Inr (QuantumState_normalize F state))))))"

definition amplitude_bytes :: "('d, 'c, 'z) qops_scheme \<Rightarrow> ('d, 'c) QuantumState \<Rightarrow> bytes" where
  "amplitude_bytes F state = concat (map (\<lambda>c. image_d F (creal F c) @ image_d F (cimag F c)) (state_vector state))"

definition exit_message :: "string \<Rightarrow> u64 \<Rightarrow> bytes \<Rightarrow> bytes" where
  "exit_message account_address timestamp state_root = bytes_of_string account_address @ u64_bytes timestamp @ state_root"

definition EmergencyExit_verify_proof :: "('d, 'c, 'z) qops_scheme \<Rightarrow> tolerance \<Rightarrow> u64 \<Rightarrow> EmergencyProof \<Rightarrow> StateManager \<Rightarrow>
    (bool \<times> StateManager) res" where
  "EmergencyExit_verify_proof F tol now proof s =
     (if ep_timestamp proof > now then Inr (False, s)
      else sm_bind (get_account tol (ep_account_address proof) s) (\<lambda>account s.
        case account of
          None \<Rightarrow> Inr (False, s)
        | Some a \<Rightarrow> res_bind (encode_state F (acc_balance a) (acc_nonce a)) (\<lambda>quantum_state.
            let computed_state_root = amplitude_bytes F quantum_state
            in if computed_state_root \<noteq> ep_state_root proof then Inr (False, s)
               else Inr (exit_message (ep_account_address proof) (ep_timestamp proof) (ep_state_root proof) = ep_signature proof, s))))"

definition process_exit :: "('d, 'c, 'z) qops_scheme \<Rightarrow> tolerance \<Rightarrow> u64 \<Rightarrow> EmergencyProof \<Rightarrow> StateManager \<Rightarrow>
    (bool \<times> StateManager) res" where
  "process_exit F tol now proof s =
     sm_bind (EmergencyExit_verify_proof F tol now proof s) (\<lambda>ok s. if \<not> ok then Inr (False, s) else
     sm_bind (get_account tol (ep_account_address proof) s) (\<lambda>account s.
       case account of
         None \<Rightarrow> Inr (False, s)
       | Some a \<Rightarrow>
           sm_bind (set_balance tol (ep_account_address proof) 0 s) (\<lambda>ok s. if \<not> ok then Inr (False, s) else
           sm_bind (set_nonce tol (ep_account_address proof) (acc_nonce a + 1) s) (\<lambda>ok s. Inr (ok, s)))))"

definition EmergencyExit_generate_proof :: "('d, 'c, 'z) qops_scheme \<Rightarrow> tolerance \<Rightarrow> u64 \<Rightarrow> string \<Rightarrow> StateManager \<Rightarrow>
    (EmergencyProof \<times> StateManager) res" where
  "EmergencyExit_generate_proof F tol now account_address s =
     sm_bind (get_account tol account_address s) (\<lambda>account s.
       case account of
         None \<Rightarrow> Inl (Runtime_error ''Account not found'')
       | Some a \<Rightarrow> res_bind (encode_state F (acc_balance a) (acc_nonce a)) (\<lambda>quantum_state.
           let state_root = amplitude_bytes F quantum_state
           in Inr (\<lparr>ep_account_address = account_address, ep_signature = exit_message account_address now state_root,
                    ep_timestamp = now, ep_state_root = state_root\<rparr>, s)))"

section \<open>Properties\<close>

lemma encode_state_undefined: "encode_state F b n = Inl (Undefined ''shift count out of range'')"
  by (simp add: encode_state_def QuantumState_new_def res_bind_def)

lemma get_account_cases:
  "get_account tol a s = Inr (map_find (accounts s) a, s) \<or> (\<exists>m. get_account tol a s = Inl (Undefined m))"
  by (simp add: get_account_def with_lock_def)

lemma verify_proof_eq:
  "EmergencyExit_verify_proof F tol now p s = Inr (False, s)
    \<and> (now < ep_timestamp p \<or> map_find (accounts s) (ep_account_address p) = None)
   \<or> is_Undefined (EmergencyExit_verify_proof F tol now p s)"
  using get_account_cases [of tol "ep_account_address p" s]
  by (cases "map_find (accounts s) (ep_account_address p)")
    (auto simp: EmergencyExit_verify_proof_def encode_state_undefined res_bind_def)

lemma generate_proof_eq:
  "\<exists>e. EmergencyExit_generate_proof F tol now a s = Inl e"
  using get_account_cases [of tol a s]
  by (cases "map_find (accounts s) a") (auto simp: EmergencyExit_generate_proof_def encode_state_undefined res_bind_def)

text \<open>
  The emergency exit cannot be used. Making a proof for an existing account, and checking one that is
  not from the future, needs a register of 128 qubits, whose size \<open>1 << 128\<close> is undefined at type \<open>int\<close>;
  so no proof is ever made, none is ever redeemed, and a call that does return leaves the state alone.
\<close>

theorem emergency_exit_unusable:
  "(\<forall>s'. process_exit F tol now p s \<noteq> Inr (True, s'))
   \<and> (\<forall>ok s'. process_exit F tol now p s = Inr (ok, s') \<longrightarrow> s' = s)
   \<and> (\<forall>r. EmergencyExit_generate_proof F tol now a s \<noteq> Inr r)
   \<and> (ep_timestamp p \<le> now \<longrightarrow> map_find (accounts s) (ep_account_address p) \<noteq> None \<longrightarrow>
        is_Undefined (EmergencyExit_verify_proof F tol now p s))"
proof -
  have "process_exit F tol now p s = Inr (False, s) \<or> is_Undefined (process_exit F tol now p s)"
    using verify_proof_eq [of F tol now p s]
    by (cases "EmergencyExit_verify_proof F tol now p s") (auto simp: process_exit_def is_Undefined_def sm_bind_def)
  moreover have "EmergencyExit_generate_proof F tol now a s \<noteq> Inr r" for r
    using generate_proof_eq [of F tol now a s] by auto
  moreover have "is_Undefined (EmergencyExit_verify_proof F tol now p s)"
    if "ep_timestamp p \<le> now" and "map_find (accounts s) (ep_account_address p) \<noteq> None"
    using that verify_proof_eq [of F tol now p s] by (auto simp: not_le [symmetric])
  ultimately show ?thesis by auto
qed

theorem emergency_exit_unusable_witness:
  "is_Undefined (EmergencyExit_verify_proof int_ops tolerant 5
     \<lparr>ep_account_address = ''a'', ep_signature = [], ep_timestamp = 4, ep_state_root = []\<rparr> demo_state)"
  using emergency_exit_unusable [of int_ops tolerant 5
    "\<lparr>ep_account_address = ''a'', ep_signature = [], ep_timestamp = 4, ep_state_root = []\<rparr>" demo_state]
  by (simp add: demo_state_def map_find_def)

end
