(* ===== verification/MEV_Protection.thy ===== *)
theory MEV_Protection
  imports Transaction Quantum_State Merkle
begin

text \<open>
  MEV protection (\<open>include/rollup/MEVProtection.hpp\<close>, \<open>src/rollup/MEVProtection.cpp\<close>): commitments to the order
  of a batch and the detection of sandwich attacks and front running. BLAKE3, the clock and the arithmetic
  on doubles are parameters. \<open>add_transaction\<close>, \<open>get_optimal_ordering\<close> and \<open>finalize_batch\<close> are declared
  and never defined.
\<close>

section \<open>Definitions\<close>

record 'd MEVProtection =
  high_value_threshold :: 'd

record OrderingCommitment =
  oc_timestamp :: u64
  oc_batch_hash :: bytes

definition MEVProtection_new :: "('d, 'z) dops_scheme \<Rightarrow> 'd MEVProtection" where
  "MEVProtection_new F = \<lparr>high_value_threshold = lit F ''1000.0''\<rparr>"

definition mev_preimage :: "Transaction \<Rightarrow> bytes" where
  "mev_preimage tx = bytes_of_string (tx_from tx) @ bytes_of_string (tx_to tx) @ u64_bytes (tx_value tx)
     @ u64_bytes (tx_gas_price tx) @ u64_bytes (tx_gas_limit tx) @ u64_bytes (tx_nonce tx)
     @ (if tx_data tx \<noteq> [] then tx_data tx else [])"

definition compute_transaction_hash :: "(bytes \<Rightarrow> bytes) \<Rightarrow> Transaction \<Rightarrow> bytes" where
  "compute_transaction_hash blake3 tx = blake3 (mev_preimage tx)"

definition compute_fairness_hash :: "(bytes \<Rightarrow> bytes) \<Rightarrow> Transaction list \<Rightarrow> bytes" where
  "compute_fairness_hash blake3 transactions = blake3 (concat (map (compute_transaction_hash blake3) transactions))"

definition create_ordering_commitment :: "(bytes \<Rightarrow> bytes) \<Rightarrow> u64 \<Rightarrow> Transaction list \<Rightarrow> OrderingCommitment" where
  "create_ordering_commitment blake3 now transactions =
     \<lparr>oc_timestamp = now, oc_batch_hash = compute_fairness_hash blake3 transactions\<rparr>"

definition estimate_profit :: "('d, 'z) dops_scheme \<Rightarrow> Transaction \<Rightarrow> 'd" where
  "estimate_profit F tx =
     fsub F (of_int_d F (unat (tx_value tx))) (of_int_d F (unat (tx_gas_price tx * tx_gas_limit tx)))"

text \<open>The loop over \<open>i\<close> returns at the first hit.\<close>

definition sandwiched_at :: "Transaction \<Rightarrow> Transaction list \<Rightarrow> nat \<Rightarrow> bool" where
  "sandwiched_at target batch i \<longleftrightarrow>
     tx_hash (batch ! i) = tx_hash target
     \<and> tx_from (batch ! (i - 1)) = tx_from (batch ! (i + 1)) \<and> tx_to (batch ! (i - 1)) = tx_to (batch ! (i + 1))"

definition detect_sandwich_attack :: "Transaction \<Rightarrow> Transaction list \<Rightarrow> bool" where
  "detect_sandwich_attack target batch =
     (if length batch < 3 then False else list_ex (sandwiched_at target batch) [1..<length batch - 1])"

text \<open>The difference of the time stamps and its absolute value are computed at type \<open>int64_t\<close>.\<close>

definition detect_frontrunning :: "('d, 'c, 'z) qops_scheme \<Rightarrow> Transaction \<Rightarrow> Transaction \<Rightarrow> bool res" where
  "detect_frontrunning F tx1 tx2 =
     (if tx_to tx1 \<noteq> tx_to tx2 then Inr False
      else if fge F (fmul F (of_int_d F (unat (tx_gas_price tx2))) (lit F ''1.2'')) (of_int_d F (unat (tx_gas_price tx1))) then Inr False
      else if \<bar>tx_timestamp tx1 - tx_timestamp tx2\<bar> \<ge> 2 ^ 63 then Inl (Undefined ''signed overflow'')
      else if \<bar>tx_timestamp tx1 - tx_timestamp tx2\<bar> > 30000 then Inr False
      else let v1 = of_int_d F (unat (tx_value tx1)); v2 = of_int_d F (unat (tx_value tx2));
               l1 = of_int_d F (unat (tx_gas_limit tx1)); l2 = of_int_d F (unat (tx_gas_limit tx2));
               similar_value = fless F (fabs F (fsub F v1 v2)) (fmul F v2 (lit F ''0.1''));
               similar_gas_limit = fless F (fabs F (fsub F l1 l2)) (fmul F l2 (lit F ''0.1''))
           in Inr (similar_value \<and> similar_gas_limit \<and> tx_from tx1 \<noteq> tx_from tx2))"

definition calculate_transaction_value :: "('d, 'z) dops_scheme \<Rightarrow> Transaction \<Rightarrow> 'd" where
  "calculate_transaction_value F tx = of_int_d F (unat (tx_value tx))"

definition is_high_value_transaction :: "('d, 'c, 'z) qops_scheme \<Rightarrow> Transaction \<Rightarrow> 'd MEVProtection \<Rightarrow> bool" where
  "is_high_value_transaction F tx mev \<longleftrightarrow> fge F (calculate_transaction_value F tx) (high_value_threshold mev)"

definition set_high_value_threshold :: "'d \<Rightarrow> 'd MEVProtection \<Rightarrow> 'd MEVProtection" where
  "set_high_value_threshold threshold mev = mev\<lparr>high_value_threshold := threshold\<rparr>"

section \<open>Properties\<close>

text \<open>
  A sandwich is reported exactly when some transaction of the batch with the target's hash stands
  directly between two transactions with the same sender and the same recipient.
\<close>

theorem detect_sandwich_iff:
  "detect_sandwich_attack target batch \<longleftrightarrow>
     (\<exists>xs front x rear ys. batch = xs @ [front, x, rear] @ ys \<and> tx_hash x = tx_hash target
        \<and> tx_from front = tx_from rear \<and> tx_to front = tx_to rear)"
proof
  assume "detect_sandwich_attack target batch"
  then obtain i where i: "1 \<le> i" "i < length batch - 1" and s: "sandwiched_at target batch i"
    by (auto simp: detect_sandwich_attack_def list_ex_iff split: if_splits)
  have "batch = take (i - 1) batch @ [batch ! (i - 1), batch ! i, batch ! (i + 1)] @ drop (i + 2) batch"
    using i id_take_nth_drop [of "i - 1" batch] Cons_nth_drop_Suc [of i batch] Cons_nth_drop_Suc [of "i + 1" batch] by simp
  with s show "\<exists>xs front x rear ys. batch = xs @ [front, x, rear] @ ys \<and> tx_hash x = tx_hash target
      \<and> tx_from front = tx_from rear \<and> tx_to front = tx_to rear"
    unfolding sandwiched_at_def by blast
next
  assume "\<exists>xs front x rear ys. batch = xs @ [front, x, rear] @ ys \<and> tx_hash x = tx_hash target
      \<and> tx_from front = tx_from rear \<and> tx_to front = tx_to rear"
  then obtain xs front x rear ys where b: "batch = xs @ [front, x, rear] @ ys" "tx_hash x = tx_hash target"
      "tx_from front = tx_from rear" "tx_to front = tx_to rear"
    by blast
  then have "sandwiched_at target batch (length xs + 1)"
    by (simp add: sandwiched_at_def nth_append)
  then show "detect_sandwich_attack target batch"
    unfolding detect_sandwich_attack_def list_ex_iff using b(1) by (auto intro: bexI [of _ "length xs + 1"] simp del: upt_Suc)
qed

lemma mev_preimage_inj:
  assumes "mev_preimage t = mev_preimage u" and "length (tx_from t) = length (tx_from u)" and "length (tx_to t) = length (tx_to u)"
  shows "tx_from t = tx_from u \<and> tx_to t = tx_to u \<and> tx_value t = tx_value u \<and> tx_gas_price t = tx_gas_price u
    \<and> tx_gas_limit t = tx_gas_limit u \<and> tx_nonce t = tx_nonce u \<and> tx_data t = tx_data u"
  using assms by (auto simp: mev_preimage_def append_eq_append_conv split: if_splits)

text \<open>What the hash function is applied to when a commitment is made.\<close>

definition commitment_inputs :: "(bytes \<Rightarrow> bytes) \<Rightarrow> Transaction list \<Rightarrow> bytes set" where
  "commitment_inputs blake3 txs =
     insert (concat (map (compute_transaction_hash blake3) txs)) (set (map mev_preimage txs))"

definition same_order_content :: "Transaction \<Rightarrow> Transaction \<Rightarrow> bool" where
  "same_order_content t u \<longleftrightarrow> tx_from t = tx_from u \<and> tx_to t = tx_to u \<and> tx_value t = tx_value u
     \<and> tx_gas_price t = tx_gas_price u \<and> tx_gas_limit t = tx_gas_limit u \<and> tx_nonce t = tx_nonce u \<and> tx_data t = tx_data u"

text \<open>
  What an ordering commitment binds. With a hash of 32 bytes, two batches with the same commitment
  have the same number of transactions and, at every position, transactions that agree in sender,
  recipient, value, gas price, gas limit, nonce and data if their addresses have the same lengths,
  unless two different strings that were hashed to make the two commitments collide.
\<close>

theorem ordering_commitment_binds:
  assumes "hash32 blake3"
    and "oc_batch_hash (create_ordering_commitment blake3 now txs) = oc_batch_hash (create_ordering_commitment blake3 now' txs')"
  shows "collides blake3 (commitment_inputs blake3 txs) (commitment_inputs blake3 txs') \<or>
    list_all2 (\<lambda>t u. length (tx_from t) = length (tx_from u) \<and> length (tx_to t) = length (tx_to u) \<longrightarrow> same_order_content t u) txs txs'"
proof (cases "collides blake3 (commitment_inputs blake3 txs) (commitment_inputs blake3 txs')")
  case False
  let ?h = "compute_transaction_hash blake3"
  have "concat (map ?h txs) = concat (map ?h txs')"
    using False assms(2) by (auto simp: create_ordering_commitment_def compute_fairness_hash_def commitment_inputs_def collides_def)
  moreover have "length (concat (map ?h us)) = 32 * length us" for us
    using assms(1) by (induction us) (simp_all add: compute_transaction_hash_def hash32_def)
  ultimately have l: "length txs = length txs'"
    by (metis mult_cancel_left zero_neq_numeral)
  have "map ?h txs = map ?h txs'"
    using assms(1) l \<open>concat (map ?h txs) = concat (map ?h txs')\<close>
    by (intro concat_injective) (auto simp: compute_transaction_hash_def hash32_def set_zip)
  then have "map blake3 (map mev_preimage txs) = map blake3 (map mev_preimage txs')"
    by (simp add: compute_transaction_hash_def [abs_def] comp_def)
  then have "map mev_preimage txs = map mev_preimage txs'"
    using map_hash_eq [of blake3 "map mev_preimage txs" "map mev_preimage txs'"] False
    unfolding commitment_inputs_def collides_def by blast
  then have "\<forall>i < length txs. mev_preimage (txs ! i) = mev_preimage (txs' ! i)"
    using l by (metis nth_map)
  then have "list_all2 (\<lambda>t u. mev_preimage t = mev_preimage u) txs txs'"
    using l by (simp add: list_all2_conv_all_nth)
  then show ?thesis
    unfolding same_order_content_def by (intro disjI2) (erule list_all2_mono, blast dest: mev_preimage_inj)
qed simp

theorem ordering_commitment_binds_witness:
  "collides (\<lambda>bs. replicate 32 0) (commitment_inputs (\<lambda>bs. replicate 32 0) [Transaction_default 0 []])
      (commitment_inputs (\<lambda>bs. replicate 32 0) [Transaction_default 1 [2]])
   \<or> list_all2 (\<lambda>t u. length (tx_from t) = length (tx_from u) \<and> length (tx_to t) = length (tx_to u) \<longrightarrow> same_order_content t u)
       [Transaction_default 0 []] [Transaction_default 1 [2]]"
  by (rule ordering_commitment_binds [where now = 0 and now' = 0])
    (simp_all add: hash32_def create_ordering_commitment_def compute_fairness_hash_def)

end
