(* ===== verification/Persistent_Storage.thy ===== *)
theory Persistent_Storage
  imports State_Transition_Proof Transaction Std_Map
begin

text \<open>
  Persistent storage (\<open>include/storage/PersistentStorage.hpp\<close>, \<open>src/storage/PersistentStorage.cpp\<close>) on top of
  RocksDB, which is a parameter: \<open>rocks\<close> collects the two calls that the class makes. What the class relies
  on is \<open>rocks_laws\<close>: a value that was written with an OK status is read back, and a write changes no
  other key. Opening the database is not modelled.
\<close>

section \<open>Definitions\<close>

record 'db rocks =
  Put :: "string \<Rightarrow> bytes \<Rightarrow> 'db \<Rightarrow> bool \<times> 'db"
  Get :: "string \<Rightarrow> 'db \<Rightarrow> bytes option"

definition makeKey :: "string \<Rightarrow> string \<Rightarrow> string" where
  "makeKey prefix ident = prefix @ '':'' @ ident"

definition storeTransaction :: "'db rocks \<Rightarrow> (bytes \<Rightarrow> bytes) \<Rightarrow> Transaction \<Rightarrow> 'db \<Rightarrow> bool \<times> 'db" where
  "storeTransaction R blake3 tx db =
     Put R (makeKey ''tx'' (string_of_bytes (Transaction_compute_hash blake3 tx))) (Transaction_serialize tx) db"

definition loadTransaction :: "'db rocks \<Rightarrow> int \<Rightarrow> bytes \<Rightarrow> bytes \<Rightarrow> 'db \<Rightarrow> Transaction option res" where
  "loadTransaction R now h hash db =
     (case Get R (makeKey ''tx'' (string_of_bytes hash)) db of
        Some data \<Rightarrow> Transaction_deserialize now h data
      | None \<Rightarrow> Inr None)"

definition storeProof :: "'db rocks \<Rightarrow> u64 \<Rightarrow> ProofData \<Rightarrow> 'db \<Rightarrow> bool \<times> 'db" where
  "storeProof R block_number proof db = Put R (makeKey ''proof'' (to_string (unat block_number))) (STP_serialize proof) db"

definition loadProof :: "'db rocks \<Rightarrow> u64 \<Rightarrow> 'db \<Rightarrow> ProofData option" where
  "loadProof R block_number db =
     (case Get R (makeKey ''proof'' (to_string (unat block_number))) db of
        Some data \<Rightarrow> STP_deserialize data
      | None \<Rightarrow> None)"

definition storeBlockData :: "'db rocks \<Rightarrow> u64 \<Rightarrow> bytes \<Rightarrow> 'db \<Rightarrow> bool \<times> 'db" where
  "storeBlockData R block_number data db = Put R (makeKey ''block'' (to_string (unat block_number))) data db"

definition loadBlockData :: "'db rocks \<Rightarrow> u64 \<Rightarrow> 'db \<Rightarrow> bytes option" where
  "loadBlockData R block_number db = Get R (makeKey ''block'' (to_string (unat block_number))) db"

text \<open>Writes, as data, for sequences of them.\<close>

datatype db_write = Write_tx Transaction | Write_proof u64 ProofData | Write_block u64 bytes

fun do_write :: "'db rocks \<Rightarrow> (bytes \<Rightarrow> bytes) \<Rightarrow> db_write \<Rightarrow> 'db \<Rightarrow> bool \<times> 'db" where
  "do_write R blake3 (Write_tx tx) db = storeTransaction R blake3 tx db"
| "do_write R blake3 (Write_proof n p) db = storeProof R n p db"
| "do_write R blake3 (Write_block n d) db = storeBlockData R n d db"

fun do_writes :: "'db rocks \<Rightarrow> (bytes \<Rightarrow> bytes) \<Rightarrow> db_write list \<Rightarrow> 'db \<Rightarrow> 'db" where
  "do_writes R blake3 [] db = db"
| "do_writes R blake3 (w # ws) db = do_writes R blake3 ws (snd (do_write R blake3 w db))"

section \<open>Properties\<close>

definition rocks_laws :: "'db rocks \<Rightarrow> bool" where
  "rocks_laws R \<longleftrightarrow>
     (\<forall>k v db. fst (Put R k v db) \<longrightarrow> Get R k (snd (Put R k v db)) = Some v)
   \<and> (\<forall>k v db j. j \<noteq> k \<longrightarrow> Get R j (snd (Put R k v db)) = Get R j db)"

fun write_key :: "(bytes \<Rightarrow> bytes) \<Rightarrow> db_write \<Rightarrow> string" where
  "write_key blake3 (Write_tx tx) = makeKey ''tx'' (string_of_bytes (Transaction_compute_hash blake3 tx))"
| "write_key blake3 (Write_proof n p) = makeKey ''proof'' (to_string (unat n))"
| "write_key blake3 (Write_block n d) = makeKey ''block'' (to_string (unat n))"

lemma key_eq_iff [simp]:
  "makeKey ''tx'' a \<noteq> makeKey ''proof'' b" "makeKey ''tx'' a \<noteq> makeKey ''block'' b" "makeKey ''proof'' a \<noteq> makeKey ''block'' b"
  "makeKey p a = makeKey p b \<longleftrightarrow> a = b" "to_string (unat n) = to_string (unat m) \<longleftrightarrow> n = m" for n m :: u64
  by (auto simp: makeKey_def dest: to_string_inj intro: word_unat_eq_iff [THEN iffD2])

lemma Get_do_write:
  assumes "rocks_laws R"
  shows "j \<noteq> write_key blake3 w \<Longrightarrow> Get R j (snd (do_write R blake3 w db)) = Get R j db"
  using assms by (cases w) (simp_all add: rocks_laws_def storeTransaction_def storeProof_def storeBlockData_def)

lemma Get_do_writes:
  assumes "rocks_laws R" and "\<forall>w \<in> set ws. write_key blake3 w \<noteq> j"
  shows "Get R j (do_writes R blake3 ws db) = Get R j db"
  using assms(2)
proof (induction ws arbitrary: db)
  case (Cons w ws)
  then have "Get R j (do_writes R blake3 (w # ws) db) = Get R j (snd (do_write R blake3 w db))"
    by simp
  also have "\<dots> = Get R j db"
    using Cons.prems by (intro Get_do_write [OF assms(1)]) auto
  finally show ?case .
qed simp

text \<open>
  C38. What was stored is read back, with anything stored in between. A proof stored with success is what \<open>loadProof\<close> returns for
  that block number after any later writes but of a proof for that number, block data of that number included; and
  block data stored with success is what \<open>loadBlockData\<close> returns after any later writes but of block data for that number. A stored
  transaction is never read back: \<open>loadTransaction\<close> answers that there is none.
\<close>

theorem storage_roundtrip:
  assumes "rocks_laws R" and "ProofData_ok p"
  shows "(fst (storeProof R n p db) \<and> (\<forall>w \<in> set ws. \<forall>q. w \<noteq> Write_proof n q) \<longrightarrow>
         loadProof R n (do_writes R blake3 ws (snd (storeProof R n p db))) = Some p)
    \<and> (fst (storeBlockData R n d db) \<and> (\<forall>w \<in> set ws. \<forall>e. w \<noteq> Write_block n e) \<longrightarrow>
         loadBlockData R n (do_writes R blake3 ws (snd (storeBlockData R n d db))) = Some d)
    \<and> (fst (storeTransaction R blake3 tx db) \<and> (\<forall>w \<in> set ws. write_key blake3 w \<noteq> write_key blake3 (Write_tx tx)) \<longrightarrow>
         loadTransaction R now h (Transaction_compute_hash blake3 tx) (do_writes R blake3 ws (snd (storeTransaction R blake3 tx db))) = Inr None)"
proof (intro conjI impI)
  note laws = assms(1) [unfolded rocks_laws_def]
  assume a: "fst (storeProof R n p db) \<and> (\<forall>w \<in> set ws. \<forall>q. w \<noteq> Write_proof n q)"
  then have "write_key blake3 w \<noteq> write_key blake3 (Write_proof n p)" if "w \<in> set ws" for w
    using that by (cases w) (auto simp: key_eq_iff(1-3) [THEN not_sym])
  then show "loadProof R n (do_writes R blake3 ws (snd (storeProof R n p db))) = Some p"
    using a laws Get_do_writes [OF assms(1)] STP_deserialize_serialize [OF assms(2), of "[]"] by (simp add: storeProof_def loadProof_def)
next
  note laws = assms(1) [unfolded rocks_laws_def]
  assume a: "fst (storeBlockData R n d db) \<and> (\<forall>w \<in> set ws. \<forall>e. w \<noteq> Write_block n e)"
  then have "write_key blake3 w \<noteq> write_key blake3 (Write_block n d)" if "w \<in> set ws" for w
    using that by (cases w) auto
  then show "loadBlockData R n (do_writes R blake3 ws (snd (storeBlockData R n d db))) = Some d"
    using a laws Get_do_writes [OF assms(1)] by (simp add: storeBlockData_def loadBlockData_def)
next
  note laws = assms(1) [unfolded rocks_laws_def]
  assume "fst (storeTransaction R blake3 tx db) \<and> (\<forall>w \<in> set ws. write_key blake3 w \<noteq> write_key blake3 (Write_tx tx))"
  then show "loadTransaction R now h (Transaction_compute_hash blake3 tx) (do_writes R blake3 ws (snd (storeTransaction R blake3 tx db))) = Inr None"
    using laws Get_do_writes [OF assms(1)]
    by (simp add: storeTransaction_def loadTransaction_def Transaction_serialize_def Transaction_deserialize_def)
qed

text \<open>A table of keys and values in the place of the database.\<close>

definition table_rocks :: "(string, bytes) smap rocks" where
  "table_rocks = \<lparr>Put = (\<lambda>k v db. (True, map_put k v db)), Get = (\<lambda>k db. map_find db k)\<rparr>"

lemma table_rocks_laws: "rocks_laws table_rocks"
  by (simp add: rocks_laws_def table_rocks_def)

definition demo_proof :: ProofData where
  "demo_proof = \<lparr>pre_state_root = replicate 32 1, post_state_root = replicate 32 2, proof_transactions_root = replicate 32 3,
    zk_proof = [4, 5], quantum_signature = [6]\<rparr>"

theorem storage_roundtrip_witness:
  "loadBlockData table_rocks 7
     (do_writes table_rocks (\<lambda>bs. bs) [Write_block 8 [1], Write_proof 7 demo_proof] (snd (storeBlockData table_rocks 7 [9] []))) = Some [9]"
proof -
  have "ProofData_ok demo_proof" "fst (storeBlockData table_rocks 7 [9] [])"
    by (simp_all add: ProofData_ok_def demo_proof_def storeBlockData_def table_rocks_def)
  then show ?thesis
    using storage_roundtrip [OF table_rocks_laws, of demo_proof 7 "[]" "[Write_block 8 [1], Write_proof 7 demo_proof]" "\<lambda>bs. bs" "[9]"]
    by simp
qed

end
