(* ===== verification/Solidity_Parser.thy ===== *)
theory Solidity_Parser
  imports Prelude
begin

text \<open>
  The Solidity front end (\<open>include/evm/SolidityParser.hpp\<close>, \<open>src/evm/SolidityParser.cpp\<close>): the tokenizer, the
  parse entry point and the resolution of type names. The input stream is the list of characters not read yet:
  \<open>stream.get(c)\<close> takes its head and \<open>stream.peek()\<close> looks at it. Character classes are those of the C locale.
  Line and column counters are 64-bit. The reference \<open>words_of\<close> says which text a source without comments and string
  literals is cut into; the tokenizer is shown to agree with it.
\<close>

section \<open>Tokens\<close>

datatype TokenType = KEYWORD | IDENTIFIER | NUMBER | STRING | OPERATOR | PUNCTUATION | COMMENT | WHITESPACE | END

record Token =
  tok_type :: TokenType
  tok_value :: string
  tok_line :: u64
  tok_column :: u64

definition KEYWORDS :: "string list" where
  "KEYWORDS = [''contract'', ''function'', ''public'', ''private'', ''internal'', ''external'',
     ''pure'', ''view'', ''payable'', ''returns'', ''memory'', ''storage'', ''calldata'',
     ''uint'', ''int'', ''address'', ''bool'', ''string'', ''bytes'', ''mapping'',
     ''struct'', ''enum'', ''if'', ''else'', ''while'', ''for'', ''do'', ''break'', ''continue'', ''return'']"

definition is_keyword :: "string \<Rightarrow> bool" where
  "is_keyword str \<longleftrightarrow> str \<in> set KEYWORDS"

definition is_number_literal :: "string \<Rightarrow> bool" where
  "is_number_literal str \<longleftrightarrow> str \<noteq> [] \<and> (\<forall>c \<in> set str. is_digit c)"

definition is_alnum :: "char \<Rightarrow> bool" where
  "is_alnum c \<longleftrightarrow> is_digit c \<or>
     (let n = (of_char c :: nat) in (65 \<le> n \<and> n \<le> 90) \<or> (97 \<le> n \<and> n \<le> 122))"

definition word_char :: "char \<Rightarrow> bool" where
  "word_char c \<longleftrightarrow> is_alnum c \<or> c = CHR ''_''"

definition is_punctuation :: "char \<Rightarrow> bool" where
  "is_punctuation c \<longleftrightarrow> c \<in> set ''(){}[];,''"

definition newline :: char where
  "newline = CHR 0x0A"

definition quote :: char where
  "quote = CHR 0x22"

definition backslash :: char where
  "backslash = CHR 0x5C"

section \<open>The tokenizer\<close>

text \<open>The local variables of \<open>tokenize\<close> other than the stream.\<close>

record Lexer =
  tokens :: "Token list"
  current_token :: string
  lx_line :: u64
  lx_column :: u64

definition add_token :: "TokenType \<Rightarrow> string \<Rightarrow> Lexer \<Rightarrow> Lexer" where
  "add_token ty v lx =
     lx\<lparr>tokens := tokens lx @ [\<lparr>tok_type = ty, tok_value = v, tok_line = lx_line lx, tok_column = lx_column lx\<rparr>],
        lx_column := lx_column lx + of_nat (length v)\<rparr>"

definition word_type :: "string \<Rightarrow> TokenType" where
  "word_type w = (if is_keyword w then KEYWORD else if is_number_literal w then NUMBER else IDENTIFIER)"

text \<open>The block that the source repeats at three places: the word read so far becomes a token.\<close>

definition flush_token :: "Lexer \<Rightarrow> Lexer" where
  "flush_token lx =
     (if current_token lx \<noteq> []
      then (add_token (word_type (current_token lx)) (current_token lx) lx)\<lparr>current_token := []\<rparr>
      else lx)"

definition next_line :: "Lexer \<Rightarrow> Lexer" where
  "next_line lx = lx\<lparr>lx_line := lx_line lx + 1, lx_column := 1\<rparr>"

definition on_space :: "char \<Rightarrow> Lexer \<Rightarrow> Lexer" where
  "on_space c lx =
     flush_token (if c = newline then next_line lx else lx\<lparr>lx_column := lx_column lx + 1\<rparr>)"

text \<open>The loops that read a comment or a string literal: what is appended and what is left of the stream.\<close>

fun line_comment :: "string \<Rightarrow> string \<times> string" where
  "line_comment [] = ([], [])"
| "line_comment (c # cs) =
     (if c = newline then ([], cs) else let (v, rest) = line_comment cs in (c # v, rest))"

fun block_comment :: "string \<Rightarrow> Lexer \<Rightarrow> string \<times> string \<times> Lexer" where
  "block_comment [] lx = ([], [], lx)"
| "block_comment (c # cs) lx =
     (if c = CHR ''*'' \<and> cs \<noteq> [] \<and> hd cs = CHR ''/'' then ([c, CHR ''/''], tl cs, lx)
      else let (v, rest, lx) = block_comment cs (if c = newline then next_line lx else lx) in (c # v, rest, lx))"

fun string_literal :: "string \<Rightarrow> string \<times> string" where
  "string_literal [] = ([], [])"
| "string_literal [c] = (if c = quote then ([], []) else ([c], []))"
| "string_literal (c # d # ds) =
     (if c = quote then ([], d # ds)
      else if c = backslash then let (v, rest) = string_literal ds in (c # d # v, rest)
      else let (v, rest) = string_literal (d # ds) in (c # v, rest))"

lemma line_comment_shorter: "length (snd (line_comment cs)) \<le> length cs"
  by (induction cs) (auto simp: case_prod_unfold Let_def)

lemma block_comment_shorter: "length (fst (snd (block_comment cs lx))) \<le> length cs"
  by (induction cs lx rule: block_comment.induct) (auto simp: case_prod_unfold Let_def)

lemma string_literal_shorter: "length (snd (string_literal cs)) \<le> length cs"
  by (induction cs rule: string_literal.induct) (auto simp: case_prod_unfold Let_def)

text \<open>
  The main loop: one turn per character read by its \<open>stream.get(c)\<close>. A character from 128 on is negative where \<open>char\<close> is signed, and
  \<open>std::isspace\<close> and \<open>std::isalnum\<close> are then called outside of their domain; here it has the answer of the C locale on the
  byte, which is neither.
\<close>

function tokenize_loop :: "string \<Rightarrow> Lexer \<Rightarrow> Lexer" where
  "tokenize_loop [] lx = lx"
| "tokenize_loop (c # cs) lx =
     (if is_space c then tokenize_loop cs (on_space c lx)
      else if word_char c then tokenize_loop cs (lx\<lparr>current_token := current_token lx @ [c]\<rparr>)
      else let lx = flush_token lx in
        if c = CHR ''/'' \<and> cs \<noteq> [] \<and> hd cs = CHR ''/'' then
          tokenize_loop (snd (line_comment cs)) (next_line (add_token COMMENT (''//'' @ fst (line_comment cs)) lx))
        else if c = CHR ''/'' \<and> cs \<noteq> [] \<and> hd cs = CHR ''*'' then
          tokenize_loop (fst (snd (block_comment (tl cs) lx)))
            (add_token COMMENT (''/*'' @ fst (block_comment (tl cs) lx)) (snd (snd (block_comment (tl cs) lx))))
        else if c = quote then
          tokenize_loop (snd (string_literal cs)) (add_token STRING (quote # fst (string_literal cs) @ [quote]) lx)
        else if is_punctuation c then tokenize_loop cs (add_token PUNCTUATION [c] lx)
        else tokenize_loop cs (add_token OPERATOR [c] lx))"
  by pat_completeness auto

termination
proof (relation "measure (length \<circ> fst)", goal_cases)
  case (5 c cs lx x)
  then show ?case
    using block_comment_shorter [of "tl cs" x] by simp
qed (auto simp: less_Suc_eq_le line_comment_shorter string_literal_shorter)

definition lexer_new :: Lexer where
  "lexer_new = \<lparr>tokens = [], current_token = [], lx_line = 1, lx_column = 1\<rparr>"

definition tokenize :: "string \<Rightarrow> Token list" where
  "tokenize source = tokens (add_token END [] (flush_token (tokenize_loop source lexer_new)))"


section \<open>Parsing and type names\<close>

datatype DataType = UINT | INT_T | ADDRESS | BOOL | STRING_T | BYTES | ARRAY | MAPPING | STRUCT | ENUM

text \<open>
  \<open>base_type\<close> has no initialiser: \<open>None\<close> is the indeterminate value it has until it is assigned. The pointers
  \<open>value_type\<close> and \<open>key_type\<close> are never assigned by the sources and stay null.
\<close>

record TypeInfo =
  base_type :: "DataType option"
  bits :: u16
  is_array :: bool
  is_mapping :: bool
  array_size :: "u64 option"

definition TypeInfo_new :: TypeInfo where
  "TypeInfo_new = \<lparr>base_type = None, bits = 256, is_array = False, is_mapping = False, array_size = None\<rparr>"

record SolidityParser =
  sp_errors :: "string list"
  sp_warnings :: "string list"

record ParseResult =
  pr_errors :: "string list"
  pr_warnings :: "string list"
  pr_success :: bool

definition sp_parse :: "string \<Rightarrow> ParseResult" where
  "sp_parse source_code =
     (let result = \<lparr>pr_errors = [], pr_warnings = [], pr_success = False\<rparr>;
          toks = tokenize source_code
      in result\<lparr>pr_success := True\<rparr>)"

definition located :: "string \<Rightarrow> string \<Rightarrow> u64 \<Rightarrow> u64 \<Rightarrow> string" where
  "located kind message line column =
     kind @ '' at line '' @ to_string (unat line) @ '', column '' @ to_string (unat column) @ '': '' @ message"

definition add_error :: "string \<Rightarrow> u64 \<Rightarrow> u64 \<Rightarrow> SolidityParser \<Rightarrow> SolidityParser" where
  "add_error message line column p = p\<lparr>sp_errors := sp_errors p @ [located ''Error'' message line column]\<rparr>"

definition add_warning :: "string \<Rightarrow> u64 \<Rightarrow> u64 \<Rightarrow> SolidityParser \<Rightarrow> SolidityParser" where
  "add_warning message line column p = p\<lparr>sp_warnings := sp_warnings p @ [located ''Warning'' message line column]\<rparr>"

text \<open>
  \<open>std::stoul\<close> reads as \<open>stoull\<close> does (up to the function name in its messages): \<open>unsigned long\<close> has 64 bits on the targets of the build. \<open>bits\<close> is a
  \<open>uint16_t\<close>, so the value is reduced.
\<close>

definition set_bits :: "DataType \<Rightarrow> nat \<Rightarrow> u64 \<Rightarrow> string \<Rightarrow> TypeInfo res" where
  "set_bits ty n k type_string =
     (let info = TypeInfo_new\<lparr>base_type := Some ty\<rparr> in
      if length type_string > n then
        (case stoull (drop n type_string) of
           Inl e \<Rightarrow> Inl e
         | Inr v \<Rightarrow> Inr (info\<lparr>bits := ucast (v * k)\<rparr>))
      else Inr info)"

definition resolve_basic :: "string \<Rightarrow> TypeInfo res" where
  "resolve_basic type_string =
     (if take 7 type_string = ''mapping'' then Inr (TypeInfo_new\<lparr>is_mapping := True\<rparr>)
      else if take 4 type_string = ''uint'' then set_bits UINT 4 1 type_string
      else if take 3 type_string = ''int'' then set_bits INT_T 3 1 type_string
      else if type_string = ''address'' then Inr (TypeInfo_new\<lparr>base_type := Some ADDRESS\<rparr>)
      else if type_string = ''bool'' then Inr (TypeInfo_new\<lparr>base_type := Some BOOL\<rparr>)
      else if type_string = ''string'' then Inr (TypeInfo_new\<lparr>base_type := Some STRING_T\<rparr>)
      else if take 5 type_string = ''bytes'' then set_bits BYTES 5 8 type_string
      else Inr TypeInfo_new)"

text \<open>
  \<open>array_spec.substr(1, array_spec.length() - 2)\<close>: for the specification \<open>[\<close> alone the length wraps to the largest
  \<open>size_t\<close> and the result is empty, as it is here.
\<close>

definition array_spec_size :: "string \<Rightarrow> u64 res" where
  "array_spec_size array_spec = stoull (take (length array_spec - 2) (drop 1 array_spec))"

lemma takeWhile_shorter: "x \<in> set xs \<Longrightarrow> \<not> P x \<Longrightarrow> length (takeWhile P xs) < length xs"
  by (induction xs) auto

function resolve_type :: "string \<Rightarrow> SolidityParser \<Rightarrow> TypeInfo res \<times> SolidityParser" where
  "resolve_type type_string p =
     (if CHR ''['' \<in> set type_string then
        let info = TypeInfo_new\<lparr>is_array := True\<rparr>;
            base = takeWhile (\<lambda>c. c \<noteq> CHR ''['') type_string;
            array_spec = dropWhile (\<lambda>c. c \<noteq> CHR ''['') type_string;
            (info, p) = (if array_spec \<noteq> ''[]'' then
                           (case array_spec_size array_spec of
                              Inr n \<Rightarrow> (info\<lparr>array_size := Some n\<rparr>, p)
                            | Inl _ \<Rightarrow> (info, add_error ''Invalid array size specification'' 0 0 p))
                         else (info, p))
        in case resolve_type base p of
             (Inl e, p) \<Rightarrow> (Inl e, p)
           | (Inr base_info, p) \<Rightarrow> (Inr (info\<lparr>base_type := base_type base_info, bits := bits base_info\<rparr>), p)
      else (resolve_basic type_string, p))"
  by pat_completeness auto

termination
  by (relation "measure (length \<circ> fst)") (auto intro: takeWhile_shorter)

declare resolve_type.simps [simp del]

section \<open>What the tokens are\<close>

lemma add_token_simps [simp]:
  "tokens (add_token ty v lx) =
     tokens lx @ [\<lparr>tok_type = ty, tok_value = v, tok_line = lx_line lx, tok_column = lx_column lx\<rparr>]"
  "current_token (add_token ty v lx) = current_token lx"
  "lx_line (add_token ty v lx) = lx_line lx"
  by (simp_all add: add_token_def)

lemma next_line_simps [simp]:
  "tokens (next_line lx) = tokens lx" "current_token (next_line lx) = current_token lx"
  by (simp_all add: next_line_def)

lemma current_flush [simp]: "current_token (flush_token lx) = []"
  by (simp add: flush_token_def)

lemma block_comment_keeps [simp]:
  "tokens (snd (snd (block_comment cs lx))) = tokens lx"
  "current_token (snd (snd (block_comment cs lx))) = current_token lx"
  by (induction cs lx rule: block_comment.induct) (auto simp: case_prod_unfold Let_def)

text \<open>A token of the tokenizer other than the last.\<close>

definition token_ok :: "Token \<Rightarrow> bool" where
  "token_ok t =
     (let v = tok_value t in
      case tok_type t of
        KEYWORD \<Rightarrow> is_keyword v
      | NUMBER \<Rightarrow> is_number_literal v
      | IDENTIFIER \<Rightarrow> v \<noteq> [] \<and> (\<forall>c \<in> set v. word_char c) \<and> \<not> is_keyword v \<and> \<not> is_number_literal v
      | STRING \<Rightarrow> length v \<ge> 2 \<and> hd v = quote \<and> last v = quote
      | OPERATOR \<Rightarrow> length v = 1 \<and> \<not> is_space (hd v) \<and> \<not> word_char (hd v) \<and> hd v \<noteq> quote \<and> \<not> is_punctuation (hd v)
      | PUNCTUATION \<Rightarrow> length v = 1 \<and> is_punctuation (hd v)
      | COMMENT \<Rightarrow> take 3 v = ''///'' \<or> take 2 v = ''/*''
      | _ \<Rightarrow> False)"

definition lexer_ok :: "Lexer \<Rightarrow> bool" where
  "lexer_ok lx \<longleftrightarrow> (\<forall>t \<in> set (tokens lx). token_ok t) \<and> (\<forall>c \<in> set (current_token lx). word_char c)"

lemma lexer_ok_flush: "lexer_ok lx \<Longrightarrow> lexer_ok (flush_token lx)"
  by (auto simp: lexer_ok_def flush_token_def token_ok_def word_type_def Let_def)

lemma lexer_ok_add:
  assumes "lexer_ok lx" and "token_ok \<lparr>tok_type = ty, tok_value = v, tok_line = lx_line lx, tok_column = lx_column lx\<rparr>"
  shows "lexer_ok (add_token ty v lx)"
  using assms by (auto simp: lexer_ok_def)

lemma lexer_ok_keeps:
  assumes "lexer_ok lx" and "tokens lx' = tokens lx" and "current_token lx' = current_token lx"
  shows "lexer_ok lx'"
  using assms by (simp add: lexer_ok_def)

lemma line_comment_slash: "take 3 (''//'' @ fst (line_comment (CHR ''/'' # cs))) = ''///''"
  by (simp add: newline_def case_prod_unfold Let_def)

lemma lexer_turn_cases [case_names space word line block str punct oper]:
  obtains (space) "is_space c" | (word) "\<not> is_space c" "word_char c"
    | (line) "\<not> is_space c" "\<not> word_char c" "c = CHR ''/''" "cs \<noteq> []" "hd cs = CHR ''/''"
    | (block) "\<not> is_space c" "\<not> word_char c" "c = CHR ''/''" "cs \<noteq> []" "hd cs = CHR ''*''"
    | (str) "\<not> is_space c" "\<not> word_char c" "c = quote"
    | (punct) "\<not> is_space c" "\<not> word_char c" "is_punctuation c"
    | (oper) "\<not> is_space c" "\<not> word_char c" "\<not> (c = CHR ''/'' \<and> cs \<noteq> [] \<and> hd cs = CHR ''/'')"
        "\<not> (c = CHR ''/'' \<and> cs \<noteq> [] \<and> hd cs = CHR ''*'')"
        "c \<noteq> quote" "\<not> is_punctuation c"
  by blast

lemma lexer_ok_loop: "lexer_ok lx \<Longrightarrow> lexer_ok (tokenize_loop cs lx)"
proof (induction cs lx rule: tokenize_loop.induct)
  case (1 lx)
  then show ?case by simp
next
  case (2 c cs lx)
  note IH = "2.IH"
  have fl: "lexer_ok (flush_token lx)"
    using "2.prems" by (rule lexer_ok_flush)
  show ?case
  proof (cases rule: lexer_turn_cases [where c = c and cs = cs])
    case space
    have "lexer_ok (if c = newline then next_line lx else lx\<lparr>lx_column := lx_column lx + 1\<rparr>)"
      using "2.prems" by (auto intro: lexer_ok_keeps)
    then show ?thesis
      using IH(1) space by (simp add: on_space_def lexer_ok_flush)
  next
    case word
    have "lexer_ok (lx\<lparr>current_token := current_token lx @ [c]\<rparr>)"
      using "2.prems" word(2) by (auto simp: lexer_ok_def)
    then show ?thesis
      using IH(2) word by simp
  next
    case line
    obtain ds where cs: "cs = CHR ''/'' # ds"
      using line by (cases cs) auto
    have "lexer_ok (next_line (add_token COMMENT (''//'' @ fst (line_comment cs)) (flush_token lx)))"
      using fl line_comment_slash [of ds]
      by (auto intro!: lexer_ok_keeps [OF lexer_ok_add [OF fl]] simp: token_ok_def cs)
    then show ?thesis
      using IH(3) line by simp
  next
    case block
    let ?b = "block_comment (tl cs) (flush_token lx)"
    have "lexer_ok (snd (snd ?b))"
      using fl by (rule lexer_ok_keeps) simp_all
    then have "lexer_ok (add_token COMMENT (''/*'' @ fst ?b) (snd (snd ?b)))"
      by (rule lexer_ok_add) (simp add: token_ok_def)
    then show ?thesis
      using IH(4) block by (simp add: Let_def)
  next
    case str
    have "lexer_ok (add_token STRING (quote # fst (string_literal cs) @ [quote]) (flush_token lx))"
      using fl by (rule lexer_ok_add) (simp add: token_ok_def)
    then show ?thesis
      using IH(5) str by (simp add: quote_def)
  next
    case punct
    have "lexer_ok (add_token PUNCTUATION [c] (flush_token lx))"
      using fl by (rule lexer_ok_add) (use punct in \<open>simp add: token_ok_def\<close>)
    moreover have "c \<noteq> quote" "c \<noteq> CHR ''/''"
      using punct(3) by (auto simp: quote_def is_punctuation_def)
    ultimately show ?thesis
      using IH(6) punct by simp
  next
    case oper
    have "lexer_ok (add_token OPERATOR [c] (flush_token lx))"
      using fl by (rule lexer_ok_add) (use oper in \<open>simp add: token_ok_def\<close>)
    then show ?thesis
      using IH(7) oper by auto
  qed
qed

text \<open>
  C20. Every source is cut into well-formed tokens followed by one END token: keywords are exactly the words of the
  keyword table, numbers are non-empty runs of digits, identifiers are the other words, punctuation and operators
  are single characters, string literals keep their quotes, and no token is white space.
\<close>

theorem tokenize_types:
  "\<exists>ts t. tokenize source = ts @ [t] \<and> tok_type t = END \<and> tok_value t = [] \<and> list_all token_ok ts"
proof -
  have "lexer_ok (flush_token (tokenize_loop source lexer_new))"
    by (intro lexer_ok_flush lexer_ok_loop) (simp add: lexer_ok_def lexer_new_def)
  then show ?thesis
    by (auto simp: tokenize_def lexer_ok_def list_all_iff)
qed


section \<open>How many tokens\<close>

definition lexer_weight :: "Lexer \<Rightarrow> nat" where
  "lexer_weight lx = length (tokens lx) + length (current_token lx)"

lemma lexer_weight_simps [simp]:
  "lexer_weight (add_token ty v lx) = Suc (lexer_weight lx)"
  "lexer_weight (next_line lx) = lexer_weight lx"
  "lexer_weight (lx\<lparr>lx_column := k\<rparr>) = lexer_weight lx"
  "lexer_weight (lx\<lparr>current_token := current_token lx @ [c]\<rparr>) = Suc (lexer_weight lx)"
  "lexer_weight (snd (snd (block_comment cs lx))) = lexer_weight lx"
  by (simp_all add: lexer_weight_def)

lemma lexer_weight_flush: "lexer_weight (flush_token lx) \<le> lexer_weight lx"
  by (cases "current_token lx") (simp_all add: lexer_weight_def flush_token_def)

lemma lexer_weight_space: "lexer_weight (on_space c lx) \<le> lexer_weight lx"
proof -
  have "lexer_weight (if c = newline then next_line lx else lx\<lparr>lx_column := lx_column lx + 1\<rparr>) = lexer_weight lx"
    by simp
  then show ?thesis
    using lexer_weight_flush [of "if c = newline then next_line lx else lx\<lparr>lx_column := lx_column lx + 1\<rparr>"]
    by (simp only: on_space_def)
qed

lemma lexer_weight_loop: "lexer_weight (tokenize_loop cs lx) \<le> lexer_weight lx + length cs"
proof (induction cs lx rule: tokenize_loop.induct)
  case (1 lx)
  show ?case by simp
next
  case (2 c cs lx)
  have b: "length (snd (line_comment cs)) \<le> length cs" "length (snd (string_literal cs)) \<le> length cs"
    "length (fst (snd (block_comment (tl cs) (flush_token lx)))) \<le> length cs"
    using line_comment_shorter string_literal_shorter block_comment_shorter [of "tl cs" "flush_token lx"] by auto
  note f = lexer_weight_flush [of lx]
  show ?case
  proof (cases rule: lexer_turn_cases [where c = c and cs = cs])
    case space
    then show ?thesis
      using "2.IH"(1) lexer_weight_space [of c lx] by simp
  next
    case word
    then show ?thesis
      using "2.IH"(2) by simp
  next
    case line
    then show ?thesis
      using "2.IH"(3) b f by (simp add: Let_def)
  next
    case block
    then show ?thesis
      using "2.IH"(4) b f by (simp add: Let_def)
  next
    case str
    then show ?thesis
      using "2.IH"(5) b f by (simp add: quote_def)
  next
    case punct
    moreover have "c \<noteq> quote" "c \<noteq> CHR ''/''"
      using punct(3) by (auto simp: quote_def is_punctuation_def)
    ultimately show ?thesis
      using "2.IH"(6) f by simp
  next
    case oper
    then show ?thesis
      using "2.IH"(7) f by auto
  qed
qed

text \<open>
  C21. The tokenizer returns on every source, unterminated comments and strings included, and the number of tokens is
  at most the number of characters plus the END token.
\<close>

theorem tokenize_bound: "tokenize source \<noteq> [] \<and> length (tokenize source) \<le> length source + 1"
proof -
  have "lexer_weight (flush_token (tokenize_loop source lexer_new)) \<le> length source"
    using lexer_weight_loop [of source lexer_new] lexer_weight_flush [of "tokenize_loop source lexer_new"]
    by (simp add: lexer_weight_def lexer_new_def)
  then show ?thesis
    by (simp add: tokenize_def lexer_weight_def)
qed

section \<open>What the tokens spell\<close>

text \<open>A source with no string literal and no comment.\<close>

fun plain_source :: "string \<Rightarrow> bool" where
  "plain_source [] \<longleftrightarrow> True"
| "plain_source (c # cs) \<longleftrightarrow> c \<noteq> quote \<and>
     \<not> (c = CHR ''/'' \<and> cs \<noteq> [] \<and> (hd cs = CHR ''/'' \<or> hd cs = CHR ''*'')) \<and> plain_source cs"

text \<open>Its lexemes: maximal runs of word characters, and every other character that is not white space.\<close>

function lexemes :: "string \<Rightarrow> (TokenType \<times> string) list" where
  "lexemes [] = []"
| "lexemes (c # cs) =
     (if is_space c then lexemes cs
      else if word_char c then
        (let w = takeWhile word_char (c # cs) in (word_type w, w) # lexemes (dropWhile word_char cs))
      else (if is_punctuation c then PUNCTUATION else OPERATOR, [c]) # lexemes cs)"
  by pat_completeness auto
termination
  by (relation "measure length") (auto simp: less_Suc_eq_le length_dropWhile_le)

abbreviation lexeme :: "Token \<Rightarrow> TokenType \<times> string" where
  "lexeme t \<equiv> (tok_type t, tok_value t)"

definition pending :: "string \<Rightarrow> string \<Rightarrow> (TokenType \<times> string) list" where
  "pending w cs =
     (if w = [] then lexemes cs
      else let v = w @ takeWhile word_char cs in (word_type v, v) # lexemes (dropWhile word_char cs))"

lemma word_char_not_space: "word_char c \<Longrightarrow> \<not> is_space c"
  by (auto simp: word_char_def is_alnum_def is_space_def is_digit_def Let_def)

lemma lexemes_flush:
  "map lexeme (tokens (flush_token lx)) =
     map lexeme (tokens lx) @ (if current_token lx = [] then [] else [(word_type (current_token lx), current_token lx)])"
  by (simp add: flush_token_def)

lemma lexemes_space:
  "map lexeme (tokens (on_space c lx)) =
     map lexeme (tokens lx) @ (if current_token lx = [] then [] else [(word_type (current_token lx), current_token lx)])"
  "current_token (on_space c lx) = []"
  by (simp_all add: on_space_def lexemes_flush)

lemma pending_snoc: "word_char c \<Longrightarrow> pending (w @ [c]) cs = pending w (c # cs)"
  using word_char_not_space by (simp add: pending_def)

lemma pending_other:
  "\<not> word_char c \<Longrightarrow>
     pending w (c # cs) = (if w = [] then [] else [(word_type w, w)]) @ lexemes (c # cs)"
  by (simp add: pending_def)

lemma lexemes_loop:
  assumes "plain_source cs"
  shows "map lexeme (tokens (flush_token (tokenize_loop cs lx))) = map lexeme (tokens lx) @ pending (current_token lx) cs"
  using assms
proof (induction cs arbitrary: lx)
  case Nil
  then show ?case
    by (simp add: lexemes_flush pending_def Let_def)
next
  case (Cons c cs)
  have ps: "plain_source cs" and q: "c \<noteq> quote"
    and s: "\<not> (c = CHR ''/'' \<and> cs \<noteq> [] \<and> hd cs = CHR ''/'')" "\<not> (c = CHR ''/'' \<and> cs \<noteq> [] \<and> hd cs = CHR ''*'')"
    using Cons.prems by auto
  note IH = Cons.IH [OF ps]
  consider "is_space c" | "\<not> is_space c" "word_char c" | "\<not> is_space c" "\<not> word_char c"
    by blast
  then show ?case
  proof cases
    case 1
    then have "\<not> word_char c"
      using word_char_not_space by blast
    then show ?thesis
      using 1 by (simp add: IH lexemes_space pending_other) (simp add: pending_def)
  next
    case 2
    then show ?thesis
      by (simp add: IH pending_snoc)
  next
    case 3
    let ?ty = "if is_punctuation c then PUNCTUATION else OPERATOR"
    have step: "tokenize_loop (c # cs) lx = tokenize_loop cs (add_token ?ty [c] (flush_token lx))"
      using 3 q s by (auto simp: Let_def)
    show ?thesis
      using 3 by (simp only: step IH) (simp add: lexemes_flush pending_other, simp add: pending_def)
  qed
qed

text \<open>
  C19. On a source with no comment and no string literal the tokenizer agrees with the reference lexer: its tokens are
  the maximal words and the single symbols of the source, in order, each with its class, followed by END.
\<close>

theorem tokenize_plain:
  assumes "plain_source source"
  shows "map lexeme (tokenize source) = lexemes source @ [(END, [])]"
  using lexemes_loop [OF assms, of lexer_new] by (simp add: tokenize_def lexer_new_def pending_def)

theorem tokenize_plain_witness:
  "map lexeme (tokenize ''uint x=42;'') =
     [(KEYWORD, ''uint''), (IDENTIFIER, ''x''), (OPERATOR, ''=''), (NUMBER, ''42''), (PUNCTUATION, '';''), (END, [])]"
proof -
  have "plain_source ''uint x=42;''"
    by (simp add: quote_def)
  moreover have "lexemes ''uint x=42;'' =
      [(KEYWORD, ''uint''), (IDENTIFIER, ''x''), (OPERATOR, ''=''), (NUMBER, ''42''), (PUNCTUATION, '';'')]"
    by code_simp
  ultimately show ?thesis
    using tokenize_plain [of "''uint x=42;''"] by simp
qed


text \<open>
  A line comment gets a third slash: the second one is still in the stream when the loop that collects the comment
  starts. A word that ends a line is recorded on the following line.
\<close>

lemma line_comment_all: "newline \<notin> set v \<Longrightarrow> line_comment v = (v, [])"
  by (induction v) auto

lemma tokenize_line_comment:
  assumes "newline \<notin> set v"
  shows "map lexeme (tokenize (''//'' @ v)) = [(COMMENT, ''///'' @ v), (END, [])]"
proof -
  have "\<not> is_space CHR ''/''" "\<not> word_char CHR ''/''"
    by code_simp+
  moreover have "newline \<notin> set (CHR ''/'' # v)"
    using assms by (simp add: newline_def)
  ultimately show ?thesis
    using line_comment_all [of "CHR ''/'' # v"]
    by (simp add: tokenize_def lexer_new_def flush_token_def Let_def)
qed

lemma tokenize_loop_word:
  "\<forall>c \<in> set w. word_char c \<Longrightarrow>
     tokenize_loop (w @ cs) lx = tokenize_loop cs (lx\<lparr>current_token := current_token lx @ w\<rparr>)"
  by (induction w arbitrary: lx) (auto simp: word_char_not_space)

lemma tokenize_word_newline:
  assumes "w \<noteq> []" and "\<forall>c \<in> set w. word_char c"
  shows "map (\<lambda>t. (tok_value t, tok_line t, tok_column t)) (tokenize (w @ [newline])) =
    [(w, 2, 1), ([], 2, 1 + of_nat (length w))]"
proof -
  have "is_space newline" "\<not> word_char newline"
    by code_simp+
  then show ?thesis
    using assms
    by (simp add: tokenize_def tokenize_loop_word lexer_new_def on_space_def next_line_def flush_token_def add_token_def)
qed

section \<open>Type names\<close>

text \<open>The source text of an elementary type of the given width, and of an array of it.\<close>

fun elementary_name :: "DataType \<Rightarrow> nat \<Rightarrow> string" where
  "elementary_name UINT b = ''uint'' @ to_string b"
| "elementary_name INT_T b = ''int'' @ to_string b"
| "elementary_name BYTES b = ''bytes'' @ to_string (b div 8)"
| "elementary_name ADDRESS b = ''address''"
| "elementary_name BOOL b = ''bool''"
| "elementary_name STRING_T b = ''string''"
| "elementary_name _ b = []"

fun width_ok :: "DataType \<Rightarrow> nat \<Rightarrow> bool" where
  "width_ok UINT b \<longleftrightarrow> b < 2 ^ 16"
| "width_ok INT_T b \<longleftrightarrow> b < 2 ^ 16"
| "width_ok BYTES b \<longleftrightarrow> b < 2 ^ 16 \<and> 8 dvd b"
| "width_ok ADDRESS b \<longleftrightarrow> b = 256"
| "width_ok BOOL b \<longleftrightarrow> b = 256"
| "width_ok STRING_T b \<longleftrightarrow> b = 256"
| "width_ok _ b \<longleftrightarrow> False"

fun array_suffix :: "nat option option \<Rightarrow> string" where
  "array_suffix None = []"
| "array_suffix (Some None) = ''[]''"
| "array_suffix (Some (Some n)) = ''['' @ to_string n @ '']''"

definition array_ok :: "nat option option \<Rightarrow> bool" where
  "array_ok a \<longleftrightarrow> (case a of Some (Some n) \<Rightarrow> n < 2 ^ 64 | _ \<Rightarrow> True)"

definition type_info :: "DataType \<Rightarrow> nat \<Rightarrow> nat option option \<Rightarrow> TypeInfo" where
  "type_info ty b a =
     \<lparr>base_type = Some ty, bits = of_nat b, is_array = (a \<noteq> None), is_mapping = False,
      array_size = (case a of Some (Some n) \<Rightarrow> Some (of_nat n) | _ \<Rightarrow> None)\<rparr>"

lemma to_string_no_bracket: "CHR ''['' \<notin> set (to_string n)"
  using to_string_digits [of n] by (auto simp: is_digit_def)

lemma elementary_no_bracket: "CHR ''['' \<notin> set (elementary_name ty b)"
  using to_string_no_bracket by (cases ty) auto

lemma ucast_of_nat_u16: "ucast (of_nat n :: u64) = (of_nat n :: u16)" if "n < 2 ^ 64"
  using that by (simp add: unsigned_of_nat take_bit_nat_eq_self)

lemma resolve_elementary:
  assumes "width_ok ty b"
  shows "resolve_basic (elementary_name ty b) = Inr (type_info ty b None)"
proof (cases ty)
  case BYTES
  then obtain k where k: "b = 8 * k" "8 * k < 2 ^ 16"
    using assms by (auto elim: dvdE)
  have "of_nat k * 8 = (of_nat (8 * k) :: u64)"
    by simp
  then have "ucast (of_nat k * 8 :: u64) = (of_nat (8 * k) :: u16)"
    using ucast_of_nat_u16 [of "8 * k"] k(2) by (simp only:) simp
  then show ?thesis
    using k by (simp add: BYTES resolve_basic_def set_bits_def Let_def TypeInfo_new_def type_info_def)
qed (use assms in \<open>simp_all add: resolve_basic_def set_bits_def Let_def TypeInfo_new_def type_info_def ucast_of_nat_u16\<close>)

text \<open>
  Type names resolve to what they say: for every elementary type and width that fits the 16-bit field, alone, as a
  dynamic array or as an array of any 64-bit size, resolving the printed name gives that type, width and size, and
  reports no error.
\<close>

theorem resolve_type_roundtrip:
  assumes "width_ok ty b" and "array_ok a"
  shows "resolve_type (elementary_name ty b @ array_suffix a) p = (Inr (type_info ty b a), p)"
proof -
  let ?n = "elementary_name ty b"
  have base: "resolve_type ?n q = (Inr (type_info ty b None), q)" for q
    using elementary_no_bracket by (simp add: resolve_type.simps [of ?n] resolve_elementary [OF assms(1)])
  have tw: "takeWhile (\<lambda>c. c \<noteq> CHR ''['') (?n @ CHR ''['' # s) = ?n" 
    and dw: "dropWhile (\<lambda>c. c \<noteq> CHR ''['') (?n @ CHR ''['' # s) = CHR ''['' # s" for s
    using elementary_no_bracket [of ty b] by (auto simp: takeWhile_append dropWhile_append)
  show ?thesis
  proof (cases a)
    case None
    then show ?thesis by (simp add: base)
  next
    case (Some n)
    show ?thesis
    proof (cases n)
      case None
      show ?thesis
        by (simp add: Some None resolve_type.simps [of "?n @ ''[]''"] tw dw base) (simp add: type_info_def TypeInfo_new_def)
    next
      case (Some k)
      have "k < 2 ^ 64"
        using assms(2) by (simp add: \<open>a = Some n\<close> Some array_ok_def)
      then have "array_spec_size (''['' @ to_string k @ '']'') = Inr (of_nat k)"
        by (simp add: array_spec_size_def)
      moreover have "''['' @ to_string k @ '']'' \<noteq> ''[]''"
        by simp
      ultimately show ?thesis
        by (simp add: \<open>a = Some n\<close> Some resolve_type.simps [of "?n @ CHR ''['' # s" for s] tw dw base)
          (simp add: type_info_def TypeInfo_new_def)
    qed
  qed
qed

theorem resolve_type_roundtrip_witness:
  "resolve_type ''uint8[3]'' \<lparr>sp_errors = [], sp_warnings = []\<rparr> =
     (Inr \<lparr>base_type = Some UINT, bits = 8, is_array = True, is_mapping = False, array_size = Some 3\<rparr>,
      \<lparr>sp_errors = [], sp_warnings = []\<rparr>)"
proof -
  have "elementary_name UINT 8 @ array_suffix (Some (Some 3)) = ''uint8[3]''"
    by code_simp
  moreover have "width_ok UINT 8" "array_ok (Some (Some 3))"
    by (simp_all add: array_ok_def)
  ultimately show ?thesis
    using resolve_type_roundtrip [of UINT 8 "Some (Some 3)" "\<lparr>sp_errors = [], sp_warnings = []\<rparr>"]
    by (simp only: type_info_def) simp
qed

text \<open>
  What the resolver does with other names: the width is reduced to 16 bits, only the first dimension of a nested array is
  kept, a name that merely starts with \<open>int\<close> raises an exception, an unknown name is returned with no base type and no
  error.
\<close>

lemma resolve_width_reduced:
  "b < 2 ^ 63 \<Longrightarrow> resolve_basic (''uint'' @ to_string (b + 2 ^ 16)) = resolve_basic (''uint'' @ to_string b)"
proof -
  assume b: "b < 2 ^ 63"
  then have "ucast (of_nat (b + 2 ^ 16) :: u64) = (of_nat b :: u16)"
    by (subst ucast_of_nat_u16) simp_all
  then have "ucast (of_nat (b + 2 ^ 16) :: u64) = (ucast (of_nat b :: u64) :: u16)"
    using b by (simp add: ucast_of_nat_u16)
  moreover have "b + 2 ^ 16 < 2 ^ 64" "b < 2 ^ 64"
    using b by simp_all
  ultimately show ?thesis
    by (simp only: resolve_basic_def set_bits_def Let_def) simp
qed

lemma resolve_nested_array: "array_spec_size ''[3][4]'' = Inr 3"
  by (simp add: array_spec_size_def stoull_def is_space_def is_digit_def decimal_val_def digit_val_def)

lemma resolve_unknown:
  "resolve_basic ''interface'' = Inl (Invalid_argument ''stoull'')" "resolve_basic ''unknown'' = Inr TypeInfo_new"
  by (simp_all add: resolve_basic_def set_bits_def Let_def stoull_def is_space_def is_digit_def)

end
