(* ===== verification/P2P_Connection.thy ===== *)
theory P2P_Connection
  imports Std_Map Lock_Free_Queue
begin

text \<open>
  A peer-to-peer connection (\<open>include/network/P2PConnection.hpp\<close>, \<open>src/network/P2PConnection.cpp\<close>): its state machine,
  the framing of messages, the receive path and its queue, statistics, NAT traversal and the parser of STUN responses.
  Boost.Asio is not part of the sources: the record \<open>asio\<close> holds the operations of a UDP socket that the code calls,
  over an arbitrary socket type, with \<open>None\<close> for a \<open>system_error\<close>; \<open>asio_ok\<close> is what its documentation promises and
  the lemmas need. What the other peers, the router and the clock do is an argument of the operation that observes it.
  A datagram arrives in a zeroed buffer of \<open>MAX_MESSAGE_SIZE\<close> bytes.
\<close>

section \<open>The socket library\<close>

record 's asio =
  as_is_open :: "'s \<Rightarrow> bool"
  as_open :: "'s \<Rightarrow> 's option"
  as_set_options :: "'s \<Rightarrow> 's option"
  as_bind :: "u16 \<Rightarrow> 's \<Rightarrow> 's option"
  as_close :: "'s \<Rightarrow> 's"
  as_address_ok :: "string \<Rightarrow> bool"
  as_send_to :: "string \<Rightarrow> u16 \<Rightarrow> bytes \<Rightarrow> 's \<Rightarrow> 's option"

text \<open>
  Opening an open socket is an error; a socket is open after it has been opened, stays so while it is configured, bound
  and used, and is not open after it has been closed.
\<close>

definition asio_ok :: "'s asio \<Rightarrow> bool" where
  "asio_ok A \<longleftrightarrow>
     (\<forall>s. as_is_open A s \<longrightarrow> as_open A s = None) \<and>
     (\<forall>s t. as_open A s = Some t \<longrightarrow> as_is_open A t) \<and>
     (\<forall>s t. as_set_options A s = Some t \<longrightarrow> as_is_open A t = as_is_open A s) \<and>
     (\<forall>p s t. as_bind A p s = Some t \<longrightarrow> as_is_open A t = as_is_open A s) \<and>
     (\<forall>a p d s t. as_send_to A a p d s = Some t \<longrightarrow> as_is_open A t = as_is_open A s) \<and>
     (\<forall>s. \<not> as_is_open A (as_close A s))"

text \<open>What calling a function comes to, where it can also end the program or never return.\<close>

datatype 'a outcome = Returns 'a | Throws | Terminates | Blocks

section \<open>State\<close>

definition MAX_MESSAGE_SIZE :: nat where
  "MAX_MESSAGE_SIZE = 1024 * 1024"

definition STUN_MAGIC_COOKIE :: u32 where
  "STUN_MAGIC_COOKIE = 0x2112A442"

text \<open>What \<open>io_thread_\<close> runs: the loop of the constructor ends when \<open>running_\<close> is cleared, that of \<open>start\<close> when \<open>should_stop\<close> is set.\<close>

datatype io_thread = No_thread | Run_loop | Incoming_loop

datatype CState = Disconnected | Connecting | Connected

record Message =
  sender_address :: string
  sender_port :: u16
  msg_data :: bytes

record ConnectionStats =
  bytes_sent :: u64
  bytes_received :: u64
  messages_sent :: u64
  messages_received :: u64
  connected_since :: nat

record Peer =
  peer_id :: string
  peer_address :: string
  peer_port :: u16

record ConnConfig =
  cc_port :: u16
  cc_stun_server :: string
  cc_stun_port :: u16
  cc_enable_upnp :: bool
  cc_enable_nat_pmp :: bool
  cc_max_peers :: u64
  cc_hole_punch_timeout :: nat
  cc_keep_alive_interval :: nat

text \<open>
  The members of \<open>Impl\<close>. A handler that is set is represented by the list of the calls made to it; the address of a
  message that has been moved from is \<open>None\<close>. \<open>receives\<close> counts the asynchronous receives that are outstanding, \<open>timer_armed\<close>
  says whether a wait on the timer is.
\<close>

record 's P2PConnection =
  p_config :: ConnConfig
  p_socket :: 's
  timer_armed :: bool
  should_stop :: bool
  peers :: "(string, Peer) smap"
  message_handler :: "(string option \<times> u16 \<times> bytes) list option"
  peer_disconnected_handler :: "string list option"
  public_ip :: string
  public_port :: u16
  p_io_thread :: io_thread
  message_queue :: "Message list"
  local_address :: string
  p_state :: CState
  p_stats :: ConnectionStats
  p_running :: bool
  receives :: nat

definition ConnectionStats_new :: ConnectionStats where
  "ConnectionStats_new =
     \<lparr>bytes_sent = 0, bytes_received = 0, messages_sent = 0, messages_received = 0, connected_since = 0\<rparr>"

definition Impl_new :: "ConnConfig \<Rightarrow> 's \<Rightarrow> 's P2PConnection" where
  "Impl_new config s =
     \<lparr>p_config = config, p_socket = s, timer_armed = False, should_stop = False, peers = [], message_handler = None,
      peer_disconnected_handler = None, public_ip = [], public_port = 0, p_io_thread = No_thread, message_queue = [],
      local_address = [], p_state = Disconnected, p_stats = ConnectionStats_new, p_running = False, receives = 0\<rparr>"

definition start_receive :: "'s P2PConnection \<Rightarrow> 's P2PConnection" where
  "start_receive c = c\<lparr>receives := receives c + 1\<rparr>"

text \<open>
  The constructor: the outcome of the port mapping is only logged, so it is no argument. \<open>None\<close>: an exception of the socket
  is logged and thrown again.
\<close>

definition P2PConnection_new :: "'s asio \<Rightarrow> ConnConfig \<Rightarrow> 's \<Rightarrow> 's P2PConnection option" where
  "P2PConnection_new A config s0 =
     (case as_open A s0 of None \<Rightarrow> None | Some s1 \<Rightarrow>
      case as_set_options A s1 of None \<Rightarrow> None | Some s2 \<Rightarrow>
      case as_bind A (cc_port config) s2 of None \<Rightarrow> None | Some s3 \<Rightarrow>
        Some (start_receive ((Impl_new config s3)\<lparr>p_running := True, p_io_thread := Run_loop\<rparr>)))"

definition P2PConnection_destroy :: "'s asio \<Rightarrow> 's P2PConnection \<Rightarrow> 's P2PConnection" where
  "P2PConnection_destroy A c =
     (let c = c\<lparr>p_running := False\<rparr>;
          c = (if as_is_open A (p_socket c) then c\<lparr>p_socket := as_close A (p_socket c)\<rparr> else c)
      in c\<lparr>p_io_thread := No_thread\<rparr>)"

section \<open>Connecting\<close>

definition conn_connect :: "'s asio \<Rightarrow> nat \<Rightarrow> 's P2PConnection \<Rightarrow> bool \<times> 's P2PConnection" where
  "conn_connect A now c =
     (if p_state c \<noteq> Disconnected then (False, c)
      else
        let c = c\<lparr>p_state := Connecting\<rparr>;
            opened = (if \<not> as_is_open A (p_socket c)
                      then map_option (\<lambda>s. start_receive (c\<lparr>p_socket := s\<rparr>)) (as_open A (p_socket c))
                      else Some c)
        in case opened of
             None \<Rightarrow> (False, c\<lparr>p_state := Disconnected\<rparr>)
           | Some c \<Rightarrow>
               (True, c\<lparr>timer_armed := True, p_state := Connected, p_stats := (p_stats c)\<lparr>connected_since := now\<rparr>\<rparr>))"

definition conn_disconnect :: "'s asio \<Rightarrow> 's P2PConnection \<Rightarrow> 's P2PConnection" where
  "conn_disconnect A c =
     (if p_state c = Disconnected then c
      else
        let c = c\<lparr>timer_armed := False\<rparr>;
            c = (if as_is_open A (p_socket c) then c\<lparr>p_socket := as_close A (p_socket c)\<rparr> else c)
        in c\<lparr>message_queue := [], p_state := Disconnected,
             peer_disconnected_handler := map_option (\<lambda>calls. calls @ [[]]) (peer_disconnected_handler c)\<rparr>)"

definition is_connected :: "'s asio \<Rightarrow> 's P2PConnection \<Rightarrow> bool" where
  "is_connected A c \<longleftrightarrow> p_state c = Connected \<and> as_is_open A (p_socket c)"

definition has_message :: "'s P2PConnection \<Rightarrow> bool" where
  "has_message c \<longleftrightarrow> message_queue c \<noteq> []"

definition receive_message :: "'s P2PConnection \<Rightarrow> Message option \<times> 's P2PConnection" where
  "receive_message c =
     (case message_queue c of [] \<Rightarrow> (None, c) | m # ms \<Rightarrow> (Some m, c\<lparr>message_queue := ms\<rparr>))"

section \<open>Sending\<close>

text \<open>The size header, big endian, and the message.\<close>

definition size_header :: "u32 \<Rightarrow> bytes" where
  "size_header sz =
     [ucast (drop_bit 24 sz AND 0xFF), ucast (drop_bit 16 sz AND 0xFF), ucast (drop_bit 8 sz AND 0xFF), ucast (sz AND 0xFF)]"

definition packet_of :: "bytes \<Rightarrow> bytes" where
  "packet_of message = size_header (of_nat (length message)) @ message"

definition update_stats :: "u64 \<Rightarrow> u64 \<Rightarrow> 's P2PConnection \<Rightarrow> 's P2PConnection" where
  "update_stats sent received c =
     c\<lparr>p_stats := (p_stats c)
         \<lparr>bytes_sent := bytes_sent (p_stats c) + sent,
          bytes_received := bytes_received (p_stats c) + received,
          messages_sent := (if sent > 0 then messages_sent (p_stats c) + 1 else messages_sent (p_stats c)),
          messages_received := (if received > 0 then messages_received (p_stats c) + 1 else messages_received (p_stats c))\<rparr>\<rparr>"

definition send_message :: "'s asio \<Rightarrow> string \<Rightarrow> u16 \<Rightarrow> bytes \<Rightarrow> 's P2PConnection \<Rightarrow> bool \<times> 's P2PConnection" where
  "send_message A peer_addr port message c =
     (if \<not> as_address_ok A peer_addr then (False, c)
      else let packet = packet_of message in
        case as_send_to A peer_addr port packet (p_socket c) of
          None \<Rightarrow> (False, c)
        | Some s \<Rightarrow> (True, update_stats (of_nat (length packet)) 0 (c\<lparr>p_socket := s\<rparr>)))"

definition conn_ping :: "'s asio \<Rightarrow> 's P2PConnection \<Rightarrow> 's P2PConnection" where
  "conn_ping A c = snd (send_message A (public_ip c) (public_port c) (bytes_of_string ''PING'') c)"

definition handle_handshake :: "'s asio \<Rightarrow> 's P2PConnection \<Rightarrow> bool \<times> 's P2PConnection" where
  "handle_handshake A c = send_message A (public_ip c) (public_port c) (bytes_of_string ''HELO'') c"

definition broadcast_address :: string where
  "broadcast_address = ''255.255.255.255''"

definition conn_broadcast :: "'s asio \<Rightarrow> bytes \<Rightarrow> 's P2PConnection \<Rightarrow> bool \<times> 's P2PConnection" where
  "conn_broadcast A message c =
     (if p_state c \<noteq> Connected then (False, c)
      else let packet = packet_of message in
        case as_send_to A broadcast_address (cc_port (p_config c)) packet (p_socket c) of
          None \<Rightarrow> (False, c)
        | Some s \<Rightarrow>
            (True, c\<lparr>p_socket := s, p_stats := (p_stats c)
               \<lparr>messages_sent := messages_sent (p_stats c) + 1,
                bytes_sent := bytes_sent (p_stats c) + of_nat (length packet)\<rparr>\<rparr>))"

text \<open>The turn of the keep-alive timer, which is armed again.\<close>

fun ping_peers :: "'s asio \<Rightarrow> Peer list \<Rightarrow> 's P2PConnection \<Rightarrow> 's P2PConnection" where
  "ping_peers A [] c = c"
| "ping_peers A (p # ps) c = ping_peers A ps (snd (send_message A (peer_address p) (peer_port p) (bytes_of_string ''PING'') c))"

definition maintain_connections :: "'s asio \<Rightarrow> 's P2PConnection \<Rightarrow> 's P2PConnection" where
  "maintain_connections A c =
     (if p_state c \<noteq> Connected then c
      else (ping_peers A (map snd (peers c)) c)\<lparr>timer_armed := True\<rparr>)"

section \<open>Receiving\<close>

definition size_of_header :: "bytes \<Rightarrow> u32" where
  "size_of_header b =
     push_bit 24 (ucast (b ! 0)) OR push_bit 16 (ucast (b ! 1)) OR push_bit 8 (ucast (b ! 2)) OR ucast (b ! 3)"

definition receive_buffer :: "bytes \<Rightarrow> bytes" where
  "receive_buffer d = take MAX_MESSAGE_SIZE d @ replicate (MAX_MESSAGE_SIZE - length d) 0"

definition queue_message :: "Message \<Rightarrow> 's P2PConnection \<Rightarrow> 's P2PConnection" where
  "queue_message m c = c\<lparr>message_queue := message_queue c @ [m]\<rparr>"

text \<open>
  \<open>handle_receive\<close> on a received datagram \<open>d\<close> (\<open>None\<close>: an error). The sum of the message size and 4 is a 32-bit sum. The
  handler is given the message after it has been moved into the queue.
\<close>

definition handle_receive :: "bytes option \<Rightarrow> string \<Rightarrow> u16 \<Rightarrow> 's P2PConnection \<Rightarrow> 's P2PConnection res" where
  "handle_receive r from port c =
     (case r of
        None \<Rightarrow> Inr (if \<not> should_stop c then start_receive c else c)
      | Some d \<Rightarrow>
          let buffer = receive_buffer d; bytes_transferred = min (length d) MAX_MESSAGE_SIZE in
          if bytes_transferred < 4 then Inr c
          else let message_size = size_of_header buffer in
            if bytes_transferred < unat (message_size + 4) then Inr c
            else if 4 + unat message_size > length buffer then Inl (Undefined ''range outside the receive buffer'')
            else
              let data = take (unat message_size) (drop 4 buffer);
                  c = queue_message \<lparr>sender_address = from, sender_port = port, msg_data = data\<rparr> c;
                  c = c\<lparr>message_handler := map_option (\<lambda>calls. calls @ [(None, port, [])]) (message_handler c)\<rparr>
              in Inr (start_receive (update_stats 0 (of_nat bytes_transferred) c)))"

text \<open>The completion handler that \<open>start_receive\<close> installs: one outstanding receive ends, and another is started.\<close>

definition on_receive :: "bytes option \<Rightarrow> string \<Rightarrow> u16 \<Rightarrow> 's P2PConnection \<Rightarrow> 's P2PConnection res" where
  "on_receive r from port c =
     map_sum id start_receive (handle_receive r from port (c\<lparr>receives := receives c - 1\<rparr>))"

text \<open>A turn of \<open>process_incoming_data\<close>, which queues datagrams without looking at their header; the second part says whether the loop goes on.\<close>

definition incoming_data_turn :: "bytes option \<Rightarrow> string \<Rightarrow> u16 \<Rightarrow> 's P2PConnection \<Rightarrow> 's P2PConnection \<times> bool" where
  "incoming_data_turn r from port c =
     (case r of
        None \<Rightarrow> (c, False)
      | Some d \<Rightarrow>
          let d = take MAX_MESSAGE_SIZE d in
          if length d > 0 then
            let c = queue_message \<lparr>sender_address = from, sender_port = port, msg_data = d\<rparr> c;
                c = update_stats 0 (of_nat (length d)) c
            in (c\<lparr>message_handler := map_option (\<lambda>calls. calls @ [(Some from, port, [])]) (message_handler c)\<rparr>, True)
          else (c, True))"

definition handle_nat_traversal_response :: "bool \<Rightarrow> nat \<Rightarrow> 's P2PConnection \<Rightarrow> 's P2PConnection" where
  "handle_nat_traversal_response error bytes_transferred c =
     (if error then c else if bytes_transferred < 4 then c else c\<lparr>p_state := Connected\<rparr>)"

definition incoming_connection_turn :: "bytes option \<Rightarrow> string \<Rightarrow> u16 \<Rightarrow> 's P2PConnection \<Rightarrow> 's P2PConnection" where
  "incoming_connection_turn r from port c =
     (case r of
        None \<Rightarrow> c
      | Some d \<Rightarrow>
          let d = take MAX_MESSAGE_SIZE d in
          if length d \<ge> 4 then
            if take 4 d = bytes_of_string ''HOLE'' then handle_nat_traversal_response False (length d) c
            else c\<lparr>message_handler := map_option (\<lambda>calls. calls @ [(Some from, port, d)]) (message_handler c)\<rparr>
          else c)"

section \<open>STUN\<close>

text \<open>The request: binding request, no attributes, the cookie in network order and twelve random bytes.\<close>

definition stun_request :: "bytes \<Rightarrow> bytes" where
  "stun_request random = [0x00, 0x01, 0x00, 0x00] @ rev (u32_bytes STUN_MAGIC_COOKIE) @ take 12 random"

definition be16 :: "u8 \<Rightarrow> u8 \<Rightarrow> u16" where
  "be16 hi lo = push_bit 8 (ucast hi) OR ucast lo"

text \<open>\<open>inet_ntop(AF_INET, &ip, ...)\<close> prints the four bytes of \<open>ip\<close> in the order they have in memory.\<close>

definition inet_ntop :: "u32 \<Rightarrow> string" where
  "inet_ntop ip =
     (let q = map (\<lambda>b. to_string (unat b)) (u32_bytes ip) in q ! 0 @ ''.'' @ q ! 1 @ ''.'' @ q ! 2 @ ''.'' @ q ! 3)"

text \<open>The loop over the attributes of a response of which \<open>len\<close> bytes were received.\<close>

function stun_attributes :: "bytes \<Rightarrow> nat \<Rightarrow> nat \<Rightarrow> (u32 \<times> u16) option res" where
  "stun_attributes response len pos =
     (if pos + 4 \<le> len then
        let ty = be16 (response ! pos) (response ! (pos + 1));
            n = be16 (response ! (pos + 2)) (response ! (pos + 3))
        in if ty = 0x0020 \<and> n \<ge> 8 then
             (if pos + 12 \<le> length response then
                Inr (Some (bytes_u32 (take 4 (drop (pos + 8) response)) XOR STUN_MAGIC_COOKIE,
                  be16 (response ! (pos + 6)) (response ! (pos + 7)) XOR ucast (drop_bit 16 STUN_MAGIC_COOKIE)))
              else Inl (Undefined ''read outside the response''))
           else stun_attributes response len (pos + 4 + unat n)
      else Inr None)"
  by pat_completeness auto
termination
  by (relation "measure (\<lambda>(response, len, pos). len - pos)") auto

declare stun_attributes.simps [simp del]

definition stun_response_buffer :: "bytes \<Rightarrow> bytes" where
  "stun_response_buffer d = take 512 d @ replicate (512 - length d) 0"

definition stun_parse :: "bytes \<Rightarrow> (u32 \<times> u16) option res" where
  "stun_parse d =
     (let len = min (length d) 512 in
      if len \<ge> 20 then stun_attributes (stun_response_buffer d) len 20 else Inr None)"

text \<open>What the outside does during a STUN request: the random bytes, the resolved server, the datagram received.\<close>

record stun_env =
  se_random :: bytes
  se_server :: "(string \<times> u16) option"
  se_reply :: "bytes option"

definition perform_stun_request :: "'s asio \<Rightarrow> stun_env \<Rightarrow> 's P2PConnection \<Rightarrow> (bool \<times> 's P2PConnection) res" where
  "perform_stun_request A E c =
     (case se_server E of None \<Rightarrow> Inr (False, c) | Some (ip, port) \<Rightarrow>
      case as_send_to A ip port (stun_request (se_random E)) (p_socket c) of None \<Rightarrow> Inr (False, c) | Some s \<Rightarrow>
      let c = c\<lparr>p_socket := s\<rparr> in
      case se_reply E of None \<Rightarrow> Inr (False, c) | Some d \<Rightarrow>
      case stun_parse d of
        Inl e \<Rightarrow> Inl e
      | Inr None \<Rightarrow> Inr (False, c)
      | Inr (Some (ip, port)) \<Rightarrow> Inr (True, c\<lparr>public_ip := inet_ntop ip, public_port := port\<rparr>))"

definition get_public_endpoint :: "'s asio \<Rightarrow> stun_env \<Rightarrow> 's P2PConnection \<Rightarrow> ((string \<times> u16) \<times> 's P2PConnection) res" where
  "get_public_endpoint A E c =
     (case perform_stun_request A E c of
        Inl e \<Rightarrow> Inl e
      | Inr (ok, c) \<Rightarrow> Inr (if \<not> ok then ([], 0) else (public_ip c, public_port c), c))"

section \<open>Starting, stopping and traversal\<close>

text \<open>\<open>upnp\<close> and \<open>nat_pmp\<close> are what the router answers.\<close>

definition setup_port_mapping :: "bool \<Rightarrow> bool \<Rightarrow> ConnConfig \<Rightarrow> bool" where
  "setup_port_mapping upnp nat_pmp config =
     (let success = (if cc_enable_upnp config then upnp else False)
      in if \<not> success \<and> cc_enable_nat_pmp config then nat_pmp else success)"

text \<open>
  \<open>start\<close> opens and binds the socket, asks for the public endpoint and assigns a new thread to \<open>io_thread_\<close>; assigning to
  a \<open>std::thread\<close> that is joinable calls \<open>std::terminate\<close>. The result of the port mapping is only logged.
\<close>

definition conn_start :: "'s asio \<Rightarrow> stun_env \<Rightarrow> 's P2PConnection \<Rightarrow> (bool outcome \<times> 's P2PConnection) res" where
  "conn_start A E c =
     (case as_open A (p_socket c) of None \<Rightarrow> Inr (Returns False, c) | Some s \<Rightarrow>
      let c = c\<lparr>p_socket := s\<rparr> in
      case as_bind A (cc_port (p_config c)) s of None \<Rightarrow> Inr (Returns False, c) | Some s \<Rightarrow>
      case get_public_endpoint A E (c\<lparr>p_socket := s\<rparr>) of
        Inl e \<Rightarrow> Inl e
      | Inr ((ip, port), c) \<Rightarrow>
          let c = c\<lparr>public_ip := ip, public_port := port\<rparr> in
          Inr (if p_io_thread c \<noteq> No_thread then (Terminates, c)
               else (Returns True, c\<lparr>p_io_thread := Incoming_loop\<rparr>)))"

definition conn_stop :: "'s asio \<Rightarrow> 's P2PConnection \<Rightarrow> unit outcome \<times> 's P2PConnection" where
  "conn_stop A c =
     (let c = c\<lparr>should_stop := True, p_socket := as_close A (p_socket c)\<rparr> in
      if p_io_thread c = Run_loop \<and> p_running c then (Blocks, c)
      else (Returns (), c\<lparr>p_io_thread := No_thread\<rparr>))"

text \<open>
  Hole punching sends up to three packets; \<open>arrivals\<close> are the messages queued during the pause after each.
\<close>

fun punch :: "'s asio \<Rightarrow> string \<Rightarrow> u16 \<Rightarrow> Message list list \<Rightarrow> 's P2PConnection \<Rightarrow> bool option outcome \<times> 's P2PConnection" where
  "punch A addr port [] c = (Returns None, c)"
| "punch A addr port (ms # arrivals) c =
     (case as_send_to A addr port (bytes_of_string ''PUNCH'') (p_socket c) of
        None \<Rightarrow> (Throws, c)
      | Some s \<Rightarrow>
          let c = c\<lparr>p_socket := s, message_queue := message_queue c @ ms\<rparr> in
          if has_message c then (Returns (Some True), c) else punch A addr port arrivals c)"

text \<open>\<open>mapped\<close> is the port \<open>STUNClient::get_mapped_address\<close> found, \<open>upnp\<close> and \<open>nat_pmp\<close> the answers to the mapping requests.\<close>

definition perform_nat_traversal ::
    "'s asio \<Rightarrow> u16 option \<Rightarrow> bool \<Rightarrow> bool \<Rightarrow> Message list list \<Rightarrow> string \<Rightarrow> u16 \<Rightarrow> 's P2PConnection
      \<Rightarrow> bool outcome \<times> 's P2PConnection" where
  "perform_nat_traversal A mapped upnp nat_pmp arrivals addr port c =
     (case mapped of None \<Rightarrow> (Returns False, c) | Some public \<Rightarrow>
      let mapping_success = (if cc_enable_upnp (p_config c) then upnp
                             else if cc_enable_nat_pmp (p_config c) then nat_pmp else False)
      in if \<not> as_address_ok A addr then (Throws, c)
         else case punch A addr port (take 3 arrivals) c of
           (Returns (Some r), c) \<Rightarrow> (Returns r, c)
         | (Returns None, c) \<Rightarrow> (Returns mapping_success, c)
         | (Throws, c) \<Rightarrow> (Throws, c)
         | (Terminates, c) \<Rightarrow> (Terminates, c)
         | (Blocks, c) \<Rightarrow> (Blocks, c))"

text \<open>The loop of \<open>start_hole_punching\<close> when \<open>turns\<close> turns fit in the time-out.\<close>

fun hole_punching :: "'s asio \<Rightarrow> string \<Rightarrow> u16 \<Rightarrow> nat \<Rightarrow> 's P2PConnection \<Rightarrow> 's P2PConnection" where
  "hole_punching A addr port 0 c = c"
| "hole_punching A addr port (Suc turns) c =
     (case as_send_to A addr port (bytes_of_string ''HOLE'') (p_socket c) of
        None \<Rightarrow> c
      | Some s \<Rightarrow> hole_punching A addr port turns (c\<lparr>p_socket := s\<rparr>))"

definition start_hole_punching :: "'s asio \<Rightarrow> string \<Rightarrow> u16 \<Rightarrow> nat \<Rightarrow> 's P2PConnection \<Rightarrow> 's P2PConnection" where
  "start_hole_punching A addr port turns c = (if as_address_ok A addr then hole_punching A addr port turns c else c)"

section \<open>Framing\<close>

lemma and_255: "x AND 0xFF = take_bit 8 x" for x :: u32
  by (simp add: take_bit_eq_mask mask_eq_exp_minus_1)

lemma ucast_take_bit_8: "ucast (take_bit 8 x) = (ucast x :: u8)" for x :: u32
  by (rule bit_word_eqI) (auto simp: bit_simps)

lemma be32_inv:
  fixes w :: u32
  shows "push_bit 24 (ucast (ucast (drop_bit 24 w) :: u8)) OR push_bit 16 (ucast (ucast (drop_bit 16 w) :: u8)) OR
    push_bit 8 (ucast (ucast (drop_bit 8 w) :: u8)) OR ucast (ucast w :: u8) = w" (is "?l = w")
proof (rule bit_word_eqI)
  fix n
  assume "n < LENGTH(32)"
  then consider "n < 8" | "8 \<le> n" "n < 16" | "16 \<le> n" "n < 24" | "24 \<le> n" "n < 32"
    by fastforce
  then show "bit ?l n = bit w n"
    by cases (auto simp: bit_simps)
qed

lemma be16_inv:
  fixes w :: u16
  shows "be16 (ucast (drop_bit 8 w)) (ucast w) = w"
proof (rule bit_word_eqI)
  fix n
  assume "n < LENGTH(16)"
  then consider "n < 8" | "8 \<le> n" "n < 16"
    by fastforce
  then show "bit (be16 (ucast (drop_bit 8 w)) (ucast w)) n = bit w n"
    by cases (auto simp: bit_simps be16_def)
qed

lemma length_size_header [simp]: "length (size_header w) = 4"
  by (simp add: size_header_def)

lemma size_of_header_inv: "size_of_header (size_header w @ rest) = w"
  using be32_inv [of w] by (simp add: size_of_header_def size_header_def and_255 ucast_take_bit_8)

lemma size_of_header_buffer: "length d \<ge> 4 \<Longrightarrow> size_of_header (receive_buffer d) = size_of_header d"
  by (auto simp: size_of_header_def receive_buffer_def MAX_MESSAGE_SIZE_def nth_append)

text \<open>
  C14. What a peer frames is what the receiver queues: a datagram that starts with the packet of a message, up to the size of the
  receive buffer, is taken as that message from its sender, appended to the queue and counted, whatever bytes follow.
\<close>

theorem packet_received:
  assumes "length (packet_of m @ extra) \<le> MAX_MESSAGE_SIZE"
  shows "\<exists>c'. handle_receive (Some (packet_of m @ extra)) from port c = Inr c'
    \<and> message_queue c' = message_queue c @ [\<lparr>sender_address = from, sender_port = port, msg_data = m\<rparr>]
    \<and> bytes_received (p_stats c') = bytes_received (p_stats c) + of_nat (length (packet_of m @ extra))
    \<and> messages_received (p_stats c') = messages_received (p_stats c) + 1
    \<and> p_state c' = p_state c"
proof -
  let ?d = "packet_of m @ extra" and ?sz = "of_nat (length m) :: u32"
  have small: "length m + length extra + 4 \<le> 1048576"
    using assms by (simp add: packet_of_def MAX_MESSAGE_SIZE_def)
  have len: "4 \<le> length ?d" "min (length ?d) MAX_MESSAGE_SIZE = length ?d"
    using assms by (simp_all add: packet_of_def min_def)
  have hdr: "size_of_header (receive_buffer ?d) = ?sz"
    using size_of_header_buffer [OF len(1)] by (simp add: packet_of_def size_of_header_inv)
  have sz: "unat ?sz = length m" "unat (?sz + 4) = length m + 4"
    using small by (simp_all add: unat_of_nat unat_word_ariths)
  have buf: "length (receive_buffer ?d) = MAX_MESSAGE_SIZE" "take (length m) (drop 4 (receive_buffer ?d)) = m"
    using assms by (simp_all add: receive_buffer_def packet_of_def)
  have "unat (of_nat (length ?d) :: u64) = length ?d"
    using assms by (intro unat_of_nat_u64) (simp add: MAX_MESSAGE_SIZE_def)
  then have nz: "(0 :: u64) < of_nat (length ?d)"
    using len(1) by (simp only: word_less_nat_alt unat_0)
  have ok: "\<not> length ?d < 4" "\<not> length ?d < length m + 4" "\<not> 4 + length m > MAX_MESSAGE_SIZE"
    using small by (simp_all add: packet_of_def MAX_MESSAGE_SIZE_def)
  show ?thesis
    using nz by (simp only: handle_receive_def option.case Let_def hdr sz buf len ok if_False sum.inject ex_simps)
      (simp add: update_stats_def start_receive_def queue_message_def)
qed

theorem packet_received_witness:
  "\<exists>c'. handle_receive (Some (packet_of [1, 2] @ [9])) ''10.0.0.1'' 7 (Impl_new \<lparr>cc_port = 1, cc_stun_server = [],
      cc_stun_port = 2, cc_enable_upnp = False, cc_enable_nat_pmp = False, cc_max_peers = 3, cc_hole_punch_timeout = 4,
      cc_keep_alive_interval = 5\<rparr> ()) = Inr c'
    \<and> message_queue c' = [\<lparr>sender_address = ''10.0.0.1'', sender_port = 7, msg_data = [1, 2]\<rparr>]"
proof -
  have "length (packet_of [1, 2] @ [9]) \<le> MAX_MESSAGE_SIZE"
    by (simp add: packet_of_def MAX_MESSAGE_SIZE_def)
  from packet_received [OF this, of "''10.0.0.1''" 7 "Impl_new \<lparr>cc_port = 1, cc_stun_server = [],
      cc_stun_port = 2, cc_enable_upnp = False, cc_enable_nat_pmp = False, cc_max_peers = 3, cc_hole_punch_timeout = 4,
      cc_keep_alive_interval = 5\<rparr> ()"]
  show ?thesis
    by (auto simp: Impl_new_def)
qed

text \<open>
  C15. A datagram is safe to receive exactly when its size field does not make the 32-bit sum of the size and the header wrap
  round: with a size of at least \<open>2 ^ 32 - 4\<close> the length test passes and four gigabytes are copied from a one-megabyte
  buffer. Every other datagram is queued, dropped as incomplete or reported.
\<close>

theorem handle_receive_safe_iff:
  "is_Undefined (handle_receive r from port c) \<longleftrightarrow>
     (\<exists>d. r = Some d \<and> length d \<ge> 4 \<and> unat (size_of_header d) \<ge> 2 ^ 32 - 4)"
proof (cases r)
  case None
  then show ?thesis
    by (simp add: handle_receive_def)
next
  case (Some d)
  define n where "n = min (length d) MAX_MESSAGE_SIZE"
  define k where "k = unat (size_of_header d)"
  have k: "k < 2 ^ 32"
    unfolding k_def using unat_bound [of "size_of_header d"] by simp
  have n: "n \<le> 1048576" "n \<ge> 4 \<longleftrightarrow> length d \<ge> 4"
    by (auto simp: n_def MAX_MESSAGE_SIZE_def)
  have len: "length (receive_buffer d) = 1048576"
    by (simp add: receive_buffer_def MAX_MESSAGE_SIZE_def)
  have sum: "unat (size_of_header d + 4) = (k + 4) mod 2 ^ 32"
    by (simp add: unat_word_ariths k_def)
  show ?thesis
  proof (cases "length d \<ge> 4")
    case False
    then show ?thesis
      using n by (simp add: Some handle_receive_def Let_def flip: n_def)
  next
    case True
    have "is_Undefined (handle_receive r from port c) \<longleftrightarrow> \<not> n < (k + 4) mod 2 ^ 32 \<and> 4 + k > 1048576"
      using True n(2) by (simp add: Some handle_receive_def Let_def size_of_header_buffer len sum flip: n_def k_def)
    also have "\<dots> \<longleftrightarrow> k \<ge> 2 ^ 32 - 4"
    proof (cases "k \<ge> 2 ^ 32 - 4")
      case True
      then have "(k + 4) mod 2 ^ 32 = k + 4 - 2 ^ 32"
        using k by (subst mod_if) (simp add: le_mod_geq)
      then show ?thesis
        using True k n \<open>length d \<ge> 4\<close> by simp
    next
      case False
      then show ?thesis
        using n(1) by auto
    qed
    finally show ?thesis
      using True by (simp add: Some k_def)
  qed
qed

section \<open>The message queue\<close>

interpretation conn_queue: fifo_queue "\<lambda>c ms. message_queue c = ms" queue_message receive_message
  by unfold_locales (auto simp: queue_message_def receive_message_def split: list.split)

definition fits :: "Message \<Rightarrow> bool" where
  "fits m \<longleftrightarrow> length (msg_data m) + 4 \<le> MAX_MESSAGE_SIZE"

text \<open>Receiving the packets of messages one after the other.\<close>

fun receive_packets :: "Message list \<Rightarrow> 's P2PConnection \<Rightarrow> 's P2PConnection res" where
  "receive_packets [] c = Inr c"
| "receive_packets (m # ms) c =
     (case on_receive (Some (packet_of (msg_data m))) (sender_address m) (sender_port m) c of
        Inl e \<Rightarrow> Inl e
      | Inr c \<Rightarrow> receive_packets ms c)"

lemma handle_receive_packet:
  assumes "fits m"
  shows "\<exists>c'. handle_receive (Some (packet_of (msg_data m))) (sender_address m) (sender_port m) c = Inr c'
    \<and> message_queue c' = message_queue (queue_message m c) \<and> receives c' = receives c + 1"
proof -
  let ?d = "packet_of (msg_data m)" and ?sz = "of_nat (length (msg_data m)) :: u32"
  have small: "length (msg_data m) + 4 \<le> 1048576"
    using assms by (simp add: fits_def MAX_MESSAGE_SIZE_def)
  have len: "length ?d = length (msg_data m) + 4" "min (length ?d) MAX_MESSAGE_SIZE = length (msg_data m) + 4"
    using assms by (simp_all add: packet_of_def fits_def min_def)
  have hdr: "size_of_header (receive_buffer ?d) = ?sz"
    using size_of_header_buffer [of ?d] size_of_header_inv by (simp add: packet_of_def)
  have sz: "unat ?sz = length (msg_data m)" "unat (?sz + 4) = length (msg_data m) + 4"
    using small by (simp_all add: unat_of_nat unat_word_ariths)
  have buf: "length (receive_buffer ?d) = MAX_MESSAGE_SIZE" "take (length (msg_data m)) (drop 4 (receive_buffer ?d)) = msg_data m"
    using assms by (simp_all add: receive_buffer_def packet_of_def fits_def)
  show ?thesis
    using assms by (simp add: handle_receive_def Let_def hdr sz buf len fits_def)
      (simp add: update_stats_def start_receive_def queue_message_def)
qed

lemma on_receive_packet:
  assumes "fits m" and "receives c > 0"
  shows "\<exists>c'. on_receive (Some (packet_of (msg_data m))) (sender_address m) (sender_port m) c = Inr c'
    \<and> message_queue c' = message_queue c @ [m] \<and> receives c' = receives c + 1"
  using handle_receive_packet [OF assms(1), of "c\<lparr>receives := receives c - 1\<rparr>"] assms(2)
  by (auto simp: on_receive_def start_receive_def queue_message_def)

text \<open>
  C16. Messages are delivered in the order in which their packets arrive: after the packets of \<open>ms\<close> have been received, taking
  \<open>n\<close> messages gives the first \<open>n\<close> of what was queued before and then \<open>ms\<close>. Each of them leaves one more receive outstanding
  than before, so the connection holds one more one-megabyte buffer for every message it ever received.
\<close>

theorem packets_fifo:
  assumes "list_all fits ms" and "receives c > 0"
  shows "\<exists>c'. receive_packets ms c = Inr c' \<and> receives c' = receives c + length ms
    \<and> fst (conn_queue.deqs n c') = map Some (take n (message_queue c @ ms)) @ replicate (n - (length (message_queue c) + length ms)) None"
proof -
  have "\<exists>c'. receive_packets ms c = Inr c' \<and> receives c' = receives c + length ms \<and> message_queue c' = message_queue c @ ms"
    using assms
  proof (induction ms arbitrary: c)
    case (Cons m ms)
    obtain c1 where c1: "on_receive (Some (packet_of (msg_data m))) (sender_address m) (sender_port m) c = Inr c1"
        "message_queue c1 = message_queue c @ [m]" "receives c1 = receives c + 1"
      using on_receive_packet [of m c] Cons.prems by auto
    then show ?case
      using Cons.IH [of c1] Cons.prems by simp
  qed simp
  then show ?thesis
    using conn_queue.deqs_rep by fastforce
qed

definition demo_config :: ConnConfig where
  "demo_config = \<lparr>cc_port = 8080, cc_stun_server = ''stun'', cc_stun_port = 3478, cc_enable_upnp = False,
     cc_enable_nat_pmp = False, cc_max_peers = 10, cc_hole_punch_timeout = 5000, cc_keep_alive_interval = 30000\<rparr>"

theorem packets_fifo_witness:
  "\<exists>c'. receive_packets [\<lparr>sender_address = ''a'', sender_port = 1, msg_data = [5]\<rparr>] (start_receive (Impl_new demo_config ())) = Inr c'
    \<and> fst (conn_queue.deqs 2 c') = [Some \<lparr>sender_address = ''a'', sender_port = 1, msg_data = [5]\<rparr>, None]"
  using packets_fifo [of "[\<lparr>sender_address = ''a'', sender_port = 1, msg_data = [5]\<rparr>]"
      "start_receive (Impl_new demo_config ())" 2]
  by (fastforce simp: fits_def MAX_MESSAGE_SIZE_def start_receive_def Impl_new_def)

section \<open>Reachable connections\<close>

text \<open>What happens to a connection after its construction: calls of its operations and completions of the library.\<close>

inductive conn_reachable :: "'s asio \<Rightarrow> 's P2PConnection \<Rightarrow> bool" for A where
  new: "P2PConnection_new A config s = Some c \<Longrightarrow> conn_reachable A c"
| connect: "conn_reachable A c \<Longrightarrow> conn_reachable A (snd (conn_connect A now c))"
| disconnect: "conn_reachable A c \<Longrightarrow> conn_reachable A (conn_disconnect A c)"
| take_message: "conn_reachable A c \<Longrightarrow> conn_reachable A (snd (receive_message c))"
| send: "conn_reachable A c \<Longrightarrow> conn_reachable A (snd (send_message A addr port m c))"
| ping: "conn_reachable A c \<Longrightarrow> conn_reachable A (conn_ping A c)"
| broadcast: "conn_reachable A c \<Longrightarrow> conn_reachable A (snd (conn_broadcast A m c))"
| timer: "conn_reachable A c \<Longrightarrow> conn_reachable A (maintain_connections A c)"
| received: "conn_reachable A c \<Longrightarrow> receives c > 0 \<Longrightarrow> on_receive r from port c = Inr c' \<Longrightarrow> conn_reachable A c'"
| stun: "conn_reachable A c \<Longrightarrow> perform_stun_request A E c = Inr (b, c') \<Longrightarrow> conn_reachable A c'"
| traversal: "conn_reachable A c \<Longrightarrow> perform_nat_traversal A mapped upnp pmp arrivals addr port c = (Returns b, c')
    \<Longrightarrow> conn_reachable A c'"
| started: "conn_reachable A c \<Longrightarrow> conn_start A E c = Inr (Returns b, c') \<Longrightarrow> conn_reachable A c'"
| stopped: "conn_reachable A c \<Longrightarrow> conn_stop A c = (Returns (), c') \<Longrightarrow> conn_reachable A c'"

definition conn_inv :: "'s asio \<Rightarrow> 's P2PConnection \<Rightarrow> bool" where
  "conn_inv A c \<longleftrightarrow> p_io_thread c = Run_loop \<and> p_running c \<and> \<not> should_stop c \<and> peers c = [] \<and> message_handler c = None
     \<and> peer_disconnected_handler c = None \<and> p_state c \<noteq> Connecting \<and> receives c > 0
     \<and> (p_state c = Connected \<longrightarrow> as_is_open A (p_socket c))"

definition same_core :: "'s asio \<Rightarrow> 's P2PConnection \<Rightarrow> 's P2PConnection \<Rightarrow> bool" where
  "same_core A c c' \<longleftrightarrow> p_io_thread c' = p_io_thread c \<and> p_running c' = p_running c \<and> should_stop c' = should_stop c
     \<and> peers c' = peers c \<and> message_handler c' = message_handler c \<and> peer_disconnected_handler c' = peer_disconnected_handler c
     \<and> p_state c' = p_state c \<and> receives c' = receives c \<and> as_is_open A (p_socket c') = as_is_open A (p_socket c)"

lemma asio_laws:
  assumes "asio_ok A"
  shows "as_is_open A s \<Longrightarrow> as_open A s = None" and "as_open A s = Some t \<Longrightarrow> as_is_open A t"
    and "as_set_options A s = Some t \<Longrightarrow> as_is_open A t = as_is_open A s"
    and "as_bind A q s = Some t \<Longrightarrow> as_is_open A t = as_is_open A s"
    and "as_send_to A a q d s = Some t \<Longrightarrow> as_is_open A t = as_is_open A s"
    and "\<not> as_is_open A (as_close A s)"
  using assms by (simp_all add: asio_ok_def)

lemma conn_inv_same_core: "conn_inv A c \<Longrightarrow> same_core A c c' \<Longrightarrow> conn_inv A c'"
  by (simp add: conn_inv_def same_core_def)

lemma same_core_refl [simp]: "same_core A c c"
  by (simp add: same_core_def)

lemma same_core_trans: "same_core A c d \<Longrightarrow> same_core A d e \<Longrightarrow> same_core A c e"
  by (simp add: same_core_def)

lemma same_core_send: "asio_ok A \<Longrightarrow> same_core A c (snd (send_message A addr port m c))"
  by (auto simp: send_message_def same_core_def update_stats_def asio_ok_def Let_def split: option.split)

lemma same_core_broadcast: "asio_ok A \<Longrightarrow> same_core A c (snd (conn_broadcast A m c))"
  by (auto simp: conn_broadcast_def same_core_def asio_ok_def Let_def split: option.split)

lemma same_core_stun: "asio_ok A \<Longrightarrow> perform_stun_request A E c = Inr (b, c') \<Longrightarrow> same_core A c c'"
  by (auto simp: perform_stun_request_def same_core_def asio_laws(5) Let_def
      split: option.splits sum.splits prod.splits)

lemma same_core_endpoint: "asio_ok A \<Longrightarrow> get_public_endpoint A E c = Inr (r, c') \<Longrightarrow> same_core A c c'"
  using same_core_stun by (fastforce simp: get_public_endpoint_def split: sum.splits prod.splits)

lemma same_core_punch: "asio_ok A \<Longrightarrow> punch A addr port arrivals c = (r, c') \<Longrightarrow> same_core A c c'"
proof (induction arrivals arbitrary: c)
  case (Cons ms arrivals)
  show ?case
  proof (cases "as_send_to A addr port (bytes_of_string ''PUNCH'') (p_socket c)")
    case (Some s)
    let ?c = "c\<lparr>p_socket := s, message_queue := message_queue c @ ms\<rparr>"
    have "same_core A c ?c"
      using Some Cons.prems(1) by (simp add: same_core_def asio_ok_def)
    then show ?thesis
      using Cons Some by (auto simp: Let_def split: if_splits intro: same_core_trans)
  qed (use Cons.prems in simp)
qed simp

lemma same_core_traversal:
  "asio_ok A \<Longrightarrow> perform_nat_traversal A mapped upnp pmp arrivals addr port c = (r, c') \<Longrightarrow> same_core A c c'"
  using same_core_punch [of A addr port "take 3 arrivals" c]
  by (auto simp: perform_nat_traversal_def Let_def split: option.splits if_splits prod.splits outcome.splits)

lemma conn_inv_received:
  assumes "conn_inv A c" and "receives c > 0" and "on_receive r from port c = Inr c'"
  shows "conn_inv A c'"
  using assms
  by (cases r) (auto simp: on_receive_def handle_receive_def conn_inv_def start_receive_def update_stats_def queue_message_def Let_def
      split: if_splits)

lemma conn_start_inv:
  assumes "conn_inv A c" and "asio_ok A" and "conn_start A E c = Inr (r, c')"
  shows "r = Returns False \<and> conn_inv A c' \<or> r = Terminates"
proof (cases "as_open A (p_socket c)")
  case None
  then show ?thesis
    using assms by (simp add: conn_start_def)
next
  case (Some s)
  have closed: "p_state c = Disconnected"
    using assms(1) asio_laws(1) [OF assms(2), of "p_socket c"] Some by (cases "p_state c") (auto simp: conn_inv_def)
  show ?thesis
  proof (cases "as_bind A (cc_port (p_config c)) s")
    case None
    then show ?thesis
      using assms(1,3) Some closed by (auto simp: conn_start_def conn_inv_def)
  next
    case (Some t)
    obtain r1 c1 where ep: "get_public_endpoint A E (c\<lparr>p_socket := t\<rparr>) = Inr (r1, c1)"
      using assms(3) \<open>as_open A (p_socket c) = Some s\<close> Some
      by (cases "get_public_endpoint A E (c\<lparr>p_socket := t\<rparr>)") (auto simp: conn_start_def)
    have "p_io_thread c1 = Run_loop"
      using same_core_endpoint [OF assms(2) ep] assms(1) by (simp add: same_core_def conn_inv_def)
    then show ?thesis
      using assms(3) \<open>as_open A (p_socket c) = Some s\<close> Some ep by (auto simp: conn_start_def Let_def split: prod.splits)
  qed
qed

lemma conn_reachable_inv:
  assumes "conn_reachable A c" and "asio_ok A"
  shows "conn_inv A c"
  using assms(1)
proof (induction rule: conn_reachable.induct)
  case (new config s c)
  then show ?case
    using assms(2) by (auto simp: P2PConnection_new_def conn_inv_def Impl_new_def start_receive_def split: option.splits)
next
  case (connect c now)
  then show ?case
    using assms(2) by (auto simp: conn_connect_def conn_inv_def Let_def asio_ok_def start_receive_def split: option.split)
next
  case (disconnect c)
  then show ?case
    by (simp add: conn_disconnect_def conn_inv_def Let_def)
next
  case (take_message c)
  then show ?case
    by (auto simp: receive_message_def conn_inv_def split: list.split)
next
  case (send c addr port m)
  then show ?case
    using conn_inv_same_core same_core_send [OF assms(2)] by blast
next
  case (ping c)
  then show ?case
    using conn_inv_same_core same_core_send [OF assms(2)] unfolding conn_ping_def by blast
next
  case (broadcast c m)
  then show ?case
    using conn_inv_same_core same_core_broadcast [OF assms(2)] by blast
next
  case (timer c)
  then show ?case
    by (simp add: maintain_connections_def conn_inv_def)
next
  case (received c r sndr port c')
  then show ?case
    by (blast intro: conn_inv_received)
next
  case (stun c E b c')
  then show ?case
    using conn_inv_same_core same_core_stun [OF assms(2)] by blast
next
  case (traversal c mapped upnp pmp arrivals addr port b c')
  then show ?case
    using conn_inv_same_core same_core_traversal [OF assms(2)] by blast
next
  case (started c E b c')
  then show ?case
    using conn_start_inv [OF _ assms(2)] by blast
next
  case (stopped c c')
  then show ?case
    by (simp add: conn_stop_def conn_inv_def Let_def)
qed


text \<open>
  In every state a connection can get into, given a socket library that keeps its documentation: it is never left half
  connected, it reports to be connected exactly when it is, the keep-alive timer sends nothing (no operation ever adds a peer),
  starting it reports failure or ends the program, because the constructor has already started the thread, and stopping
  it blocks for ever, because the thread it joins waits for a flag that only the destructor clears.
\<close>

theorem conn_lifecycle:
  assumes "asio_ok A" and "conn_reachable A c"
  shows "p_state c \<noteq> Connecting \<and> is_connected A c = (p_state c = Connected)
    \<and> p_stats (maintain_connections A c) = p_stats c
    \<and> (\<forall>E r c'. conn_start A E c = Inr (r, c') \<longrightarrow> r = Returns False \<or> r = Terminates)
    \<and> fst (conn_stop A c) = Blocks"
proof -
  have inv: "conn_inv A c"
    using conn_reachable_inv [OF assms(2,1)] .
  then have "fst (conn_stop A c) = Blocks" "p_stats (maintain_connections A c) = p_stats c"
    "p_state c \<noteq> Connecting" "is_connected A c = (p_state c = Connected)"
    by (auto simp: conn_inv_def conn_stop_def maintain_connections_def is_connected_def Let_def)
  then show ?thesis
    using conn_start_inv [OF inv assms(1)] by blast
qed

text \<open>A socket library that meets its contract: a socket is only open or closed.\<close>

definition simple_asio :: "bool asio" where
  "simple_asio =
     \<lparr>as_is_open = (\<lambda>s. s), as_open = (\<lambda>s. if s then None else Some True), as_set_options = Some, as_bind = (\<lambda>_ s. Some s),
      as_close = (\<lambda>_. False), as_address_ok = (\<lambda>_. True), as_send_to = (\<lambda>_ _ _ s. if s then Some s else None)\<rparr>"

lemma simple_asio_ok: "asio_ok simple_asio"
  by (simp add: asio_ok_def simple_asio_def)

lemma demo_connection:
  "P2PConnection_new simple_asio demo_config False =
     Some (start_receive ((Impl_new demo_config True)\<lparr>p_running := True, p_io_thread := Run_loop\<rparr>))"
  by (simp add: P2PConnection_new_def simple_asio_def)

theorem conn_lifecycle_witness:
  "\<exists>c. conn_reachable simple_asio c \<and> p_state c = Connected
    \<and> (\<exists>c'. conn_start simple_asio \<lparr>se_random = [], se_server = None, se_reply = None\<rparr> c = Inr (Returns False, c'))
    \<and> fst (conn_stop simple_asio c) = Blocks"
proof -
  let ?E = "\<lparr>se_random = [], se_server = None, se_reply = None\<rparr>"
  let ?c = "snd (conn_connect simple_asio 7
    (start_receive ((Impl_new demo_config True)\<lparr>p_running := True, p_io_thread := Run_loop\<rparr>)))"
  have r: "conn_reachable simple_asio ?c"
    by (intro conn_reachable.connect conn_reachable.new [OF demo_connection])
  have s: "p_state ?c = Connected"
    by (simp add: conn_connect_def simple_asio_def start_receive_def Impl_new_def Let_def)
  obtain q c' where q: "conn_start simple_asio ?E ?c = Inr (q, c')" "q \<noteq> Terminates"
    by (simp add: conn_start_def conn_connect_def simple_asio_def start_receive_def Impl_new_def Let_def)
  show ?thesis
    using conn_lifecycle [OF simple_asio_ok r] r s q by blast
qed

section \<open>STUN responses\<close>

text \<open>
  A response as a server sends it (RFC 5389): the header with the cookie and the transaction, the attributes, and among them
  the mapped address, whose port and address are combined with the cookie in network order.
\<close>

definition be16_bytes :: "u16 \<Rightarrow> bytes" where
  "be16_bytes w = [ucast (drop_bit 8 w), ucast w]"

definition cookie_bytes :: bytes where
  "cookie_bytes = [0x21, 0x12, 0xA4, 0x42]"

definition stun_attribute :: "u16 \<times> bytes \<Rightarrow> bytes" where
  "stun_attribute = (\<lambda>(ty, v). be16_bytes ty @ be16_bytes (of_nat (length v)) @ v)"

definition mapped_address :: "bytes \<Rightarrow> u16 \<Rightarrow> bytes" where
  "mapped_address ip port = [0, 1] @ be16_bytes (port XOR 0x2112) @ map2 (XOR) ip cookie_bytes"

definition stun_response :: "bytes \<Rightarrow> (u16 \<times> bytes) list \<Rightarrow> bytes \<Rightarrow> u16 \<Rightarrow> bytes" where
  "stun_response header attrs ip port =
     header @ concat (map stun_attribute attrs) @ stun_attribute (0x0020, mapped_address ip port)"

definition attribute_ok :: "u16 \<times> bytes \<Rightarrow> bool" where
  "attribute_ok = (\<lambda>(ty, v). ty \<noteq> 0x0020 \<and> length v < 2 ^ 16)"

lemma le_bytes_4:
  "le_bytes 4 k = [of_nat (k mod 256), of_nat (k div 256 mod 256), of_nat (k div 256 div 256 mod 256),
     of_nat (k div 256 div 256 div 256 mod 256)]"
proof -
  have "(4 :: nat) = Suc (Suc (Suc (Suc 0)))"
    by simp
  then show ?thesis
    by (simp only: le_bytes.simps)
qed

lemma stun_cookie_bytes: "u32_bytes STUN_MAGIC_COOKIE = rev cookie_bytes"
  by (simp add: STUN_MAGIC_COOKIE_def u32_bytes_def cookie_bytes_def le_bytes_4)

lemma stun_request_layout:
  "length random = 12 \<Longrightarrow> stun_request random = [0x00, 0x01, 0x00, 0x00] @ cookie_bytes @ random"
  by (simp add: stun_request_def stun_cookie_bytes)

lemma length_be16_bytes [simp]: "length (be16_bytes w) = 2"
  by (simp add: be16_bytes_def)

lemma be16_be16_bytes: "be16 (be16_bytes w ! 0) (be16_bytes w ! 1) = w"
  by (simp add: be16_bytes_def be16_inv)

text \<open>The loop at the start of an attribute.\<close>

lemma stun_attributes_at:
  assumes "drop pos response = be16_bytes ty @ be16_bytes (of_nat (length v)) @ v @ rest"
    and "pos + 4 \<le> len" and "length v < 2 ^ 16"
  shows "stun_attributes response len pos =
    (if ty = 0x0020 \<and> length v \<ge> 8 then
       Inr (Some (bytes_u32 (take 4 (drop 4 v)) XOR STUN_MAGIC_COOKIE,
         be16 (v ! 2) (v ! 3) XOR ucast (drop_bit 16 STUN_MAGIC_COOKIE)))
     else stun_attributes response len (pos + 4 + length v))"
proof -
  have at: "response ! (pos + i) = (be16_bytes ty @ be16_bytes (of_nat (length v)) @ v @ rest) ! i" if "i < 4 + length v" for i
  proof -
    have "pos + i < length response"
      using arg_cong [OF assms(1), of length] that by simp
    then have "response ! (pos + i) = drop pos response ! i"
      by simp
    then show ?thesis
      by (simp add: assms(1))
  qed
  have ty: "be16 (response ! pos) (response ! (pos + 1)) = ty"
    using at [of 0] at [of 1] be16_be16_bytes [of ty] by (simp add: nth_append)
  have n: "be16 (response ! (pos + 2)) (response ! (pos + 3)) = of_nat (length v)"
    using at [of 2] at [of 3] be16_be16_bytes [of "of_nat (length v)"] by (simp add: nth_append)
  have len_v: "unat (of_nat (length v) :: u16) = length v" "(8 :: u16) \<le> of_nat (length v) \<longleftrightarrow> 8 \<le> length v"
    using assms(3) by (simp_all add: unat_of_nat word_le_nat_alt)
  have port: "length v \<ge> 8 \<Longrightarrow> response ! (pos + 6) = v ! 2 \<and> response ! (pos + 7) = v ! 3"
    using at [of 6] at [of 7] by (simp add: nth_append)
  have "drop 8 (drop pos response) = drop 4 v @ rest" if "length v \<ge> 8"
    using that by (simp add: assms(1) del: drop_drop)
  then have ip: "length v \<ge> 8 \<Longrightarrow> take 4 (drop (pos + 8) response) = take 4 (drop 4 v)"
    by (simp add: add.commute)
  have room: "length v \<ge> 8 \<Longrightarrow> pos + 12 \<le> length response"
    using arg_cong [OF assms(1), of length] by simp
  show ?thesis
    using assms(2) port ip room
    by (subst stun_attributes.simps) (simp only: Let_def ty n len_v, simp)
qed

lemma length_stun_attribute: "length (stun_attribute (ty, v)) = 4 + length v"
  by (simp add: stun_attribute_def)

lemma stun_attributes_skip:
  assumes "list_all attribute_ok attrs" and "drop pos response = concat (map stun_attribute attrs) @ rest"
    and "pos + length (concat (map stun_attribute attrs)) \<le> len"
  shows "stun_attributes response len pos = stun_attributes response len (pos + length (concat (map stun_attribute attrs)))"
  using assms
proof (induction attrs arbitrary: pos)
  case (Cons a attrs)
  obtain ty v where a: "a = (ty, v)"
    by force
  have v: "ty \<noteq> 0x0020" "length v < 2 ^ 16"
    using Cons.prems(1) by (simp_all add: a attribute_ok_def)
  have d: "drop pos response = be16_bytes ty @ be16_bytes (of_nat (length v)) @ v @ (concat (map stun_attribute attrs) @ rest)"
    using Cons.prems(2) by (simp add: a stun_attribute_def)
  have "stun_attributes response len pos = stun_attributes response len (pos + 4 + length v)"
    using stun_attributes_at [OF d _ v(2), of len] Cons.prems(3) v(1) by (simp add: a length_stun_attribute)
  also have "\<dots> = stun_attributes response len (pos + 4 + length v + length (concat (map stun_attribute attrs)))"
  proof (rule Cons.IH)
    have "drop (4 + length v) (drop pos response) = concat (map stun_attribute attrs) @ rest"
      by (simp add: d del: drop_drop)
    then show "drop (pos + 4 + length v) response = concat (map stun_attribute attrs) @ rest"
      by (simp add: add.commute add.left_commute)
  qed (use Cons.prems in \<open>simp_all add: a length_stun_attribute\<close>)
  finally show ?case
    by (simp add: a length_stun_attribute add.assoc)
qed simp

lemma le_bytes_xor: "le_bytes n (j XOR k) = map2 (XOR) (le_bytes n j) (le_bytes n k)"
proof (induction n arbitrary: j k)
  case (Suc n)
  have "(j XOR k) mod 2 ^ 8 = (j mod 2 ^ 8) XOR (k mod 2 ^ 8)"
    by (simp only: flip: take_bit_eq_mod) (rule take_bit_xor)
  moreover have "(j XOR k) div 2 ^ 8 = (j div 2 ^ 8) XOR (k div 2 ^ 8)"
    by (simp only: flip: drop_bit_eq_div) (rule drop_bit_xor)
  ultimately show ?case
    by (simp add: Suc.IH of_nat_xor_eq)
qed simp

lemma u32_bytes_xor: "u32_bytes (v XOR w) = map2 (XOR) (u32_bytes v) (u32_bytes w)"
  by (simp add: u32_bytes_def unsigned_xor_eq le_bytes_xor)

lemma u32_bytes_bytes_u32: "length bs = 4 \<Longrightarrow> u32_bytes (bytes_u32 bs) = bs"
  using le_nat_bound [of bs] le_bytes_le_nat [of bs] by (simp add: u32_bytes_def bytes_u32_def unat_of_nat)

lemma four_bytes:
  assumes "length (ip :: bytes) = 4"
  obtains a b c d where "ip = [a, b, c, d]"
  using assms by (auto simp: numeral_eq_Suc length_Suc_conv)

text \<open>
  From any conforming STUN response that fits the receive buffer, whatever other attributes come first, the parser returns, and
  reads the mapped port. The address it reads is never the mapped one: the cookie is combined with the address in host order,
  so every byte of the result differs from the true address by the fixed mask 63.B6.B6.63.
\<close>

theorem stun_parse_response:
  assumes "length header = 20" and "list_all attribute_ok attrs" and "length ip = 4"
    and "length (stun_response header attrs ip port) \<le> 512"
  shows "\<exists>w. stun_parse (stun_response header attrs ip port) = Inr (Some (w, port))
    \<and> u32_bytes w = map2 (XOR) ip [0x63, 0xB6, 0xB6, 0x63] \<and> u32_bytes w \<noteq> ip"
proof -
  let ?d = "stun_response header attrs ip port" and ?cs = "concat (map stun_attribute attrs)"
  let ?v = "mapped_address ip port" and ?buf = "stun_response_buffer (stun_response header attrs ip port)"
  have v: "length ?v = 8" "be16 (?v ! 2) (?v ! 3) = port XOR 0x2112" "take 4 (drop 4 ?v) = map2 (XOR) ip cookie_bytes"
    using assms(3) be16_be16_bytes [of "port XOR 0x2112"]
    by (simp_all add: mapped_address_def cookie_bytes_def nth_append)
  have buf: "drop 20 ?buf = ?cs @ stun_attribute (0x0020, ?v) @ replicate (512 - length ?d) 0"
    using assms(1,4) by (simp add: stun_response_buffer_def stun_response_def)
  have len: "length ?d = 20 + length ?cs + 12"
    using assms(1) by (simp add: stun_response_def length_stun_attribute v)
  have "stun_attributes ?buf (length ?d) 20 = stun_attributes ?buf (length ?d) (20 + length ?cs)"
    using stun_attributes_skip [OF assms(2) buf] len by simp
  also have "\<dots> = Inr (Some (bytes_u32 (map2 (XOR) ip cookie_bytes) XOR STUN_MAGIC_COOKIE,
      (port XOR 0x2112) XOR ucast (drop_bit 16 STUN_MAGIC_COOKIE)))"
  proof -
    have "drop (length ?cs) (drop 20 ?buf) = stun_attribute (0x0020, ?v) @ replicate (512 - length ?d) 0"
      by (simp add: buf del: drop_drop)
    then have "drop (20 + length ?cs) ?buf = be16_bytes 0x0020 @ be16_bytes (of_nat (length ?v)) @ ?v @ replicate (512 - length ?d) 0"
      by (simp add: stun_attribute_def add.commute)
    from stun_attributes_at [OF this, of "length ?d"] show ?thesis
      using len v by simp
  qed
  finally have parsed: "stun_parse ?d = Inr (Some (bytes_u32 (map2 (XOR) ip cookie_bytes) XOR STUN_MAGIC_COOKIE, port))"
    using assms(4) len by (simp add: stun_parse_def STUN_MAGIC_COOKIE_def xor.assoc)
  obtain a b c d where ip: "ip = [a, b, c, d]"
    using assms(3) by (rule four_bytes)
  have "u32_bytes (bytes_u32 (map2 (XOR) ip cookie_bytes) XOR STUN_MAGIC_COOKIE) = map2 (XOR) (map2 (XOR) ip cookie_bytes) (rev cookie_bytes)"
    by (simp add: u32_bytes_xor stun_cookie_bytes u32_bytes_bytes_u32 ip cookie_bytes_def)
  also have "\<dots> = map2 (XOR) ip [0x63, 0xB6, 0xB6, 0x63]"
    by (simp add: ip cookie_bytes_def xor.assoc)
  finally have addr: "u32_bytes (bytes_u32 (map2 (XOR) ip cookie_bytes) XOR STUN_MAGIC_COOKIE) = map2 (XOR) ip [0x63, 0xB6, 0xB6, 0x63]" .
  have "a XOR 0x63 \<noteq> a"
  proof
    assume "a XOR 0x63 = a"
    then have "a XOR (a XOR 0x63) = a XOR a"
      by simp
    then show False
      by (simp flip: xor.assoc)
  qed
  then have "map2 (XOR) ip [0x63, 0xB6, 0xB6, 0x63] \<noteq> ip"
    by (simp add: ip)
  then show ?thesis
    using parsed addr by auto
qed

theorem stun_parse_response_witness:
  "\<exists>w. stun_parse (stun_response (replicate 20 0) [(0x8022, [1, 2, 3, 4])] [192, 168, 0, 1] 8080) = Inr (Some (w, 8080))
    \<and> u32_bytes w = [163, 30, 182, 98]"
proof -
  have "list_all attribute_ok [(0x8022, [1, 2, 3, 4])]"
    by (simp add: attribute_ok_def)
  moreover have "length (stun_response (replicate 20 0) [(0x8022, [1, 2, 3, 4])] [192, 168, 0, 1] 8080) \<le> 512"
    by (simp add: stun_response_def stun_attribute_def mapped_address_def cookie_bytes_def)
  ultimately show ?thesis
    using stun_parse_response [of "replicate 20 0" "[(0x8022, [1, 2, 3, 4])]" "[192, 168, 0, 1]" 8080] by auto
qed

end
