(* ===== verification/P2P_Node.thy ===== *)
theory P2P_Node
  imports P2P_Connection
begin

text \<open>
  The peer-to-peer node (\<open>include/network/P2PNode.hpp\<close>, \<open>src/network/P2PNode.cpp\<close>): its server socket, its life cycle, its table of
  connections and the turns of its three worker threads. A worker turn that holds \<open>connections_mutex\<close> is one step.
  What the operating system answers to the socket calls, what the routers do and what peers send are arguments. The connections are
  those of the theory of connections, so that what a connection can do decides what the node can do.
\<close>

section \<open>State\<close>

record NodeConfig =
  n_port :: u16
  n_stun_server :: string
  n_stun_port :: u16
  n_enable_upnp :: bool
  n_enable_nat_pmp :: bool
  n_max_peers :: u64
  n_max_connections :: u64
  n_connection_timeout_ms :: u32
  n_ping_interval_ms :: u32

text \<open>A registered handler is represented by the messages it has been called with; a worker thread by whether it is joinable.\<close>

record 's P2PNode =
  nd_config :: NodeConfig
  nd_running :: bool
  message_handlers :: "Message list list"
  server_socket :: "nat option"
  nd_should_stop :: bool
  accept_thread :: bool
  management_thread :: bool
  message_thread :: bool
  connections :: "(string, 's P2PConnection) smap"
  bootstrap_peers :: "(string \<times> u16) list"

definition node_Impl_new :: "NodeConfig \<Rightarrow> 's P2PNode" where
  "node_Impl_new config =
     \<lparr>nd_config = config, nd_running = False, message_handlers = [], server_socket = None, nd_should_stop = False,
      accept_thread = False, management_thread = False, message_thread = False, connections = [], bootstrap_peers = []\<rparr>"

text \<open>
  What the system calls answer for a port: the descriptor of the new socket, and whether the options, the binding and the listening succeed.
\<close>

record sys_socket =
  sys_fd :: "nat option"
  sys_setsockopt :: bool
  sys_bind :: bool
  sys_listen :: bool

definition node_cleanup :: "'s P2PNode \<Rightarrow> 's P2PNode" where
  "node_cleanup n = (case server_socket n of Some _ \<Rightarrow> n\<lparr>server_socket := None\<rparr> | None \<Rightarrow> n)"

text \<open>One attempt of the constructor.\<close>

definition try_listen :: "sys_socket \<Rightarrow> 's P2PNode \<Rightarrow> bool \<times> 's P2PNode" where
  "try_listen sys n =
     (let n = n\<lparr>server_socket := sys_fd sys\<rparr> in
      if sys_fd sys = None then (False, n)
      else if \<not> sys_setsockopt sys then (False, n)
      else if \<not> sys_bind sys then (False, n)
      else if \<not> sys_listen sys then (False, n)
      else (True, n))"

text \<open>
  The attempts: the port (an \<open>int\<close>, given to \<open>htons\<close>) grows by one after each failure. \<open>sys port\<close> is what the system answers for
  a port. The port that was bound is returned beside the node.
\<close>

fun listen_loop :: "(u16 \<Rightarrow> sys_socket) \<Rightarrow> nat \<Rightarrow> u16 \<Rightarrow> 's P2PNode \<Rightarrow> (u16 \<times> 's P2PNode) res" where
  "listen_loop sys 0 current_port n = Inl (Runtime_error ''Failed to initialize P2P node after 3 attempts'')"
| "listen_loop sys (Suc retries) current_port n =
     (case try_listen (sys current_port) n of
        (True, n) \<Rightarrow> Inr (current_port, n)
      | (False, n) \<Rightarrow> listen_loop sys retries (current_port + 1) (node_cleanup n))"

definition P2PNode_new :: "(u16 \<Rightarrow> sys_socket) \<Rightarrow> NodeConfig \<Rightarrow> (u16 \<times> 's P2PNode) res" where
  "P2PNode_new sys config = listen_loop sys 3 (n_port config) (node_Impl_new config)"

definition P2PNode_destroy :: "'s P2PNode \<Rightarrow> 's P2PNode" where
  "P2PNode_destroy n =
     n\<lparr>nd_should_stop := True, server_socket := None, accept_thread := False, management_thread := False, message_thread := False\<rparr>"

section \<open>Life cycle\<close>

text \<open>
  \<open>start\<close> creates a second server socket over the one the constructor made, which is not closed. Assigning to a worker thread
  that is still joinable ends the program.
\<close>

definition node_start :: "sys_socket \<Rightarrow> 's P2PNode \<Rightarrow> bool outcome \<times> 's P2PNode" where
  "node_start sys n =
     (if nd_running n then (Returns False, n)
      else
        let n = n\<lparr>server_socket := sys_fd sys\<rparr> in
        if sys_fd sys = None then (Returns False, n)
        else if \<not> sys_setsockopt sys then (Returns False, n)
        else if \<not> sys_bind sys then (Returns False, n)
        else if \<not> sys_listen sys then (Returns False, n)
        else
          let n = n\<lparr>nd_running := True, nd_should_stop := False\<rparr> in
          if accept_thread n \<or> management_thread n \<or> message_thread n then (Terminates, n)
          else (Returns True, n\<lparr>accept_thread := True, management_thread := True, message_thread := True\<rparr>))"

text \<open>The threads end once they see the flag; \<open>stop\<close> joins them.\<close>

definition node_stop :: "'s P2PNode \<Rightarrow> 's P2PNode" where
  "node_stop n =
     (if \<not> nd_running n then n
      else n\<lparr>nd_running := False, nd_should_stop := True, server_socket := None, accept_thread := False,
             management_thread := False, message_thread := False, connections := []\<rparr>)"

section \<open>Peers\<close>

definition peer_key :: "string \<Rightarrow> u16 \<Rightarrow> string" where
  "peer_key address port = address @ '':'' @ to_string (unat port)"

definition validate_peer :: "string \<Rightarrow> u16 \<Rightarrow> 's P2PNode \<Rightarrow> bool" where
  "validate_peer address port n =
     (if address = [] \<or> port = 0 then False
      else of_nat (length (connections n)) < n_max_connections (nd_config n))"

definition conn_config_of :: "NodeConfig \<Rightarrow> ConnConfig" where
  "conn_config_of cfg =
     \<lparr>cc_port = n_port cfg, cc_stun_server = n_stun_server cfg, cc_stun_port = n_stun_port cfg,
      cc_enable_upnp = n_enable_upnp cfg, cc_enable_nat_pmp = n_enable_nat_pmp cfg, cc_max_peers = n_max_peers cfg,
      cc_hole_punch_timeout = unat (n_connection_timeout_ms cfg), cc_keep_alive_interval = unat (n_ping_interval_ms cfg)\<rparr>"

text \<open>What the outside does while a peer is being connected.\<close>

record 's peer_env =
  pe_socket :: 's
  pe_stun :: stun_env
  pe_mapped :: "u16 option"
  pe_upnp :: bool
  pe_nat_pmp :: bool
  pe_arrivals :: "Message list list"

text \<open>\<open>Throws\<close>: an exception leaves the function, from the constructor of the connection or the traversal.\<close>

definition connect_to_peer ::
    "'s asio \<Rightarrow> 's peer_env \<Rightarrow> string \<Rightarrow> u16 \<Rightarrow> 's P2PNode \<Rightarrow> (bool outcome \<times> 's P2PNode) res" where
  "connect_to_peer A E address port n =
     (if \<not> nd_running n \<or> \<not> validate_peer address port n then Inr (Returns False, n)
      else if map_count (connections n) (peer_key address port) then Inr (Returns True, n)
      else case P2PConnection_new A (conn_config_of (nd_config n)) (pe_socket E) of
        None \<Rightarrow> Inr (Throws, n)
      | Some connection \<Rightarrow>
          case conn_start A (pe_stun E) connection of
            Inl e \<Rightarrow> Inl e
          | Inr (Returns False, _) \<Rightarrow> Inr (Returns False, n)
          | Inr (Throws, _) \<Rightarrow> Inr (Throws, n)
          | Inr (Terminates, _) \<Rightarrow> Inr (Terminates, n)
          | Inr (Blocks, _) \<Rightarrow> Inr (Blocks, n)
          | Inr (Returns True, connection) \<Rightarrow>
              case perform_nat_traversal A (pe_mapped E) (pe_upnp E) (pe_nat_pmp E) (pe_arrivals E) address port connection of
                (Returns True, connection) \<Rightarrow>
                  Inr (Returns True, n\<lparr>connections := map_put (peer_key address port) connection (connections n)\<rparr>)
              | (Returns False, connection) \<Rightarrow>
                  (case conn_stop A connection of
                     (Returns _, _) \<Rightarrow> Inr (Returns False, n)
                   | (Throws, _) \<Rightarrow> Inr (Throws, n)
                   | (Terminates, _) \<Rightarrow> Inr (Terminates, n)
                   | (Blocks, _) \<Rightarrow> Inr (Blocks, n))
              | (Throws, _) \<Rightarrow> Inr (Throws, n)
              | (Terminates, _) \<Rightarrow> Inr (Terminates, n)
              | (Blocks, _) \<Rightarrow> Inr (Blocks, n))"

definition disconnect_from_peer :: "string \<Rightarrow> u16 \<Rightarrow> 's P2PNode \<Rightarrow> 's P2PNode" where
  "disconnect_from_peer address port n =
     (case map_find (connections n) (peer_key address port) of
        Some _ \<Rightarrow> n\<lparr>connections := map_erase (peer_key address port) (connections n)\<rparr>
      | None \<Rightarrow> n)"

record PeerInfo =
  pi_address :: string
  pi_port :: u16
  pi_last_seen :: nat
  pi_messages_sent :: u64
  pi_messages_received :: u64
  pi_is_connected :: bool

definition peer_info :: "'s P2PConnection \<Rightarrow> PeerInfo" where
  "peer_info c =
     \<lparr>pi_address = local_address c, pi_port = cc_port (p_config c), pi_last_seen = connected_since (p_stats c),
      pi_messages_sent = messages_sent (p_stats c), pi_messages_received = messages_received (p_stats c), pi_is_connected = True\<rparr>"

definition get_connected_peers :: "'s asio \<Rightarrow> 's P2PNode \<Rightarrow> PeerInfo list" where
  "get_connected_peers A n = map peer_info (filter (is_connected A) (map snd (connections n)))"

definition get_connection_count :: "'s P2PNode \<Rightarrow> nat" where
  "get_connection_count n = length (connections n)"

definition register_message_handler :: "'s P2PNode \<Rightarrow> 's P2PNode" where
  "register_message_handler n = n\<lparr>message_handlers := message_handlers n @ [[]]\<rparr>"

text \<open>The loop over the connections sends to the local address of each, not to that of its peer.\<close>

fun broadcast_loop :: "'s asio \<Rightarrow> bytes \<Rightarrow> (string, 's P2PConnection) smap \<Rightarrow> bool \<times> (string, 's P2PConnection) smap" where
  "broadcast_loop A message [] = (False, [])"
| "broadcast_loop A message ((k, c) # cs) =
     (let (ok, c') = (if is_connected A c then send_message A (local_address c) (cc_port (p_config c)) message c else (False, c));
          (success, cs') = broadcast_loop A message cs
      in (ok \<or> success, (k, c') # cs'))"

definition broadcast_message :: "'s asio \<Rightarrow> bytes \<Rightarrow> 's P2PNode \<Rightarrow> bool \<times> 's P2PNode" where
  "broadcast_message A message n =
     (if \<not> nd_running n \<or> message = [] then (False, n)
      else let (success, cs) = broadcast_loop A message (connections n) in (success, n\<lparr>connections := cs\<rparr>))"

definition send_message_to_peer :: "'s asio \<Rightarrow> string \<Rightarrow> u16 \<Rightarrow> bytes \<Rightarrow> 's P2PNode \<Rightarrow> bool \<times> 's P2PNode" where
  "send_message_to_peer A address port message n =
     (if \<not> nd_running n \<or> message = [] then (False, n)
      else case map_find (connections n) (peer_key address port) of
        Some c \<Rightarrow>
          if is_connected A c then
            let (ok, c) = send_message A address port message c
            in (ok, n\<lparr>connections := map_put (peer_key address port) c (connections n)\<rparr>)
          else (False, n)
      | None \<Rightarrow> (False, n))"

definition add_bootstrap_peer :: "string \<Rightarrow> u16 \<Rightarrow> 's P2PNode \<Rightarrow> 's P2PNode" where
  "add_bootstrap_peer address port n = n\<lparr>bootstrap_peers := bootstrap_peers n @ [(address, port)]\<rparr>"

definition get_bootstrap_peers :: "'s P2PNode \<Rightarrow> (string \<times> u16) list" where
  "get_bootstrap_peers n = bootstrap_peers n"

text \<open>\<open>discover_peers\<close> ignores the results but not what does not return.\<close>

fun discover_loop :: "'s asio \<Rightarrow> (string \<times> u16 \<Rightarrow> 's peer_env) \<Rightarrow> (string \<times> u16) list \<Rightarrow> 's P2PNode \<Rightarrow> (unit outcome \<times> 's P2PNode) res" where
  "discover_loop A Es [] n = Inr (Returns (), n)"
| "discover_loop A Es ((address, port) # ps) n =
     (case connect_to_peer A (Es (address, port)) address port n of
        Inl e \<Rightarrow> Inl e
      | Inr (Returns _, n) \<Rightarrow> discover_loop A Es ps n
      | Inr (Throws, n) \<Rightarrow> Inr (Throws, n)
      | Inr (Terminates, n) \<Rightarrow> Inr (Terminates, n)
      | Inr (Blocks, n) \<Rightarrow> Inr (Blocks, n))"

definition discover_peers :: "'s asio \<Rightarrow> (string \<times> u16 \<Rightarrow> 's peer_env) \<Rightarrow> 's P2PNode \<Rightarrow> (unit outcome \<times> 's P2PNode) res" where
  "discover_peers A Es n = discover_loop A Es (bootstrap_peers n) n"

section \<open>Workers\<close>

text \<open>
  A turn of \<open>accept_connections\<close>: \<open>client\<close> is the address and port of the accepted client, \<open>None\<close> when \<open>accept\<close> fails. Exceptions
  are caught.
\<close>

definition accept_turn :: "'s asio \<Rightarrow> 's peer_env \<Rightarrow> (string \<times> u16) option \<Rightarrow> 's P2PNode \<Rightarrow> (unit outcome \<times> 's P2PNode) res" where
  "accept_turn A E client n =
     (case client of None \<Rightarrow> Inr (Returns (), n) | Some (ip, port) \<Rightarrow>
      case P2PConnection_new A (conn_config_of (nd_config n)) (pe_socket E) of
        None \<Rightarrow> Inr (Returns (), n)
      | Some connection \<Rightarrow>
          case conn_start A (pe_stun E) connection of
            Inl e \<Rightarrow> Inl e
          | Inr (Returns True, connection) \<Rightarrow>
              Inr (Returns (), n\<lparr>connections := map_put (peer_key ip port) connection (connections n)\<rparr>)
          | Inr (Returns False, _) \<Rightarrow> Inr (Returns (), n)
          | Inr (Throws, _) \<Rightarrow> Inr (Returns (), n)
          | Inr (Terminates, _) \<Rightarrow> Inr (Terminates, n)
          | Inr (Blocks, _) \<Rightarrow> Inr (Blocks, n))"

definition cleanup_disconnected_peers :: "'s asio \<Rightarrow> 's P2PNode \<Rightarrow> 's P2PNode" where
  "cleanup_disconnected_peers A n = n\<lparr>connections := filter (\<lambda>(k, c). is_connected A c) (connections n)\<rparr>"

text \<open>The health check of one connection at time \<open>now\<close> (milliseconds).\<close>

definition check_health :: "'s asio \<Rightarrow> NodeConfig \<Rightarrow> nat \<Rightarrow> 's P2PConnection \<Rightarrow> 's P2PConnection" where
  "check_health A cfg now c =
     (if is_connected A c then
        let duration = int now - int (connected_since (p_stats c)) in
        if duration > int (unat (n_connection_timeout_ms cfg)) then conn_disconnect A c
        else if duration > int (unat (n_ping_interval_ms cfg)) then conn_ping A c
        else c
      else c)"

definition manage_turn :: "'s asio \<Rightarrow> nat \<Rightarrow> 's P2PNode \<Rightarrow> 's P2PNode" where
  "manage_turn A now n =
     (let n = cleanup_disconnected_peers A n
      in n\<lparr>connections := map (\<lambda>(k, c). (k, check_health A (nd_config n) now c)) (connections n)\<rparr>)"

text \<open>The messages of one connection: the inner loop empties its queue.\<close>

function drain_messages :: "'s P2PConnection \<Rightarrow> Message list list \<Rightarrow> 's P2PConnection \<times> Message list list" where
  "drain_messages c handlers =
     (if has_message c then
        case receive_message c of
          (None, c) \<Rightarrow> (c, handlers)
        | (Some m, c) \<Rightarrow> drain_messages c (map (\<lambda>calls. calls @ [m]) handlers)
      else (c, handlers))"
  by pat_completeness auto
termination
  by (relation "measure (length \<circ> message_queue \<circ> fst)") (auto simp: receive_message_def has_message_def split: list.splits)

declare drain_messages.simps [simp del]

fun drain_connections :: "(string, 's P2PConnection) smap \<Rightarrow> Message list list \<Rightarrow> (string, 's P2PConnection) smap \<times> Message list list" where
  "drain_connections [] handlers = ([], handlers)"
| "drain_connections ((k, c) # cs) handlers =
     (let (c, handlers) = drain_messages c handlers;
          (cs, handlers) = drain_connections cs handlers
      in ((k, c) # cs, handlers))"

definition messages_turn :: "'s P2PNode \<Rightarrow> 's P2PNode" where
  "messages_turn n =
     (let (cs, handlers) = drain_connections (connections n) (message_handlers n)
      in n\<lparr>connections := cs, message_handlers := handlers\<rparr>)"

section \<open>The constructor\<close>

definition port_usable :: "sys_socket \<Rightarrow> bool" where
  "port_usable sys \<longleftrightarrow> sys_fd sys \<noteq> None \<and> sys_setsockopt sys \<and> sys_bind sys \<and> sys_listen sys"

lemma try_listen_eq: "try_listen sys n = (port_usable sys, n\<lparr>server_socket := sys_fd sys\<rparr>)"
  by (auto simp: try_listen_def port_usable_def Let_def)

lemma node_cleanup_listen: "node_cleanup (n\<lparr>server_socket := fd\<rparr>) = n\<lparr>server_socket := None\<rparr>"
  by (cases fd) (simp_all add: node_cleanup_def)

text \<open>
  The constructor listens on the first usable one of the configured port and the two after it (modulo the 16 bits of a port),
  leaves no socket of a failed attempt behind, and reports failure exactly when none of the three is usable.
\<close>

theorem P2PNode_new_spec:
  "P2PNode_new sys config =
     (case find (\<lambda>p. port_usable (sys p)) [n_port config, n_port config + 1, n_port config + 2] of
        Some p \<Rightarrow> Inr (p, (node_Impl_new config)\<lparr>server_socket := sys_fd (sys p)\<rparr>)
      | None \<Rightarrow> Inl (Runtime_error ''Failed to initialize P2P node after 3 attempts''))"
  by (simp add: P2PNode_new_def numeral_3_eq_3 try_listen_eq node_cleanup_listen split: bool.split)
    (simp add: node_Impl_new_def add.commute [of 2])

section \<open>Delivery\<close>

lemma drain_messages_eq:
  "drain_messages c handlers =
     (c\<lparr>message_queue := []\<rparr>, map (\<lambda>calls. calls @ message_queue c) handlers)"
proof (induction c handlers rule: drain_messages.induct)
  case (1 c handlers)
  show ?case
  proof (cases "message_queue c")
    case Nil
    then show ?thesis
      by (simp add: drain_messages.simps [of c] has_message_def)
  next
    case (Cons m ms)
    then show ?thesis
      using "1.IH" by (simp add: drain_messages.simps [of c] has_message_def receive_message_def comp_def)
  qed
qed

lemma drain_connections_eq:
  "drain_connections cs handlers =
     (map (\<lambda>(k, c). (k, c\<lparr>message_queue := []\<rparr>)) cs,
      map (\<lambda>calls. calls @ concat (map (message_queue \<circ> snd) cs)) handlers)"
  by (induction cs handlers rule: drain_connections.induct) (simp_all add: drain_messages_eq)

text \<open>
  Every turn of the message thread ends, hands every queued message of every connection to every registered handler, in the order of
  the connections and of their queues, and leaves all queues empty.
\<close>

theorem messages_turn_spec:
  "message_handlers (messages_turn n) =
     map (\<lambda>calls. calls @ concat (map (message_queue \<circ> snd) (connections n))) (message_handlers n)
   \<and> list_all (\<lambda>(k, c). message_queue c = []) (connections (messages_turn n))
   \<and> map fst (connections (messages_turn n)) = map fst (connections n)"
  by (simp add: messages_turn_def drain_connections_eq list_all_iff case_prod_beta)

section \<open>Health checks\<close>

text \<open>
  The time a connection was last seen is the time it was connected: a connection is closed when the time-out has passed since then,
  whatever it received in between, and the following turn removes it.
\<close>

lemma manage_turn_times_out:
  assumes "(k, c) \<in> set (connections n)" and "is_connected A c" and "asio_ok A"
    and "now > connected_since (p_stats c) + unat (n_connection_timeout_ms (nd_config n))"
  shows "\<exists>c'. (k, c') \<in> set (connections (manage_turn A now n)) \<and> \<not> is_connected A c'"
proof -
  have "int now - int (connected_since (p_stats c)) > int (unat (n_connection_timeout_ms (nd_config n)))"
    using assms(4) by linarith
  then have "check_health A (nd_config n) now c = conn_disconnect A c"
    using assms(2) by (simp only: check_health_def Let_def if_True)
  moreover have "\<not> is_connected A (conn_disconnect A c)"
    by (simp add: conn_disconnect_def is_connected_def Let_def)
  ultimately show ?thesis
    using assms(1,2) by (force simp: manage_turn_def cleanup_disconnected_peers_def Let_def)
qed

lemma cleanup_connected: "list_all (\<lambda>(k, c). is_connected A c) (connections (cleanup_disconnected_peers A n))"
  by (auto simp: cleanup_disconnected_peers_def list_all_iff)

section \<open>Reachable nodes\<close>

inductive node_reachable :: "'s asio \<Rightarrow> 's P2PNode \<Rightarrow> bool" for A where
  new: "P2PNode_new sys config = Inr (p, n) \<Longrightarrow> node_reachable A n"
| start: "node_reachable A n \<Longrightarrow> node_start sys n = (Returns b, n') \<Longrightarrow> node_reachable A n'"
| stop: "node_reachable A n \<Longrightarrow> node_reachable A (node_stop n)"
| connect_peer: "node_reachable A n \<Longrightarrow> connect_to_peer A E address port n = Inr (Returns b, n') \<Longrightarrow> node_reachable A n'"
| disconnect_peer: "node_reachable A n \<Longrightarrow> node_reachable A (disconnect_from_peer address port n)"
| register: "node_reachable A n \<Longrightarrow> node_reachable A (register_message_handler n)"
| broadcast: "node_reachable A n \<Longrightarrow> node_reachable A (snd (broadcast_message A m n))"
| send_peer: "node_reachable A n \<Longrightarrow> node_reachable A (snd (send_message_to_peer A address port m n))"
| bootstrap: "node_reachable A n \<Longrightarrow> node_reachable A (add_bootstrap_peer address port n)"
| discover: "node_reachable A n \<Longrightarrow> discover_peers A Es n = Inr (Returns (), n') \<Longrightarrow> node_reachable A n'"
| accept: "node_reachable A n \<Longrightarrow> accept_turn A E client n = Inr (Returns (), n') \<Longrightarrow> node_reachable A n'"
| manage: "node_reachable A n \<Longrightarrow> node_reachable A (manage_turn A now n)"
| messages: "node_reachable A n \<Longrightarrow> node_reachable A (messages_turn n)"

text \<open>Starting a connection right after its construction never succeeds.\<close>

lemma fresh_start:
  assumes "asio_ok A" and "P2PConnection_new A config s = Some c"
  shows "conn_start A E c = Inr (Returns False, c)"
proof -
  have "as_is_open A (p_socket c)"
    using assms asio_laws(2,3,4) [OF assms(1)]
    by (auto simp: P2PConnection_new_def start_receive_def Impl_new_def split: option.splits)
  then show ?thesis
    using asio_laws(1) [OF assms(1)] by (simp add: conn_start_def)
qed

lemma connect_to_peer_new:
  assumes "asio_ok A" and "connections n = []"
  shows "connect_to_peer A E address port n = Inr (Returns False, n) \<or> connect_to_peer A E address port n = Inr (Throws, n)"
  using assms(2) fresh_start [OF assms(1)] by (auto simp: connect_to_peer_def split: option.split)

lemma accept_turn_new:
  assumes "asio_ok A"
  shows "accept_turn A E client n = Inr (Returns (), n)"
  using fresh_start [OF assms] by (auto simp: accept_turn_def split: option.split)

lemma discover_loop_new:
  "asio_ok A \<Longrightarrow> connections n = [] \<Longrightarrow> discover_loop A Es ps n = Inr (Returns (), n) \<or> discover_loop A Es ps n = Inr (Throws, n)"
proof (induction ps)
  case (Cons p ps)
  obtain address port where p: "p = (address, port)"
    by force
  show ?case
    using connect_to_peer_new [OF Cons.prems, of "Es (address, port)" address port] Cons.IH [OF Cons.prems] by (auto simp: p)
qed simp

lemma node_reachable_inv:
  assumes "node_reachable A n" and "asio_ok A"
  shows "connections n = []"
  using assms(1)
proof (induction rule: node_reachable.induct)
  case (new sys config p n)
  then show ?case
    by (auto simp: P2PNode_new_def numeral_3_eq_3 try_listen_eq node_cleanup_listen split: bool.splits)
      (simp_all add: node_Impl_new_def)
next
  case (start n sys b n')
  then show ?case
    by (auto simp: node_start_def Let_def split: if_splits)
next
  case (connect_peer n E address port b n')
  then show ?case
    using connect_to_peer_new [OF assms(2) connect_peer.IH, of E address port] by auto
next
  case (discover n Es n')
  then show ?case
    using discover_loop_new [OF assms(2) discover.IH, of Es "bootstrap_peers n"] by (auto simp: discover_peers_def)
next
  case (accept n E client n')
  then show ?case
    using accept_turn_new [OF assms(2), of E client n] by auto
qed (auto simp: node_stop_def disconnect_from_peer_def register_message_handler_def broadcast_message_def
    send_message_to_peer_def add_bootstrap_peer_def manage_turn_def cleanup_disconnected_peers_def messages_turn_def Let_def)

text \<open>
  The node never has a peer: with a socket library that keeps its documentation, in every reachable state the table of connections is
  empty, connecting to a peer fails (every connection binds its socket in its constructor and again when it is started, which is
  refused), accepting a client adds nothing, and no message is ever broadcast or sent.
\<close>

theorem p2p_node_isolated:
  assumes "asio_ok A" and "node_reachable A n"
  shows "get_connection_count n = 0 \<and> get_connected_peers A n = []
    \<and> (\<forall>m. broadcast_message A m n = (False, n))
    \<and> (\<forall>address port m. send_message_to_peer A address port m n = (False, n))
    \<and> (\<forall>E address port r n'. connect_to_peer A E address port n = Inr (r, n') \<longrightarrow> r \<noteq> Returns True \<and> n' = n)
    \<and> (\<forall>E client. accept_turn A E client n = Inr (Returns (), n))"
proof -
  note none = node_reachable_inv [OF assms(2,1)]
  have "broadcast_message A m n = (False, n)" for m
    using none by (simp add: broadcast_message_def)
  moreover have "r \<noteq> Returns True \<and> n' = n" if "connect_to_peer A E address port n = Inr (r, n')" for E address port r n'
    using that connect_to_peer_new [OF assms(1) none, of E address port] by auto
  ultimately show ?thesis
    using none accept_turn_new [OF assms(1)]
    by (simp add: get_connection_count_def get_connected_peers_def send_message_to_peer_def)
qed

definition demo_node_config :: NodeConfig where
  "demo_node_config = \<lparr>n_port = 8080, n_stun_server = ''stun'', n_stun_port = 3478, n_enable_upnp = True, n_enable_nat_pmp = True,
     n_max_peers = 100, n_max_connections = 1000, n_connection_timeout_ms = 30000, n_ping_interval_ms = 10000\<rparr>"

definition demo_sys :: sys_socket where
  "demo_sys = \<lparr>sys_fd = Some 3, sys_setsockopt = True, sys_bind = True, sys_listen = True\<rparr>"

theorem p2p_node_isolated_witness:
  "\<exists>n. node_reachable simple_asio n \<and> nd_running n \<and> get_connection_count n = 0 \<and> broadcast_message simple_asio [1] n = (False, n)"
proof -
  let ?n = "(node_Impl_new demo_node_config)\<lparr>server_socket := Some 3\<rparr> :: bool P2PNode"
  have "P2PNode_new (\<lambda>_. demo_sys) demo_node_config = Inr (8080, ?n)"
    by (simp add: P2PNode_new_def numeral_3_eq_3 try_listen_eq port_usable_def demo_sys_def demo_node_config_def)
  then have "node_reachable simple_asio ?n"
    by (rule node_reachable.new)
  moreover have "node_start demo_sys ?n =
      (Returns True, ?n\<lparr>nd_running := True, accept_thread := True, management_thread := True, message_thread := True\<rparr>)"
    by (simp add: node_start_def demo_sys_def node_Impl_new_def Let_def)
  ultimately have r: "node_reachable simple_asio (?n\<lparr>nd_running := True, accept_thread := True, management_thread := True, message_thread := True\<rparr>)"
    by (rule node_reachable.start)
  show ?thesis
    using p2p_node_isolated [OF simple_asio_ok r] r by (intro exI conjI) auto
qed

end
