(* ===== verification/External_Link.thy ===== *)
theory External_Link
  imports Std_Map
begin

text \<open>
  Access to external data (\<open>include/evm/ExternalLink.hpp\<close>, \<open>src/evm/ExternalLink.cpp\<close>) with the proof verifier it relies on
  (\<open>src/evm/ProofVerification.cpp\<close>): trusted sources, the rate limit and daily quota of a source, the cache, and \<open>fetch_data\<close>, which
  goes through them. The transfer itself is libcurl's: what it returns is an argument. Times are the counts of
  \<open>system_clock\<close> (nanoseconds, \<open>int64_t\<close>); every reading of the clock is an argument of its own.
\<close>

section \<open>The proof verifier\<close>

record ZkProofData =
  zk_pre_state_root :: bytes
  zk_post_state_root :: bytes
  zk_transactions_root :: bytes
  zk_receipts_root :: bytes
  zk_proof_data :: bytes

text \<open>The hash of the public inputs is computed and not used.\<close>

definition verify_zk_proof :: "bytes \<Rightarrow> bytes \<Rightarrow> bool" where
  "verify_zk_proof proof public_inputs =
     (if proof = [] \<or> public_inputs = [] then False else proof \<noteq> [] \<and> length proof \<ge> 32)"

definition generate_zk_proof :: "bytes \<Rightarrow> bytes \<Rightarrow> bytes" where
  "generate_zk_proof private_inputs public_inputs = replicate 32 0"

definition pv_verify_state_transition :: "ZkProofData \<Rightarrow> bool" where
  "pv_verify_state_transition proof = True"

definition pv_verify_transaction :: "bytes \<Rightarrow> ZkProofData \<Rightarrow> bool" where
  "pv_verify_transaction tx_hash proof = True"

definition pv_verify_merkle_proof :: "bytes \<Rightarrow> bytes \<Rightarrow> bytes list \<Rightarrow> bool" where
  "pv_verify_merkle_proof root leaf proof = True"

definition compress_proof :: "bytes \<Rightarrow> bytes" where
  "compress_proof proof_data = proof_data"

definition decompress_proof :: "bytes \<Rightarrow> bytes" where
  "decompress_proof compressed_data = compressed_data"

section \<open>State\<close>

record ExternalData =
  ed_data :: bytes
  ed_proof :: bytes
  ed_timestamp :: u64
  ed_source :: string

record LinkConfig =
  max_response_time_ms :: u32
  require_proof :: bool

record DataRequest =
  rq_timestamp :: u64
  rq_endpoint :: string
  rq_method :: string

record DataResponse =
  dr_success :: bool
  dr_data :: bytes
  dr_proof :: bytes
  dr_error_message :: string

record CacheEntry =
  ce_data :: ExternalData
  ce_expiry :: int

record RateLimit =
  requests_per_second :: u32
  daily_quota :: u32
  requests_today :: u32
  request_times :: "int list"

record ExternalLink =
  el_config :: LinkConfig
  trusted_sources :: "(string, string) smap"
  rate_limits :: "(string, RateLimit) smap"
  el_cache :: "(string, CacheEntry) smap"
  caching_enabled :: bool
  cache_duration :: int
  proof_buffer :: bytes

text \<open>The constructor starts with empty tables; the trusted sources of the configuration are not entered.\<close>

definition ExternalLink_new :: "LinkConfig \<Rightarrow> ExternalLink" where
  "ExternalLink_new config =
     \<lparr>el_config = config, trusted_sources = [], rate_limits = [], el_cache = [], caching_enabled = False,
      cache_duration = 3600 * 10 ^ 9, proof_buffer = []\<rparr>"

text \<open>The value \<open>rate_limits_[source]\<close> creates.\<close>

definition RateLimit_new :: RateLimit where
  "RateLimit_new = \<lparr>requests_per_second = 0, daily_quota = 0, requests_today = 0, request_times = []\<rparr>"

section \<open>Operations\<close>

definition add_trusted_source :: "string \<Rightarrow> string \<Rightarrow> ExternalLink \<Rightarrow> bool \<times> ExternalLink" where
  "add_trusted_source source public_key l = (True, l\<lparr>trusted_sources := map_put source public_key (trusted_sources l)\<rparr>)"

definition enable_caching :: "bool \<Rightarrow> ExternalLink \<Rightarrow> ExternalLink" where
  "enable_caching enable l = l\<lparr>caching_enabled := enable\<rparr>"

definition set_cache_duration :: "int \<Rightarrow> ExternalLink \<Rightarrow> ExternalLink" where
  "set_cache_duration seconds l = l\<lparr>cache_duration := seconds * 10 ^ 9\<rparr>"

definition clear_cache :: "ExternalLink \<Rightarrow> ExternalLink" where
  "clear_cache l = l\<lparr>el_cache := []\<rparr>"

text \<open>\<open>std::abs\<close> of the smallest \<open>int64_t\<close> is undefined.\<close>

definition validate_request :: "int \<Rightarrow> DataRequest \<Rightarrow> ExternalLink \<Rightarrow> bool res" where
  "validate_request now request l =
     (if rq_endpoint request = [] \<or> rq_method request = [] then Inr False
      else if take 8 (rq_endpoint request) \<noteq> ''https://'' then Inr False
      else
        let d = sint (of_int now - rq_timestamp request :: u64) in
        if d = - (2 ^ 63) then Inl (Undefined ''abs of the smallest int64_t'')
        else Inr (\<not> \<bar>d\<bar> > int (unat (max_response_time_ms (el_config l)))))"

text \<open>Requests older than a second leave the queue of their source.\<close>

definition old_request :: "int \<Rightarrow> int \<Rightarrow> bool" where
  "old_request now t \<longleftrightarrow> now - t > 10 ^ 9"

definition check_rate_limit :: "int \<Rightarrow> string \<Rightarrow> ExternalLink \<Rightarrow> bool \<times> ExternalLink" where
  "check_rate_limit now source l =
     (let (limit, limits) = map_index RateLimit_new source (rate_limits l);
          limit = limit\<lparr>request_times := dropWhile (old_request now) (request_times limit)\<rparr>
      in if length (request_times limit) \<ge> unat (requests_per_second limit)
         then (False, l\<lparr>rate_limits := map_put source limit limits\<rparr>)
         else (True, l\<lparr>rate_limits := map_put source (limit\<lparr>request_times := request_times limit @ [now]\<rparr>) limits\<rparr>))"

text \<open>\<open>time_point_cast<hours>(now)\<close> rounds towards zero to a whole hour; \<open>now\<close> is not negative.\<close>

definition hour_ns :: int where
  "hour_ns = 3600 * 10 ^ 9"

definition check_quota :: "int \<Rightarrow> string \<Rightarrow> ExternalLink \<Rightarrow> bool \<times> ExternalLink" where
  "check_quota now source l =
     (let (limit, limits) = map_index RateLimit_new source (rate_limits l);
          today = now div hour_ns * hour_ns;
          limit = (if now - today > 24 * hour_ns then limit\<lparr>requests_today := 0\<rparr> else limit)
      in if requests_today limit \<ge> daily_quota limit
         then (False, l\<lparr>rate_limits := map_put source limit limits\<rparr>)
         else (True, l\<lparr>rate_limits := map_put source (limit\<lparr>requests_today := requests_today limit + 1\<rparr>) limits\<rparr>))"

text \<open>A miss returns a value-initialised \<open>ExternalData\<close>.\<close>

definition fetch_from_cache :: "int \<Rightarrow> DataRequest \<Rightarrow> ExternalLink \<Rightarrow> ExternalData" where
  "fetch_from_cache now request l =
     (case map_find (el_cache l) (rq_endpoint request) of
        Some e \<Rightarrow> if now < ce_expiry e then ce_data e
                  else \<lparr>ed_data = [], ed_proof = [], ed_timestamp = 0, ed_source = []\<rparr>
      | None \<Rightarrow> \<lparr>ed_data = [], ed_proof = [], ed_timestamp = 0, ed_source = []\<rparr>)"

definition update_cache :: "int \<Rightarrow> DataRequest \<Rightarrow> ExternalData \<Rightarrow> ExternalLink \<Rightarrow> ExternalLink" where
  "update_cache now request data l =
     l\<lparr>el_cache := map_put (rq_endpoint request) \<lparr>ce_data = data, ce_expiry = now + cache_duration l\<rparr> (el_cache l)\<rparr>"

definition verify_external_data :: "ExternalData \<Rightarrow> ExternalLink \<Rightarrow> bool" where
  "verify_external_data data l =
     (if \<not> map_count (trusted_sources l) (ed_source data) then False
      else if ed_proof data \<noteq> [] then verify_zk_proof (ed_proof data) (ed_data data)
      else True)"

text \<open>The readings of the clock during a call of \<open>fetch_data\<close>, and the outcome of the transfer: a body or an error text.\<close>

record fetch_env =
  fe_validate :: int
  fe_cache :: int
  fe_rate :: int
  fe_quota :: int
  fe_received :: int
  fe_update :: int
  fe_transfer :: "string + bytes"

definition failed :: "string \<Rightarrow> DataResponse" where
  "failed msg = \<lparr>dr_success = False, dr_data = [], dr_proof = [], dr_error_message = msg\<rparr>"

definition succeeded :: "ExternalData \<Rightarrow> DataResponse" where
  "succeeded d = \<lparr>dr_success = True, dr_data = ed_data d, dr_proof = ed_proof d, dr_error_message = []\<rparr>"

text \<open>The short-circuit of \<open>||\<close>: the quota is only counted when the rate limit allows the request.\<close>

definition check_limits :: "fetch_env \<Rightarrow> string \<Rightarrow> ExternalLink \<Rightarrow> bool \<times> ExternalLink" where
  "check_limits E source l =
     (case check_rate_limit (fe_rate E) source l of
        (False, l) \<Rightarrow> (False, l)
      | (True, l) \<Rightarrow> check_quota (fe_quota E) source l)"

definition fetch_data :: "fetch_env \<Rightarrow> DataRequest \<Rightarrow> ExternalLink \<Rightarrow> (DataResponse \<times> ExternalLink) res" where
  "fetch_data E request l =
     (case validate_request (fe_validate E) request l of
        Inl e \<Rightarrow> Inl e
      | Inr False \<Rightarrow> Inr (failed ''Invalid request'', l)
      | Inr True \<Rightarrow>
          let cached_data = fetch_from_cache (fe_cache E) request l in
          if ed_data cached_data \<noteq> [] then Inr (succeeded cached_data, l)
          else case check_limits E (rq_endpoint request) l of
            (False, l) \<Rightarrow> Inr (failed ''Rate limit exceeded'', l)
          | (True, l) \<Rightarrow>
              case fe_transfer E of
                Inl msg \<Rightarrow> Inr (failed msg, l)
              | Inr body \<Rightarrow>
                  let external_data = \<lparr>ed_data = body, ed_proof = proof_buffer l, ed_timestamp = of_int (fe_received E),
                        ed_source = rq_endpoint request\<rparr>
                  in if require_proof (el_config l) \<and> \<not> verify_external_data external_data l
                     then Inr (failed ''Data verification failed'', l)
                     else Inr (succeeded external_data,
                            if caching_enabled l then update_cache (fe_update E) request external_data l else l))"

section \<open>Proofs\<close>

text \<open>
  A proof is accepted for its length alone: the proof that \<open>generate_zk_proof\<close> makes for one statement is accepted for every
  other non-empty statement.
\<close>

lemma verify_zk_proof_iff: "verify_zk_proof proof inputs \<longleftrightarrow> length proof \<ge> 32 \<and> inputs \<noteq> []"
  by (auto simp: verify_zk_proof_def)

lemma zk_proof_transfers: "inputs' \<noteq> [] \<Longrightarrow> verify_zk_proof (generate_zk_proof secret inputs) inputs'"
  by (simp add: verify_zk_proof_iff generate_zk_proof_def)

lemma compress_proof_inverse: "decompress_proof (compress_proof proof) = proof"
  by (simp add: compress_proof_def decompress_proof_def)

section \<open>The rate limit\<close>

text \<open>The requests of one source at the given times that its limit lets through.\<close>

fun rate_run :: "string \<Rightarrow> int list \<Rightarrow> ExternalLink \<Rightarrow> int list" where
  "rate_run source [] l = []"
| "rate_run source (t # ts) l =
     (case check_rate_limit t source l of
        (True, l) \<Rightarrow> t # rate_run source ts l
      | (False, l) \<Rightarrow> rate_run source ts l)"

text \<open>The same on the queue of the source alone.\<close>

fun limiter :: "nat \<Rightarrow> int list \<Rightarrow> int list \<Rightarrow> int list" where
  "limiter r [] q = []"
| "limiter r (t # ts) q =
     (let q = dropWhile (old_request t) q in
      if length q \<ge> r then limiter r ts q else t # limiter r ts (q @ [t]))"

lemma map_index_find:
  assumes "map_find m k = Some v"
  shows "map_index d k m = (v, m)"
  using assms by (simp add: map_index_def)

lemma rate_run_limiter:
  assumes "map_find (rate_limits l) source = Some limit"
  shows "rate_run source ts l = limiter (unat (requests_per_second limit)) ts (request_times limit)"
  using assms
proof (induction ts arbitrary: l limit)
  case (Cons t ts)
  show ?case
    using Cons.IH by (simp add: check_rate_limit_def map_index_find [OF Cons.prems] Let_def)
qed simp

definition in_second :: "int \<Rightarrow> int \<Rightarrow> bool" where
  "in_second t x \<longleftrightarrow> t \<le> x \<and> x \<le> t + 10 ^ 9"

lemma length_filter_mono: "(\<And>x. P x \<Longrightarrow> Q x) \<Longrightarrow> length (filter P xs) \<le> length (filter Q xs)"
  by (induction xs) auto

lemma dropWhile_old: "sorted q \<Longrightarrow> dropWhile (old_request t) q = filter (\<lambda>x. \<not> old_request t x) q"
proof (induction q)
  case (Cons x q)
  show ?case
  proof (cases "old_request t x")
    case False
    then have "\<forall>y \<in> set q. \<not> old_request t y"
      using Cons.prems by (auto simp: old_request_def)
    then show ?thesis
      using False by (simp add: filter_True)
  qed (use Cons in simp)
qed simp

lemma limiter_window:
  assumes "sorted (acc @ ts)" and "q = dropWhile (old_request t0) acc" and "\<forall>x \<in> set ts. t0 \<le> x"
    and "\<forall>w. length (filter (in_second w) acc) \<le> r"
  shows "length (filter (in_second w) (acc @ limiter r ts q)) \<le> r"
  using assms
proof (induction ts arbitrary: acc q t0)
  case Nil
  then show ?case by simp
next
  case (Cons t ts)
  let ?q = "dropWhile (old_request t) acc"
  have sorted: "sorted acc" "sorted (acc @ ts)" "sorted ((acc @ [t]) @ ts)" "\<forall>x \<in> set ts. t \<le> x"
    using Cons.prems(1) by (auto simp: sorted_append)
  have "t0 \<le> t"
    using Cons.prems(3) by simp
  then have "dropWhile (old_request t) (dropWhile (old_request t0) acc) = ?q"
    by (induction acc) (auto simp: old_request_def)
  then have q: "dropWhile (old_request t) q = ?q"
    by (simp add: Cons.prems(2))
  show ?case
  proof (cases "length ?q \<ge> r")
    case True
    then show ?thesis
      using Cons.IH [OF sorted(2) refl sorted(4) Cons.prems(4)] by (simp add: q)
  next
    case False
    have "length (filter (in_second v) (acc @ [t])) \<le> r" for v
    proof (cases "in_second v t")
      case True
      then have "length (filter (in_second v) acc) \<le> length (filter (\<lambda>x. \<not> old_request t x) acc)"
        by (intro length_filter_mono) (auto simp: in_second_def old_request_def)
      then show ?thesis
        using False True by (simp add: dropWhile_old [OF sorted(1)])
    qed (use Cons.prems(4) in simp)
    moreover have "?q @ [t] = dropWhile (old_request t) (acc @ [t])"
      by (induction acc) (auto simp: old_request_def)
    ultimately show ?thesis
      using Cons.IH [OF sorted(3) _ sorted(4), of "?q @ [t]"] False by (simp add: q Let_def)
  qed
qed

text \<open>
  The rate limit of a source holds over every sliding second: for requests at times that do not decrease, at most
  \<open>requests_per_second\<close> of those let through lie in any window of one second.
\<close>

theorem rate_limit_window:
  assumes "map_find (rate_limits l) source = Some limit" and "request_times limit = []" and "sorted ts"
  shows "length (filter (in_second w) (rate_run source ts l)) \<le> unat (requests_per_second limit)"
proof -
  define r where "r = unat (requests_per_second limit)"
  have "length (filter (in_second w) ([] @ limiter r ts [])) \<le> r"
  proof (cases ts)
    case (Cons t ts')
    then show ?thesis
      using limiter_window [of "[]" ts "[]" t r w] assms(3) by auto
  qed simp
  then show ?thesis
    by (simp add: rate_run_limiter [OF assms(1)] assms(2) r_def)
qed

definition demo_link :: ExternalLink where
  "demo_link = (ExternalLink_new \<lparr>max_response_time_ms = 5000, require_proof = True\<rparr>)
     \<lparr>rate_limits := [(''https://a'', RateLimit_new\<lparr>requests_per_second := 2, daily_quota := 9\<rparr>)]\<rparr>"

theorem rate_limit_window_witness:
  "rate_run ''https://a'' [0, 1, 2, 2000000000] demo_link = [0, 1, 2000000000]
    \<and> length (filter (in_second 0) (rate_run ''https://a'' [0, 1, 2, 2000000000] demo_link)) \<le> 2"
proof -
  have f: "map_find (rate_limits demo_link) ''https://a'' = Some (RateLimit_new\<lparr>requests_per_second := 2, daily_quota := 9\<rparr>)"
    by (simp add: demo_link_def map_find_def)
  have "rate_run ''https://a'' [0, 1, 2, 2000000000] demo_link = [0, 1, 2000000000]"
    by (simp only: rate_run_limiter [OF f]) (simp add: RateLimit_new_def old_request_def)
  then show ?thesis
    using rate_limit_window [OF f, of "[0, 1, 2, 2000000000]" 0] by (simp add: RateLimit_new_def)
qed

text \<open>The quota of a day is never given back: the time since the last full hour is less than a day.\<close>

lemma quota_never_reset: "now \<ge> 0 \<Longrightarrow> \<not> now - now div hour_ns * hour_ns > 24 * hour_ns"
  using pos_mod_bound [of hour_ns now] by (simp add: hour_ns_def minus_div_mult_eq_mod)

section \<open>Reachable links\<close>

text \<open>
  The operations that have a body. \<open>set_rate_limit\<close>, \<open>set_quota\<close> and \<open>remove_trusted_source\<close> are declared only, and nothing writes
  \<open>proof_buffer_\<close>.
\<close>

inductive link_reachable :: "ExternalLink \<Rightarrow> bool" where
  new: "link_reachable (ExternalLink_new config)"
| trust: "link_reachable l \<Longrightarrow> link_reachable (snd (add_trusted_source source key l))"
| caching: "link_reachable l \<Longrightarrow> link_reachable (enable_caching b l)"
| duration: "link_reachable l \<Longrightarrow> link_reachable (set_cache_duration d l)"
| clear: "link_reachable l \<Longrightarrow> link_reachable (clear_cache l)"
| fetch: "link_reachable l \<Longrightarrow> fetch_data E request l = Inr (response, l') \<Longrightarrow> link_reachable l'"

definition no_limits :: "ExternalLink \<Rightarrow> bool" where
  "no_limits l \<longleftrightarrow> el_cache l = [] \<and> (\<forall>source limit. map_find (rate_limits l) source = Some limit \<longrightarrow> requests_per_second limit = 0)"

lemma no_limits_refuses:
  assumes "no_limits l"
  shows "fst (check_rate_limit now source l) = False" and "no_limits (snd (check_rate_limit now source l))"
  using assms
  by (auto simp: check_rate_limit_def no_limits_def map_index_def RateLimit_new_def Let_def split: option.split)

lemma no_limits_fetch:
  assumes "no_limits l" and "fetch_data E request l = Inr (response, l')"
  shows "no_limits l' \<and> (response = failed ''Invalid request'' \<or> response = failed ''Rate limit exceeded'')"
proof -
  obtain l1 where l1: "check_rate_limit (fe_rate E) (rq_endpoint request) l = (False, l1)" "no_limits l1"
    using no_limits_refuses [OF assms(1), of "fe_rate E" "rq_endpoint request"] by (metis prod.collapse snd_conv)
  have "ed_data (fetch_from_cache t request l) = []" for t
    using assms(1) by (simp add: fetch_from_cache_def no_limits_def)
  then show ?thesis
    using assms l1 by (auto simp: fetch_data_def check_limits_def Let_def split: sum.splits bool.splits)
qed

lemma link_reachable_no_limits: "link_reachable l \<Longrightarrow> no_limits l"
proof (induction rule: link_reachable.induct)
  case (fetch l E request response l')
  then show ?case
    using no_limits_fetch by blast
qed (auto simp: no_limits_def ExternalLink_new_def add_trusted_source_def enable_caching_def set_cache_duration_def clear_cache_def)

text \<open>
  No data is ever fetched: in every reachable state every request is answered with \<open>Invalid request\<close> or \<open>Rate limit exceeded\<close>,
  because a source that is looked up for the first time gets the limit zero, no operation raises it, and the cache is
  only filled by a fetch that succeeds.
\<close>

theorem external_link_refuses:
  assumes "link_reachable l" and "fetch_data E request l = Inr (response, l')"
  shows "\<not> dr_success response \<and> dr_data response = []
    \<and> dr_error_message response \<in> {''Invalid request'', ''Rate limit exceeded''}"
  using no_limits_fetch [OF link_reachable_no_limits [OF assms(1)] assms(2)] by (auto simp: failed_def)

theorem external_link_refuses_witness:
  "\<exists>response l'. fetch_data \<lparr>fe_validate = 7, fe_cache = 7, fe_rate = 7, fe_quota = 7, fe_received = 7, fe_update = 7, fe_transfer = Inr [1]\<rparr>
      \<lparr>rq_timestamp = 7, rq_endpoint = ''https://a'', rq_method = ''GET''\<rparr>
      (ExternalLink_new \<lparr>max_response_time_ms = 5000, require_proof = False\<rparr>) = Inr (response, l')
    \<and> dr_error_message response = ''Rate limit exceeded'' \<and> \<not> dr_success response"
proof -
  let ?E = "\<lparr>fe_validate = 7, fe_cache = 7, fe_rate = 7, fe_quota = 7, fe_received = 7, fe_update = 7, fe_transfer = Inr [1]\<rparr>"
  let ?q = "\<lparr>rq_timestamp = 7, rq_endpoint = ''https://a'', rq_method = ''GET''\<rparr>"
  let ?l = "ExternalLink_new \<lparr>max_response_time_ms = 5000, require_proof = False\<rparr>"
  obtain response l' where f: "fetch_data ?E ?q ?l = Inr (response, l')" "dr_error_message response = ''Rate limit exceeded''"
    by (simp add: fetch_data_def validate_request_def ExternalLink_new_def Let_def fetch_from_cache_def check_limits_def
        check_rate_limit_def map_index_def RateLimit_new_def failed_def)
  then show ?thesis
    using external_link_refuses [OF link_reachable.new f(1)] by blast
qed

end
