(* ===== verification/Rollup_Bridges.thy ===== *)
theory Rollup_Bridges
  imports Rollup_Transition Merkle
begin

text \<open>
  The bridges of the rollup: the optimistic adapter (\<open>src/rollup/OptimisticAdapter.cpp\<close>), the commitments and messages to the first
  layer (\<open>src/rollup/L1Bridge.cpp\<close>) and the messages between rollups (\<open>src/rollup/CrossRollupBridge.cpp\<close>). BLAKE3 and SHA-256 are
  parameters. What is accepted is stated for all inputs; where a hash decides, up to an explicit collision.
\<close>

section \<open>Optimistic adapter\<close>

record OptimisticProof =
  op_zk_proof :: RSTProof
  op_challenge_period_end :: nat
  op_has_fraud_proof :: bool

text \<open>The challenge period is seven days; times are seconds here.\<close>

definition convert_to_optimistic :: "nat \<Rightarrow> RSTProof \<Rightarrow> OptimisticProof" where
  "convert_to_optimistic now zk_proof =
     \<lparr>op_zk_proof = zk_proof, op_challenge_period_end = now + 24 * 7 * 3600, op_has_fraud_proof = False\<rparr>"

definition verify_optimistic_proof :: "tolerance \<Rightarrow> (bytes \<Rightarrow> bytes) \<Rightarrow> OptimisticProof \<Rightarrow> StateManager \<Rightarrow> bool res" where
  "verify_optimistic_proof tol blake3 proof state_manager =
     (case apply_until tol (rp_transactions (op_zk_proof proof)) (StateManager_new blake3) of
        Inl e \<Rightarrow> Inl e
      | Inr (ok, _) \<Rightarrow> Inr ok)"

definition oa_verify_state_transition :: "tolerance \<Rightarrow> (bytes \<Rightarrow> bytes) \<Rightarrow> RSTProof \<Rightarrow> StateManager \<Rightarrow> bool res" where
  "oa_verify_state_transition tol blake3 proof state_manager =
     (case get_state_root tol state_manager of Inl e \<Rightarrow> Inl e | Inr (current, _) \<Rightarrow>
      if length current < 32 then Inr False
      else if rp_pre_state_root proof \<noteq> take 32 current then Inr False
      else case apply_until tol (rp_transactions proof) (StateManager_new blake3) of
        Inl e \<Rightarrow> Inl e
      | Inr (False, _) \<Rightarrow> Inr False
      | Inr (True, temp_state) \<Rightarrow>
          (case get_state_root tol temp_state of Inl e \<Rightarrow> Inl e | Inr (root, _) \<Rightarrow>
           if length root < 32 then Inr False else Inr (rp_post_state_root proof = take 32 root)))"

section \<open>First layer\<close>

record L1Commitment =
  l1_state_root :: bytes
  l1_batch_hash :: bytes
  l1_batch_size :: u64
  l1_aggregated_proof :: bytes

fun has_valid_roots :: "bytes \<Rightarrow> bytes \<Rightarrow> bool" where
  "has_valid_roots (x # xs) (y # ys) \<longleftrightarrow> x \<noteq> 0 \<or> y \<noteq> 0 \<or> has_valid_roots xs ys"
| "has_valid_roots _ _ \<longleftrightarrow> False"

definition verify_commitment :: "(bytes \<Rightarrow> bytes) \<Rightarrow> L1Commitment \<Rightarrow> bool res" where
  "verify_commitment blake3 c =
     (if of_nat (length (l1_aggregated_proof c)) \<noteq> l1_batch_size c * 32 then Inr False
      else if \<not> has_valid_roots (l1_state_root c) (l1_batch_hash c) then Inr False
      else
        let expected_hash = blake3 (l1_state_root c @ l1_batch_hash c) in
        if length (l1_aggregated_proof c) < 32 then Inl (Undefined ''memcmp past the end of the proof'')
        else Inr (expected_hash = take 32 (l1_aggregated_proof c)))"

definition submit_commitment :: "(bytes \<Rightarrow> bytes) \<Rightarrow> L1Commitment \<Rightarrow> unit res" where
  "submit_commitment blake3 c = map_sum id (\<lambda>_. ()) (verify_commitment blake3 c)"

record L1Bridge =
  l1_pending_messages :: "bytes list"

definition send_message_to_l2 :: "bytes \<Rightarrow> L1Bridge \<Rightarrow> L1Bridge" where
  "send_message_to_l2 message b = b\<lparr>l1_pending_messages := l1_pending_messages b @ [message]\<rparr>"

text \<open>The loop takes messages off the queue and does nothing with them.\<close>

function process_l2_messages :: "L1Bridge \<Rightarrow> L1Bridge" where
  "process_l2_messages b =
     (if l1_pending_messages b \<noteq> [] then process_l2_messages (b\<lparr>l1_pending_messages := tl (l1_pending_messages b)\<rparr>) else b)"
  by pat_completeness auto
termination
  by (relation "measure (length \<circ> l1_pending_messages)") auto

declare process_l2_messages.simps [simp del]

section \<open>Between rollups\<close>

text \<open>The type of the validity proof is a parameter: the code does not look at it.\<close>

record 'p CrossRollupMessage =
  cm_source_chain_id :: u32
  cm_destination_chain_id :: u32
  cm_payload :: bytes
  cm_validity_proof :: 'p

record CrossRollupBridge =
  cr_message_hashes :: "bytes list"

definition message_preimage :: "'p CrossRollupMessage \<Rightarrow> bytes" where
  "message_preimage m = u32_bytes (cm_source_chain_id m) @ u32_bytes (cm_destination_chain_id m) @ cm_payload m"

definition compute_message_hash :: "(bytes \<Rightarrow> bytes) \<Rightarrow> 'p CrossRollupMessage \<Rightarrow> bytes" where
  "compute_message_hash sha256 m = sha256 (message_preimage m)"

definition cr_send_message :: "(bytes \<Rightarrow> bytes) \<Rightarrow> 'p CrossRollupMessage \<Rightarrow> CrossRollupBridge \<Rightarrow> CrossRollupBridge" where
  "cr_send_message sha256 m b = b\<lparr>cr_message_hashes := cr_message_hashes b @ [compute_message_hash sha256 m]\<rparr>"

definition verify_incoming_message :: "(bytes \<Rightarrow> bytes) \<Rightarrow> 'p CrossRollupMessage \<Rightarrow> CrossRollupBridge \<Rightarrow> bool" where
  "verify_incoming_message sha256 m b \<longleftrightarrow> compute_message_hash sha256 m \<in> set (cr_message_hashes b)"

section \<open>What the adapter accepts\<close>

text \<open>The state of a new state manager has no account, so that no transaction can be applied to it.\<close>

lemma fresh_state [simp]: "accounts (StateManager_new blake3) = []"
  by (simp add: StateManager_new_def Let_def)

lemma fresh_root: "hash32 blake3 \<Longrightarrow> length (current_state_root (StateManager_new blake3)) = 32"
  by (simp add: StateManager_new_def Let_def calculate_state_root_def hash32_def)

lemma apply_until_fresh:
  "apply_until tol txs (StateManager_new blake3) = Inr (ok, s) \<Longrightarrow> (ok \<longleftrightarrow> txs = []) \<and> s = StateManager_new blake3"
proof (cases txs)
  case (Cons tx txs')
  assume a: "apply_until tol txs (StateManager_new blake3) = Inr (ok, s)"
  then obtain b s' where at: "apply_transaction tol tx (StateManager_new blake3) = Inr (b, s')"
    by (cases "apply_transaction tol tx (StateManager_new blake3)") (auto simp: Cons)
  then have "apply_transaction tolerant tx (StateManager_new blake3) = Inr (b, s')"
    by (rule apply_transaction_success)
  then have "\<not> b" "s' = StateManager_new blake3"
    by (auto simp: apply_transaction_tolerant)
  then show ?thesis
    using a at by (simp add: Cons)
qed simp

text \<open>
  The optimistic adapter checks the transactions of a proof against an empty state, not against the state it is given: it accepts
  exactly the proofs without transactions. A proof of a transition is accepted exactly when it has no transactions, starts at the
  current root and ends at the root of the empty state.
\<close>

theorem optimistic_adapter_spec:
  assumes "length (current_state_root sm) \<ge> 32" and "hash32 blake3"
  shows "verify_optimistic_proof tolerant blake3 proof sm = Inr (rp_transactions (op_zk_proof proof) = [])
   \<and> oa_verify_state_transition tolerant blake3 zk sm = Inr (rp_transactions zk = []
        \<and> rp_pre_state_root zk = take 32 (current_state_root sm)
        \<and> rp_post_state_root zk = current_state_root (StateManager_new blake3))"
proof -
  obtain ok s where run: "apply_until tolerant (rp_transactions zk) (StateManager_new blake3) = Inr (ok, s)"
    using apply_until_tolerant by blast
  obtain ok' s' where run': "apply_until tolerant (rp_transactions (op_zk_proof proof)) (StateManager_new blake3) = Inr (ok', s')"
    using apply_until_tolerant by blast
  show ?thesis
    using apply_until_fresh [OF run] apply_until_fresh [OF run'] run run' assms(1) fresh_root [OF assms(2)]
    by (auto simp: oa_verify_state_transition_def verify_optimistic_proof_def)
qed

theorem optimistic_adapter_spec_witness:
  "verify_optimistic_proof tolerant (\<lambda>_. replicate 32 0)
     (convert_to_optimistic 0 \<lparr>rp_pre_state_root = [], rp_post_state_root = [], rp_transactions = [demo_tx ''a''], rp_proof_data = [],
        rp_timestamp = 0, rp_batch_number = 0, rp_batch_hash = []\<rparr>) (demo_state\<lparr>current_state_root := replicate 32 0\<rparr>) = Inr False"
  using optimistic_adapter_spec [of "demo_state\<lparr>current_state_root := replicate 32 0\<rparr>" "\<lambda>_. replicate 32 0"
      "convert_to_optimistic 0 \<lparr>rp_pre_state_root = [], rp_post_state_root = [], rp_transactions = [demo_tx ''a''], rp_proof_data = [],
        rp_timestamp = 0, rp_batch_number = 0, rp_batch_hash = []\<rparr>"]
  by (simp add: convert_to_optimistic_def hash32_def)

section \<open>What the first layer accepts\<close>

lemma has_valid_roots_iff:
  "length xs = length ys \<Longrightarrow> has_valid_roots xs ys \<longleftrightarrow> (\<exists>b \<in> set (xs @ ys). b \<noteq> 0)"
  by (induction xs ys rule: list_induct2) auto

text \<open>
  A commitment is accepted exactly when the proof has 32 bytes for each transaction of the batch (modulo the width of the size), some
  byte of the roots is not zero and the proof starts with the hash of the two roots: the rest of the proof is not looked at. The
  comparison reads past the proof exactly when the proof is empty and the size of the batch is a multiple of \<open>2 ^ 59\<close>, whose product
  with 32 is zero.
\<close>

theorem verify_commitment_spec:
  assumes "length (l1_state_root c) = 32" and "length (l1_batch_hash c) = 32" and "length (l1_aggregated_proof c) < 2 ^ 64"
  shows "(verify_commitment blake3 c = Inr True \<longleftrightarrow>
      length (l1_aggregated_proof c) = unat (l1_batch_size c) * 32 mod 2 ^ 64 \<and> length (l1_aggregated_proof c) \<ge> 32
      \<and> (\<exists>b \<in> set (l1_state_root c @ l1_batch_hash c). b \<noteq> 0)
      \<and> take 32 (l1_aggregated_proof c) = blake3 (l1_state_root c @ l1_batch_hash c))
    \<and> (is_Undefined (verify_commitment blake3 c) \<longleftrightarrow>
      l1_aggregated_proof c = [] \<and> 2 ^ 59 dvd unat (l1_batch_size c)
      \<and> (\<exists>b \<in> set (l1_state_root c @ l1_batch_hash c). b \<noteq> 0))"
proof -
  let ?n = "length (l1_aggregated_proof c)" and ?k = "unat (l1_batch_size c)"
  have size: "of_nat ?n = l1_batch_size c * 32 \<longleftrightarrow> ?n = ?k * 32 mod 2 ^ 64"
    using assms(3) by (simp add: word_unat_eq_iff unat_word_ariths unat_of_nat)
  have roots: "has_valid_roots (l1_state_root c) (l1_batch_hash c) \<longleftrightarrow> (\<exists>b \<in> set (l1_state_root c @ l1_batch_hash c). b \<noteq> 0)"
    using assms(1,2) by (intro has_valid_roots_iff) simp
  have wrap: "?n = ?k * 32 mod 2 ^ 64 \<and> ?n < 32 \<longleftrightarrow> ?n = 0 \<and> 2 ^ 59 dvd ?k"
  proof -
    have "?k * 32 mod 2 ^ 64 = 32 * (?k mod 2 ^ 59)"
      using mult_mod_right [of 32 ?k "2 ^ 59"] by (simp add: mult.commute)
    then show ?thesis
      by (auto simp: dvd_eq_mod_eq_0)
  qed
  show ?thesis
    using wrap by (auto simp: verify_commitment_def Let_def size roots)
qed

theorem verify_commitment_spec_witness:
  "verify_commitment (\<lambda>_. replicate 32 7) \<lparr>l1_state_root = replicate 32 1, l1_batch_hash = replicate 32 2, l1_batch_size = 2,
      l1_aggregated_proof = replicate 32 7 @ replicate 32 0\<rparr> = Inr True
   \<and> is_Undefined (verify_commitment (\<lambda>_. replicate 32 7) \<lparr>l1_state_root = replicate 32 1, l1_batch_hash = replicate 32 2, l1_batch_size = 0,
      l1_aggregated_proof = []\<rparr>)"
  using verify_commitment_spec [of "\<lparr>l1_state_root = replicate 32 1, l1_batch_hash = replicate 32 2, l1_batch_size = 2,
      l1_aggregated_proof = replicate 32 7 @ replicate 32 0\<rparr>" "\<lambda>_. replicate 32 7"]
    verify_commitment_spec [of "\<lparr>l1_state_root = replicate 32 1, l1_batch_hash = replicate 32 2, l1_batch_size = 0,
      l1_aggregated_proof = []\<rparr>" "\<lambda>_. replicate 32 7"]
  by simp

text \<open>The loop over the messages ends and leaves none.\<close>

lemma process_l2_messages_empties: "process_l2_messages b = b\<lparr>l1_pending_messages := []\<rparr>"
  by (induction b rule: process_l2_messages.induct) (subst process_l2_messages.simps, simp)

section \<open>What other rollups accept\<close>

definition same_message :: "'p CrossRollupMessage \<Rightarrow> 'q CrossRollupMessage \<Rightarrow> bool" where
  "same_message m m' \<longleftrightarrow> cm_source_chain_id m = cm_source_chain_id m' \<and> cm_destination_chain_id m = cm_destination_chain_id m'
     \<and> cm_payload m = cm_payload m'"

lemma u32_bytes_inj [simp]: "u32_bytes v = u32_bytes w \<longleftrightarrow> v = w"
  by (metis bytes_u32_u32_bytes)

lemma message_preimage_eq: "message_preimage m = message_preimage m' \<longleftrightarrow> same_message m m'"
  by (auto simp: message_preimage_def same_message_def)

lemma sent_hashes: "cr_message_hashes (fold (cr_send_message sha256) ms b) = cr_message_hashes b @ map (compute_message_hash sha256) ms"
  by (induction ms arbitrary: b) (simp_all add: cr_send_message_def)

text \<open>
  A message from another rollup is accepted exactly when a message with the same chains and payload was sent before, or SHA-256
  collides on it and a sent one. The validity proof plays no part, and a message that was accepted stays acceptable for ever:
  there is no protection against replays.
\<close>

theorem cross_rollup_accepts_iff:
  "verify_incoming_message sha256 m (fold (cr_send_message sha256) ms \<lparr>cr_message_hashes = []\<rparr>) \<longleftrightarrow>
     list_ex (same_message m) ms \<or> collides sha256 {message_preimage m} (set (map message_preimage ms))"
  by (auto simp: verify_incoming_message_def sent_hashes compute_message_hash_def collides_def list_ex_iff
      simp flip: message_preimage_eq)

end
