(* ===== verification/Transaction_API.thy ===== *)
theory Transaction_API
  imports Transaction Doubles Lock_Free_Queue
begin

text \<open>
  The transaction interface of the rollup (\<open>include/rollup/RollupTransactionAPI.hpp\<close>, \<open>src/rollup/RollupTransactionAPI.cpp\<close>):
  validation, the queue of batches with its limit, the worker and the metrics. The test for overload and the insertion into the queue
  hold \<open>queue_mutex_\<close> separately, so the second part of the theory interleaves them for several callers. Latencies and
  times (microseconds) are arguments; the clock is taken not to go back. \<open>double\<close> arithmetic is the parameter \<open>F\<close>.
\<close>

section \<open>State\<close>

record TransactionBatch =
  tb_transactions :: "Transaction list"
  tb_batch_id :: u64
  tb_timestamp :: u64

record 'd ApiMetrics =
  total_transactions :: u64
  avg_tx_latency :: 'd
  tx_throughput :: 'd
  proof_generation_time :: 'd
  verification_time :: 'd

record 'd RollupTransactionAPI =
  batch_queue :: "TransactionBatch list"
  api_metrics :: "'d ApiMetrics"
  last_metrics_update :: nat
  api_should_stop :: bool
  worker_threads :: nat

definition MAX_QUEUE_SIZE :: nat where
  "MAX_QUEUE_SIZE = 1000"

definition ApiMetrics_new :: "'d dops \<Rightarrow> 'd ApiMetrics" where
  "ApiMetrics_new F =
     \<lparr>total_transactions = 0, avg_tx_latency = lit F ''0.0'', tx_throughput = lit F ''0.0'',
      proof_generation_time = lit F ''0.0'', verification_time = lit F ''0.0''\<rparr>"

definition RollupTransactionAPI_new :: "'d dops \<Rightarrow> nat \<Rightarrow> nat \<Rightarrow> 'd RollupTransactionAPI" where
  "RollupTransactionAPI_new F now num_worker_threads =
     \<lparr>batch_queue = [], api_metrics = ApiMetrics_new F, last_metrics_update = now, api_should_stop = False,
      worker_threads = num_worker_threads\<rparr>"

section \<open>Metrics\<close>

text \<open>A measurement: the latency and the time at which it is recorded.\<close>

record measurement =
  ms_latency :: nat
  ms_now :: nat

definition record_latency :: "'d dops \<Rightarrow> measurement \<Rightarrow> 'd RollupTransactionAPI \<Rightarrow> 'd RollupTransactionAPI" where
  "record_latency F m a =
     (let k = api_metrics a;
          total = of_int_d F (unat (total_transactions k));
          k = k\<lparr>avg_tx_latency := fdiv F (fadd F (fmul F (avg_tx_latency k) total) (of_int_d F (ms_latency m)))
                   (of_int_d F (unat (total_transactions k + 1))),
                total_transactions := total_transactions k + 1\<rparr>;
          duration = fdiv F (of_int_d F (ms_now m - last_metrics_update a)) (lit F ''1000000.0'');
          total = of_int_d F (unat (total_transactions k))
      in if fless F (lit F ''0'') duration then
           if fless F (lit F ''1.0'') duration
           then a\<lparr>api_metrics := k\<lparr>tx_throughput := fdiv F total (lit F ''1.0'')\<rparr>, last_metrics_update := ms_now m - 1000000\<rparr>
           else a\<lparr>api_metrics := k\<lparr>tx_throughput := fdiv F total duration\<rparr>\<rparr>
         else a\<lparr>api_metrics := k\<rparr>)"

definition record_proof_time :: "'d dops \<Rightarrow> nat \<Rightarrow> 'd RollupTransactionAPI \<Rightarrow> 'd RollupTransactionAPI" where
  "record_proof_time F time a =
     a\<lparr>api_metrics := (api_metrics a)\<lparr>proof_generation_time :=
         fdiv F (fadd F (proof_generation_time (api_metrics a)) (fdiv F (of_int_d F time) (lit F ''1000000.0''))) (lit F ''2'')\<rparr>\<rparr>"

definition record_verification_time :: "'d dops \<Rightarrow> nat \<Rightarrow> 'd RollupTransactionAPI \<Rightarrow> 'd RollupTransactionAPI" where
  "record_verification_time F time a =
     a\<lparr>api_metrics := (api_metrics a)\<lparr>verification_time :=
         fdiv F (fadd F (verification_time (api_metrics a)) (fdiv F (of_int_d F time) (lit F ''1000000.0''))) (lit F ''2'')\<rparr>\<rparr>"

definition reset_metrics :: "'d dops \<Rightarrow> nat \<Rightarrow> 'd RollupTransactionAPI \<Rightarrow> 'd RollupTransactionAPI" where
  "reset_metrics F now a = a\<lparr>api_metrics := ApiMetrics_new F, last_metrics_update := now\<rparr>"

section \<open>Validation\<close>

definition is_overloaded :: "'d RollupTransactionAPI \<Rightarrow> bool" where
  "is_overloaded a \<longleftrightarrow> length (batch_queue a) \<ge> MAX_QUEUE_SIZE"

definition validate_transaction_with_message :: "Transaction \<Rightarrow> 'd RollupTransactionAPI \<Rightarrow> string" where
  "validate_transaction_with_message tx a =
     (if tx_from tx = [] then ''Invalid sender address''
      else if tx_to tx = [] then ''Invalid recipient address''
      else if tx_value tx = 0 then ''Transaction value cannot be zero''
      else if tx_signature tx = [] then ''Missing transaction signature''
      else if is_overloaded a then ''System is currently overloaded''
      else [])"

definition validate_transaction :: "Transaction \<Rightarrow> 'd RollupTransactionAPI \<Rightarrow> bool" where
  "validate_transaction tx a \<longleftrightarrow> validate_transaction_with_message tx a = []"

definition calculate_transaction_hash :: "Transaction \<Rightarrow> string" where
  "calculate_transaction_hash tx = tx_from tx @ tx_to tx @ to_string (unat (tx_value tx))"

section \<open>Submission\<close>

definition push_batch :: "TransactionBatch \<Rightarrow> 'd RollupTransactionAPI \<Rightarrow> 'd RollupTransactionAPI" where
  "push_batch batch a = a\<lparr>batch_queue := batch_queue a @ [batch]\<rparr>"

definition submitTransaction :: "'d dops \<Rightarrow> u64 \<Rightarrow> measurement \<Rightarrow> Transaction \<Rightarrow> 'd RollupTransactionAPI \<Rightarrow> bool \<times> 'd RollupTransactionAPI" where
  "submitTransaction F stamp m tx a =
     (if validate_transaction_with_message tx a \<noteq> [] then (False, a)
      else (True, record_latency F m (push_batch \<lparr>tb_transactions = [tx], tb_batch_id = 0, tb_timestamp = stamp\<rparr> a)))"

text \<open>The loop of \<open>submit_batch\<close> validates until a transaction fails.\<close>

fun validate_each :: "Transaction list \<Rightarrow> 'd RollupTransactionAPI \<Rightarrow> bool" where
  "validate_each [] a = True"
| "validate_each (tx # txs) a = (if \<not> validate_transaction tx a then False else validate_each txs a)"

definition submit_batch :: "'d dops \<Rightarrow> u64 \<Rightarrow> measurement \<Rightarrow> Transaction list \<Rightarrow> 'd RollupTransactionAPI \<Rightarrow> bool \<times> 'd RollupTransactionAPI" where
  "submit_batch F stamp m txs a =
     (if \<not> validate_each txs a then (False, a)
      else (True, record_latency F m (push_batch \<lparr>tb_transactions = txs, tb_batch_id = 0, tb_timestamp = stamp\<rparr> a)))"

definition start_processing :: "'d RollupTransactionAPI \<Rightarrow> 'd RollupTransactionAPI" where
  "start_processing a = a\<lparr>api_should_stop := False\<rparr>"

definition stop_processing :: "'d RollupTransactionAPI \<Rightarrow> 'd RollupTransactionAPI" where
  "stop_processing a = a\<lparr>api_should_stop := True\<rparr>"

section \<open>The worker\<close>

text \<open>Processing a batch validates its transactions again and records their latencies; the first invalid one ends it.\<close>

fun process_transactions :: "'d dops \<Rightarrow> (nat \<Rightarrow> measurement) \<Rightarrow> nat \<Rightarrow> Transaction list \<Rightarrow> 'd RollupTransactionAPI \<Rightarrow> bool \<times> 'd RollupTransactionAPI" where
  "process_transactions F ms i [] a = (True, a)"
| "process_transactions F ms i (tx # txs) a =
     (if \<not> validate_transaction tx a then (False, a)
      else process_transactions F ms (i + 1) txs (record_latency F (ms i) a))"

definition api_process_batch :: "'d dops \<Rightarrow> (nat \<Rightarrow> measurement) \<Rightarrow> nat \<Rightarrow> TransactionBatch \<Rightarrow> 'd RollupTransactionAPI \<Rightarrow> bool \<times> 'd RollupTransactionAPI" where
  "api_process_batch F ms time batch a =
     (let (success, a) = process_transactions F ms 0 (tb_transactions batch) a in (success, record_proof_time F time a))"

definition pop_batch :: "'d RollupTransactionAPI \<Rightarrow> TransactionBatch option \<times> 'd RollupTransactionAPI" where
  "pop_batch a = (case batch_queue a of [] \<Rightarrow> (None, a) | b # bs \<Rightarrow> (Some b, a\<lparr>batch_queue := bs\<rparr>))"

text \<open>A turn of a worker: the batch it processed with the outcome, \<open>None\<close> while it waits or once it has stopped.\<close>

definition worker_turn :: "'d dops \<Rightarrow> (nat \<Rightarrow> measurement) \<Rightarrow> nat \<Rightarrow> 'd RollupTransactionAPI \<Rightarrow> (TransactionBatch \<times> bool) option \<times> 'd RollupTransactionAPI" where
  "worker_turn F ms time a =
     (if api_should_stop a then (None, a)
      else case pop_batch a of
        (None, a) \<Rightarrow> (None, a)
      | (Some batch, a) \<Rightarrow> let (success, a) = api_process_batch F ms time batch a in (Some (batch, success), a))"

section \<open>Shape of the operations\<close>

lemma record_latency_keeps [simp]:
  "batch_queue (record_latency F m a) = batch_queue a"
  "api_should_stop (record_latency F m a) = api_should_stop a"
  "total_transactions (api_metrics (record_latency F m a)) = total_transactions (api_metrics a) + 1"
  by (simp_all add: record_latency_def Let_def)

lemma record_proof_time_keeps [simp]:
  "batch_queue (record_proof_time F t a) = batch_queue a"
  "api_should_stop (record_proof_time F t a) = api_should_stop a"
  "total_transactions (api_metrics (record_proof_time F t a)) = total_transactions (api_metrics a)"
  by (simp_all add: record_proof_time_def)

text \<open>A transaction without regard to the load.\<close>

definition well_formed :: "Transaction \<Rightarrow> bool" where
  "well_formed tx \<longleftrightarrow> tx_from tx \<noteq> [] \<and> tx_to tx \<noteq> [] \<and> tx_value tx \<noteq> 0 \<and> tx_signature tx \<noteq> []"

lemma validate_transaction_iff: "validate_transaction tx a \<longleftrightarrow> well_formed tx \<and> length (batch_queue a) < MAX_QUEUE_SIZE"
  by (auto simp: validate_transaction_def validate_transaction_with_message_def well_formed_def is_overloaded_def)

lemma validate_each_iff:
  "validate_each txs a \<longleftrightarrow> list_all well_formed txs \<and> (txs = [] \<or> length (batch_queue a) < MAX_QUEUE_SIZE)"
  by (induction txs) (auto simp: validate_transaction_iff)

lemma process_transactions_ok:
  assumes "list_all well_formed txs" and "length (batch_queue a) < MAX_QUEUE_SIZE"
  shows "fst (process_transactions F ms i txs a)
    \<and> batch_queue (snd (process_transactions F ms i txs a)) = batch_queue a
    \<and> api_should_stop (snd (process_transactions F ms i txs a)) = api_should_stop a
    \<and> total_transactions (api_metrics (snd (process_transactions F ms i txs a)))
        = total_transactions (api_metrics a) + of_nat (length txs)"
  using assms
proof (induction txs arbitrary: i a)
  case (Cons tx txs)
  show ?case
    using Cons.IH [of "record_latency F (ms i) a" "i + 1"] Cons.prems by (simp add: validate_transaction_iff)
qed simp

lemma process_transactions_keeps:
  "batch_queue (snd (process_transactions F ms i txs a)) = batch_queue a
    \<and> api_should_stop (snd (process_transactions F ms i txs a)) = api_should_stop a"
  by (induction F ms i txs a rule: process_transactions.induct) auto

interpretation api_queue: fifo_queue "\<lambda>a bs. batch_queue a = bs" push_batch pop_batch
  by unfold_locales (auto simp: push_batch_def pop_batch_def split: list.split)

section \<open>Draining\<close>

text \<open>Turns of the worker, with the outcomes of the batches they processed.\<close>

fun worker_run :: "'d dops \<Rightarrow> (nat \<Rightarrow> measurement) \<Rightarrow> nat \<Rightarrow> nat \<Rightarrow> 'd RollupTransactionAPI \<Rightarrow> (TransactionBatch \<times> bool) list \<times> 'd RollupTransactionAPI" where
  "worker_run F ms time 0 a = ([], a)"
| "worker_run F ms time (Suc n) a =
     (case worker_turn F ms time a of
        (None, a) \<Rightarrow> ([], a)
      | (Some r, a) \<Rightarrow> (let (rs, a) = worker_run F ms time n a in (r # rs, a)))"

definition batch_ok :: "TransactionBatch \<Rightarrow> bool" where
  "batch_ok b \<longleftrightarrow> list_all well_formed (tb_transactions b)"

lemma worker_turn_step:
  assumes "\<not> api_should_stop a" and "batch_queue a = b # bs" and "batch_ok b" and "length bs < MAX_QUEUE_SIZE"
  shows "\<exists>a'. worker_turn F ms time a = (Some (b, True), a') \<and> batch_queue a' = bs \<and> \<not> api_should_stop a'
    \<and> total_transactions (api_metrics a') = total_transactions (api_metrics a) + of_nat (length (tb_transactions b))"
  using assms process_transactions_ok [of "tb_transactions b" "a\<lparr>batch_queue := bs\<rparr>" F ms 0]
  by (simp add: worker_turn_def pop_batch_def api_process_batch_def batch_ok_def case_prod_beta Let_def)

text \<open>What comes of the batches of a queue: whether each is processed successfully, and how many transactions are counted.\<close>

fun outcomes :: "TransactionBatch list \<Rightarrow> (TransactionBatch \<times> bool) list" where
  "outcomes [] = []"
| "outcomes (b # bs) = (b, tb_transactions b = [] \<or> batch_ok b \<and> length bs < MAX_QUEUE_SIZE) # outcomes bs"

fun counted :: "TransactionBatch list \<Rightarrow> nat" where
  "counted [] = 0"
| "counted (b # bs) = (if length bs < MAX_QUEUE_SIZE then length (takeWhile well_formed (tb_transactions b)) else 0) + counted bs"

lemma process_transactions_count:
  "fst (process_transactions F ms i txs a) = (txs = [] \<or> list_all well_formed txs \<and> length (batch_queue a) < MAX_QUEUE_SIZE)
    \<and> total_transactions (api_metrics (snd (process_transactions F ms i txs a))) = total_transactions (api_metrics a)
        + of_nat (if length (batch_queue a) < MAX_QUEUE_SIZE then length (takeWhile well_formed txs) else 0)"
proof (induction txs arbitrary: i a)
  case (Cons tx txs)
  show ?case
    using Cons.IH [of "i + 1" "record_latency F (ms i) a"] by (auto simp: validate_transaction_iff)
qed simp

lemma worker_turn_outcome:
  assumes "\<not> api_should_stop a" and "batch_queue a = b # bs"
  shows "\<exists>a'. worker_turn F ms time a = (Some (b, tb_transactions b = [] \<or> batch_ok b \<and> length bs < MAX_QUEUE_SIZE), a')
    \<and> batch_queue a' = bs \<and> \<not> api_should_stop a'
    \<and> total_transactions (api_metrics a') = total_transactions (api_metrics a)
        + of_nat (if length bs < MAX_QUEUE_SIZE then length (takeWhile well_formed (tb_transactions b)) else 0)"
  using assms process_transactions_count [of F ms 0 "tb_transactions b" "a\<lparr>batch_queue := bs\<rparr>"]
    process_transactions_keeps [of F ms 0 "tb_transactions b" "a\<lparr>batch_queue := bs\<rparr>"]
  by (simp add: worker_turn_def pop_batch_def api_process_batch_def batch_ok_def case_prod_beta Let_def)

text \<open>
  C17. A running worker empties the queue, whatever it holds: as many turns as there are batches, with no submission in between,
  take every batch exactly once, in the order of submission. A batch succeeds when it is empty, or when all its transactions are well
  formed and fewer than 1000 batches are left behind it; with more behind it a batch is dropped as if the system were overloaded. The
  transactions counted are those before the first one that is not well formed, in the batches that are not dropped.
\<close>

theorem worker_drains:
  assumes "\<not> api_should_stop a"
  shows "\<exists>a'. worker_run F ms time (length (batch_queue a)) a = (outcomes (batch_queue a), a')
    \<and> batch_queue a' = []
    \<and> total_transactions (api_metrics a') = total_transactions (api_metrics a) + of_nat (counted (batch_queue a))"
  using assms
proof (induction "batch_queue a" arbitrary: a)
  case Nil
  note q = \<open>[] = batch_queue a\<close> [symmetric]
  show ?case
    by (simp add: q)
next
  case (Cons b bs)
  note q = \<open>b # bs = batch_queue a\<close> [symmetric]
  obtain a1 where a1: "worker_turn F ms time a = (Some (b, tb_transactions b = [] \<or> batch_ok b \<and> length bs < MAX_QUEUE_SIZE), a1)"
      "batch_queue a1 = bs" "\<not> api_should_stop a1"
      "total_transactions (api_metrics a1) = total_transactions (api_metrics a)
        + of_nat (if length bs < MAX_QUEUE_SIZE then length (takeWhile well_formed (tb_transactions b)) else 0)"
    using worker_turn_outcome [OF Cons.prems q] by blast
  obtain a2 where "worker_run F ms time (length bs) a1 = (outcomes bs, a2)" "batch_queue a2 = []"
      "total_transactions (api_metrics a2) = total_transactions (api_metrics a1) + of_nat (counted bs)"
    using Cons.hyps(1) [of a1] a1(2,3) by auto
  then show ?case
    using a1 by (simp add: q add.assoc)
qed

text \<open>Arithmetic for the examples: any will do.\<close>

definition unit_dops :: "unit dops" where
  "unit_dops =
     \<lparr>lit = (\<lambda>_. ()), of_int_d = (\<lambda>_. ()), fadd = (\<lambda>_ _. ()), fsub = (\<lambda>_ _. ()), fmul = (\<lambda>_ _. ()), fdiv = (\<lambda>_ _. ()),
      fmax = (\<lambda>_ _. ()), fmin = (\<lambda>_ _. ()), flog2 = (\<lambda>_. ()), fless = (\<lambda>_ _. False), image_d = (\<lambda>_. [])\<rparr>"

definition demo_api_tx :: Transaction where
  "demo_api_tx = (Transaction_default 0 [])\<lparr>tx_from := ''a'', tx_to := ''b'', tx_value := 1, tx_signature := [1]\<rparr>"

definition demo_batch :: TransactionBatch where
  "demo_batch = \<lparr>tb_transactions = [demo_api_tx, demo_api_tx], tb_batch_id = 0, tb_timestamp = 0\<rparr>"

theorem worker_drains_witness:
  "\<exists>a'. worker_run unit_dops (\<lambda>_. \<lparr>ms_latency = 1, ms_now = 1\<rparr>) 1 1 (push_batch demo_batch (RollupTransactionAPI_new unit_dops 0 4))
      = ([(demo_batch, True)], a') \<and> total_transactions (api_metrics a') = 2"
proof -
  let ?a = "push_batch demo_batch (RollupTransactionAPI_new unit_dops 0 4)"
  have q: "batch_queue ?a = [demo_batch]" "\<not> api_should_stop ?a" "total_transactions (api_metrics ?a) = 0"
    by (simp_all add: push_batch_def RollupTransactionAPI_new_def ApiMetrics_new_def)
  have "batch_ok demo_batch" "counted [demo_batch] = 2"
    by (simp_all add: batch_ok_def demo_batch_def demo_api_tx_def well_formed_def Transaction_default_def MAX_QUEUE_SIZE_def)
  then show ?thesis
    using worker_drains [of ?a unit_dops "\<lambda>_. \<lparr>ms_latency = 1, ms_now = 1\<rparr>" 1] q
    by (simp add: MAX_QUEUE_SIZE_def del: counted.simps) force
qed

text \<open>
  Counting: a transaction is counted when it is submitted and again when it is processed.
\<close>

lemma submit_counts_twice:
  assumes "submitTransaction F stamp m tx a = (True, a1)" and "\<not> api_should_stop a" and "batch_queue a = []"
  shows "\<exists>r a2. worker_turn F ms time a1 = (Some (r, True), a2)
    \<and> total_transactions (api_metrics a2) = total_transactions (api_metrics a) + 2"
proof -
  let ?b = "\<lparr>tb_transactions = [tx], tb_batch_id = 0, tb_timestamp = stamp\<rparr>"
  have v: "validate_transaction tx a" and a1: "a1 = record_latency F m (push_batch ?b a)"
    using assms(1) by (auto simp: submitTransaction_def validate_transaction_def split: if_splits)
  have "well_formed tx"
    using v by (simp add: validate_transaction_iff)
  then show ?thesis
    using worker_turn_step [of a1 ?b "[]" F ms time] assms(2,3)
    by (auto simp: a1 push_batch_def batch_ok_def MAX_QUEUE_SIZE_def)
qed

section \<open>Several callers\<close>

text \<open>
  A caller between its validation and its insertion. The validations of a batch lock the queue one after the other; only that the
  last of them saw room matters for the insertion, so they are one step.
\<close>

datatype caller = Idle | Checked "Transaction list"

inductive api_reachable :: "'d dops \<Rightarrow> nat \<Rightarrow> 'd RollupTransactionAPI \<Rightarrow> caller list \<Rightarrow> bool" for F k where
  init: "api_reachable F k (RollupTransactionAPI_new F now workers) (replicate k Idle)"
| check: "api_reachable F k a cs \<Longrightarrow> i < length cs \<Longrightarrow> cs ! i = Idle \<Longrightarrow> validate_each txs a
    \<Longrightarrow> api_reachable F k a (cs[i := Checked txs])"
| push: "api_reachable F k a cs \<Longrightarrow> i < length cs \<Longrightarrow> cs ! i = Checked txs
    \<Longrightarrow> api_reachable F k (record_latency F m (push_batch \<lparr>tb_transactions = txs, tb_batch_id = 0, tb_timestamp = stamp\<rparr> a)) (cs[i := Idle])"
| work: "api_reachable F k a cs \<Longrightarrow> api_reachable F k (snd (worker_turn F ms time a)) cs"
| stop: "api_reachable F k a cs \<Longrightarrow> api_reachable F k (stop_processing a) cs"
| start: "api_reachable F k a cs \<Longrightarrow> api_reachable F k (start_processing a) cs"

text \<open>Callers and batches that hold transactions.\<close>

definition loaded :: "TransactionBatch list \<Rightarrow> nat" where
  "loaded bs = length (filter (\<lambda>b. tb_transactions b \<noteq> []) bs)"

fun in_flight :: "caller \<Rightarrow> bool" where
  "in_flight Idle = False"
| "in_flight (Checked txs) = (txs \<noteq> [])"

definition checked :: "caller list \<Rightarrow> nat" where
  "checked cs = length (filter in_flight cs)"

lemma checked_update:
  assumes "i < length cs"
  shows "checked (cs[i := c]) + (if in_flight (cs ! i) then 1 else 0) = checked cs + (if in_flight c then 1 else 0)"
proof -
  have cs: "cs = take i cs @ cs ! i # drop (Suc i) cs"
    using assms by (simp add: id_take_nth_drop)
  have upd: "cs[i := c] = take i cs @ c # drop (Suc i) cs"
    using assms by (simp add: upd_conv_take_nth_drop)
  have "checked cs = checked (take i cs) + (if in_flight (cs ! i) then 1 else 0) + checked (drop (Suc i) cs)"
    by (subst cs) (simp add: checked_def)
  then show ?thesis
    by (simp add: checked_def upd)
qed

lemma checked_le: "checked cs \<le> length cs"
  by (simp add: checked_def)

lemma loaded_simps [simp]:
  "loaded [] = 0" "loaded (bs @ [b]) = loaded bs + (if tb_transactions b = [] then 0 else 1)"
  by (simp_all add: loaded_def)

lemma loaded_le: "loaded bs \<le> length bs"
  by (simp add: loaded_def)

lemma worker_turn_queue: "loaded (batch_queue (snd (worker_turn F ms time a))) \<le> loaded (batch_queue a)"
  using process_transactions_keeps [of F ms 0]
  by (auto simp: worker_turn_def pop_batch_def api_process_batch_def case_prod_beta Let_def loaded_def split: list.split)

lemma api_reachable_sum:
  assumes "api_reachable F k a cs"
  shows "length cs = k \<and> loaded (batch_queue a) + checked cs \<le> 999 + k"
  using assms
proof (induction rule: api_reachable.induct)
  case (init now workers)
  show ?case
    by (simp add: RollupTransactionAPI_new_def checked_def)
next
  case (check a cs i txs)
  show ?case
  proof (cases "txs = []")
    case True
    then show ?thesis
      using check checked_update [of i cs "Checked txs"] by simp
  next
    case False
    then have "length (batch_queue a) < MAX_QUEUE_SIZE"
      using check by (simp add: validate_each_iff)
    then show ?thesis
      using check loaded_le [of "batch_queue a"] checked_le [of "cs[i := Checked txs]"] by (simp add: MAX_QUEUE_SIZE_def)
  qed
next
  case (push a cs i txs m stamp)
  then show ?case
    using checked_update [of i cs Idle] by (simp add: push_batch_def split: if_splits)
next
  case (work a cs ms time)
  then show ?case
    using worker_turn_queue [of F ms time a] by simp
qed (simp_all add: stop_processing_def start_processing_def)

text \<open>
  C18. The queue stays within its limit up to the callers in flight, empty batches apart: with \<open>k\<close> callers submitting any batches
  concurrently, the queue never holds more than \<open>999 + k\<close> batches that are not empty; with one caller that is the limit itself. So a
  queue without empty batches never holds more than \<open>999 + k\<close>; empty ones are accepted without limit.
\<close>

theorem api_queue_bound:
  assumes "api_reachable F k a cs"
  shows "loaded (batch_queue a) \<le> MAX_QUEUE_SIZE - 1 + k
    \<and> (list_all (\<lambda>b. tb_transactions b \<noteq> []) (batch_queue a) \<longrightarrow> length (batch_queue a) \<le> MAX_QUEUE_SIZE - 1 + k)
    \<and> fst (submit_batch F stamp m [] a) \<and> length (batch_queue (snd (submit_batch F stamp m [] a))) = Suc (length (batch_queue a))"
proof -
  have "loaded (batch_queue a) = length (batch_queue a)" if "list_all (\<lambda>b. tb_transactions b \<noteq> []) (batch_queue a)"
    unfolding loaded_def using that by (metis (mono_tags, lifting) filter_True list_all_iff)
  then show ?thesis
    using api_reachable_sum [OF assms] by (auto simp: MAX_QUEUE_SIZE_def submit_batch_def push_batch_def)
qed

theorem api_queue_bound_witness:
  "\<exists>a. api_reachable unit_dops 1 a [Idle] \<and> length (batch_queue a) = 1
    \<and> loaded (batch_queue a) \<le> MAX_QUEUE_SIZE - 1 + 1"
proof -
  let ?a = "RollupTransactionAPI_new unit_dops 0 4"
  have "api_reachable unit_dops 1 ?a (replicate 1 Idle)"
    by (rule api_reachable.init)
  then have "api_reachable unit_dops 1 ?a ((replicate 1 Idle)[0 := Checked [demo_api_tx]])"
    by (rule api_reachable.check) (simp_all add: validate_each_iff demo_api_tx_def well_formed_def Transaction_default_def
        RollupTransactionAPI_new_def MAX_QUEUE_SIZE_def)
  then have "api_reachable unit_dops 1
      (record_latency unit_dops \<lparr>ms_latency = 0, ms_now = 0\<rparr>
        (push_batch \<lparr>tb_transactions = [demo_api_tx], tb_batch_id = 0, tb_timestamp = 0\<rparr> ?a))
      (((replicate 1 Idle)[0 := Checked [demo_api_tx]])[0 := Idle])" (is "api_reachable _ _ ?b _")
    by (rule api_reachable.push) simp_all
  then have r: "api_reachable unit_dops 1 ?b [Idle]"
    by simp
  moreover have "length (batch_queue ?b) = 1"
    by (simp add: push_batch_def RollupTransactionAPI_new_def)
  ultimately show ?thesis
    using api_queue_bound [OF r] by blast
qed

text \<open>The limit does not hold for empty batches, which are accepted whatever the load.\<close>

lemma empty_batches_accepted:
  "fst (submit_batch F stamp m [] a)" "length (batch_queue (snd (submit_batch F stamp m [] a))) = Suc (length (batch_queue a))"
  by (simp_all add: submit_batch_def push_batch_def)

end
