(* ===== verification/Quids_Node.thy ===== *)
theory Quids_Node
  imports P2P_Node
begin

text \<open>
  The node process: \<open>QuidsNode\<close> (\<open>src/node/QuidsNode.cpp\<close>), its controller \<open>QuidsControl\<close> (\<open>src/control/QuidsControl.cpp\<close>) and the
  command line (\<open>src/cli\<close>, \<open>src/main.cpp\<close>). Booting goes through the peer-to-peer node of the theory of nodes. Logging is left out;
  exit codes are integers. What the operating system, the routers and the peers do during a boot is the argument \<open>boot_env\<close>.
\<close>

section \<open>Configuration\<close>

text \<open>The fields of \<open>QuidsConfig\<close> and of its \<open>NetworkConfig\<close> that the code reads or the command line sets.\<close>

record QuidsConfig =
  network_type :: string
  listen_port :: u16
  rpc_port :: u16
  data_dir :: string
  config_path :: string
  net_listen_addr :: string
  net_port :: u16
  net_bootstrap_peers :: "string list"
  net_max_connections :: u64

definition QuidsConfig_new :: QuidsConfig where
  "QuidsConfig_new =
     \<lparr>network_type = ''mainnet'', listen_port = 8545, rpc_port = 8546, data_dir = [], config_path = [],
      net_listen_addr = ''0.0.0.0'', net_port = 8080, net_bootstrap_peers = [], net_max_connections = 100\<rparr>"

text \<open>\<open>std::stoi(s)\<close> in base 10: as \<open>stoull\<close>, with the range of a 32-bit \<open>int\<close>.\<close>

definition stoi :: "string \<Rightarrow> int res" where
  "stoi s =
     (let t = dropWhile is_space s;
          (neg, u) = (case t of
             c # cs \<Rightarrow> if c = CHR ''-'' then (True, cs) else if c = CHR ''+'' then (False, cs) else (False, t)
           | [] \<Rightarrow> (False, t));
          ds = takeWhile is_digit u;
          v = (if neg then - int (decimal_val ds) else int (decimal_val ds))
      in if ds = [] then Inl (Invalid_argument ''stoi'')
         else if v < - (2 ^ 31) \<or> v \<ge> 2 ^ 31 then Inl (Out_of_range ''stoi'')
         else Inr v)"

section \<open>The node\<close>

record 's QuidsNode =
  qn_config :: QuidsConfig
  qn_running :: bool
  qn_p2p_node :: "'s P2PNode option"
  qn_current_height :: u64
  qn_peer_count :: nat
  qn_sync_status :: string

definition QuidsNode_new :: "QuidsConfig \<Rightarrow> 's QuidsNode" where
  "QuidsNode_new config =
     \<lparr>qn_config = config, qn_running = False, qn_p2p_node = None, qn_current_height = 0, qn_peer_count = 0,
      qn_sync_status = ''not synced''\<rparr>"

text \<open>What the outside does during a boot: the constructor's and \<open>start\<close>'s system calls, and the connections to the peers.\<close>

record 's boot_env =
  be_listen :: "u16 \<Rightarrow> sys_socket"
  be_start :: sys_socket
  be_peers :: "string \<times> u16 \<Rightarrow> 's peer_env"

text \<open>The defaults of \<open>P2PNode::Config\<close> with the port and the limit of the configuration; \<open>bind_address\<close> is not used by the node.\<close>

definition p2p_config_of :: "QuidsConfig \<Rightarrow> NodeConfig" where
  "p2p_config_of config =
     \<lparr>n_port = net_port config, n_stun_server = [], n_stun_port = 3478, n_enable_upnp = True, n_enable_nat_pmp = True,
      n_max_peers = 100, n_max_connections = net_max_connections config, n_connection_timeout_ms = 30000,
      n_ping_interval_ms = 10000\<rparr>"

text \<open>The loop over the bootstrap peers; an entry without a colon is skipped, a port that is no number raises.\<close>

fun add_bootstrap_peers :: "string list \<Rightarrow> 's P2PNode \<Rightarrow> exn option \<times> 's P2PNode" where
  "add_bootstrap_peers [] n = (None, n)"
| "add_bootstrap_peers (peer # ps) n =
     (if CHR '':'' \<in> set peer then
        let addr = takeWhile (\<lambda>c. c \<noteq> CHR '':'') peer; rest = dropWhile (\<lambda>c. c \<noteq> CHR '':'') peer in
        case stoi (drop 1 rest) of
          Inl e \<Rightarrow> (Some e, n)
        | Inr port \<Rightarrow> add_bootstrap_peers ps (add_bootstrap_peer addr (of_int port) n)
      else add_bootstrap_peers ps n)"

definition initializeNetwork :: "'s asio \<Rightarrow> 's boot_env \<Rightarrow> 's QuidsNode \<Rightarrow> (bool outcome \<times> 's QuidsNode) res" where
  "initializeNetwork A E q =
     (case P2PNode_new (be_listen E) (p2p_config_of (qn_config q)) of
        Inl e \<Rightarrow> Inr (Returns False, q)
      | Inr (_, n) \<Rightarrow>
          case node_start (be_start E) (register_message_handler n) of
            (Returns False, n) \<Rightarrow> Inr (Returns False, q\<lparr>qn_p2p_node := Some n\<rparr>)
          | (Throws, n) \<Rightarrow> Inr (Returns False, q\<lparr>qn_p2p_node := Some n\<rparr>)
          | (Terminates, n) \<Rightarrow> Inr (Terminates, q\<lparr>qn_p2p_node := Some n\<rparr>)
          | (Blocks, n) \<Rightarrow> Inr (Blocks, q\<lparr>qn_p2p_node := Some n\<rparr>)
          | (Returns True, n) \<Rightarrow>
              case add_bootstrap_peers (net_bootstrap_peers (qn_config q)) n of
                (Some e, n) \<Rightarrow> Inr (Returns False, q\<lparr>qn_p2p_node := Some n\<rparr>)
              | (None, n) \<Rightarrow>
                  (case discover_peers A (be_peers E) n of
                     Inl e \<Rightarrow> Inl e
                   | Inr (Returns _, n) \<Rightarrow> Inr (Returns True, q\<lparr>qn_p2p_node := Some n\<rparr>)
                   | Inr (Throws, n) \<Rightarrow> Inr (Returns False, q\<lparr>qn_p2p_node := Some n\<rparr>)
                   | Inr (Terminates, n) \<Rightarrow> Inr (Terminates, q\<lparr>qn_p2p_node := Some n\<rparr>)
                   | Inr (Blocks, n) \<Rightarrow> Inr (Blocks, q\<lparr>qn_p2p_node := Some n\<rparr>)))"

definition loadConfiguration :: "'s QuidsNode \<Rightarrow> bool" where
  "loadConfiguration q = True"

definition initializeCore :: "'s QuidsNode \<Rightarrow> bool" where
  "initializeCore q = True"

definition initializeQuantumSystem :: "'s QuidsNode \<Rightarrow> bool" where
  "initializeQuantumSystem q = True"

definition initializeAISystem :: "'s QuidsNode \<Rightarrow> bool" where
  "initializeAISystem q = True"

definition completeBoot :: "'s QuidsNode \<Rightarrow> bool" where
  "completeBoot q = True"

definition qn_start :: "'s asio \<Rightarrow> 's boot_env \<Rightarrow> 's QuidsNode \<Rightarrow> (bool outcome \<times> 's QuidsNode) res" where
  "qn_start A E q =
     (if qn_running q then Inr (Returns False, q)
      else if \<not> loadConfiguration q then Inr (Returns False, q)
      else if \<not> initializeCore q then Inr (Returns False, q)
      else if \<not> initializeQuantumSystem q then Inr (Returns False, q)
      else if \<not> initializeAISystem q then Inr (Returns False, q)
      else case initializeNetwork A E q of
        Inl e \<Rightarrow> Inl e
      | Inr (Returns ok, q) \<Rightarrow>
          if \<not> ok then Inr (Returns False, q)
          else if \<not> completeBoot q then Inr (Returns False, q)
          else Inr (Returns True, q\<lparr>qn_running := True\<rparr>)
      | Inr (r, q) \<Rightarrow> Inr (r, q))"

definition qn_stop :: "'s QuidsNode \<Rightarrow> bool \<times> 's QuidsNode" where
  "qn_stop q = (if \<not> qn_running q then (False, q) else (True, q\<lparr>qn_running := False\<rparr>))"

definition QuidsNode_destroy :: "'s QuidsNode \<Rightarrow> 's QuidsNode" where
  "QuidsNode_destroy q = (if qn_running q then snd (qn_stop q) else q)"

section \<open>The controller\<close>

record 's QuidsControl =
  qc_node :: "'s QuidsNode option"

record NodeStatus =
  st_is_running :: bool
  st_block_height :: u64
  st_peer_count :: nat
  st_sync_status :: string

definition getStatus :: "'s QuidsControl \<Rightarrow> NodeStatus" where
  "getStatus c =
     (case qc_node c of
        None \<Rightarrow> \<lparr>st_is_running = False, st_block_height = 0, st_peer_count = 0, st_sync_status = []\<rparr>
      | Some q \<Rightarrow> \<lparr>st_is_running = True, st_block_height = qn_current_height q, st_peer_count = qn_peer_count q,
                   st_sync_status = qn_sync_status q\<rparr>)"

definition startNode :: "'s asio \<Rightarrow> 's boot_env \<Rightarrow> QuidsConfig \<Rightarrow> 's QuidsControl \<Rightarrow> (bool outcome \<times> 's QuidsControl) res" where
  "startNode A E config c =
     (case qc_node c of
        Some _ \<Rightarrow> Inr (Returns False, c)
      | None \<Rightarrow>
          case qn_start A E (QuidsNode_new config) of
            Inl e \<Rightarrow> Inl e
          | Inr (r, q) \<Rightarrow> Inr (r, c\<lparr>qc_node := Some q\<rparr>))"

definition stopNode :: "'s QuidsControl \<Rightarrow> bool \<times> 's QuidsControl" where
  "stopNode c =
     (case qc_node c of
        None \<Rightarrow> (False, c)
      | Some q \<Rightarrow> let (result, q) = qn_stop q in (result, c\<lparr>qc_node := if result then None else Some q\<rparr>))"

definition restartNode :: "'s asio \<Rightarrow> 's boot_env \<Rightarrow> 's QuidsControl \<Rightarrow> (bool outcome \<times> 's QuidsControl) res" where
  "restartNode A E c =
     (case qc_node c of
        None \<Rightarrow> Inr (Returns False, c)
      | Some q \<Rightarrow>
          let (ok, c) = stopNode c in if \<not> ok then Inr (Returns False, c) else startNode A E (qn_config q) c)"

definition upgradeNode :: "'s QuidsControl \<Rightarrow> bool" where
  "upgradeNode c = True"

section \<open>The command line\<close>

definition hasArg :: "string list \<Rightarrow> string \<Rightarrow> bool" where
  "hasArg args arg \<longleftrightarrow> arg \<in> set args"

definition starts_with :: "string \<Rightarrow> string \<Rightarrow> bool" where
  "starts_with p s \<longleftrightarrow> take (length p) s = p"

fun getArgValue :: "string list \<Rightarrow> string \<Rightarrow> string" where
  "getArgValue [] arg = []"
| "getArgValue (a # as) arg = (if starts_with (arg @ ''='') a then drop (length arg + 1) a else getArgValue as arg)"

definition parse_arg :: "string \<Rightarrow> QuidsConfig \<Rightarrow> QuidsConfig res" where
  "parse_arg arg config =
     (if starts_with ''--config='' arg then Inr (config\<lparr>config_path := drop 9 arg\<rparr>)
      else if starts_with ''--port='' arg then map_sum id (\<lambda>v. config\<lparr>listen_port := of_int v\<rparr>) (stoi (drop 7 arg))
      else if starts_with ''--rpc-port='' arg then map_sum id (\<lambda>v. config\<lparr>rpc_port := of_int v\<rparr>) (stoi (drop 11 arg))
      else if starts_with ''--data-dir='' arg then Inr (config\<lparr>data_dir := drop 11 arg\<rparr>)
      else if starts_with ''--network='' arg then Inr (config\<lparr>network_type := drop 10 arg\<rparr>)
      else Inr config)"

fun start_parseArgs :: "string list \<Rightarrow> QuidsConfig \<Rightarrow> QuidsConfig res" where
  "start_parseArgs [] config = Inr config"
| "start_parseArgs (arg # args) config =
     (case parse_arg arg config of Inl e \<Rightarrow> Inl e | Inr config \<Rightarrow> start_parseArgs args config)"

definition validateConfig :: "QuidsConfig \<Rightarrow> bool" where
  "validateConfig config =
     (if listen_port config = rpc_port config then False else if data_dir config = [] then False else True)"

text \<open>
  The start command: the exit code and the node as the command leaves it. The node is owned by the command and destroyed
  when it returns. \<open>Inl\<close>: an exception of \<open>std::stoi\<close> leaves the command.
\<close>

definition StartCommand_execute :: "'s asio \<Rightarrow> 's boot_env \<Rightarrow> string list \<Rightarrow> (int outcome \<times> 's QuidsNode option) res" where
  "StartCommand_execute A E args =
     (case start_parseArgs args QuidsConfig_new of
        Inl e \<Rightarrow> Inl e
      | Inr config \<Rightarrow>
          if \<not> validateConfig config then Inr (Returns 1, None)
          else case qn_start A E (QuidsNode_new config) of
            Inl e \<Rightarrow> Inl e
          | Inr (Returns ok, q) \<Rightarrow> Inr (Returns (if ok then 0 else 1), Some (QuidsNode_destroy q))
          | Inr (Throws, q) \<Rightarrow> Inr (Returns 1, Some q)
          | Inr (Terminates, q) \<Rightarrow> Inr (Terminates, Some q)
          | Inr (Blocks, q) \<Rightarrow> Inr (Blocks, Some q))"

definition QuidsControl_new :: "'s QuidsControl" where
  "QuidsControl_new = \<lparr>qc_node = None\<rparr>"

definition StopCommand_execute :: "string list \<Rightarrow> int" where
  "StopCommand_execute args = (if \<not> fst (stopNode (QuidsControl_new :: unit QuidsControl)) then 1 else 0)"

definition StatusCommand_execute :: "string list \<Rightarrow> int" where
  "StatusCommand_execute args = (if st_is_running (getStatus (QuidsControl_new :: unit QuidsControl)) then 0 else 1)"

text \<open>\<open>QuidsCLI::run\<close> on the arguments after the program name, with the three commands \<open>main\<close> registers; \<open>main\<close> turns an exception into 1.\<close>

definition cli_run :: "'s asio \<Rightarrow> 's boot_env \<Rightarrow> string list \<Rightarrow> int outcome res" where
  "cli_run A E argv =
     (case argv of
        [] \<Rightarrow> Inr (Returns 1)
      | command # args \<Rightarrow>
          if command = ''--help'' \<or> command = ''-h'' then Inr (Returns 0)
          else if command = ''--version'' \<or> command = ''-v'' then Inr (Returns 0)
          else if command = ''start'' then map_sum id fst (StartCommand_execute A E args)
          else if command = ''stop'' then Inr (Returns (StopCommand_execute args))
          else if command = ''status'' then Inr (Returns (StatusCommand_execute args))
          else Inr (Returns 1))"

definition main_exit :: "'s asio \<Rightarrow> 's boot_env \<Rightarrow> string list \<Rightarrow> int outcome res" where
  "main_exit A E argv =
     (case cli_run A E argv of Inl (Undefined m) \<Rightarrow> Inl (Undefined m) | Inl e \<Rightarrow> Inr (Returns 1) | Inr r \<Rightarrow> Inr r)"

section \<open>Booting\<close>

lemma stubs [simp]:
  "loadConfiguration q" "initializeCore q" "initializeQuantumSystem q" "initializeAISystem q" "completeBoot q"
  by (simp_all add: loadConfiguration_def initializeCore_def initializeQuantumSystem_def initializeAISystem_def completeBoot_def)

lemma add_bootstrap_peers_keeps:
  "connections (snd (add_bootstrap_peers ps n)) = connections n \<and> nd_running (snd (add_bootstrap_peers ps n)) = nd_running n"
proof (induction ps n rule: add_bootstrap_peers.induct)
  case (2 peer ps n)
  then show ?case
    by (auto simp: Let_def add_bootstrap_peer_def split: sum.split)
qed simp

lemma fresh_node:
  assumes "P2PNode_new sys config = Inr (p, n)"
  shows "connections n = [] \<and> \<not> nd_running n \<and> \<not> accept_thread n \<and> \<not> management_thread n \<and> \<not> message_thread n"
  using assms by (auto simp: P2PNode_new_def numeral_3_eq_3 try_listen_eq node_cleanup_listen split: bool.splits)
    (simp_all add: node_Impl_new_def)

lemma fresh_node_start:
  assumes "P2PNode_new sys config = Inr (p, n)" and "node_start sys' (register_message_handler n) = (r, n')"
  shows "(r = Returns True \<and> nd_running n' \<or> r = Returns False) \<and> connections n' = []"
  using fresh_node [OF assms(1)] assms(2) by (auto simp: node_start_def register_message_handler_def Let_def split: if_splits)

lemma initializeNetwork_cases:
  fixes q :: "'s QuidsNode"
  assumes "asio_ok A" and "initializeNetwork A E q = Inr (r, q')"
  shows "(r = Returns False \<or> r = Returns True \<and> (\<exists>n. qn_p2p_node q' = Some n \<and> connections n = [] \<and> nd_running n))
    \<and> qn_running q' = qn_running q \<and> qn_peer_count q' = qn_peer_count q \<and> qn_config q' = qn_config q"
proof (cases "P2PNode_new (be_listen E) (p2p_config_of (qn_config q)) :: (u16 \<times> 's P2PNode) res")
  case (Inl e)
  then show ?thesis
    using assms(2) by (simp add: initializeNetwork_def)
next
  case (Inr pn)
  obtain p and n :: "'s P2PNode" where new: "P2PNode_new (be_listen E) (p2p_config_of (qn_config q)) = Inr (p, n)"
    using Inr by (cases pn) auto
  obtain r1 n1 where st: "node_start (be_start E) (register_message_handler n) = (r1, n1)"
    by force
  note fr = fresh_node_start [OF new st]
  obtain x n2 where bs: "add_bootstrap_peers (net_bootstrap_peers (qn_config q)) n1 = (x, n2)"
    by force
  have n2: "connections n2 = []" "nd_running n2 = nd_running n1"
    using add_bootstrap_peers_keeps [of "net_bootstrap_peers (qn_config q)" n1] fr by (simp_all add: bs)
  have disc: "discover_peers A (be_peers E) n2 = Inr (Returns (), n2) \<or> discover_peers A (be_peers E) n2 = Inr (Throws, n2)"
    unfolding discover_peers_def by (rule discover_loop_new [OF assms(1) n2(1)])
  show ?thesis
    using assms(2) fr n2 disc by (auto simp: initializeNetwork_def new st bs split: option.splits)
qed

text \<open>
  Starting a node always returns. When it reports success the node is running, its peer-to-peer node is running too and, given a
  socket library that keeps its documentation, has no connection, whatever bootstrap peers were configured; when it reports failure
  the node is not running. The peer count it reports is zero either way.
\<close>

theorem quids_node_boots_alone:
  assumes "asio_ok A" and "qn_start A E (QuidsNode_new config) = Inr (r, q)"
  shows "(r = Returns True \<and> qn_running q \<and> (\<exists>n. qn_p2p_node q = Some n \<and> nd_running n \<and> get_connection_count n = 0)
      \<or> r = Returns False \<and> \<not> qn_running q)
    \<and> qn_peer_count q = 0"
proof -
  have new: "\<not> qn_running (QuidsNode_new config)" "qn_peer_count (QuidsNode_new config) = 0"
    by (simp_all add: QuidsNode_new_def)
  obtain r1 q1 where net: "initializeNetwork A E (QuidsNode_new config) = Inr (r1, q1)"
    using assms(2) by (cases "initializeNetwork A E (QuidsNode_new config)") (auto simp: qn_start_def new)
  show ?thesis
    using initializeNetwork_cases [OF assms(1) net] assms(2) by (auto simp: qn_start_def net new get_connection_count_def)
qed

text \<open>The port given on the command line plays no part: the node listens on the port of the network section.\<close>

lemma initializeNetwork_outcome:
  fixes q :: "'s QuidsNode"
  assumes "p2p_config_of (qn_config q) = p2p_config_of (qn_config q')"
    and "net_bootstrap_peers (qn_config q) = net_bootstrap_peers (qn_config q')"
  shows "map_sum id fst (initializeNetwork A E q) = map_sum id fst (initializeNetwork A E q')"
proof (cases "P2PNode_new (be_listen E) (p2p_config_of (qn_config q')) :: (u16 \<times> 's P2PNode) res")
  case (Inl e)
  then show ?thesis
    using assms by (simp add: initializeNetwork_def)
next
  case (Inr pn)
  obtain p n where pn: "pn = (p, n)"
    by force
  obtain r1 n1 where st: "node_start (be_start E) (register_message_handler n) = (r1, n1)"
    by force
  show ?thesis
    using assms Inr by (cases r1) (simp_all add: initializeNetwork_def pn st split: bool.split prod.split option.split sum.split outcome.split)
qed

lemma listen_port_unused:
  "map_sum id fst (qn_start A E (QuidsNode_new (config\<lparr>listen_port := p\<rparr>))) = map_sum id fst (qn_start A E (QuidsNode_new config))"
proof -
  let ?q = "QuidsNode_new config" and ?q' = "QuidsNode_new (config\<lparr>listen_port := p\<rparr>)"
  have start: "map_sum id fst (qn_start A E (QuidsNode_new c)) = map_sum id fst (initializeNetwork A E (QuidsNode_new c))" for c
    by (simp add: qn_start_def QuidsNode_new_def split: sum.split prod.split outcome.split)
  show ?thesis
    unfolding start by (rule initializeNetwork_outcome) (simp_all add: p2p_config_of_def QuidsNode_new_def)
qed

definition demo_peer_env :: "bool peer_env" where
  "demo_peer_env =
     \<lparr>pe_socket = False, pe_stun = \<lparr>se_random = [], se_server = None, se_reply = None\<rparr>, pe_mapped = None, pe_upnp = False,
      pe_nat_pmp = False, pe_arrivals = []\<rparr>"

definition demo_boot_env :: "bool boot_env" where
  "demo_boot_env = \<lparr>be_listen = (\<lambda>_. demo_sys), be_start = demo_sys, be_peers = (\<lambda>_. demo_peer_env)\<rparr>"

lemma demo_boot:
  "\<exists>q. qn_start simple_asio demo_boot_env (QuidsNode_new (QuidsConfig_new\<lparr>data_dir := ''d''\<rparr>)) = Inr (Returns True, q)"
  by (simp add: qn_start_def initializeNetwork_def QuidsNode_new_def QuidsConfig_new_def p2p_config_of_def P2PNode_new_def
      numeral_3_eq_3 try_listen_eq port_usable_def demo_boot_env_def demo_sys_def node_start_def register_message_handler_def
      node_Impl_new_def discover_peers_def Let_def)

theorem quids_node_boots_alone_witness:
  "\<exists>q n. qn_start simple_asio demo_boot_env (QuidsNode_new (QuidsConfig_new\<lparr>data_dir := ''d''\<rparr>)) = Inr (Returns True, q)
    \<and> qn_p2p_node q = Some n \<and> get_connection_count n = 0"
proof -
  obtain q where "qn_start simple_asio demo_boot_env (QuidsNode_new (QuidsConfig_new\<lparr>data_dir := ''d''\<rparr>)) = Inr (Returns True, q)"
    using demo_boot by blast
  from this and quids_node_boots_alone [OF simple_asio_ok this] show ?thesis
    by auto
qed

section \<open>The controller after a failure\<close>

lemma qn_start_failed: "qn_start A E (QuidsNode_new config) = Inr (Returns False, q) \<Longrightarrow> \<not> qn_running q"
  by (auto simp: qn_start_def initializeNetwork_def QuidsNode_new_def Let_def
      split: sum.splits prod.splits outcome.splits bool.splits if_splits option.splits)

text \<open>
  A failed start leaves the controller stuck: it keeps the node that did not start, so it reports a running node, and from then
  on starting, stopping and restarting all report failure and change nothing, whatever the configuration and whatever the
  system answers.
\<close>

theorem control_stuck:
  assumes "startNode A E config QuidsControl_new = Inr (Returns False, c)"
  shows "st_is_running (getStatus c) \<and> stopNode c = (False, c) \<and> startNode A E' config' c = Inr (Returns False, c)
    \<and> restartNode A E' c = Inr (Returns False, c)"
proof -
  obtain q where q: "qn_start A E (QuidsNode_new config) = Inr (Returns False, q)" "c = \<lparr>qc_node = Some q\<rparr>"
    using assms by (auto simp: startNode_def QuidsControl_new_def split: sum.splits)
  then show ?thesis
    using qn_start_failed [OF q(1)] by (simp add: getStatus_def stopNode_def startNode_def restartNode_def qn_stop_def)
qed

theorem control_stuck_witness:
  "\<exists>c. startNode simple_asio (demo_boot_env\<lparr>be_start := demo_sys\<lparr>sys_bind := False\<rparr>\<rparr>) QuidsConfig_new QuidsControl_new = Inr (Returns False, c)
    \<and> st_is_running (getStatus c) \<and> restartNode simple_asio demo_boot_env c = Inr (Returns False, c)"
proof -
  obtain c where c: "startNode simple_asio (demo_boot_env\<lparr>be_start := demo_sys\<lparr>sys_bind := False\<rparr>\<rparr>) QuidsConfig_new QuidsControl_new
      = Inr (Returns False, c)"
    by (simp add: startNode_def QuidsControl_new_def qn_start_def initializeNetwork_def QuidsNode_new_def QuidsConfig_new_def
        p2p_config_of_def P2PNode_new_def numeral_3_eq_3 try_listen_eq port_usable_def demo_boot_env_def demo_sys_def
        node_start_def register_message_handler_def node_Impl_new_def Let_def)
  then show ?thesis
    using control_stuck [OF c] by blast
qed

section \<open>Commands\<close>

lemma stoi_digits:
  assumes "n < 2 ^ 31"
  shows "stoi (to_string n) = Inr (int n)"
proof -
  obtain c cs where ds: "to_string n = c # cs"
    using to_string_nonempty [of n] by (cases "to_string n") auto
  have d: "\<forall>x \<in> set (c # cs). is_digit x"
    using to_string_digits [of n] by (simp add: ds)
  then have c: "\<not> is_space c" "c \<noteq> CHR ''-''" "c \<noteq> CHR ''+''" "is_digit c"
    using digit_not_special by auto
  have tw: "takeWhile is_digit cs = cs"
    using d by (auto simp: takeWhile_eq_all_conv)
  have "decimal_val (c # cs) = n"
    using decimal_val_to_string [of n] by (simp add: ds)
  then show ?thesis
    using assms c by (simp add: stoi_def ds Let_def tw)
qed

lemma port_of_string: "map_sum id f (stoi (to_string (unat (p :: u16)))) = Inr (f (int (unat p)))"
  using unat_bound [of p] by (subst stoi_digits) auto

text \<open>
  The options of the start command are read as they are written: from the five options, in the order of the usage text, the
  parser gets back the paths, both ports and the network, and leaves the rest of the default configuration.
\<close>

theorem start_args_roundtrip:
  "start_parseArgs [''--config='' @ path, ''--port='' @ to_string (unat port), ''--rpc-port='' @ to_string (unat rpc),
      ''--data-dir='' @ dir, ''--network='' @ net] config =
     Inr (config\<lparr>config_path := path, listen_port := port, rpc_port := rpc, data_dir := dir, network_type := net\<rparr>)"
  by (simp add: parse_arg_def starts_with_def port_of_string)

text \<open>
  No command has an effect on a running node: whatever the options and the system, the stop and the status command exit with 1,
  because each asks a controller of its own that has no node, and the start command never leaves a running node behind,
  because the node it started is destroyed when the command returns.
\<close>

theorem commands_control_nothing:
  "main_exit A E (''stop'' # args) = Inr (Returns 1) \<and> main_exit A E (''status'' # args) = Inr (Returns 1)
    \<and> (StartCommand_execute A E args = Inr (Returns code, Some q) \<longrightarrow> code = 0 \<longrightarrow> \<not> qn_running q)"
proof -
  have "\<not> qn_running (QuidsNode_destroy q)" for q :: "'a QuidsNode"
    by (simp add: QuidsNode_destroy_def qn_stop_def)
  then have "StartCommand_execute A E args = Inr (Returns code, Some q) \<Longrightarrow> code = 0 \<Longrightarrow> \<not> qn_running q"
    by (auto simp: StartCommand_execute_def split: sum.splits prod.splits outcome.splits if_splits)
  then show ?thesis
    by (simp add: main_exit_def cli_run_def StopCommand_execute_def StatusCommand_execute_def stopNode_def getStatus_def QuidsControl_new_def)
qed

theorem commands_control_nothing_witness:
  "\<exists>q. StartCommand_execute simple_asio demo_boot_env [''--data-dir=d''] = Inr (Returns 0, Some q) \<and> \<not> qn_running q"
proof -
  obtain q where q: "qn_start simple_asio demo_boot_env (QuidsNode_new (QuidsConfig_new\<lparr>data_dir := ''d''\<rparr>)) = Inr (Returns True, q)"
    using demo_boot by blast
  have "start_parseArgs [''--data-dir=d''] QuidsConfig_new = Inr (QuidsConfig_new\<lparr>data_dir := ''d''\<rparr>)"
    by (simp add: parse_arg_def starts_with_def)
  moreover have "validateConfig (QuidsConfig_new\<lparr>data_dir := ''d''\<rparr>)"
    by (simp add: validateConfig_def QuidsConfig_new_def)
  ultimately have "StartCommand_execute simple_asio demo_boot_env [''--data-dir=d''] = Inr (Returns 0, Some (QuidsNode_destroy q))"
    using q by (simp add: StartCommand_execute_def)
  then show ?thesis
    using commands_control_nothing [of simple_asio demo_boot_env "[''--data-dir=d'']" 0 "QuidsNode_destroy q"] by blast
qed

end
