(* ===== verification/Compression.thy ===== *)
theory Compression
  imports Transaction
begin

text \<open>
  Compression of byte vectors (\<open>include/evm/Compression.hpp\<close>, \<open>src/evm/Compression.cpp\<close>) over zlib, and of batches of transactions
  (\<open>src/rollup/DataCompressor.cpp\<close>) over zstd. Both libraries are parameters with the documented behaviour as hypotheses. The
  loop of \<open>decompress\<close> has no bound: it is a partial function, \<open>None\<close> where it does not return, and that it does return is proved.
\<close>

section \<open>zlib\<close>

text \<open>The statuses the code distinguishes; \<open>Z_DATA_ERROR\<close> stands for every other one.\<close>

datatype z_status = Z_OK | Z_BUF_ERROR | Z_DATA_ERROR

text \<open>
  \<open>z_compress2 src\<close> is the result of \<open>compress2\<close> into a buffer of \<open>compressBound\<close> bytes at the best level, \<open>None\<close> if it fails;
  \<open>z_uncompress src n\<close> that of \<open>uncompress\<close> into a buffer of \<open>n\<close> bytes: the status, the length that it stores and the bytes.
\<close>

record zlib =
  z_compress2 :: "bytes \<Rightarrow> bytes option"
  z_uncompress :: "bytes \<Rightarrow> u64 \<Rightarrow> z_status \<times> u64 \<times> bytes"

text \<open>
  The documented behaviour: compressing succeeds and gives a non-empty stream of which no byte is wasted beyond what decompression
  reproduces; decompressing such a stream gives the data back when the buffer is large enough, and otherwise fills the buffer and asks
  for more.
\<close>

definition zlib_ok :: "zlib \<Rightarrow> bool" where
  "zlib_ok Z \<longleftrightarrow> (\<forall>data. data \<noteq> [] \<longrightarrow> length data < 2 ^ 60 \<longrightarrow>
     (\<exists>src. z_compress2 Z data = Some src \<and> src \<noteq> [] \<and> length src < 2 ^ 61 \<and>
        (\<forall>n. z_uncompress Z src n =
           (if length data \<le> unat n then (Z_OK, of_nat (length data), data)
            else (Z_BUF_ERROR, n, take (unat n) data)))))"

section \<open>Compression of vectors\<close>

record Compression =
  cp_level :: u8

definition Compression_new :: Compression where
  "Compression_new = \<lparr>cp_level = 6\<rparr>"

definition set_level :: "u8 \<Rightarrow> Compression \<Rightarrow> Compression" where
  "set_level level c = c\<lparr>cp_level := level\<rparr>"

definition get_level :: "Compression \<Rightarrow> u8" where
  "get_level c = cp_level c"

text \<open>The level that was set is not used.\<close>

definition compress :: "zlib \<Rightarrow> Compression \<Rightarrow> bytes \<Rightarrow> bytes res" where
  "compress Z c data =
     (if data = [] then Inr []
      else case z_compress2 Z data of None \<Rightarrow> Inl (Runtime_error ''Compression failed'') | Some src \<Rightarrow> Inr src)"

text \<open>The buffer has \<open>decompressed_size\<close> bytes at the head of the loop; a vector of more than \<open>2 ^ 63 - 1\<close> bytes is refused.\<close>

definition VECTOR_MAX :: u64 where
  "VECTOR_MAX = 0x7FFFFFFFFFFFFFFF"

partial_function (option) decompress_loop :: "zlib \<Rightarrow> bytes \<Rightarrow> u64 \<Rightarrow> bytes res option" where
  "decompress_loop Z src decompressed_size =
     (if decompressed_size > VECTOR_MAX then Some (Inl (Length_error ''vector''))
      else case z_uncompress Z src decompressed_size of
        (Z_OK, n, out) \<Rightarrow> Some (Inr (take (unat n) out))
      | (Z_DATA_ERROR, n, out) \<Rightarrow> Some (Inl (Runtime_error ''Decompression failed''))
      | (Z_BUF_ERROR, n, out) \<Rightarrow> decompress_loop Z src (n * 2))"

definition decompress :: "zlib \<Rightarrow> Compression \<Rightarrow> bytes \<Rightarrow> bytes res option" where
  "decompress Z c src = (if src = [] then Some (Inr []) else decompress_loop Z src (of_nat (length src) * 4))"

text \<open>The buffer is doubled until the data fit, and no doubling wraps round before that.\<close>

lemma decompress_loop_fits:
  assumes uncompress: "\<And>n. z_uncompress Z src n =
      (if length data \<le> unat n then (Z_OK, of_nat (length data), data) else (Z_BUF_ERROR, n, take (unat n) data))"
    and "length data < 2 ^ 60" and "length data \<le> unat size0" and "size0 \<le> VECTOR_MAX"
  shows "decompress_loop Z src size0 = Some (Inr data)"
  using assms(2-) by (subst decompress_loop.simps) (simp add: uncompress unat_of_nat)

lemma decompress_loop_doubles:
  assumes uncompress: "\<And>n. z_uncompress Z src n =
      (if length data \<le> unat n then (Z_OK, of_nat (length data), data) else (Z_BUF_ERROR, n, take (unat n) data))"
    and "length data < 2 ^ 60" and "length data \<le> unat size0 * 2 ^ k" and "size0 \<le> VECTOR_MAX"
  shows "decompress_loop Z src size0 = Some (Inr data)"
  using assms(3,4)
proof (induction k arbitrary: size0)
  case 0
  then show ?case
    using decompress_loop_fits [OF uncompress assms(2)] by simp
next
  case (Suc k)
  show ?case
  proof (cases "length data \<le> unat size0")
    case True
    then show ?thesis
      using decompress_loop_fits [OF uncompress assms(2)] Suc.prems by simp
  next
    case False
    then have double: "unat (size0 * 2) = unat size0 * 2"
      using assms(2) by (simp add: unat_word_ariths)
    then have "size0 * 2 \<le> VECTOR_MAX"
      using False assms(2) by (simp add: word_le_nat_alt VECTOR_MAX_def)
    then have "decompress_loop Z src (size0 * 2) = Some (Inr data)"
      using Suc.IH [of "size0 * 2"] Suc.prems double by simp
    then show ?thesis
      using False Suc.prems(2) by (subst decompress_loop.simps) (simp add: uncompress)
  qed
qed

text \<open>
  C35. Decompressing what was compressed returns, and gives the data back: the loop that doubles the buffer ends for every input of
  less than \<open>2 ^ 60\<close> bytes, whatever level was set, as long as zlib does what it documents.
\<close>

theorem decompress_returns:
  assumes "zlib_ok Z" and "length data < 2 ^ 60"
  shows "\<exists>src. compress Z c data = Inr src \<and> decompress Z c' src = Some (Inr data)"
proof (cases "data = []")
  case True
  then show ?thesis
    by (simp add: compress_def decompress_def)
next
  case False
  then obtain src where src: "z_compress2 Z data = Some src" "src \<noteq> []" "length src < 2 ^ 61"
      "\<And>n. z_uncompress Z src n =
         (if length data \<le> unat n then (Z_OK, of_nat (length data), data) else (Z_BUF_ERROR, n, take (unat n) data))"
    using assms unfolding zlib_ok_def by meson
  have start: "unat (of_nat (length src) * 4 :: u64) = length src * 4"
    using src(3) by (simp add: unat_word_ariths unat_of_nat)
  then have "of_nat (length src) * 4 \<le> VECTOR_MAX"
    using src(3) by (simp add: word_le_nat_alt VECTOR_MAX_def)
  moreover have "length data \<le> length src * 4 * 2 ^ 62"
  proof -
    have "length src \<ge> 1"
      using src(2) by (cases src) auto
    then have "2 ^ 62 \<le> length src * 4 * 2 ^ 62"
      by simp
    then show ?thesis
      using assms(2) by simp
  qed
  ultimately have "decompress_loop Z src (of_nat (length src) * 4) = Some (Inr data)"
    using decompress_loop_doubles [OF src(4) assms(2), where k = 62] start by simp
  then show ?thesis
    using False src by (simp add: compress_def decompress_def)
qed

text \<open>A library that meets the contract: it stores the data behind a marker byte.\<close>

definition store_zlib :: zlib where
  "store_zlib =
     \<lparr>z_compress2 = (\<lambda>data. Some (0 # data)),
      z_uncompress = (\<lambda>src n. case src of
          [] \<Rightarrow> (Z_DATA_ERROR, 0, [])
        | b # data \<Rightarrow> if length data \<le> unat n then (Z_OK, of_nat (length data), data)
                     else (Z_BUF_ERROR, n, take (unat n) data))\<rparr>"

theorem decompress_returns_witness:
  "\<exists>src. compress store_zlib Compression_new [1, 2, 3] = Inr src \<and>
     decompress store_zlib (set_level 9 Compression_new) src = Some (Inr [1, 2, 3])"
proof -
  have "zlib_ok store_zlib"
    by (auto simp: zlib_ok_def store_zlib_def)
  from decompress_returns [OF this, of "[1, 2, 3]"] show ?thesis
    by simp
qed

section \<open>Batches of transactions\<close>

text \<open>
  \<open>raw\<close> is the object representation of the transactions in memory, \<open>sz\<close> the size of one: the code compresses these bytes, and with
  them the pointers inside the strings and vectors of the objects.
\<close>

record zstd =
  zs_compress :: "bytes \<Rightarrow> string + bytes"
  zs_content_size :: "bytes \<Rightarrow> nat"
  zs_decompress :: "bytes \<Rightarrow> string + bytes"

record CompressedBatch =
  cb_compressed_data :: bytes
  cb_original_size :: nat

definition compress_batch :: "zstd \<Rightarrow> (Transaction list \<Rightarrow> bytes) \<Rightarrow> nat \<Rightarrow> Transaction list \<Rightarrow> CompressedBatch res" where
  "compress_batch Z raw sz transactions =
     (case zs_compress Z (raw transactions) of
        Inl msg \<Rightarrow> Inl (Runtime_error (''ZSTD compression failed: '' @ msg))
      | Inr data \<Rightarrow> Inr \<lparr>cb_compressed_data = data, cb_original_size = length transactions * sz\<rparr>)"

text \<open>
  Writing the bytes over the default-constructed transactions replaces the representation of objects that are not trivially
  copyable: what is done with such an object later, its destruction included, is undefined.
\<close>

definition decompress_batch :: "zstd \<Rightarrow> nat \<Rightarrow> CompressedBatch \<Rightarrow> Transaction list res" where
  "decompress_batch Z sz b =
     (if zs_content_size Z (cb_compressed_data b) \<noteq> cb_original_size b
      then Inl (Runtime_error ''Decompressed size does not match original size'')
      else case zs_decompress Z (cb_compressed_data b) of
        Inl msg \<Rightarrow> Inl (Runtime_error (''ZSTD decompression failed: '' @ msg))
      | Inr out \<Rightarrow>
          if length out \<noteq> cb_original_size b then Inl (Runtime_error ''Actual decompressed size does not match expected size'')
          else if cb_original_size b div sz = 0 then Inr []
          else Inl (Undefined ''representation of a Transaction overwritten''))"

text \<open>The documented behaviour of zstd: frames record the content size and decompress to the content.\<close>

definition zstd_ok :: "zstd \<Rightarrow> bool" where
  "zstd_ok Z \<longleftrightarrow> (\<forall>data. \<exists>src. zs_compress Z data = Inr src \<and> zs_content_size Z src = length data \<and> zs_decompress Z src = Inr data)"

text \<open>
  A batch of transactions survives compression only when it is empty: with a zstd that does what it documents, decompressing a
  compressed batch of at least one transaction overwrites the representation of live objects with bytes that hold the addresses of
  others.
\<close>

theorem batch_roundtrip_undefined:
  assumes "zstd_ok Z" and "length (raw txs) = length txs * sz" and "sz > 0"
  shows "\<exists>b. compress_batch Z raw sz txs = Inr b \<and>
    decompress_batch Z sz b = (if txs = [] then Inr [] else Inl (Undefined ''representation of a Transaction overwritten''))"
proof -
  obtain src where "zs_compress Z (raw txs) = Inr src" "zs_content_size Z src = length (raw txs)" "zs_decompress Z src = Inr (raw txs)"
    using assms(1) unfolding zstd_ok_def by blast
  then show ?thesis
    using assms(2,3) by (simp add: compress_batch_def decompress_batch_def)
qed

definition store_zstd :: zstd where
  "store_zstd = \<lparr>zs_compress = Inr, zs_content_size = length, zs_decompress = Inr\<rparr>"

theorem batch_roundtrip_undefined_witness:
  "\<exists>b. compress_batch store_zstd (\<lambda>txs. replicate (length txs * 200) 0) 200 [Transaction_default 0 []] = Inr b
    \<and> is_Undefined (decompress_batch store_zstd 200 b)"
proof -
  have "zstd_ok store_zstd"
    by (simp add: zstd_ok_def store_zstd_def)
  from batch_roundtrip_undefined [OF this, of "\<lambda>txs. replicate (length txs * 200) 0" "[Transaction_default 0 []]" 200]
  show ?thesis
    by auto
qed

end
