(* ===== verification/Falcon_Bignum.thy ===== *)
theory Falcon_Bignum
  imports Prelude
begin

unbundle bit_operations_syntax

text \<open>
  Two helpers of Falcon key generation and sampling: 72-bit unsigned integers in two words (\<open>vendors/includes/falcon/u72.hpp\<close>) and
  Karatsuba multiplication of polynomials with big integer coefficients (\<open>karatsuba.hpp\<close>); the GMP integers are \<open>int\<close>.
\<close>

section \<open>72-bit integers\<close>

record u72_t =
  hi :: u64
  lo :: u64

definition u72_zero :: u72_t where
  "u72_zero = \<lparr>hi = 0, lo = 0\<rparr>"

definition u72_add :: "u72_t \<Rightarrow> u72_t \<Rightarrow> u72_t" where
  "u72_add a b =
     (let l = lo a + lo b;
          flg = (lo a > (- 1) - lo b);
          h = (hi a + hi b + (if flg then 1 else 0)) AND 0xff
      in \<lparr>hi = h, lo = l\<rparr>)"

definition u72_sub :: "u72_t \<Rightarrow> u72_t \<Rightarrow> u72_t" where
  "u72_sub a b =
     (let l = lo a - lo b;
          flg = (lo a < lo b);
          h = (hi a - (hi b + (if flg then 1 else 0))) AND 0xff
      in \<lparr>hi = h, lo = l\<rparr>)"

definition u72_neg :: "u72_t \<Rightarrow> u72_t" where
  "u72_neg a = u72_sub u72_zero a"

definition u72_gt :: "u72_t \<Rightarrow> u72_t \<Rightarrow> bool" where
  "u72_gt a b =
     (let flg0 = hi a > hi b; flg1 = (hi a = hi b); flg2 = hi a < hi b; flg3 = lo a > lo b
      in flg0 \<or> flg1 \<and> flg3 \<or> \<not> flg2 \<and> \<not> flg1)"

definition u72_lt :: "u72_t \<Rightarrow> u72_t \<Rightarrow> bool" where
  "u72_lt a b = u72_gt b a"

definition from_be_bytes :: "bytes \<Rightarrow> u72_t" where
  "from_be_bytes bs =
     \<lparr>hi = ucast (bs ! 0), lo = fold (\<lambda>i l. l OR push_bit ((7 - i) * 8) (ucast (bs ! (1 + i)))) [0..<8] 0\<rparr>"

definition to_be_bytes :: "u72_t \<Rightarrow> bytes" where
  "to_be_bytes a = ucast (hi a) # map (\<lambda>i. ucast (drop_bit ((7 - i) * 8) (lo a))) [0..<8]"

definition from_le_bytes :: "bytes \<Rightarrow> u72_t" where
  "from_le_bytes bs =
     \<lparr>hi = ucast (bs ! 8), lo = fold (\<lambda>i l. l OR push_bit (i * 8) (ucast (bs ! i))) [0..<8] 0\<rparr>"

definition to_le_bytes :: "u72_t \<Rightarrow> bytes" where
  "to_le_bytes a = map (\<lambda>i. ucast (drop_bit (i * 8) (lo a))) [0..<8] @ [ucast (hi a)]"

section \<open>Karatsuba multiplication\<close>

text \<open>The template argument \<open>N\<close> is \<open>2 ^ k\<close>.\<close>

definition kara_combine :: "nat \<Rightarrow> int list \<Rightarrow> int list \<Rightarrow> int list \<Rightarrow> int list" where
  "kara_combine N polya0b0 polya1b1 polyaxbx =
     fold (\<lambda>i ab.
        let ab = ab[i := ab ! i + polya0b0 ! i];
            ab = ab[N + i := ab ! (N + i) + polya1b1 ! i]
        in ab[N div 2 + i := ab ! (N div 2 + i) + polyaxbx ! i]) [0..<N] (replicate (2 * N) 0)"

fun karatsuba :: "nat \<Rightarrow> int list \<Rightarrow> int list \<Rightarrow> int list" where
  "karatsuba 0 polya polyb = [polya ! 0 * polyb ! 0, 0]"
| "karatsuba (Suc k) polya polyb =
     (let N = 2 ^ Suc k; Nby2 = N div 2;
          polya0 = map (\<lambda>i. polya ! i) [0..<Nby2];
          polya1 = map (\<lambda>i. polya ! (Nby2 + i)) [0..<Nby2];
          polyb0 = map (\<lambda>i. polyb ! i) [0..<Nby2];
          polyb1 = map (\<lambda>i. polyb ! (Nby2 + i)) [0..<Nby2];
          polyax = map (\<lambda>i. polya ! i + polya ! (Nby2 + i)) [0..<Nby2];
          polybx = map (\<lambda>i. polyb ! i + polyb ! (Nby2 + i)) [0..<Nby2];
          polya0b0 = karatsuba k polya0 polyb0;
          polya1b1 = karatsuba k polya1 polyb1;
          polyaxbx = karatsuba k polyax polybx;
          polyaxbx = map (\<lambda>i. polyaxbx ! i - (polya0b0 ! i + polya1b1 ! i)) [0..<N]
      in kara_combine N polya0b0 polya1b1 polyaxbx)"

definition karamul :: "nat \<Rightarrow> int list \<Rightarrow> int list \<Rightarrow> int list" where
  "karamul k polya polyb =
     (let polyab = karatsuba k polya polyb in map (\<lambda>i. polyab ! i - polyab ! (2 ^ k + i)) [0..<2 ^ k])"

section \<open>Convolution\<close>

definition conv :: "(nat \<Rightarrow> int) \<Rightarrow> (nat \<Rightarrow> int) \<Rightarrow> nat \<Rightarrow> int" where
  "conv f g k = (\<Sum>i\<le>k. f i * g (k - i))"

definition shift :: "nat \<Rightarrow> (nat \<Rightarrow> int) \<Rightarrow> nat \<Rightarrow> int" where
  "shift h f k = (if k < h then 0 else f (k - h))"

definition coeff :: "int list \<Rightarrow> nat \<Rightarrow> int" where
  "coeff xs i = (if i < length xs then xs ! i else 0)"

lemma conv_comm: "conv f g = conv g f"
proof
  fix k
  show "conv f g k = conv g f k"
    unfolding conv_def by (rule sum.reindex_bij_witness [of _ "\<lambda>i. k - i" "\<lambda>i. k - i"]) auto
qed

lemma conv_add: "conv (\<lambda>i. f i + f' i) g = (\<lambda>k. conv f g k + conv f' g k)"
  by (simp add: fun_eq_iff conv_def distrib_right sum.distrib)

lemma conv_add_right: "conv f (\<lambda>i. g i + g' i) = (\<lambda>k. conv f g k + conv f g' k)"
  by (simp add: fun_eq_iff conv_def distrib_left sum.distrib)

lemma conv_shift: "conv (shift h f) g = shift h (conv f g)"
proof (rule ext)
  fix k
  show "conv (shift h f) g k = shift h (conv f g) k"
proof (cases "k < h")
  case True
  then show ?thesis
    by (simp add: conv_def shift_def)
next
  case False
  have "conv (shift h f) g k = (\<Sum>i\<in>{h..k}. f (i - h) * g (k - i))"
    unfolding conv_def by (rule sum.mono_neutral_cong_right) (auto simp: shift_def)
  also have "\<dots> = (\<Sum>j\<le>k - h. f j * g (k - h - j))"
    by (rule sum.reindex_bij_witness [of _ "\<lambda>j. j + h" "\<lambda>i. i - h"]) (use False in auto)
  finally show ?thesis
    using False by (simp add: shift_def conv_def)
qed
qed

lemma conv_shift_right: "conv f (shift h g) = shift h (conv f g)"
  using conv_shift [of h g f] by (simp add: conv_comm [of f])

lemma shift_shift: "shift h (shift h f) = shift (2 * h) f"
  by (auto simp: shift_def mult_2 fun_eq_iff)

lemma shift_add: "shift h (\<lambda>i. f i + g i) = (\<lambda>k. shift h f k + shift h g k)"
  by (simp add: fun_eq_iff shift_def)

text \<open>The product of two polynomials below \<open>x^n\<close> is below \<open>x^(2n - 1)\<close>.\<close>

lemma conv_high: "2 * n \<le> Suc k \<Longrightarrow> length a = n \<Longrightarrow> length b = n \<Longrightarrow> conv (coeff a) (coeff b) k = 0"
  unfolding conv_def by (rule sum.neutral) (auto simp: coeff_def)

lemma coeff_halves:
  assumes "length a = 2 * h"
  shows "coeff a = (\<lambda>i. coeff (map (\<lambda>i. a ! i) [0..<h]) i + shift h (coeff (map (\<lambda>i. a ! (h + i)) [0..<h])) i)"
  using assms by (auto simp: coeff_def shift_def fun_eq_iff)


lemma kara_combine_coeff:
  assumes "0 < h" "N = 2 * h" "length p = N" "length q = N" "length r = N"
  shows "coeff (kara_combine N p q r) = (\<lambda>j. coeff p j + shift N (coeff q) j + shift h (coeff r) j)"
    and "length (kara_combine N p q r) = 2 * N"
proof -
  define step where "step = (\<lambda>i (ab :: int list).
        let ab = ab[i := ab ! i + p ! i]; ab = ab[N + i := ab ! (N + i) + q ! i] in ab[h + i := ab ! (h + i) + r ! i])"
  have K: "kara_combine N p q r = fold step [0..<N] (replicate (2 * N) 0)"
    using assms(2) by (simp add: kara_combine_def step_def)
  have inv: "length (fold step [0..<m] (replicate (2 * N) 0)) = 2 * N \<and>
      (\<forall>j<2 * N. fold step [0..<m] (replicate (2 * N) 0) ! j =
        (if j < m then p ! j else 0) + (if N \<le> j \<and> j < N + m then q ! (j - N) else 0) + (if h \<le> j \<and> j < h + m then r ! (j - h) else 0))"
    if "m \<le> N" for m
    using that
  proof (induction m)
    case (Suc m)
    define ab where "ab = fold step [0..<m] (replicate (2 * N) 0)"
    have ab: "length ab = 2 * N" "\<forall>j<2 * N. ab ! j =
        (if j < m then p ! j else 0) + (if N \<le> j \<and> j < N + m then q ! (j - N) else 0) + (if h \<le> j \<and> j < h + m then r ! (j - h) else 0)"
      using Suc by (simp_all add: ab_def)
    have bounds: "m < 2 * N" "N + m < 2 * N" "h + m < 2 * N" "m \<noteq> N + m" "h + m \<noteq> m" "h + m \<noteq> N + m"
      using Suc.prems assms(1,2) by auto
    have "step m ab ! j = ab ! j + (if j = m then p ! m else 0) + (if j = N + m then q ! m else 0) + (if j = h + m then r ! m else 0)"
      if "j < 2 * N" for j
      using that bounds ab(1) by (simp add: step_def Let_def nth_list_update)
    moreover have "length (step m ab) = 2 * N"
      using ab(1) by (simp add: step_def Let_def)
    moreover have "fold step [0..<Suc m] (replicate (2 * N) 0) = step m ab"
      by (simp add: ab_def)
    ultimately show ?case
      using ab(2) by (auto simp: less_Suc_eq)
  qed simp
  show "length (kara_combine N p q r) = 2 * N"
    using inv [of N] by (simp add: K)
  show "coeff (kara_combine N p q r) = (\<lambda>j. coeff p j + shift N (coeff q) j + shift h (coeff r) j)"
    using inv [of N] assms(3-5) unfolding K by (auto simp: coeff_def shift_def fun_eq_iff assms(2))
qed

text \<open>Karatsuba multiplication computes the coefficients of the schoolbook convolution.\<close>

lemma karatsuba_conv:
  assumes "length a = 2 ^ k" "length b = 2 ^ k"
  shows "length (karatsuba k a b) = 2 * 2 ^ k \<and> coeff (karatsuba k a b) = conv (coeff a) (coeff b)"
  using assms
proof (induction k arbitrary: a b)
  case 0
  then have "conv (coeff a) (coeff b) i = coeff [a ! 0 * b ! 0, 0] i" for i
  proof (cases i)
    case (Suc i)
    then show ?thesis
      using 0 conv_high [of 1 "Suc i" a b] by (simp add: coeff_def)
  qed (use 0 in \<open>simp add: conv_def coeff_def\<close>)
  then show ?case
    by (simp add: fun_eq_iff)
next
  case (Suc k)
  define h where "h = (2 :: nat) ^ k"
  have h: "0 < h" "length a = 2 * h" "length b = 2 * h"
    using Suc.prems by (simp_all add: h_def)
  define a0 a1 b0 b1 ax bx where defs: "a0 = map (\<lambda>i. a ! i) [0..<h]" "a1 = map (\<lambda>i. a ! (h + i)) [0..<h]"
    "b0 = map (\<lambda>i. b ! i) [0..<h]" "b1 = map (\<lambda>i. b ! (h + i)) [0..<h]"
    "ax = map (\<lambda>i. a ! i + a ! (h + i)) [0..<h]" "bx = map (\<lambda>i. b ! i + b ! (h + i)) [0..<h]"
  have IH: "length (karatsuba k x y) = 2 * h" "coeff (karatsuba k x y) = conv (coeff x) (coeff y)"
    if "length x = h" "length y = h" for x y
    using Suc.IH [of x y] that by (simp_all add: h_def)
  have len: "length a0 = h" "length a1 = h" "length b0 = h" "length b1 = h" "length ax = h" "length bx = h"
    by (simp_all add: defs)
  let ?r = "map (\<lambda>i. karatsuba k ax bx ! i - (karatsuba k a0 b0 ! i + karatsuba k a1 b1 ! i)) [0..<2 * h]"
  have K: "karatsuba (Suc k) a b = kara_combine (2 * h) (karatsuba k a0 b0) (karatsuba k a1 b1) ?r"
    by (simp add: Let_def defs h_def)
  have x: "coeff ax = (\<lambda>i. coeff a0 i + coeff a1 i)" "coeff bx = (\<lambda>i. coeff b0 i + coeff b1 i)"
    by (auto simp: defs coeff_def fun_eq_iff)
  have "coeff ?r = (\<lambda>i. coeff (karatsuba k ax bx) i - (coeff (karatsuba k a0 b0) i + coeff (karatsuba k a1 b1) i))"
    using IH(1) len by (auto simp: coeff_def fun_eq_iff)
  then have r: "coeff ?r = (\<lambda>i. conv (coeff a0) (coeff b1) i + conv (coeff a1) (coeff b0) i)"
    using IH(2) len by (simp add: x conv_add conv_add_right fun_eq_iff)
  have "conv (coeff a) (coeff b) i = conv (coeff a0) (coeff b0) i + shift (2 * h) (conv (coeff a1) (coeff b1)) i
      + shift h (coeff ?r) i" for i
    unfolding coeff_halves [OF h(2)] coeff_halves [OF h(3)] r shift_add defs [symmetric]
    by (simp add: conv_add conv_add_right conv_shift conv_shift_right shift_shift)
  then show ?case
    using kara_combine_coeff [OF h(1) refl, of "karatsuba k a0 b0" "karatsuba k a1 b1" ?r] IH len
    unfolding K by (simp add: fun_eq_iff) (simp add: h_def)
qed

text \<open>Multiplication modulo \<open>x^n + 1\<close>, the reference for \<open>karamul\<close>.\<close>

definition int_negacyclic :: "nat \<Rightarrow> int list \<Rightarrow> int list \<Rightarrow> nat \<Rightarrow> int" where
  "int_negacyclic n a b k =
     (\<Sum>i<n. \<Sum>j<n. if i + j = k then a ! i * b ! j else if i + j = k + n then - (a ! i * b ! j) else 0)"

lemma conv_coeff:
  assumes "length a = n" "length b = n"
  shows "conv (coeff a) (coeff b) k = (\<Sum>i<n. \<Sum>j<n. if i + j = k then a ! i * b ! j else 0)"
proof -
  have inner: "(\<Sum>j<n. if i + j = k then a ! i * b ! j else 0) = (if i \<le> k then a ! i * coeff b (k - i) else 0)" for i
  proof -
    have "(\<Sum>j<n. if i + j = k then a ! i * b ! j else 0) = (\<Sum>j<n. if j = k - i \<and> i \<le> k then a ! i * b ! j else 0)"
      by (rule sum.cong) auto
    also have "\<dots> = (if i \<le> k then a ! i * coeff b (k - i) else 0)"
      using assms(2) by (auto simp: coeff_def)
    finally show ?thesis .
  qed
  have "conv (coeff a) (coeff b) k = (\<Sum>i\<in>{..k} \<inter> {..<n}. a ! i * coeff b (k - i))"
    unfolding conv_def by (rule sum.mono_neutral_cong_right) (use assms(1) in \<open>auto simp: coeff_def\<close>)
  also have "\<dots> = (\<Sum>i<n. if i \<le> k then a ! i * coeff b (k - i) else 0)"
    by (rule sum.mono_neutral_cong_left) auto
  finally show ?thesis
    by (simp only: inner)
qed

text \<open>
  The Karatsuba product reduced modulo \<open>x^n + 1\<close> is the negacyclic product of the two polynomials: each coefficient is the
  schoolbook sum, with the sign changed where the exponents wrap around.
\<close>

theorem karamul_negacyclic:
  assumes "length a = 2 ^ k" "length b = 2 ^ k"
  shows "karamul k a b = map (int_negacyclic (2 ^ k) a b) [0..<2 ^ k]"
proof -
  have K: "length (karatsuba k a b) = 2 * 2 ^ k" "coeff (karatsuba k a b) = conv (coeff a) (coeff b)"
    using karatsuba_conv [OF assms] by simp_all
  have nth: "karatsuba k a b ! i = conv (coeff a) (coeff b) i" if "i < 2 * 2 ^ k" for i
    using that K by (simp add: coeff_def fun_eq_iff) metis
  have "conv (coeff a) (coeff b) i - conv (coeff a) (coeff b) (2 ^ k + i) = int_negacyclic (2 ^ k) a b i" for i
    unfolding int_negacyclic_def conv_coeff [OF assms] sum_subtractf [symmetric]
    by (intro sum.cong) auto
  then show ?thesis
    by (auto simp: karamul_def Let_def nth)
qed

theorem karamul_negacyclic_witness:
  "length [1 :: int, 2, 3, 4] = 2 ^ 2 \<and> length [5 :: int, 6, 7, 8] = 2 ^ 2 \<and>
   karamul 2 [1, 2, 3, 4] [5, 6, 7, 8] = map (int_negacyclic (2 ^ 2) [1, 2, 3, 4] [5, 6, 7, 8]) [0..<2 ^ 2]"
  using karamul_negacyclic [of "[1, 2, 3, 4]" 2 "[5, 6, 7, 8]"] by simp

section \<open>Arithmetic and byte order of the 72-bit integers\<close>

definition u72_val :: "u72_t \<Rightarrow> nat" where
  "u72_val a = 2 ^ 64 * unat (hi a) + unat (lo a)"

definition u72_wf :: "u72_t \<Rightarrow> bool" where
  "u72_wf a \<longleftrightarrow> unat (hi a) < 256"

lemma unat_and_ff: "unat (w AND 0xff :: u64) = unat w mod 256"
proof -
  have "w AND 0xff = take_bit 8 w"
    by (simp add: take_bit_eq_mask mask_eq_exp_minus_1)
  then show ?thesis
    by (simp add: take_bit_eq_mod unat_mod)
qed

lemma len64: "LENGTH(64) = 64"
  by simp

lemma mod_72: "l < 2 ^ 64 \<Longrightarrow> (2 ^ 64 * h + l) mod 2 ^ 72 = 2 ^ 64 * (h mod 256) + (l :: nat)"
  using mod_mult2_eq [of "2 ^ 64 * h + l" "2 ^ 64" 256] by simp

lemma unat_not_u64: "unat (- 1 - w :: u64) = 2 ^ 64 - 1 - unat w"
proof -
  have "unat (- 1 - w) = unat (- 1 :: u64) - unat w"
    by (rule unat_sub) simp
  then show ?thesis
    by (simp add: unsigned_minus_1_eq_mask mask_eq_exp_minus_1)
qed

lemma u72_add_wf: "u72_wf (u72_add a b)"
  by (simp add: u72_wf_def u72_add_def Let_def unat_and_ff)

lemma u72_sub_wf: "u72_wf (u72_sub a b)"
  by (simp add: u72_wf_def u72_sub_def Let_def unat_and_ff)

lemma u72_val_less: "u72_wf a \<Longrightarrow> u72_val a < 2 ^ 72"
  using unat_u64 [of "lo a"] by (simp add: u72_wf_def u72_val_def)

lemma u72_add_val:
  assumes "u72_wf a" "u72_wf b"
  shows "u72_val (u72_add a b) = (u72_val a + u72_val b) mod 2 ^ 72"
proof -
  have bounds: "unat (lo a) < 2 ^ 64" "unat (lo b) < 2 ^ 64" "unat (hi a) < 256" "unat (hi b) < 256"
    using assms unat_u64 [of "lo a"] unat_u64 [of "lo b"] by (simp_all add: u72_wf_def)
  have flg: "lo a > - 1 - lo b \<longleftrightarrow> 2 ^ 64 \<le> unat (lo a) + unat (lo b)"
    using bounds(1,2) by (auto simp: word_less_nat_alt unat_not_u64)
  have l: "unat (lo a + lo b) = (unat (lo a) + unat (lo b)) mod 2 ^ 64"
    by (simp add: unat_word_ariths)
  show ?thesis
  proof (cases "2 ^ 64 \<le> unat (lo a) + unat (lo b)")
    case True
    have "unat (hi a + hi b + 1) = unat (hi a) + unat (hi b) + 1"
      using bounds by (simp add: unat_word_ariths)
    moreover have "(unat (lo a) + unat (lo b)) mod 2 ^ 64 = unat (lo a) + unat (lo b) - 2 ^ 64"
      using True bounds(1,2) by (simp add: mod_if)
    moreover have "u72_val a + u72_val b = 2 ^ 64 * (unat (hi a) + unat (hi b) + 1) + (unat (lo a) + unat (lo b) - 2 ^ 64)"
      using True by (simp add: u72_val_def algebra_simps)
    moreover have "unat (lo a) + unat (lo b) - 2 ^ 64 < 2 ^ 64"
      using bounds(1,2) by simp
    ultimately show ?thesis
      using True flg by (simp only: u72_val_def u72_add_def Let_def unat_and_ff l if_True mod_72 u72_t.simps)
  next
    case False
    have "unat (hi a + hi b) = unat (hi a) + unat (hi b)"
      using bounds by (simp add: unat_word_ariths)
    moreover have "(unat (lo a) + unat (lo b)) mod 2 ^ 64 = unat (lo a) + unat (lo b)"
      using False by simp
    moreover have "u72_val a + u72_val b = 2 ^ 64 * (unat (hi a) + unat (hi b)) + (unat (lo a) + unat (lo b))"
      by (simp add: u72_val_def algebra_simps)
    moreover have "unat (lo a) + unat (lo b) < 2 ^ 64" "(lo a > - 1 - lo b) = False"
      using False flg by simp_all
    ultimately show ?thesis
      by (simp only: u72_val_def u72_add_def Let_def unat_and_ff l if_False mod_72 u72_t.simps add_0_right)
  qed
qed

text \<open>Subtraction is the inverse of addition, so it too is exact modulo \<open>2^72\<close>.\<close>

lemma u72_sub_add: "u72_wf a \<Longrightarrow> u72_add (u72_sub a b) b = a"
proof -
  assume a: "u72_wf a"
  have flg: "lo a - lo b > - 1 - lo b \<longleftrightarrow> lo a < lo b"
  proof -
    have "unat (lo a - lo b) =
        (if unat (lo b) \<le> unat (lo a) then unat (lo a) - unat (lo b) else unat (lo a) + 2 ^ 64 - unat (lo b))"
      by (simp add: unat_sub_if_size word_size)
    then show ?thesis
      unfolding word_less_nat_alt unat_not_u64 using unat_u64 [of "lo a"] unat_u64 [of "lo b"] by auto
  qed
  have mask: "((w AND 0xff) + v) AND 0xff = (w + v) AND (0xff :: u64)" for w v
  proof -
    have m: "x mod 2 ^ 64 mod 256 = x mod (256 :: nat)" for x
      by (rule mod_mod_cancel) simp
    show ?thesis
      by (rule word_unat_eq_iff [THEN iffD2]) (simp only: unat_and_ff unat_word_ariths len64 m mod_add_left_eq)
  qed
  have "hi a AND 0xff = hi a"
    using a by (intro word_unat_eq_iff [THEN iffD2]) (simp add: unat_and_ff u72_wf_def)
  then show ?thesis
    unfolding u72_add_def u72_sub_def Let_def u72_t.simps flg add.assoc mask
    by (cases "lo a < lo b") (simp_all add: algebra_simps)
qed

lemma u72_sub_val:
  assumes "u72_wf a" "u72_wf b"
  shows "u72_val (u72_sub a b) = (u72_val a + (2 ^ 72 - u72_val b)) mod 2 ^ 72"
proof -
  have lt: "u72_val a < 2 ^ 72" "u72_val b < 2 ^ 72" "u72_val (u72_sub a b) < 2 ^ 72"
    using assms u72_sub_wf [of a b] u72_val_less by blast+
  have "(u72_val (u72_sub a b) + u72_val b) mod 2 ^ 72 = u72_val a"
    using u72_add_val [OF u72_sub_wf assms(2), of a b] u72_sub_add [OF assms(1)] by simp
  then have "(u72_val (u72_sub a b) + u72_val b + (2 ^ 72 - u72_val b)) mod 2 ^ 72 = (u72_val a + (2 ^ 72 - u72_val b)) mod 2 ^ 72"
    by (metis mod_add_left_eq)
  then show ?thesis
    using lt by simp
qed

lemma u72_gt_val: "u72_gt a b \<longleftrightarrow> u72_val b < u72_val a"
proof -
  have "u72_gt a b \<longleftrightarrow> unat (hi b) < unat (hi a) \<or> unat (hi a) = unat (hi b) \<and> unat (lo b) < unat (lo a)"
    by (auto simp: u72_gt_def Let_def word_less_nat_alt word_unat_eq_iff)
  also have "\<dots> \<longleftrightarrow> u72_val b < u72_val a"
    using unat_u64 [of "lo a"] unat_u64 [of "lo b"] unfolding u72_val_def by auto
  finally show ?thesis .
qed

lemma fold_or_bytes:
  assumes "m \<le> 8" "n < 64"
  shows "bit (fold (\<lambda>i l. l OR push_bit (i * 8) (ucast (ucast (drop_bit (i * 8) w) :: u8))) [0..<m] (0 :: u64)) n
      \<longleftrightarrow> bit (w :: u64) n \<and> n < m * 8"
  using assms(1)
proof (induction m)
  case (Suc m)
  have "bit (push_bit (m * 8) (ucast (ucast (drop_bit (m * 8) w) :: u8) :: u64)) n \<longleftrightarrow> m * 8 \<le> n \<and> n < m * 8 + 8 \<and> bit w n"
    using assms(2) Suc.prems by (auto simp: bit_push_bit_iff bit_unsigned_iff bit_drop_bit_eq)
  then show ?case
    using Suc by (auto simp: bit_or_iff)
qed simp

lemma word_bytes:
  "fold (\<lambda>i l. l OR push_bit (i * 8) (ucast (ucast (drop_bit (i * 8) w) :: u8))) [0..<8] 0 = (w :: u64)"
  by (rule bit_word_eqI) (simp add: fold_or_bytes)

lemma u72_bytes:
  assumes "u72_wf a"
  shows "from_le_bytes (to_le_bytes a) = a" "from_be_bytes (to_be_bytes a) = a"
proof -
  have h: "ucast (ucast (hi a) :: u8) = hi a"
    using assms by (intro word_unat_eq_iff [THEN iffD2]) (simp add: u72_wf_def unsigned_ucast_eq take_bit_eq_mod unat_mod)
  have u: "[0..<8] = [0, 1, 2, 3, 4, 5, 6, 7 :: nat]"
    by (simp add: upt_rec)
  show "from_le_bytes (to_le_bytes a) = a"
    using word_bytes [of "lo a"] h by (simp add: from_le_bytes_def to_le_bytes_def u)
  show "from_be_bytes (to_be_bytes a) = a"
    using word_bytes [of "lo a"] h by (simp add: from_be_bytes_def to_be_bytes_def u ac_simps)
qed

text \<open>
  The two-word integers are the integers modulo \<open>2^72\<close>: the operators stay in range, addition, subtraction and negation are
  exact modulo \<open>2^72\<close>, the comparisons are those of the values, and both byte orders round-trip.
\<close>

theorem u72_arithmetic:
  assumes "u72_wf a" "u72_wf b"
  shows "u72_wf (u72_add a b) \<and> u72_wf (u72_sub a b) \<and> u72_wf (u72_neg a) \<and>
    u72_val (u72_add a b) = (u72_val a + u72_val b) mod 2 ^ 72 \<and>
    u72_val (u72_sub a b) = (u72_val a + (2 ^ 72 - u72_val b)) mod 2 ^ 72 \<and>
    u72_val (u72_neg a) = (2 ^ 72 - u72_val a) mod 2 ^ 72 \<and>
    u72_gt a b = (u72_val b < u72_val a) \<and> u72_lt a b = (u72_val a < u72_val b) \<and>
    from_le_bytes (to_le_bytes a) = a \<and> from_be_bytes (to_be_bytes a) = a"
proof -
  have z: "u72_wf u72_zero" "u72_val u72_zero = 0"
    by (simp_all add: u72_zero_def u72_wf_def u72_val_def)
  show ?thesis
    using u72_add_wf u72_sub_wf u72_add_val [OF assms] u72_sub_val [OF assms] u72_sub_val [OF z(1) assms(1)] u72_bytes [OF assms(1)]
    by (simp add: u72_neg_def u72_lt_def u72_gt_val z(2))
qed

theorem u72_arithmetic_witness:
  "u72_wf \<lparr>hi = 255, lo = - 1\<rparr> \<and> u72_wf \<lparr>hi = 0, lo = 2\<rparr> \<and>
   u72_val (u72_add \<lparr>hi = 255, lo = - 1\<rparr> \<lparr>hi = 0, lo = 2\<rparr>) =
     (u72_val \<lparr>hi = 255, lo = - 1\<rparr> + u72_val \<lparr>hi = 0, lo = 2\<rparr>) mod 2 ^ 72 \<and>
   u72_add \<lparr>hi = 255, lo = - 1\<rparr> \<lparr>hi = 0, lo = 2\<rparr> = \<lparr>hi = 0, lo = 1\<rparr>"
proof -
  have wf: "u72_wf \<lparr>hi = 255, lo = - 1\<rparr>" "u72_wf \<lparr>hi = 0, lo = 2\<rparr>"
    by (simp_all add: u72_wf_def)
  show ?thesis
    using wf u72_arithmetic [OF wf] by (simp add: u72_add_def)
qed

end
