(* ===== verification/Keccak.thy ===== *)
theory Keccak
  imports Prelude
begin

unbundle bit_operations_syntax

text \<open>
  The Keccak-p[1600, 24] permutation (\<open>vendors/includes/falcon/keccak.hpp\<close>) under every hash of the vendored SHA-3 and Falcon
  headers. The header has two implementations of \<open>permute\<close>, selected at compile time: the portable one applies the five step
  mappings to an array of 25 lanes, the AVX2 one keeps the lanes in seven 256-bit registers, recomputes unaligned views of them
  with blends and permutations, and fuses the steps. Both are modelled, and they compute the same permutation.
\<close>

section \<open>Constants\<close>

definition LANE_SIZE :: nat where "LANE_SIZE = 64"

definition ROT :: "nat list" where
  "ROT = map (\<lambda>k. k mod LANE_SIZE)
     [0, 1, 190, 28, 91, 36, 300, 6, 55, 276, 3, 10, 171, 153, 231, 105, 45, 15, 21, 136, 210, 66, 253, 120, 78]"

definition PERM :: "nat list" where
  "PERM = [0, 6, 12, 18, 24, 3, 9, 10, 16, 22, 1, 7, 13, 19, 20, 4, 5, 11, 17, 23, 2, 8, 14, 15, 21]"

text \<open>
  One tap of the linear feedback shift register, one step of it (the bit \<open>b0\<close> that leaves is added at bits 8, 4, 3 and 2), and the
  bit it yields after \<open>t % 255\<close> steps.
\<close>

definition rc_tap :: "u16 \<Rightarrow> nat \<Rightarrow> u16 \<Rightarrow> u16 \<Rightarrow> u16" where
  "rc_tap keep k b0 r = (r AND keep) XOR push_bit k ((drop_bit k r AND 1) XOR b0)"

definition rc_step :: "u16 \<Rightarrow> u16" where
  "rc_step r = (let b0 = r AND 1
     in drop_bit 1 (rc_tap 0b111111011 2 b0 (rc_tap 0b111110111 3 b0 (rc_tap 0b111101111 4 b0 (rc_tap 0b011111111 8 b0 r)))))"

definition rc :: "nat \<Rightarrow> bool" where
  "rc t = (if t mod 255 = 0 then True else (drop_bit 7 ((rc_step ^^ (t mod 255)) 0b10000000)) AND 1 \<noteq> 0)"

definition compute_rc :: "nat \<Rightarrow> u64" where
  "compute_rc r_idx = fold (\<lambda>j tmp. tmp OR push_bit (2 ^ j - 1) (of_bool (rc (j + 7 * r_idx)))) [0..<7] 0"

definition ROUNDS :: nat where "ROUNDS = 24"

definition RC :: "u64 list" where
  "RC = map compute_rc [0..<24]"

section \<open>The portable implementation\<close>

definition keccak_theta :: "u64 list \<Rightarrow> u64 list" where
  "keccak_theta state =
     (let c = fold (\<lambda>i c. [c ! 0 XOR state ! (i + 0), c ! 1 XOR state ! (i + 1), c ! 2 XOR state ! (i + 2),
                           c ! 3 XOR state ! (i + 3), c ! 4 XOR state ! (i + 4)]) [0, 5, 10, 15, 20] (replicate 5 0);
          d = map (\<lambda>i. c ! ((i + 4) mod 5) XOR word_rotl 1 (c ! ((i + 1) mod 5))) [0..<5]
      in fold (\<lambda>i st. st[i + 0 := st ! (i + 0) XOR d ! 0, i + 1 := st ! (i + 1) XOR d ! 1, i + 2 := st ! (i + 2) XOR d ! 2,
                         i + 3 := st ! (i + 3) XOR d ! 3, i + 4 := st ! (i + 4) XOR d ! 4]) [0, 5, 10, 15, 20] state)"

definition keccak_rho :: "u64 list \<Rightarrow> u64 list" where
  "keccak_rho state = fold (\<lambda>i st. st[i := word_rotl (ROT ! i) (st ! i)]) [0..<25] state"

definition keccak_pi :: "u64 list \<Rightarrow> u64 list" where
  "keccak_pi istate = map (\<lambda>i. istate ! (PERM ! i)) [0..<25]"

definition keccak_chi :: "u64 list \<Rightarrow> u64 list" where
  "keccak_chi istate =
     concat (map (\<lambda>i. map (\<lambda>j. istate ! (i * 5 + j)
        XOR (NOT (istate ! (i * 5 + (j + 1) mod 5)) AND istate ! (i * 5 + (j + 2) mod 5))) [0..<5]) [0..<5])"

definition keccak_iota :: "u64 list \<Rightarrow> nat \<Rightarrow> u64 list" where
  "keccak_iota state r_idx = state[0 := state ! 0 XOR RC ! r_idx]"

definition keccak_round :: "u64 list \<Rightarrow> nat \<Rightarrow> u64 list" where
  "keccak_round state r_idx = keccak_iota (keccak_chi (keccak_pi (keccak_rho (keccak_theta state)))) r_idx"

definition permute :: "u64 list \<Rightarrow> u64 list" where
  "permute state = fold (\<lambda>i st. keccak_round st i) [0..<ROUNDS] state"

section \<open>AVX2 registers\<close>

text \<open>A 256-bit register as its four 64-bit lanes, the least significant first, and the intrinsics the code uses.\<close>

datatype m256 = V u64 u64 u64 u64

fun lane :: "m256 \<Rightarrow> nat \<Rightarrow> u64" where
  "lane (V a b c d) i = (if i = 0 then a else if i = 1 then b else if i = 2 then c else d)"

definition vmap2 :: "(u64 \<Rightarrow> u64 \<Rightarrow> u64) \<Rightarrow> m256 \<Rightarrow> m256 \<Rightarrow> m256" where
  "vmap2 f x y = V (f (lane x 0) (lane y 0)) (f (lane x 1) (lane y 1)) (f (lane x 2) (lane y 2)) (f (lane x 3) (lane y 3))"

definition vxor :: "m256 \<Rightarrow> m256 \<Rightarrow> m256" where
  "vxor = vmap2 (\<lambda>a b. a XOR b)"

definition vandnot :: "m256 \<Rightarrow> m256 \<Rightarrow> m256" where
  "vandnot = vmap2 (\<lambda>a b. NOT a AND b)"

definition vsub :: "m256 \<Rightarrow> m256 \<Rightarrow> m256" where
  "vsub = vmap2 (\<lambda>a b. a - b)"

definition vsllv :: "m256 \<Rightarrow> m256 \<Rightarrow> m256" where
  "vsllv = vmap2 (\<lambda>a k. push_bit (unat k) a)"

definition vsrlv :: "m256 \<Rightarrow> m256 \<Rightarrow> m256" where
  "vsrlv = vmap2 (\<lambda>a k. drop_bit (unat k) a)"

definition vslli :: "m256 \<Rightarrow> nat \<Rightarrow> m256" where
  "vslli x k = V (push_bit k (lane x 0)) (push_bit k (lane x 1)) (push_bit k (lane x 2)) (push_bit k (lane x 3))"

definition vsrli :: "m256 \<Rightarrow> nat \<Rightarrow> m256" where
  "vsrli x k = V (drop_bit k (lane x 0)) (drop_bit k (lane x 1)) (drop_bit k (lane x 2)) (drop_bit k (lane x 3))"

definition permute4x64 :: "m256 \<Rightarrow> nat \<Rightarrow> m256" where
  "permute4x64 x imm = V (lane x (imm mod 4)) (lane x (imm div 4 mod 4)) (lane x (imm div 16 mod 4)) (lane x (imm div 64 mod 4))"

text \<open>\<open>_mm256_blend_epi32\<close> selects 32-bit halves; \<open>m\<close> holds the two selection bits of a 64-bit lane.\<close>

definition blend64 :: "nat \<Rightarrow> u64 \<Rightarrow> u64 \<Rightarrow> u64" where
  "blend64 m a b = ((if m mod 2 = 1 then b else a) AND 0x00000000FFFFFFFF) OR ((if m div 2 = 1 then b else a) AND 0xFFFFFFFF00000000)"

definition blend32 :: "m256 \<Rightarrow> m256 \<Rightarrow> nat \<Rightarrow> m256" where
  "blend32 x y imm = V (blend64 (imm mod 4) (lane x 0) (lane y 0)) (blend64 (imm div 4 mod 4) (lane x 1) (lane y 1))
                       (blend64 (imm div 16 mod 4) (lane x 2) (lane y 2)) (blend64 (imm div 64 mod 4) (lane x 3) (lane y 3))"

definition vload :: "u64 list \<Rightarrow> nat \<Rightarrow> m256" where
  "vload mem i = V (mem ! i) (mem ! (i + 1)) (mem ! (i + 2)) (mem ! (i + 3))"

definition vstore :: "u64 list \<Rightarrow> nat \<Rightarrow> m256 \<Rightarrow> u64 list" where
  "vstore mem i x = mem[i := lane x 0, i + 1 := lane x 1, i + 2 := lane x 2, i + 3 := lane x 3]"

section \<open>The AVX2 implementation\<close>

text \<open>
  The registers between rounds hold lanes 0--3, 4--7, 8--11, 12--15, 16--19, 20--23, and 24 with three lanes that are never read.
  Within a round the code works on ten registers: five rows of four lanes, starting at lanes 0, 5, 10, 15 and 20, and the fifth
  lane of each row in the first lane of a register of its own.
\<close>

type_synonym regs = "m256 \<times> m256 \<times> m256 \<times> m256 \<times> m256 \<times> m256 \<times> m256"
type_synonym rows = "(m256 \<times> m256 \<times> m256 \<times> m256 \<times> m256) \<times> (m256 \<times> m256 \<times> m256 \<times> m256 \<times> m256)"

definition avx_theta :: "regs \<Rightarrow> rows" where
  "avx_theta = (\<lambda>(s0, s4, s8, s12, s16, s20, s24).
     let t0 = blend32 s4 s8 0b00000011;
         s5 = permute4x64 t0 0b00111001;
         t1 = blend32 s8 s12 0b00001111;
         s10 = permute4x64 t1 0b01001110;
         t2 = blend32 s12 s16 0b00111111;
         s15 = permute4x64 t2 0b10010011;
         t3 = vxor s0 s5;
         t4 = vxor t3 s10;
         t5 = vxor t4 s15;
         c0_4 = vxor t5 s20;
         s19 = permute4x64 s16 0b10010011;
         s14 = permute4x64 s12 0b11010010;
         s9 = permute4x64 s8 0b11100001;
         t6 = vxor s4 s9;
         t7 = vxor t6 s14;
         t8 = vxor t7 s19;
         c4 = vxor t8 s24;
         t9 = vslli c0_4 1;
         t10 = vsrli c0_4 63;
         c0_4' = vxor t9 t10;
         t11 = vslli c4 1;
         t12 = vsrli c4 63;
         c4' = vxor t11 t12;
         t13 = permute4x64 c4' 0b11100001;
         t14 = blend32 c0_4' t13 0b00001100;
         t15 = permute4x64 t14 0b00011110;
         d1_5 = vxor c0_4 t15;
         t16 = permute4x64 c0_4' 0b00111001;
         d0 = vxor c4 t16;
         t17 = permute4x64 d0 0b00111001;
         t18 = blend32 t17 d1_5 0b00111111;
         d0_4 = permute4x64 t18 0b10010011;
         d4 = permute4x64 d1_5 0b10010011
     in ((vxor s0 d0_4, vxor s5 d0_4, vxor s10 d0_4, vxor s15 d0_4, vxor s20 d0_4),
         (vxor s4 d4, vxor s9 d4, vxor s14 d4, vxor s19 d4, vxor s24 d4)))"

text \<open>The shift counts: \<open>rot\<close> is \<open>ROT\<close> with three zeros after it.\<close>

definition avx_rot :: "u64 list" where
  "avx_rot = map of_nat ROT @ replicate 3 0"

definition avx_shl :: "nat \<Rightarrow> m256" where
  "avx_shl i = vload avx_rot i"

definition avx_shr :: "nat \<Rightarrow> m256" where
  "avx_shr i = vsub (V 64 64 64 64) (avx_shl i)"

definition avx_rotl :: "m256 \<Rightarrow> nat \<Rightarrow> m256" where
  "avx_rotl s i = vxor (vsllv s (avx_shl i)) (vsrlv s (avx_shr i))"

definition avx_rho :: "rows \<Rightarrow> rows" where
  "avx_rho = (\<lambda>((s0, s5, s10, s15, s20), (s4, s9, s14, s19, s24)).
     ((avx_rotl s0 0, avx_rotl s5 5, avx_rotl s10 10, avx_rotl s15 15, avx_rotl s20 20),
      (avx_rotl s4 4, avx_rotl s9 9, avx_rotl s14 14, avx_rotl s19 19, avx_rotl s24 24)))"

text \<open>After \<open>\<pi>\<close> the first five registers hold columns of the first four rows, the other five the lanes 20--24.\<close>

definition avx_pi :: "rows \<Rightarrow> rows" where
  "avx_pi = (\<lambda>((s0, s5, s10, s15, s20), (s4, s9, s14, s19, s24)).
     let t39 = permute4x64 s4 0b11001001;
         t40 = blend32 s0 t39 0b00110000;
         t41 = permute4x64 t40 0b10011100;
         t42 = permute4x64 s9 0b00111001;
         t43 = blend32 s5 t42 0b11000000;
         t44 = permute4x64 t43 0b00101101;
         t45 = permute4x64 s10 0b01110010;
         t46 = blend32 s15 s19 0b00000011;
         t47 = permute4x64 t46 0b10000111;
         t48 = permute4x64 s24 0b11100001;
         t49 = blend32 s20 t48 0b00001100;
         t50 = permute4x64 t49 0b11001001;
         t51 = permute4x64 s0 0b10101010;
         t52 = permute4x64 s5 0b11111111;
         t53 = s14;
         t54 = s15;
         t55 = permute4x64 s20 0b01010101
     in ((t41, t44, t45, t47, t50), (t51, t52, t53, t54, t55)))"

definition avx_chi :: "rows \<Rightarrow> regs" where
  "avx_chi = (\<lambda>((t41, t44, t45, t47, t50), (t51, t52, t53, t54, t55)).
     let t57 = vxor t41 (vandnot t44 t45);
         t59 = vxor t44 (vandnot t45 t47);
         t61 = vxor t45 (vandnot t47 t50);
         t63 = vxor t47 (vandnot t50 t41);
         t65 = vxor t50 (vandnot t41 t44);
         t66 = vxor t51 (vandnot t52 t53);
         t67 = vxor t52 (vandnot t53 t54);
         t68 = vxor t53 (vandnot t54 t55);
         t69 = vxor t54 (vandnot t55 t51);
         t70 = vxor t55 (vandnot t51 t52);
         t71 = permute4x64 t59 0b10010011;
         t72 = permute4x64 t61 0b01001110;
         t73 = permute4x64 t63 0b00111001;
         t74 = blend32 t57 t71 0b11001100;
         t75 = blend32 t72 t73 0b11001100;
         s0 = blend32 t74 t75 0b11110000;
         t76 = blend32 t65 t57 0b11001100;
         t77 = blend32 t71 t72 0b11001100;
         s4 = blend32 t76 t77 0b11110000;
         t78 = blend32 t65 t73 0b00110011;
         s8 = blend32 t78 t74 0b11110000;
         s12 = blend32 t75 t76 0b11110000;
         s16 = blend32 t77 t78 0b11110000;
         t79 = permute4x64 t67 0b11100001;
         t80 = permute4x64 t68 0b11001001;
         t81 = permute4x64 t69 0b00111001;
         t82 = blend32 t66 t79 0b00001100;
         t83 = blend32 t82 t80 0b00110000;
         s20 = blend32 t83 t81 0b11000000
     in (s0, s4, s8, s12, s16, s20, t70))"

text \<open>In this configuration every round constant is stored four times over.\<close>

definition avx_RC :: "u64 list" where
  "avx_RC = concat (map (\<lambda>i. replicate 4 (compute_rc i)) [0..<24])"

definition avx_iota :: "nat \<Rightarrow> regs \<Rightarrow> regs" where
  "avx_iota i = (\<lambda>(s0, s4, s8, s12, s16, s20, s24).
     let t84 = vload avx_RC (i * 4);
         t85 = vxor s0 t84
     in (blend32 t85 s0 0b11111100, s4, s8, s12, s16, s20, s24))"

definition avx_round :: "nat \<Rightarrow> regs \<Rightarrow> regs" where
  "avx_round i s = avx_iota i (avx_chi (avx_pi (avx_rho (avx_theta s))))"

definition avx_load :: "u64 list \<Rightarrow> regs" where
  "avx_load state = (let tmp = take 25 state @ replicate 3 0
     in (vload tmp 0, vload tmp 4, vload tmp 8, vload tmp 12, vload tmp 16, vload tmp 20, vload tmp 24))"

definition avx_store :: "u64 list \<Rightarrow> regs \<Rightarrow> u64 list" where
  "avx_store tmp = (\<lambda>(s0, s4, s8, s12, s16, s20, s24).
     vstore (vstore (vstore (vstore (vstore (vstore (vstore tmp 0 s0) 4 s4) 8 s8) 12 s12) 16 s16) 20 s20) 24 s24)"

definition permute_avx2 :: "u64 list \<Rightarrow> u64 list" where
  "permute_avx2 state =
     take 25 (avx_store (take 25 state @ replicate 3 0) (fold avx_round [0..<ROUNDS] (avx_load state)))"

section \<open>The round constants\<close>

text \<open>The states of the shift register one after the other, so that each of them is computed once.\<close>

fun iterates :: "nat \<Rightarrow> ('a \<Rightarrow> 'a) \<Rightarrow> 'a \<Rightarrow> 'a list" where
  "iterates 0 f x = []"
| "iterates (Suc n) f x = x # iterates n f (f x)"

lemma iterates_eq: "iterates n f x = map (\<lambda>i. (f ^^ i) x) [0..<n]"
proof (induction n arbitrary: x)
  case (Suc n)
  have "map (\<lambda>i. (f ^^ i) x) [0..<Suc n] = x # map (\<lambda>i. (f ^^ i) (f x)) [0..<n]"
    by (simp add: upt_conv_Cons map_Suc_upt [symmetric] funpow_swap1 del: upt_Suc)
  then show ?case
    using Suc by simp
qed simp

lemma iterates_numeral: "iterates (numeral n) f x = x # iterates (pred_numeral n) f (f x)"
  by (simp add: numeral_eq_Suc)

definition rc_bits :: "u64 list" where
  "rc_bits = [1, 0, 0, 0, 0, 0, 0, 0, 1, 0, 1, 1, 0, 0, 0, 1, 1, 1, 1, 0, 1, 0, 0, 0, 0, 1, 1, 1, 1, 1, 1, 1, 1, 0, 0, 1, 0, 0, 0, 0, 1, 0, 1,
      0, 0, 1, 1, 1, 1, 1, 0, 1, 0, 1, 0, 1, 0, 1, 1, 1, 0, 0, 0, 0, 0, 1, 1, 0, 0, 0, 1, 0, 1, 0, 1, 1, 0, 0, 1, 1, 0, 0, 1, 0, 1, 1,
      1, 1, 1, 1, 0, 1, 1, 1, 1, 0, 0, 1, 1, 0, 1, 1, 1, 0, 1, 1, 1, 0, 0, 1, 0, 1, 0, 1, 0, 0, 1, 0, 1, 0, 0, 0, 1, 0, 0, 1, 0, 1, 1,
      0, 1, 0, 0, 0, 1, 1, 0, 0, 1, 1, 1, 0, 0, 1, 1, 1, 1, 0, 0, 0, 1, 1, 0, 1, 1, 0, 0, 0, 0, 1, 0, 0, 0, 1, 0, 1, 1, 1]"



lemma rc_table: "map (\<lambda>r. of_bool (drop_bit 7 r AND 1 \<noteq> 0)) (iterates 168 rc_step 0b10000000) = rc_bits"
  by (simp add: iterates_numeral rc_step_def rc_tap_def rc_bits_def)

lemma rc_bits_nth:
  assumes "t < 168"
  shows "of_bool (rc t) = rc_bits ! t"
proof -
  have "rc_bits ! t = of_bool (drop_bit 7 ((rc_step ^^ t) 0b10000000) AND 1 \<noteq> 0)"
    using assms by (simp add: rc_table [symmetric] iterates_eq del: One_nat_def)
  then show ?thesis
    using assms by (auto simp: rc_def)
qed

text \<open>The table the compile-time computation yields is the one of FIPS 202.\<close>

theorem RC_values:
  "RC = [0x1, 0x8082, 0x800000000000808A, 0x8000000080008000, 0x808B, 0x80000001, 0x8000000080008081, 0x8000000000008009,
     0x8A, 0x88, 0x80008009, 0x8000000A, 0x8000808B, 0x800000000000008B, 0x8000000000008089, 0x8000000000008003,
     0x8000000000008002, 0x8000000000000080, 0x800A, 0x800000008000000A, 0x8000000080008081, 0x8000000000008080, 0x80000001, 0x8000000080008008]"
  by (simp add: RC_def compute_rc_def rc_bits_nth upt_rec rc_bits_def)

section \<open>The two implementations agree\<close>

lemma blend64_simps [simp]:
  "blend64 0 a b = a" "blend64 3 a b = b"
proof -
  have "x AND 0x00000000FFFFFFFF OR x AND 0xFFFFFFFF00000000 = x" for x :: u64
  proof -
    have "x AND 0x00000000FFFFFFFF OR x AND 0xFFFFFFFF00000000
        = x AND (0x00000000FFFFFFFF OR 0xFFFFFFFF00000000)"
      by (simp only: bit.conj_disj_distrib)
    also have "(0x00000000FFFFFFFF OR 0xFFFFFFFF00000000 :: u64) = - 1"
      by simp
    finally show ?thesis by simp
  qed
  then show "blend64 0 a b = a" "blend64 3 a b = b"
    by (simp_all add: blend64_def)
qed

lemmas avx_simps = vmap2_def vxor_def vandnot_def vsub_def vsllv_def vsrlv_def vslli_def vsrli_def
  permute4x64_def blend32_def vload_def vstore_def

text \<open>The rotation by a shift to the left and one to the right.\<close>

lemma rotl_shifts: "n < 64 \<Longrightarrow> push_bit n w XOR drop_bit (64 - n) w = word_rotl n (w :: u64)"
proof (rule bit_word_eqI)
  fix k
  assume n: "n < 64" and k: "k < LENGTH(64)"
  show "bit (push_bit n w XOR drop_bit (64 - n) w) k = bit (word_rotl n w) k"
  proof (cases "k < n")
    case True
    then have "(k + (64 - n)) mod 64 = 64 - n + k"
      using n by simp
    then show ?thesis
      using True n k by (simp add: bit_word_rotl_iff bit_push_bit_iff bit_drop_bit_eq bit_xor_iff del: add_diff_assoc2 diff_add_assoc2)
  next
    case False
    have "(k + (64 - n)) mod 64 = (k - n + 64) mod 64"
      using n False by simp
    also have "\<dots> = k - n"
      using k by simp
    finally show ?thesis
      using False n k by (auto simp: bit_word_rotl_iff bit_push_bit_iff bit_drop_bit_eq bit_xor_iff dest: bit_imp_le_length)
  qed
qed

text \<open>What the registers stand for: the 25 lanes, in each of the three layouts of a round.\<close>

definition regs_view :: "regs \<Rightarrow> u64 list" where
  "regs_view = (\<lambda>(s0, s4, s8, s12, s16, s20, s24).
     concat (map (\<lambda>s. [lane s 0, lane s 1, lane s 2, lane s 3]) [s0, s4, s8, s12, s16, s20]) @ [lane s24 0])"

definition rows_view :: "rows \<Rightarrow> u64 list" where
  "rows_view = (\<lambda>((s0, s5, s10, s15, s20), (s4, s9, s14, s19, s24)).
     concat (map (\<lambda>(s, t). [lane s 0, lane s 1, lane s 2, lane s 3, lane t 0])
       [(s0, s4), (s5, s9), (s10, s14), (s15, s19), (s20, s24)]))"

definition cols_view :: "rows \<Rightarrow> u64 list" where
  "cols_view = (\<lambda>((t0, t1, t2, t3, t4), (u0, u1, u2, u3, u4)).
     concat (map (\<lambda>i. [lane t0 i, lane t1 i, lane t2 i, lane t3 i, lane t4 i]) [0, 1, 2, 3])
     @ [lane u0 0, lane u1 0, lane u2 0, lane u3 0, lane u4 0])"

lemmas view_simps = regs_view_def rows_view_def cols_view_def upt_rec

lemma rows_cases: obtains s0 s5 s10 s15 s20 s4 s9 s14 s19 s24 where
  "(r :: rows) = ((s0, s5, s10, s15, s20), (s4, s9, s14, s19, s24))"
  by (cases r) auto

lemma regs_cases: obtains a0 a1 a2 a3 a4 a5 a6 a7 a8 a9 a10 a11 a12 a13 a14 a15 a16 a17 a18 a19 a20 a21 a22 a23 a24 x y z where
  "(r :: regs) = (V a0 a1 a2 a3, V a4 a5 a6 a7, V a8 a9 a10 a11, V a12 a13 a14 a15, V a16 a17 a18 a19, V a20 a21 a22 a23, V a24 x y z)"
proof -
  obtain s0 s4 s8 s12 s16 s20 s24 where "r = (s0, s4, s8, s12, s16, s20, s24)"
    by (cases r)
  then show thesis
    by (cases s0; cases s4; cases s8; cases s12; cases s16; cases s20; cases s24) (simp add: that)
qed

lemma avx_theta_view: "rows_view (avx_theta r) = keccak_theta (regs_view r)"
  by (rule regs_cases [of r])
    (simp add: avx_theta_def keccak_theta_def view_simps avx_simps Let_def rotl_shifts [of 1, simplified])

lemma ROT_simps [simp]:
  "ROT = [0, 1, 62, 28, 27, 36, 44, 6, 55, 20, 3, 10, 43, 25, 39, 41, 45, 15, 21, 8, 18, 2, 61, 56, 14]"
  by (simp add: ROT_def LANE_SIZE_def)

lemma avx_rho_view: "rows_view (avx_rho r) = keccak_rho (rows_view r)"
  by (rule rows_cases [of r])
    (simp add: avx_rho_def keccak_rho_def view_simps avx_rotl_def avx_shl_def avx_shr_def avx_rot_def avx_simps rotl_shifts [symmetric])

lemma avx_pi_view: "cols_view (avx_pi r) = keccak_pi (rows_view r)"
  by (rule rows_cases [of r])
    (simp add: avx_pi_def keccak_pi_def PERM_def view_simps avx_simps Let_def)

lemma avx_chi_view: "regs_view (avx_chi r) = keccak_chi (cols_view r)"
  by (rule rows_cases [of r])
    (simp add: avx_chi_def keccak_chi_def view_simps avx_simps Let_def)


lemma nth_concat_replicate4: "i < n \<Longrightarrow> concat (map (\<lambda>j. replicate 4 (f j)) [0..<n]) ! (i * 4) = f i"
proof (induction n)
  case (Suc n)
  have "length (concat (map (\<lambda>j. replicate 4 (f j)) [0..<n])) = n * 4"
    by (simp add: length_concat comp_def sum_list_triv)
  then show ?case
    using Suc by (cases "i = n") (auto simp: nth_append)
qed simp

lemma avx_RC_nth: "i < 24 \<Longrightarrow> avx_RC ! (i * 4) = RC ! i"
  by (simp add: avx_RC_def RC_def nth_concat_replicate4)

lemma avx_iota_view: "i < 24 \<Longrightarrow> regs_view (avx_iota i r) = keccak_iota (regs_view r) i"
  by (rule regs_cases [of r])
    (simp add: avx_iota_def keccak_iota_def view_simps avx_simps avx_RC_nth)

lemma avx_round_view: "i < 24 \<Longrightarrow> regs_view (avx_round i r) = keccak_round (regs_view r) i"
  by (simp add: avx_round_def keccak_round_def avx_theta_view avx_rho_view avx_pi_view avx_chi_view avx_iota_view)

lemma avx_rounds_view:
  "set is \<subseteq> {..<24} \<Longrightarrow> regs_view (fold avx_round is r) = fold (\<lambda>i st. keccak_round st i) is (regs_view r)"
  by (induction "is" arbitrary: r) (auto simp: avx_round_view)

lemma length_25_cases:
  assumes "length (st :: 'a list) = 25"
  obtains a0 a1 a2 a3 a4 a5 a6 a7 a8 a9 a10 a11 a12 a13 a14 a15 a16 a17 a18 a19 a20 a21 a22 a23 a24 where
    "st = [a0, a1, a2, a3, a4, a5, a6, a7, a8, a9, a10, a11, a12, a13, a14, a15, a16, a17, a18, a19, a20, a21, a22, a23, a24]"
  using assms by (auto simp: numeral_eq_Suc length_Suc_conv)

lemma avx_load_view: "length st = 25 \<Longrightarrow> regs_view (avx_load st) = st"
  by (erule length_25_cases) (simp add: avx_load_def view_simps avx_simps Let_def)

lemma avx_store_view: "length st = 25 \<Longrightarrow> take 25 (avx_store (st @ replicate 3 0) r) = regs_view r"
  by (erule length_25_cases, rule regs_cases [of r])
    (simp add: avx_store_def view_simps avx_simps Let_def numeral_eq_Suc)

text \<open>
  C32. On every state of 25 lanes the AVX2 implementation of the permutation computes what the portable one does.
\<close>

theorem permute_avx2_eq:
  assumes "length state = 25"
  shows "permute_avx2 state = permute state"
proof -
  have "permute_avx2 state = regs_view (fold avx_round [0..<ROUNDS] (avx_load state))"
    using assms by (simp add: permute_avx2_def avx_store_view)
  also have "\<dots> = permute state"
    using assms by (subst avx_rounds_view) (auto simp: permute_def ROUNDS_def avx_load_view)
  finally show ?thesis .
qed


theorem permute_avx2_eq_witness: "permute_avx2 (replicate 25 1) = permute (replicate 25 1)"
  by (rule permute_avx2_eq) simp

lemma length_keccak_round [simp]: "length (keccak_round st i) = 25"
  by (simp add: keccak_round_def keccak_iota_def keccak_chi_def length_concat comp_def sum_list_triv)

lemma length_permute [simp]: "length (permute st) = 25"
proof -
  have "length (fold (\<lambda>i st. keccak_round st i) [0..<Suc n] st) = 25" for n
    by simp
  from this [of 23] show ?thesis
    by (simp add: permute_def ROUNDS_def del: upt_Suc)
qed

end
