(* ===== verification/Sponge.thy ===== *)
theory Sponge
  imports Keccak
begin

unbundle bit_operations_syntax

text \<open>
  The sponge functions over the Keccak permutation (\<open>vendors/includes/falcon/sponge.hpp\<close>, \<open>sha3_*.hpp\<close>, \<open>shake128.hpp\<close>,
  \<open>shake256.hpp\<close>), on the little-endian branch of the byte order tests: padding, one-shot absorption and squeezing, the fixed-length
  hashes, and the extendable output functions with their incremental interface. The reference is FIPS 202: pad the message, xor
  its blocks into the state one after the other with the permutation after each, and read the output from the states that follow.
  Lengths are \<open>size_t\<close> in the code; a buffer that fits in memory keeps its length in bits far below \<open>2^64\<close>, so they are natural
  numbers here.
\<close>

section \<open>Blocks and states\<close>

text \<open>\<open>memcpy\<close> to offset \<open>i\<close> of a buffer, the 64-bit words of a block, and the bytes of the state.\<close>

definition memcpy_at :: "bytes \<Rightarrow> nat \<Rightarrow> bytes \<Rightarrow> bytes" where
  "memcpy_at dst i src = take i dst @ src @ drop (i + length src) dst"

definition word_at :: "bytes \<Rightarrow> nat \<Rightarrow> u64" where
  "word_at blk j = bytes_u64 (take 8 (drop (8 * j) blk))"

definition xor_block :: "u64 list \<Rightarrow> bytes \<Rightarrow> u64 list" where
  "xor_block state blk = fold (\<lambda>j st. st[j := st ! j XOR word_at blk j]) [0..<length blk div 8] state"

definition state_bytes :: "u64 list \<Rightarrow> bytes" where
  "state_bytes st = concat (map u64_bytes st)"

section \<open>\<open>sponge.hpp\<close>\<close>

definition pad101 :: "u8 \<Rightarrow> nat \<Rightarrow> nat \<Rightarrow> nat \<Rightarrow> bytes \<Rightarrow> nat \<times> bytes" where
  "pad101 dom_sep bits rate mlen pad =
     (let j = rate - (mlen + 2) mod rate;
          flg = (j \<le> 6 - bits);
          rm_bits = (if flg then 0 else j - (7 - bits));
          rm_bytes = rm_bits div 8;
          last_bits = (if flg then 0 else j - (rm_bytes * 8 + (7 - bits)));
          boff = rm_bytes + 1;
          pad0 = (if flg then push_bit (j + 1 + bits) 1 else 0) OR push_bit bits 1 OR (dom_sep AND (2 ^ bits - 1));
          pad1 = memcpy_at (pad[0 := pad0]) 1 (replicate rm_bytes 0)
      in (j + 2, pad1[boff := push_bit last_bits 1]))"

definition get_msg_blk :: "nat \<Rightarrow> nat \<Rightarrow> bytes \<Rightarrow> bytes \<Rightarrow> nat \<Rightarrow> bytes \<Rightarrow> nat \<Rightarrow> bytes" where
  "get_msg_blk bits rate msg pad plen blk blk_idx =
     (let mblen = length msg * 8;
          padded_len = mblen + bits + plen;
          soff = blk_idx * rate;
          (blk, soff, doff) =
            (if soff < mblen
             then (let read = min rate (mblen - soff) in (memcpy_at blk 0 (take (read div 8) (drop (soff div 8) msg)), soff + read, read))
             else (blk, soff, 0))
      in if doff < rate \<and> soff < padded_len
         then memcpy_at blk (doff div 8) (take ((padded_len - soff) div 8) pad)
         else blk)"

definition sponge_absorb :: "u8 \<Rightarrow> nat \<Rightarrow> nat \<Rightarrow> bytes \<Rightarrow> u64 list" where
  "sponge_absorb dom_sep bits rate msg =
     (let tot_mblen = length msg * 8 + bits;
          rbytes = rate div 8;
          (plen, pad) = pad101 dom_sep bits rate tot_mblen (replicate rbytes 0);
          blk_cnt = (tot_mblen + plen) div rate
      in fst (fold (\<lambda>i (state, blk). let blk = get_msg_blk bits rate msg pad plen blk i in (permute (xor_block state blk), blk))
           [0..<blk_cnt] (replicate 25 0, replicate rbytes 0)))"

text \<open>\<open>n\<close> is what is left of \<open>dlen\<close>; a rate of 0 never occurs.\<close>

function sponge_squeeze :: "nat \<Rightarrow> u64 list \<Rightarrow> nat \<Rightarrow> bytes" where
  "sponge_squeeze rate state n =
     (if n = 0 \<or> rate div 8 = 0 then []
      else let read = min (rate div 8) n
           in take read (state_bytes state) @ sponge_squeeze rate (if read = rate div 8 then permute state else state) (n - read))"
  by pat_completeness auto
termination by (relation "measure (\<lambda>(_, _, n). n)") (auto simp: Let_def)

declare sponge_squeeze.simps [simp del]

section \<open>The fixed-length hashes\<close>

definition sha3_hash :: "nat \<Rightarrow> bytes \<Rightarrow> bytes" where
  "sha3_hash dlen msg =
     (let capacity = 2 * dlen; rate = 1600 - capacity
      in sponge_squeeze rate (sponge_absorb 0b00000010 2 rate msg) (dlen div 8))"

definition sha3_224_hash :: "bytes \<Rightarrow> bytes" where "sha3_224_hash = sha3_hash 224"
definition sha3_256_hash :: "bytes \<Rightarrow> bytes" where "sha3_256_hash = sha3_hash 256"
definition sha3_384_hash :: "bytes \<Rightarrow> bytes" where "sha3_384_hash = sha3_hash 384"
definition sha3_512_hash :: "bytes \<Rightarrow> bytes" where "sha3_512_hash = sha3_hash 512"

section \<open>The extendable output functions\<close>

text \<open>The two classes differ in their rate only; \<open>rbytes\<close> is \<open>rate >> 3\<close>.\<close>

record xof =
  x_state :: "u64 list"
  absorbed :: bool
  readable :: nat
  offset :: nat
  abytes :: nat

text \<open>
  A new object. The code gives the state no initial value: objects that absorb incrementally are created with braces, which clears it, and
  \<open>hash\<close> clears it first.
\<close>

definition xof_new :: xof where
  "xof_new = \<lparr>x_state = replicate 25 0, absorbed = False, readable = 0, offset = 0, abytes = 0\<rparr>"

definition xof_hash :: "nat \<Rightarrow> bytes \<Rightarrow> xof \<Rightarrow> xof" where
  "xof_hash rbytes msg h =
     (if absorbed h then h
      else h\<lparr>x_state := sponge_absorb 0b00001111 4 (rbytes * 8) msg, absorbed := True, readable := rbytes\<rparr>)"

text \<open>One turn of the block loop of \<open>absorb\<close>, on the block buffer, the state, \<open>moff\<close> and \<open>offset\<close>.\<close>

definition xof_absorb_block :: "nat \<Rightarrow> bytes \<Rightarrow> nat \<Rightarrow> bytes \<times> u64 list \<times> nat \<times> nat \<Rightarrow> bytes \<times> u64 list \<times> nat \<times> nat" where
  "xof_absorb_block rbytes msg i = (\<lambda>(blk, state, moff, off).
     let blk = memcpy_at blk off (take (rbytes - off) (drop moff msg));
         state = xor_block state blk;
         moff = moff + (rbytes - off);
         off = off + (rbytes - off)
     in (blk, permute state, moff, off mod rbytes))"

definition xof_absorb :: "nat \<Rightarrow> bytes \<Rightarrow> xof \<Rightarrow> xof" where
  "xof_absorb rbytes msg h =
     (if absorbed h then h
      else
        let mlen = length msg;
            blk_cnt = (offset h + mlen) div rbytes;
            (_, state, moff, off) = fold (xof_absorb_block rbytes msg) [0..<blk_cnt] (replicate rbytes 0, x_state h, 0, offset h);
            rm_bytes = mlen - moff;
            blk = memcpy_at (replicate rbytes 0) off (take rm_bytes (drop moff msg));
            state = xor_block state blk;
            off = off + rm_bytes;
            (state, off) = (if off = rbytes then (permute state, off mod rbytes) else (state, off))
        in h\<lparr>x_state := state, offset := off, abytes := abytes h + mlen\<rparr>)"

definition xof_finalize :: "nat \<Rightarrow> xof \<Rightarrow> xof" where
  "xof_finalize rbytes h =
     (if absorbed h then h
      else
        let (plen, pad) = pad101 0b00001111 4 (rbytes * 8) (abytes h * 8 + 4) (replicate rbytes 0);
            read = (plen + 4) div 8;
            state = xor_block (x_state h) (memcpy_at (replicate rbytes 0) (offset h) (take read pad));
            off = offset h + read;
            (state, off) = (if off = rbytes then (permute state, off mod rbytes) else (state, off))
        in h\<lparr>x_state := state, offset := off, absorbed := True, readable := rbytes\<rparr>)"

text \<open>
  The loop of \<open>read\<close>: \<open>n\<close> bytes are still to be written. When \<open>readable\<close> is 0 a turn reads nothing and refills the state.
\<close>

function xof_read_loop :: "nat \<Rightarrow> u64 list \<Rightarrow> nat \<Rightarrow> nat \<Rightarrow> bytes \<times> u64 list \<times> nat" where
  "xof_read_loop rbytes state rdb n =
     (if n = 0 \<or> rbytes = 0 then ([], state, rdb)
      else let rd = min rdb n;
               out = take rd (drop (rbytes - rdb) (state_bytes state));
               (state, rdb) = (if rdb - rd = 0 then (permute state, rbytes) else (state, rdb - rd));
               (rest, state, rdb) = xof_read_loop rbytes state rdb (n - rd)
           in (out @ rest, state, rdb))"
  by pat_completeness auto
termination
  by (relation "measures [\<lambda>(_, _, _, n). n, \<lambda>(_, _, rdb, _). if rdb = 0 then 1 else 0]") (auto split: if_splits)

declare xof_read_loop.simps [simp del]

definition xof_read :: "nat \<Rightarrow> bytes \<Rightarrow> xof \<Rightarrow> bytes \<times> xof" where
  "xof_read rbytes dig h =
     (if \<not> absorbed h then (dig, h)
      else case xof_read_loop rbytes (x_state h) (readable h) (length dig) of
             (out, state, rdb) \<Rightarrow> (out, h\<lparr>x_state := state, readable := rdb\<rparr>))"

definition shake256_hash :: "bytes \<Rightarrow> xof \<Rightarrow> xof" where "shake256_hash = xof_hash 136"
definition shake256_absorb :: "bytes \<Rightarrow> xof \<Rightarrow> xof" where "shake256_absorb = xof_absorb 136"
definition shake256_finalize :: "xof \<Rightarrow> xof" where "shake256_finalize = xof_finalize 136"
definition shake256_read :: "bytes \<Rightarrow> xof \<Rightarrow> bytes \<times> xof" where "shake256_read = xof_read 136"
definition shake128_hash :: "bytes \<Rightarrow> xof \<Rightarrow> xof" where "shake128_hash = xof_hash 168"
definition shake128_absorb :: "bytes \<Rightarrow> xof \<Rightarrow> xof" where "shake128_absorb = xof_absorb 168"
definition shake128_finalize :: "xof \<Rightarrow> xof" where "shake128_finalize = xof_finalize 168"
definition shake128_read :: "bytes \<Rightarrow> xof \<Rightarrow> bytes \<times> xof" where "shake128_read = xof_read 168"


section \<open>Reference definitions\<close>

text \<open>
  The bytes appended to a message when \<open>q\<close> bytes are left in its last block: the domain separation bits and the first 1 of the
  padding in the first of them, the last 1 in the most significant bit of the last.
\<close>

definition dom_byte :: "u8 \<Rightarrow> nat \<Rightarrow> u8" where
  "dom_byte dom_sep bits = push_bit bits 1 OR (dom_sep AND (2 ^ bits - 1))"

definition padding :: "u8 \<Rightarrow> nat \<Rightarrow> nat \<Rightarrow> bytes" where
  "padding dom_sep bits q =
     (if q = 1 then [0x80 OR dom_byte dom_sep bits] else [dom_byte dom_sep bits] @ replicate (q - 2) 0 @ [0x80])"

definition padded :: "u8 \<Rightarrow> nat \<Rightarrow> nat \<Rightarrow> bytes \<Rightarrow> bytes" where
  "padded dom_sep bits rb msg = msg @ padding dom_sep bits (rb - length msg mod rb)"

text \<open>The blocks of a byte string, and their absorption.\<close>

definition blocks :: "nat \<Rightarrow> bytes \<Rightarrow> bytes list" where
  "blocks rb bs = map (\<lambda>i. take rb (drop (i * rb) bs)) [0..<length bs div rb]"

definition absorb_blocks :: "bytes list \<Rightarrow> u64 list \<Rightarrow> u64 list" where
  "absorb_blocks bls st = fold (\<lambda>blk st. permute (xor_block st blk)) bls st"

text \<open>Byte \<open>i\<close> of the output of a state.\<close>

definition squeezed :: "nat \<Rightarrow> u64 list \<Rightarrow> nat \<Rightarrow> u8" where
  "squeezed rb st i = state_bytes ((permute ^^ (i div rb)) st) ! (i mod rb)"

text \<open>Absorption one byte at a time: the state and the number of bytes of its current block.\<close>

definition byte_step :: "nat \<Rightarrow> u8 \<Rightarrow> u64 list \<times> nat \<Rightarrow> u64 list \<times> nat" where
  "byte_step rb b = (\<lambda>(st, off).
     let st = xor_block st (memcpy_at (replicate rb 0) off [b])
     in if off + 1 = rb then (permute st, 0) else (st, off + 1))"

section \<open>Xoring blocks\<close>

lemma length_memcpy_at [simp]: "i + length src \<le> length dst \<Longrightarrow> length (memcpy_at dst i src) = length dst"
  by (simp add: memcpy_at_def)

lemma length_fold_update: "length (fold (\<lambda>j st. st[j := f j st]) js st) = length st"
  by (induction js arbitrary: st) auto

lemma length_xor_block [simp]: "length (xor_block st blk) = length st"
  by (simp add: xor_block_def length_fold_update)

lemma nth_fold_xor:
  "j < length st \<Longrightarrow> fold (\<lambda>j st. st[j := st ! j XOR w j]) [0..<n] st ! j = (if j < n then st ! j XOR w j else st ! j)"
  for st :: "u64 list"
  by (induction n) (auto simp: nth_list_update length_fold_update less_Suc_eq)

lemma nth_xor_block:
  "j < length st \<Longrightarrow> xor_block st blk ! j = (if j < length blk div 8 then st ! j XOR word_at blk j else st ! j)"
  by (simp add: xor_block_def nth_fold_xor)

lemma le_nat_xor:
  "length as = length bs \<Longrightarrow> le_nat (map2 (XOR) as bs) = le_nat as XOR le_nat bs"
proof (induction as bs rule: list_induct2)
  case (Cons a as b bs)
  have pq: "unat u + 256 * n = push_bit 8 n OR unat u" for u :: u8 and n :: nat
  proof -
    have "take_bit 8 (unat u) = unat u"
      using unat_bound [of u] by (simp add: take_bit_nat_eq_self)
    then have "push_bit 8 n OR unat u = push_bit 8 n + unat u"
      by (metis disjunctive_add bit_push_bit_iff bit_take_bit_iff not_le)
    then show ?thesis
      by (simp add: push_bit_eq_mult)
  qed
  show ?case
    using Cons by (simp add: pq) (rule bit_eqI, auto simp: bit_simps dest: bit_imp_le_length)
qed simp


lemma word_at_xor:
  assumes "length a = length b"
  shows "word_at (map2 (XOR) a b) j = word_at a j XOR word_at b j"
proof -
  let ?t = "\<lambda>bs. take 8 (drop (8 * j) bs)"
  have "?t (map2 (XOR) a b) = map2 (XOR) (?t a) (?t b)"
    by (simp add: take_map drop_map take_zip drop_zip)
  moreover have "length (?t a) = length (?t b)"
    using assms by simp
  ultimately show ?thesis
    by (simp add: word_at_def bytes_u64_def le_nat_xor of_nat_xor_eq)
qed

lemma xor_block_xor:
  assumes "length a = length b"
  shows "xor_block (xor_block st a) b = xor_block st (map2 (XOR) a b)"
  using assms by (intro nth_equalityI) (auto simp: nth_xor_block word_at_xor xor.assoc)

lemma xor_block_zero [simp]: "xor_block st (replicate rb 0) = st"
proof (intro nth_equalityI)
  fix j assume "j < length (xor_block st (replicate rb 0))"
  moreover have "le_nat (replicate n 0) = 0" for n
    by (induction n) auto
  ultimately show "xor_block st (replicate rb 0) ! j = st ! j"
    by (simp add: nth_xor_block word_at_def bytes_u64_def)
qed simp

text \<open>A block written in two parts is the two parts over zeros, one after the other.\<close>

lemma xor_block_split:
  assumes "off + length p + length q \<le> rb"
  shows "xor_block (xor_block st (memcpy_at (replicate rb 0) off p)) (memcpy_at (replicate rb 0) (off + length p) q)
       = xor_block st (memcpy_at (replicate rb 0) off (p @ q))"
proof -
  have "map2 (XOR) (memcpy_at (replicate rb 0) off p) (memcpy_at (replicate rb 0) (off + length p) q)
      = memcpy_at (replicate rb 0) off (p @ q)"
    using assms by (intro nth_equalityI) (auto simp: memcpy_at_def nth_append min_def)
  moreover have "length (memcpy_at (replicate rb 0) off p) = length (memcpy_at (replicate rb 0) (off + length p) q)"
    using assms by simp
  ultimately show ?thesis
    by (simp add: xor_block_xor)
qed

section \<open>Absorbing bytes\<close>

text \<open>What absorbing bytes that stay within the current block does to the state.\<close>

lemma byte_steps:
  assumes "off + length p \<le> rb" "p \<noteq> []"
  shows "fold (byte_step rb) p (st, off)
       = (let st' = xor_block st (memcpy_at (replicate rb 0) off p)
          in if off + length p = rb then (permute st', 0) else (st', off + length p))"
  using assms
proof (induction p arbitrary: st off)
  case (Cons b p)
  show ?case
  proof (cases "p = []")
    case True
    then show ?thesis
      by (simp add: byte_step_def Let_def)
  next
    case False
    then have off: "off + 1 \<noteq> rb" "off + 1 + length p \<le> rb"
      using Cons.prems by (cases p; simp)+
    have "fold (byte_step rb) (b # p) (st, off)
        = fold (byte_step rb) p (xor_block st (memcpy_at (replicate rb 0) off [b]), off + 1)"
      using off by (simp add: byte_step_def Let_def)
    also have "\<dots> = (let st' = xor_block st (memcpy_at (replicate rb 0) off (b # p))
          in if off + 1 + length p = rb then (permute st', 0) else (st', off + 1 + length p))"
      using Cons.IH [OF off(2) False] off xor_block_split [of off "[b]" p rb st] by (simp add: Let_def)
    finally show ?thesis
      by (simp add: Let_def)
  qed
qed simp

lemma byte_steps_block:
  "0 < rb \<Longrightarrow> length blk = rb \<Longrightarrow> fold (byte_step rb) blk (st, 0) = (permute (xor_block st blk), 0)"
  using byte_steps [of 0 blk rb st] by (cases blk) (auto simp: memcpy_at_def Let_def)


lemma xof_absorb_blocks:
  assumes "0 < rb" "off0 < rb" "i * rb \<le> off0 + length msg"
  shows "\<exists>blk. fold (xof_absorb_block rb msg) [0..<i] (replicate rb 0, st0, 0, off0)
              = (blk, fst (fold (byte_step rb) (take (i * rb - off0) msg) (st0, off0)), i * rb - off0, if i = 0 then off0 else 0)
            \<and> length blk = rb \<and> (i = 0 \<longrightarrow> blk = replicate rb 0)
            \<and> snd (fold (byte_step rb) (take (i * rb - off0) msg) (st0, off0)) = (if i = 0 then off0 else 0)"
  using assms(3)
proof (induction i)
  case (Suc i)
  let ?F = "\<lambda>m. fold (byte_step rb) m (st0, off0)"
  let ?m = "i * rb - off0" and ?off = "if i = 0 then off0 else 0"
  let ?p = "take (rb - ?off) (drop ?m msg)"
  obtain blk where IH: "fold (xof_absorb_block rb msg) [0..<i] (replicate rb 0, st0, 0, off0)
      = (blk, fst (?F (take ?m msg)), ?m, ?off)"
    "length blk = rb" "i = 0 \<longrightarrow> blk = replicate rb 0" "snd (?F (take ?m msg)) = ?off"
    using Suc by auto
  have next_m: "?m + (rb - ?off) = Suc i * rb - off0" "?off < rb"
    using assms(1,2) by (cases i, auto)
  have len: "length ?p = rb - ?off"
    using Suc.prems next_m by simp
  have "memcpy_at blk ?off ?p = memcpy_at (replicate rb 0) ?off ?p"
    using IH(2,3) len next_m by (auto simp: memcpy_at_def)
  moreover have "?F (take (Suc i * rb - off0) msg) = fold (byte_step rb) ?p (?F (take ?m msg))"
    by (simp only: next_m(1) [symmetric] take_add fold_append comp_apply)
  moreover have "\<dots> = (permute (xor_block (fst (?F (take ?m msg))) (memcpy_at (replicate rb 0) ?off ?p)), 0)"
    using byte_steps [of ?off ?p rb "fst (?F (take ?m msg))"] IH(4) len next_m(2)
    by (subst prod.collapse [symmetric]) (auto simp: Let_def)
  ultimately have F: "?F (take (Suc i * rb - off0) msg) = (permute (xor_block (fst (?F (take ?m msg))) (memcpy_at blk ?off ?p)), 0)"
    by (simp only:)
  have step: "xof_absorb_block rb msg j (blk, st, ?m, ?off)
      = (memcpy_at blk ?off ?p, permute (xor_block st (memcpy_at blk ?off ?p)), Suc i * rb - off0, 0)" for j st
    using next_m by (simp add: xof_absorb_block_def Let_def del: mult_Suc)
  have "length (memcpy_at blk ?off ?p) = rb"
    using IH(2) len next_m(2) by (subst length_memcpy_at) auto
  moreover have "fold (xof_absorb_block rb msg) [0..<Suc i] (replicate rb 0, st0, 0, off0)
      = xof_absorb_block rb msg i (fold (xof_absorb_block rb msg) [0..<i] (replicate rb 0, st0, 0, off0))"
    by simp
  ultimately show ?case
    by (intro exI [of _ "memcpy_at blk ?off ?p"]) (simp only: IH(1) F step fst_conv snd_conv, simp)
qed (use assms in auto)

lemma xof_absorb_bytes:
  assumes "0 < rb" "offset h < rb" "\<not> absorbed h"
  shows "xof_absorb rb msg h =
    (case fold (byte_step rb) msg (x_state h, offset h) of
       (st, off) \<Rightarrow> h\<lparr>x_state := st, offset := off, abytes := abytes h + length msg\<rparr>)"
    and "snd (fold (byte_step rb) msg (x_state h, offset h)) = (offset h + length msg) mod rb"
proof -
  let ?F = "\<lambda>m. fold (byte_step rb) m (x_state h, offset h)"
  define i where "i = (offset h + length msg) div rb"
  define m where "m = i * rb - offset h"
  define off where "off = (if i = 0 then offset h else 0)"
  let ?p = "drop m msg"
  have i: "i * rb \<le> offset h + length msg" "offset h + length msg < i * rb + rb"
    using dividend_less_div_times [OF assms(1)] by (simp_all add: i_def div_times_less_eq_dividend add.commute)
  obtain blk where IH: "fold (xof_absorb_block rb msg) [0..<i] (replicate rb 0, x_state h, 0, offset h)
      = (blk, fst (?F (take m msg)), m, off)" "snd (?F (take m msg)) = off"
    using xof_absorb_blocks [OF assms(1,2) i(1), of "x_state h"] by (auto simp: m_def off_def)
  have p: "off + length ?p < rb" "off + length ?p = (offset h + length msg) mod rb"
  proof -
    show "off + length ?p < rb"
      using i assms(2) by (auto simp: off_def m_def)
    have "off + length ?p = offset h + length msg - i * rb"
      using i assms(2) by (cases i) (auto simp: off_def m_def)
    also have "\<dots> = (offset h + length msg) mod rb"
      by (simp add: i_def minus_div_mult_eq_mod)
    finally show "off + length ?p = (offset h + length msg) mod rb" .
  qed
  have "?F msg = fold (byte_step rb) ?p (?F (take m msg))"
    by (metis append_take_drop_id fold_append comp_apply)
  also have "\<dots> = (xor_block (fst (?F (take m msg))) (memcpy_at (replicate rb 0) off ?p), off + length ?p)"
  proof (cases "?p = []")
    case True
    then show ?thesis
      using IH(2) p(1) by (simp add: memcpy_at_def prod_eq_iff flip: replicate_add)
  next
    case False
    show ?thesis
      using byte_steps [of off ?p rb "fst (?F (take m msg))", OF _ False] IH(2) p(1)
      by (subst prod.collapse [symmetric]) (auto simp: Let_def)
  qed
  finally have F: "?F msg = (xor_block (fst (?F (take m msg))) (memcpy_at (replicate rb 0) off ?p), off + length ?p)" .
  show "snd (?F msg) = (offset h + length msg) mod rb"
    using p(2) by (simp add: F)
  show "xof_absorb rb msg h = (case ?F msg of (st, off) \<Rightarrow> h\<lparr>x_state := st, offset := off, abytes := abytes h + length msg\<rparr>)"
    using assms(3) IH(1) p(1) by (simp add: xof_absorb_def Let_def F i_def [symmetric])
qed


section \<open>Padding\<close>

lemma length_padding [simp]: "0 < q \<Longrightarrow> length (padding d bits q) = q"
  by (auto simp: padding_def)

lemma padding_not_Nil [simp]: "padding d bits q \<noteq> []"
  by (simp add: padding_def)

text \<open>For whole bytes and a domain separator of 2 or 4 bits the code writes the padding of the reference, within its buffer.\<close>

lemma pad101_padding:
  assumes "bits = 2 \<or> bits = 4" "1 < rb" "q = rb - k mod rb"
    and "pad101 d bits (rb * 8) (k * 8 + bits) (replicate rb 0) = (plen, pad)"
  shows "plen + bits = q * 8" "take q pad = padding d bits q" "length pad = rb"
proof -
  have q: "0 < q" "q \<le> rb"
    using assms(2,3) by (simp_all add: mod_less_divisor)
  have "(k * 8 + bits + 2) mod (rb * 8) = (k mod rb) * 8 + (bits + 2)"
  proof -
    have "(k * 8 + (bits + 2)) mod (rb * 8) = ((k mod rb) * 8 + (bits + 2)) mod (rb * 8)"
      using mod_add_left_eq [of "k * 8" "rb * 8" "bits + 2"] by (simp only: mod_mult_mult2)
    also have "\<dots> = (k mod rb) * 8 + (bits + 2)"
    proof (rule mod_less)
      have "Suc (k mod rb) * 8 \<le> rb * 8"
        using assms(2) by (intro mult_le_mono1 Suc_leI) simp
      then show "(k mod rb) * 8 + (bits + 2) < rb * 8"
        using assms(1) by auto
    qed
    finally show ?thesis by (simp add: add.assoc)
  qed
  then have j: "rb * 8 - (k * 8 + bits + 2) mod (rb * 8) = q * 8 - (bits + 2)"
    using assms(3) by simp
  note def = assms(4) [unfolded pad101_def Let_def j, symmetric]
  show "plen + bits = q * 8"
    using def assms(1) q by auto
  show "length pad = rb"
    using def assms(1,2) q by (auto simp: memcpy_at_def split: if_splits)
  show "take q pad = padding d bits q"
  proof (cases "q = 1")
    case True
    obtain r where "rb = Suc (Suc r)"
      using assms(2) by (metis One_nat_def Suc_lessE Suc_lessD less_imp_Suc_add)
    then show ?thesis
      using def assms(1) True by (auto simp: padding_def memcpy_at_def dom_byte_def)
  next
    case False
    then obtain r where r: "q = Suc (Suc r)"
      using q by (metis One_nat_def not0_implies_Suc less_numeral_extra(3))
    have rm: "(q * 8 - (bits + 2) - (7 - bits)) div 8 = q - 2"
      using assms(1) r by auto
    have "pad = (memcpy_at ((replicate rb 0)[0 := dom_byte d bits]) 1 (replicate (q - 2) 0))[q - 1 := 0x80]"
      using def assms(1) r by (auto simp: dom_byte_def)
    then show ?thesis
      using r q by (intro nth_equalityI) (auto simp: padding_def memcpy_at_def nth_append nth_list_update nth_Cons' min_def split: if_splits)
  qed
qed


lemma xof_finalize_bytes:
  assumes "1 < rb" "\<not> absorbed h" "offset h = abytes h mod rb"
  shows "xof_finalize rb h = h\<lparr>
    x_state := fst (fold (byte_step rb) (padding 0x0F 4 (rb - abytes h mod rb)) (x_state h, offset h)),
    offset := 0, absorbed := True, readable := rb\<rparr>"
proof -
  obtain plen pad where pp: "pad101 0x0F 4 (rb * 8) (abytes h * 8 + 4) (replicate rb 0) = (plen, pad)"
    by fastforce
  define q where "q = rb - abytes h mod rb"
  have q: "0 < q" "offset h + q = rb"
    using assms by (simp_all add: q_def mod_less_divisor)
  have "fold (byte_step rb) (padding 0x0F 4 q) (x_state h, offset h)
      = (permute (xor_block (x_state h) (memcpy_at (replicate rb 0) (offset h) (padding 0x0F 4 q))), 0)"
    using byte_steps [of "offset h" "padding 0x0F 4 q" rb "x_state h"] q by (simp add: Let_def)
  then show ?thesis
    using pad101_padding [OF _ assms(1) refl pp] assms(2) pp q
    by (simp add: xof_finalize_def Let_def flip: q_def)
qed

section \<open>One-shot absorption\<close>

lemma padded_length:
  assumes "0 < rb"
  shows "length (padded d bits rb msg) = Suc (length msg div rb) * rb"
proof -
  have "length msg mod rb < rb" "length msg div rb * rb + length msg mod rb = length msg"
    using assms by simp_all
  then have "length msg + (rb - length msg mod rb) = length msg div rb * rb + rb"
    by linarith
  then show ?thesis
    using assms by (simp add: padded_def)
qed

text \<open>The assembly of a block, with its offsets in bytes.\<close>

lemma get_msg_blk_bytes:
  assumes "bits + plen = q * 8" "0 < rb"
  shows "get_msg_blk bits (rb * 8) msg pad plen blk i =
    (let n = min rb (length msg - i * rb);
         blk = (if i * rb < length msg then memcpy_at blk 0 (take n (drop (i * rb) msg)) else blk)
     in if n < rb \<and> i * rb + n < length msg + q then memcpy_at blk n (take (length msg + q - (i * rb + n)) pad) else blk)"
proof -
  define k where "k = length msg"
  have "i * (rb * 8) = (i * rb) * 8"
    by simp
  moreover have "k * 8 - (i * rb) * 8 = (k - i * rb) * 8"
    by (simp only: diff_mult_distrib)
  moreover have "min (rb * 8) ((k - i * rb) * 8) = min rb (k - i * rb) * 8"
    by (simp add: min_def)
  moreover have "k * 8 + bits + plen = (k + q) * 8"
    using assms by simp
  moreover have "(k + q) * 8 - ((i * rb) * 8 + n * 8) = (k + q - (i * rb + n)) * 8" for n
    by (simp only: diff_mult_distrib add_mult_distrib)
  moreover have "((k + q) * 8 - (i * rb) * 8) div 8 = k + q - i * rb"
    by (metis diff_mult_distrib nonzero_mult_div_cancel_right zero_neq_numeral)
  moreover have "(i * rb) * 8 + n * 8 < (k + q) * 8 \<longleftrightarrow> i * rb + n < k + q" for n
    by (simp only: add_mult_distrib [symmetric] mult_less_cancel2) simp
  ultimately show ?thesis
    using assms(2) by (auto simp only: get_msg_blk_def Let_def k_def [symmetric] mult_less_cancel2 nonzero_mult_div_cancel_right
        zero_neq_numeral not_False_eq_True prod.case if_distrib [of "case_prod _"] split: if_splits) auto
qed

text \<open>Every block the code assembles is the block of the padded message.\<close>

lemma get_msg_blk_block:
  assumes pp: "pad101 d bits (rb * 8) (length msg * 8 + bits) (replicate rb 0) = (plen, pad)"
    and bits: "bits = 2 \<or> bits = 4" and rb: "1 < rb" and i: "i < Suc (length msg div rb)" and blk: "length blk = rb"
  shows "get_msg_blk bits (rb * 8) msg pad plen blk i = take rb (drop (i * rb) (padded d bits rb msg))"
proof -
  define k where "k = length msg"
  define q where "q = rb - k mod rb"
  note P = pad101_padding [OF bits rb q_def pp [folded k_def]]
  have q: "0 < q" "q \<le> rb"
    using rb by (simp_all add: q_def mod_less_divisor)
  have k: "k = k div rb * rb + k mod rb" "k mod rb < rb"
    using rb by simp_all
  note B = get_msg_blk_bytes [OF P(1) [unfolded add.commute [of plen]], folded k_def, unfolded Let_def]
  have ik: "i * rb \<le> k div rb * rb"
    using i by (intro mult_le_mono1) (simp add: k_def)
  consider (full) "i * rb + rb \<le> k" | (last) "i * rb < k" "k < i * rb + rb" | (pad) "k \<le> i * rb"
    by linarith
  then show ?thesis
  proof cases
    case full
    then show ?thesis
      using rb blk by (simp add: B memcpy_at_def padded_def flip: k_def)
  next
    case last
    then have "i = k div rb"
      by (metis add.commute div_nat_eqI mult.commute mult_Suc_right less_imp_le_nat)
    then have n: "k - i * rb = k mod rb"
      by (simp add: minus_div_mult_eq_mod)
    have e: "i * rb + k mod rb = k" "k mod rb + q = rb"
      using n last k(2) by (simp_all add: q_def)
    have "get_msg_blk bits (rb * 8) msg pad plen blk i = drop (i * rb) msg @ padding d bits q"
      using last rb blk q n P(2,3) k(2) by (simp add: B memcpy_at_def e k_def [symmetric])
    also have "\<dots> = take rb (drop (i * rb) (padded d bits rb msg))"
      using last(1) n q e(2) by (simp add: padded_def k_def [symmetric] q_def [symmetric])
    finally show ?thesis .
  next
    case pad
    then have "i * rb = k" "k mod rb = 0"
      using ik k by linarith+
    then show ?thesis
      using rb blk q P(2,3) by (simp add: B memcpy_at_def padded_def q_def flip: k_def)
  qed
qed


lemma fold_msg_blks:
  assumes "\<And>i blk. i < n \<Longrightarrow> length blk = rb \<Longrightarrow> G blk i = B i \<and> length (B i) = rb" "length blk0 = rb"
  shows "fst (fold (\<lambda>i (state, blk). let blk = G blk i in (permute (xor_block state blk), blk)) [0..<n] (st, blk0))
       = absorb_blocks (map B [0..<n]) st"
proof -
  have "\<exists>blk. fold (\<lambda>i (state, blk). let blk = G blk i in (permute (xor_block state blk), blk)) [0..<m] (st, blk0)
          = (absorb_blocks (map B [0..<m]) st, blk) \<and> length blk = rb" if "m \<le> n" for m
    using that
  proof (induction m)
    case (Suc m)
    then obtain blk where "fold (\<lambda>i (state, blk). let blk = G blk i in (permute (xor_block state blk), blk)) [0..<m] (st, blk0)
          = (absorb_blocks (map B [0..<m]) st, blk)" "length blk = rb"
      by auto
    then show ?case
      using assms(1) [of m blk] Suc.prems by (simp add: Let_def absorb_blocks_def)
  qed (simp add: absorb_blocks_def assms(2))
  from this [of n] show ?thesis
    by auto
qed

lemma sponge_absorb_blocks:
  assumes "bits = 2 \<or> bits = 4" "1 < rb"
  shows "sponge_absorb d bits (rb * 8) msg = absorb_blocks (blocks rb (padded d bits rb msg)) (replicate 25 0)"
proof -
  obtain plen pad where pp: "pad101 d bits (rb * 8) (length msg * 8 + bits) (replicate rb 0) = (plen, pad)"
    by fastforce
  define n where "n = Suc (length msg div rb)"
  have len: "length (padded d bits rb msg) = n * rb"
    using padded_length [of rb d bits msg] assms(2) by (simp add: n_def)
  have "length msg + (rb - length msg mod rb) = n * rb"
    using len assms(2) by (simp add: padded_def)
  then have "length msg * 8 + bits + plen = n * rb * 8"
    using pad101_padding(1) [OF assms refl pp] by linarith
  then have cnt: "(length msg * 8 + bits + plen) div (rb * 8) = n"
    using assms(2) by simp
  have "length (take rb (drop (i * rb) (padded d bits rb msg))) = rb" if "i < n" for i
    using mult_le_mono1 [of "Suc i" n rb] that len by simp
  then have "fst (fold (\<lambda>i (state, blk). let blk = get_msg_blk bits (rb * 8) msg pad plen blk i in (permute (xor_block state blk), blk))
      [0..<n] (replicate 25 0, replicate rb 0))
    = absorb_blocks (map (\<lambda>i. take rb (drop (i * rb) (padded d bits rb msg))) [0..<n]) (replicate 25 0)"
    using get_msg_blk_block [OF pp assms] by (intro fold_msg_blks) (auto simp: n_def)
  then show ?thesis
    using assms(2) by (simp add: sponge_absorb_def Let_def pp cnt blocks_def len)
qed

text \<open>Absorbing whole blocks byte by byte is absorbing them.\<close>

lemma byte_steps_blocks:
  assumes "0 < rb" "length bs = n * rb"
  shows "fold (byte_step rb) bs (st, 0) = (absorb_blocks (blocks rb bs) st, 0)"
  using assms(2)
proof (induction n arbitrary: bs st)
  case 0
  then show ?case by (simp add: blocks_def absorb_blocks_def)
next
  case (Suc n)
  have split: "bs = take rb bs @ drop rb bs" and len: "length (take rb bs) = rb" "length (drop rb bs) = n * rb"
    using Suc.prems by auto
  have "blocks rb bs = take rb bs # blocks rb (drop rb bs)"
    using assms(1) Suc.prems len(2)
    by (simp add: blocks_def upt_conv_Cons map_Suc_upt [symmetric] add.commute del: upt_Suc)
  then have "absorb_blocks (blocks rb bs) st = absorb_blocks (blocks rb (drop rb bs)) (permute (xor_block st (take rb bs)))"
    by (simp add: absorb_blocks_def)
  moreover have "fold (byte_step rb) bs (st, 0) = fold (byte_step rb) (drop rb bs) (permute (xor_block st (take rb bs)), 0)"
    using byte_steps_block [OF assms(1) len(1), of st] by (subst split) (simp only: fold_append comp_apply)
  ultimately show ?case
    using Suc.IH [OF len(2)] by simp
qed


section \<open>Squeezing\<close>

lemma length_state_bytes [simp]: "length (state_bytes st) = 8 * length st"
  by (simp add: state_bytes_def length_concat u64_bytes_def comp_def sum_list_triv)

lemma length_permutes [simp]: "length st = 25 \<Longrightarrow> length ((permute ^^ k) st) = 25"
  by (cases k) auto

lemma div_mod_step:
  fixes p rb r :: nat
  assumes "p mod rb + r \<le> rb" "0 < rb"
  shows "p mod rb + r = rb \<Longrightarrow> (p + r) div rb = Suc (p div rb) \<and> (p + r) mod rb = 0"
    and "p mod rb + r < rb \<Longrightarrow> (p + r) div rb = p div rb \<and> (p + r) mod rb = p mod rb + r"
proof -
  have "p + r = p div rb * rb + (p mod rb + r)"
    by simp
  then have "(p + r) div rb = p div rb + (p mod rb + r) div rb" "(p + r) mod rb = (p mod rb + r) mod rb"
    using assms(2) by (metis div_mult_self3 less_not_refl2, metis mod_mult_self3)
  then show "p mod rb + r = rb \<Longrightarrow> (p + r) div rb = Suc (p div rb) \<and> (p + r) mod rb = 0"
    and "p mod rb + r < rb \<Longrightarrow> (p + r) div rb = p div rb \<and> (p + r) mod rb = p mod rb + r"
    using assms by auto
qed

lemma map_upt_append: "i \<le> j \<Longrightarrow> j \<le> k \<Longrightarrow> map f [i..<j] @ map f [j..<k] = map f [i..<k]"
  by (metis le_iff_add map_append upt_add_eq_append)

lemma squeezed_slice:
  assumes "p mod rb + r \<le> rb" "rb \<le> 200" "0 < rb" "length st = 25"
  shows "take r (drop (p mod rb) (state_bytes ((permute ^^ (p div rb)) st))) = map (squeezed rb st) [p..<p + r]"
proof (rule nth_equalityI)
  fix i
  assume "i < length (take r (drop (p mod rb) (state_bytes ((permute ^^ (p div rb)) st))))"
  then have "i < r"
    by simp
  moreover from this have "(p + i) div rb = p div rb \<and> (p + i) mod rb = p mod rb + i"
    using div_mod_step(2) [of p rb i] assms by simp
  ultimately show "take r (drop (p mod rb) (state_bytes ((permute ^^ (p div rb)) st))) ! i = map (squeezed rb st) [p..<p + r] ! i"
    using assms by (simp add: squeezed_def)
qed (use assms in simp)

text \<open>Reading \<open>n\<close> bytes at position \<open>p\<close> of the output moves to position \<open>p + n\<close>.\<close>

lemma xof_read_loop_squeezed:
  assumes "0 < rb" "rb \<le> 200" "length st = 25"
  shows "xof_read_loop rb ((permute ^^ (p div rb)) st) (rb - p mod rb) n
       = (map (squeezed rb st) [p..<p + n], (permute ^^ ((p + n) div rb)) st, rb - (p + n) mod rb)"
proof (induction n arbitrary: p rule: less_induct)
  case (less n)
  show ?case
  proof (cases "n = 0")
    case True
    then show ?thesis
      by (subst xof_read_loop.simps) simp
  next
    case False
    define r where "r = min (rb - p mod rb) n"
    have m: "p mod rb < rb"
      using assms(1) by simp
    have r: "p mod rb + r \<le> rb" "0 < r" "r \<le> n"
      using m False by (auto simp: r_def)
    have next_state: "(if rb - p mod rb - r = 0 then (permute ((permute ^^ (p div rb)) st), rb)
          else ((permute ^^ (p div rb)) st, rb - p mod rb - r))
        = ((permute ^^ ((p + r) div rb)) st, rb - (p + r) mod rb)"
      using div_mod_step [of p rb r] r m assms(1) by (cases "p mod rb + r = rb") auto
    have out: "take r (drop (rb - (rb - p mod rb)) (state_bytes ((permute ^^ (p div rb)) st))) = map (squeezed rb st) [p..<p + r]"
      using squeezed_slice [OF r(1) assms(2,1,3)] m by simp
    have "map (squeezed rb st) [p..<p + r] @ map (squeezed rb st) [p + r..<p + n] = map (squeezed rb st) [p..<p + n]"
      using r(3) by (simp add: map_upt_append)
    moreover have "p + r + (n - r) = p + n" "n - r < n"
      using r by simp_all
    ultimately show ?thesis
      using False assms(1) less.IH [of "n - r" "p + r"]
      by (subst xof_read_loop.simps) (simp only: r_def [symmetric] Let_def out next_state prod.case if_False simp_thms less_numeral_extra, simp)
  qed
qed

lemma sponge_squeeze_squeezed:
  assumes "0 < rb" "rb \<le> 200" "length st = 25"
  shows "sponge_squeeze (rb * 8) ((permute ^^ k) st) n = map (squeezed rb st) [k * rb..<k * rb + n]"
proof (induction n arbitrary: k rule: less_induct)
  case (less n)
  define r where "r = min rb n"
  have slice: "take r (state_bytes ((permute ^^ k) st)) = map (squeezed rb st) [k * rb..<k * rb + r]"
    using squeezed_slice [of "k * rb" rb r st] assms by (simp add: r_def)
  show ?case
  proof (cases "rb \<le> n")
    case True
    then show ?thesis
      using less.IH [of "n - rb" "Suc k"] slice assms(1)
      by (subst sponge_squeeze.simps) (simp add: r_def min_def map_upt_append add.commute)
  next
    case False
    then show ?thesis
      using slice assms(1) by (subst sponge_squeeze.simps) (simp add: r_def min_def sponge_squeeze.simps [of _ _ 0])
  qed
qed


section \<open>The hashes and the output functions meet their specification\<close>

lemma length_absorb_blocks [simp]: "length st = 25 \<Longrightarrow> length (absorb_blocks bls st) = 25"
  unfolding absorb_blocks_def by (induction bls arbitrary: st) auto

text \<open>The state a message leads to, by the reference.\<close>

definition absorbed_state :: "u8 \<Rightarrow> nat \<Rightarrow> nat \<Rightarrow> bytes \<Rightarrow> u64 list" where
  "absorbed_state dom_sep bits rb msg = absorb_blocks (blocks rb (padded dom_sep bits rb msg)) (replicate 25 0)"

lemma length_absorbed_state [simp]: "length (absorbed_state d bits rb msg) = 25"
  by (simp add: absorbed_state_def)

text \<open>
  C30. Each of the fixed-length hashes of a message is the first bytes of the reference sponge: the message padded with the
  bits 01, 1, zeros and 1, absorbed block by block.
\<close>

theorem sha3_hash_spec:
  assumes "dlen \<in> {224, 256, 384, 512}"
  shows "sha3_hash dlen msg = map (squeezed (200 - dlen div 4) (absorbed_state 2 2 (200 - dlen div 4) msg)) [0..<dlen div 8]"
proof -
  define rb where "rb = 200 - dlen div 4"
  have rate: "1600 - 2 * dlen = rb * 8" and rb: "1 < rb" "rb \<le> 200"
    using assms by (auto simp: rb_def)
  have "sha3_hash dlen msg = sponge_squeeze (rb * 8) (absorbed_state 2 2 rb msg) (dlen div 8)"
    using sponge_absorb_blocks [of 2 rb 2 msg] rb by (simp add: sha3_hash_def Let_def rate absorbed_state_def)
  then show ?thesis
    using sponge_squeeze_squeezed [of rb "absorbed_state 2 2 rb msg" 0] rb by (simp flip: rb_def)
qed

theorem sha3_hash_spec_witness:
  "sha3_hash 256 [1, 2, 3] = map (squeezed 136 (absorbed_state 2 2 136 [1, 2, 3])) [0..<32]"
  using sha3_hash_spec [of 256] by simp

text \<open>Several reads one after the other, each of the given number of bytes.\<close>

fun xof_reads :: "nat \<Rightarrow> nat list \<Rightarrow> xof \<Rightarrow> bytes" where
  "xof_reads rb [] h = []"
| "xof_reads rb (n # ns) h = (case xof_read rb (replicate n 0) h of (out, h) \<Rightarrow> out @ xof_reads rb ns h)"

lemma xof_reads_squeezed:
  assumes "0 < rb" "rb \<le> 200" "length st = 25" "absorbed h"
    "x_state h = (permute ^^ (p div rb)) st" "readable h = rb - p mod rb"
  shows "xof_reads rb ns h = map (squeezed rb st) [p..<p + sum_list ns]"
  using assms(4-)
proof (induction ns arbitrary: h p)
  case (Cons n ns)
  let ?h = "h\<lparr>x_state := (permute ^^ ((p + n) div rb)) st, readable := rb - (p + n) mod rb\<rparr>"
  have "xof_reads rb (n # ns) h = map (squeezed rb st) [p..<p + n] @ xof_reads rb ns ?h"
    using Cons.prems by (simp add: xof_read_def xof_read_loop_squeezed [OF assms(1-3)])
  also have "xof_reads rb ns ?h = map (squeezed rb st) [p + n..<p + n + sum_list ns]"
    by (rule Cons.IH) (use Cons.prems in simp_all)
  finally show ?case
    by (simp add: map_upt_append add.assoc)
qed simp

lemma xof_absorbs_bytes:
  assumes "0 < rb" "offset h < rb" "\<not> absorbed h"
  shows "fold (xof_absorb rb) msgs h =
    (case fold (byte_step rb) (concat msgs) (x_state h, offset h) of
       (st, off) \<Rightarrow> h\<lparr>x_state := st, offset := off, abytes := abytes h + length (concat msgs)\<rparr>)"
  using assms(2,3)
proof (induction msgs arbitrary: h)
  case (Cons m msgs)
  obtain st off where F: "fold (byte_step rb) m (x_state h, offset h) = (st, off)"
    by fastforce
  let ?h = "h\<lparr>x_state := st, offset := off, abytes := abytes h + length m\<rparr>"
  have "off < rb"
    using xof_absorb_bytes(2) [OF assms(1) Cons.prems, of m] assms(1) F by simp
  then have "fold (xof_absorb rb) msgs ?h = (case fold (byte_step rb) (concat msgs) (st, off) of
       (st, off) \<Rightarrow> ?h\<lparr>x_state := st, offset := off, abytes := abytes ?h + length (concat msgs)\<rparr>)"
    using Cons.IH [of ?h] Cons.prems by simp
  then show ?case
    using xof_absorb_bytes(1) [OF assms(1) Cons.prems, of m] F by (simp add: add.assoc split: prod.splits)
qed simp

lemma xof_incremental_state:
  fixes rb :: nat and msgs :: "bytes list"
  defines "h \<equiv> fold (xof_absorb rb) msgs xof_new"
  assumes "1 < rb"
  shows "x_state (xof_finalize rb h) = absorbed_state 0x0F 4 rb (concat msgs)"
    and "absorbed (xof_finalize rb h)" and "readable (xof_finalize rb h) = rb"
proof -
  let ?m = "concat msgs" and ?z = "replicate 25 0 :: u64 list"
  obtain st off where F: "fold (byte_step rb) ?m (?z, 0) = (st, off)"
    by fastforce
  have h: "h = xof_new\<lparr>x_state := st, offset := off, abytes := length ?m\<rparr>"
    using xof_absorbs_bytes [of rb xof_new msgs] assms(2) F by (simp add: h_def xof_new_def)
  have "off = length ?m mod rb"
    using xof_absorb_bytes(2) [of rb xof_new ?m] assms(2) F by (simp add: xof_new_def)
  then have fin: "xof_finalize rb h = h\<lparr>
      x_state := fst (fold (byte_step rb) (padding 0x0F 4 (rb - length ?m mod rb)) (st, off)),
      offset := 0, absorbed := True, readable := rb\<rparr>"
    using xof_finalize_bytes [of rb h] assms(2) by (simp add: h xof_new_def)
  have "fold (byte_step rb) (padded 0x0F 4 rb ?m) (?z, 0) = (absorbed_state 0x0F 4 rb ?m, 0)"
    using byte_steps_blocks [OF _ padded_length] assms(2) by (simp add: absorbed_state_def)
  then show "x_state (xof_finalize rb h) = absorbed_state 0x0F 4 rb ?m"
    by (simp add: fin padded_def F)
  show "absorbed (xof_finalize rb h)" "readable (xof_finalize rb h) = rb"
    by (simp_all add: fin)
qed

lemma xof_output:
  assumes "1 < rb" "rb \<le> 200"
  shows "xof_reads rb ns (xof_finalize rb (fold (xof_absorb rb) msgs xof_new))
       = map (squeezed rb (absorbed_state 0x0F 4 rb (concat msgs))) [0..<sum_list ns]"
    and "xof_reads rb ns (xof_hash rb (concat msgs) xof_new)
       = map (squeezed rb (absorbed_state 0x0F 4 rb (concat msgs))) [0..<sum_list ns]"
proof -
  have "sponge_absorb 0x0F 4 (rb * 8) (concat msgs) = absorbed_state 0x0F 4 rb (concat msgs)"
    using sponge_absorb_blocks [of 4 rb "0x0F" "concat msgs"] assms(1) by (simp add: absorbed_state_def)
  then show "xof_reads rb ns (xof_hash rb (concat msgs) xof_new)
       = map (squeezed rb (absorbed_state 0x0F 4 rb (concat msgs))) [0..<sum_list ns]"
    using xof_reads_squeezed [of rb "absorbed_state 0x0F 4 rb (concat msgs)" _ 0] assms by (simp add: xof_hash_def xof_new_def)
  show "xof_reads rb ns (xof_finalize rb (fold (xof_absorb rb) msgs xof_new))
       = map (squeezed rb (absorbed_state 0x0F 4 rb (concat msgs))) [0..<sum_list ns]"
    using xof_reads_squeezed [of rb "absorbed_state 0x0F 4 rb (concat msgs)" _ 0] xof_incremental_state [where rb = rb and msgs = msgs] assms by simp
qed

text \<open>
  C31. The incremental interface of SHAKE256 and SHAKE128 is the one-shot one: however a message is cut into calls of \<open>absorb\<close>, and
  however the output is cut into calls of \<open>read\<close>, the bytes read are the first bytes of the reference sponge on the whole message,
  which are those read after one \<open>hash\<close> of it.
\<close>

theorem shake_incremental:
  assumes "rb \<in> {136, 168}"
  shows "xof_reads rb ns (xof_finalize rb (fold (xof_absorb rb) msgs xof_new))
       = map (squeezed rb (absorbed_state 0x0F 4 rb (concat msgs))) [0..<sum_list ns]
    \<and> xof_reads rb ns (xof_finalize rb (fold (xof_absorb rb) msgs xof_new))
       = xof_reads rb [sum_list ns] (xof_hash rb (concat msgs) xof_new)"
  using assms by (auto simp: xof_output simp del: xof_reads.simps)

theorem shake_incremental_witness:
  "xof_reads 136 [1, 200] (xof_finalize 136 (fold (xof_absorb 136) [[1], [2, 3]] xof_new))
       = map (squeezed 136 (absorbed_state 0x0F 4 136 [1, 2, 3])) [0..<201]"
  using shake_incremental [of 136 "[1, 200]" "[[1], [2, 3]]"] by simp

end
