(* ===== verification/Falcon_Sampler.thy ===== *)
theory Falcon_Sampler
  imports Falcon_Bignum Sponge Quantum_State
begin

unbundle bit_operations_syntax

text \<open>
  The sampler over the integers of the vendored Falcon scheme (\<open>prng.hpp\<close>, \<open>samplerz.hpp\<close>): random bytes are read from SHAKE256 over
  a random seed, the base sampler compares 72 of their bits with a table, and a Bernoulli trial accepts or rejects. Arithmetic on
  doubles is the parameter \<open>R\<close>; conversions to integers out of range are undefined. The rejection loop is a partial function.
\<close>

record ('d, 'c) fops = "('d, 'c) qops" +
  csub :: "'c \<Rightarrow> 'c \<Rightarrow> 'c"
  cneg :: "'c \<Rightarrow> 'c"
  cdiv :: "'c \<Rightarrow> 'c \<Rightarrow> 'c"
  of_sint_d :: "int \<Rightarrow> 'd"
  ffloor :: "'d \<Rightarrow> 'd"
  fround :: "'d \<Rightarrow> 'd"
  trunc_d :: "'d \<Rightarrow> int option"
  zeta_table :: "nat \<Rightarrow> 'c"

text \<open>
  \<open>trunc_d\<close> is the integral part (none for infinities and NaN), \<open>zeta_table\<close> the entries of the table of roots of unity in
  \<open>fft.hpp\<close>.
\<close>

definition cast_u64 :: "('d, 'c, 'z) fops_scheme \<Rightarrow> 'd \<Rightarrow> u64 res" where
  "cast_u64 R d = (case trunc_d R d of
       Some i \<Rightarrow> if 0 \<le> i \<and> i < 2 ^ 64 then Inr (of_int i) else Inl (Undefined ''static_cast<uint64_t>'')
     | None \<Rightarrow> Inl (Undefined ''static_cast<uint64_t>''))"

definition cast_i32 :: "('d, 'c, 'z) fops_scheme \<Rightarrow> 'd \<Rightarrow> int res" where
  "cast_i32 R d = (case trunc_d R d of
       Some i \<Rightarrow> if - (2 ^ 31) \<le> i \<and> i < 2 ^ 31 then Inr i else Inl (Undefined ''static_cast<int32_t>'')
     | None \<Rightarrow> Inl (Undefined ''static_cast<int32_t>''))"

section \<open>Random bytes\<close>

definition prng_new :: "bytes \<Rightarrow> xof" where
  "prng_new seed = shake256_hash seed xof_new"

definition prng_read :: "nat \<Rightarrow> xof \<Rightarrow> bytes \<times> xof" where
  "prng_read n rng = shake256_read (replicate n 0) rng"

section \<open>Tables\<close>

definition PDT :: "u72_t list" where
  "PDT = map (\<lambda>(h, l). \<lparr>hi = h, lo = l\<rparr>)
     [(92, 579786965361551358), (79, 2650674819858381952), (50, 6151151332533475715), (23, 12418831121734727451),
      (8, 4319188200692788085), (2, 2177953700873134608), (0, 7432604049020375675), (0, 1045641569992574730),
      (0, 108788995549429682), (0, 8370422445201343), (0, 476288472308334), (0, 20042553305308), (0, 623729532807),
      (0, 14354889437), (0, 244322621), (0, 3075302), (0, 28626), (0, 197), (0, 1)]"

definition ith_cumulative_distribution :: "nat \<Rightarrow> u72_t" where
  "ith_cumulative_distribution i = fold (\<lambda>j acc. u72_add acc (PDT ! j)) [0..<Suc i] u72_zero"

definition CDT :: "u72_t list" where
  "CDT = map ith_cumulative_distribution [0..<19]"

definition RCDT :: "u72_t list" where
  "RCDT = map u72_neg CDT"

definition exp_coeffs :: "u64 list" where
  "exp_coeffs =
     [0x00000004741183A3, 0x00000036548CFC06, 0x0000024FDCBF140A, 0x0000171D939DE045, 0x0000D00CF58F6F84, 0x000680681CF796E3,
      0x002D82D8305B0FEA, 0x011111110E066FD0, 0x0555555555070F00, 0x155555555581FF00, 0x400000000002B400, 0x7FFFFFFFFFFF4800,
      0x8000000000000000]"

section \<open>Sampling\<close>

definition base_sampler_bytes :: "bytes \<Rightarrow> nat" where
  "base_sampler_bytes bs =
     (let u = from_le_bytes bs in fold (\<lambda>i z0. z0 + (if u72_lt u (RCDT ! i) then 1 else 0)) [0..<18] 0)"

definition base_sampler :: "xof \<Rightarrow> nat \<times> xof" where
  "base_sampler rng = (case prng_read 9 rng of (bs, rng) \<Rightarrow> (base_sampler_bytes bs, rng))"

definition full_mul_u64 :: "u64 \<Rightarrow> u64 \<Rightarrow> u64 \<times> u64" where
  "full_mul_u64 lhs rhs =
     (let lhs_hi = drop_bit 32 lhs; lhs_lo = lhs AND 0xffffffff;
          rhs_hi = drop_bit 32 rhs; rhs_lo = rhs AND 0xffffffff;
          high = lhs_hi * rhs_hi; mid0 = lhs_hi * rhs_lo; mid1 = lhs_lo * rhs_hi; low = lhs_lo * rhs_lo;
          mid0_hi = drop_bit 32 mid0; mid0_lo = mid0 AND 0xffffffff;
          mid1_hi = drop_bit 32 mid1; mid1_lo = mid1 AND 0xffffffff;
          t0 = drop_bit 32 low;
          t1 = t0 + mid0_lo + mid1_lo;
          carry = drop_bit 32 t1;
          res_hi = high + mid0_hi + mid1_hi + carry;
          res_lo = low + push_bit 32 mid0_lo + push_bit 32 mid1_lo
      in (res_hi, res_lo))"

definition top_63_bits :: "u64 \<times> u64 \<Rightarrow> u64" where
  "top_63_bits v = push_bit 1 (fst v AND (push_bit 62 1 - 1)) OR drop_bit 63 (snd v)"

definition approx_exp :: "('d, 'c, 'z) fops_scheme \<Rightarrow> 'd \<Rightarrow> 'd \<Rightarrow> u64 res" where
  "approx_exp R x ccs =
     (case cast_u64 R (ffloor R (fmul R (lit R ''9223372036854775808.'') x)) of Inl e \<Rightarrow> Inl e
      | Inr z \<Rightarrow>
          let y = fold (\<lambda>u y. exp_coeffs ! u - top_63_bits (full_mul_u64 z y)) [1..<13] (exp_coeffs ! 0)
          in case cast_u64 R (ffloor R (fmul R (lit R ''9223372036854775808.'') ccs)) of Inl e \<Rightarrow> Inl e
             | Inr z \<Rightarrow> Inr (top_63_bits (full_mul_u64 z y)))"

text \<open>The loop of \<open>ber_exp\<close> with \<open>i = 8 * n\<close>: a random byte is compared with the next byte of \<open>z\<close> from the top.\<close>

fun ber_loop :: "u64 \<Rightarrow> nat \<Rightarrow> xof \<Rightarrow> bool \<times> xof" where
  "ber_loop z 0 rng =
     (case prng_read 1 rng of (t0, rng) \<Rightarrow> (int (unat (t0 ! 0)) - int (unat (z AND 0xff)) < 0, rng))"
| "ber_loop z (Suc n) rng =
     (case prng_read 1 rng of (t0, rng) \<Rightarrow>
        let w = int (unat (t0 ! 0)) - int (unat (drop_bit (8 * Suc n) z AND 0xff))
        in if w = 0 then ber_loop z n rng else (w < 0, rng))"

definition ber_exp :: "('d, 'c, 'z) fops_scheme \<Rightarrow> 'd \<Rightarrow> 'd \<Rightarrow> xof \<Rightarrow> (bool \<times> xof) res" where
  "ber_exp R x ccs rng =
     (let LN2 = lit R ''0.6931471805599453'';
          INV_LN2 = fdiv R (lit R ''1.'') LN2;
          s = ffloor R (fmul R x INV_LN2);
          r = fsub R x (fmul R s LN2)
      in case cast_u64 R s of Inl e \<Rightarrow> Inl e
         | Inr s0 \<Rightarrow>
             let s1 = min s0 63
             in case approx_exp R r ccs of Inl e \<Rightarrow> Inl e
                | Inr e \<Rightarrow> Inr (ber_loop (drop_bit (unat s1) (2 * e - 1)) 7 rng))"

text \<open>One turn of \<open>samplerz\<close>: a candidate, or none when it is rejected.\<close>

definition samplerz_turn :: "('d, 'c, 'z) fops_scheme \<Rightarrow> 'd \<Rightarrow> 'd \<Rightarrow> 'd \<Rightarrow> xof \<Rightarrow> (int option \<times> xof) res" where
  "samplerz_turn R mu sigma_prime sigma_min rng =
     (let r = fsub R mu (ffloor R mu);
          ccs = fdiv R sigma_min sigma_prime;
          t0 = fdiv R (lit R ''1.'') (fmul R (fmul R (lit R ''2.'') sigma_prime) sigma_prime);
          sigma_max = lit R ''1.8205'';
          t1 = fdiv R (lit R ''1.'') (fmul R (fmul R (lit R ''2.'') sigma_max) sigma_max);
          (z0, rng) = base_sampler rng;
          (v, rng) = prng_read 1 rng;
          b = int (unat (v ! 0 AND 1));
          z = of_sint_d R (b + (2 * b - 1) * int z0);
          t2 = fsub R z r;
          t3 = fmul R t2 t2;
          t4 = fmul R t3 t0;
          t5 = of_sint_d R (int z0 * int z0);
          t6 = fmul R t5 t1;
          x = fsub R t4 t6
      in case ber_exp R x ccs rng of Inl e \<Rightarrow> Inl e
         | Inr (t7, rng) \<Rightarrow>
             if t7 then (case cast_i32 R (fadd R z (ffloor R mu)) of Inl e \<Rightarrow> Inl e | Inr s \<Rightarrow> Inr (Some s, rng))
             else Inr (None, rng))"

partial_function (option) samplerz ::
    "('d, 'c, 'z) fops_scheme \<Rightarrow> 'd \<Rightarrow> 'd \<Rightarrow> 'd \<Rightarrow> xof \<Rightarrow> (int \<times> xof) res option" where
  "samplerz R mu sigma_prime sigma_min rng =
     (case samplerz_turn R mu sigma_prime sigma_min rng of Inl e \<Rightarrow> Some (Inl e)
      | Inr (Some s, rng) \<Rightarrow> Some (Inr (s, rng))
      | Inr (None, rng) \<Rightarrow> samplerz R mu sigma_prime sigma_min rng)"

section \<open>Sampling from given bytes\<close>

text \<open>
  The variants of the two routines that take their random bytes from an array, for known answers: reading past the array is
  undefined, and the base sampler gets its nine bytes in reverse. They return how many bytes they used.
\<close>

fun ber_loop_bytes :: "u64 \<Rightarrow> bytes \<Rightarrow> nat \<Rightarrow> nat \<Rightarrow> (bool \<times> nat) res" where
  "ber_loop_bytes z rbytes ridx n =
     (if length rbytes \<le> ridx then Inl (Undefined ''rbytes[ridx]'')
      else let w = int (unat (rbytes ! ridx)) - int (unat (drop_bit (8 * n) z AND 0xff))
           in if w = 0 \<and> 0 < n \<and> Suc ridx < length rbytes then ber_loop_bytes z rbytes (Suc ridx) (n - 1)
              else Inr (w < 0, Suc ridx))"

declare ber_loop_bytes.simps [simp del]

definition ber_exp_bytes :: "('d, 'c, 'z) fops_scheme \<Rightarrow> 'd \<Rightarrow> 'd \<Rightarrow> bytes \<Rightarrow> (bool \<times> nat) res" where
  "ber_exp_bytes R x ccs rbytes =
     (let LN2 = lit R ''0.6931471805599453'';
          INV_LN2 = fdiv R (lit R ''1.'') LN2;
          s = ffloor R (fmul R x INV_LN2);
          r = fsub R x (fmul R s LN2)
      in case cast_u64 R s of Inl e \<Rightarrow> Inl e
         | Inr s0 \<Rightarrow>
             let s1 = min s0 63
             in case approx_exp R r ccs of Inl e \<Rightarrow> Inl e
                | Inr e \<Rightarrow> ber_loop_bytes (drop_bit (unat s1) (2 * e - 1)) rbytes 0 7)"

text \<open>The loop of \<open>samplerz\<close> on the bytes from \<open>ridx\<close> on.\<close>

function samplerz_bytes_loop :: "('d, 'c, 'z) fops_scheme \<Rightarrow> 'd \<Rightarrow> 'd \<Rightarrow> 'd \<Rightarrow> bytes \<Rightarrow> nat \<Rightarrow> (int \<times> nat) res" where
  "samplerz_bytes_loop R mu sigma_prime sigma_min rbytes ridx =
     (if length rbytes \<le> ridx then Inr (0, ridx)
      else if length rbytes < ridx + 10 then Inl (Undefined ''rbytes + ridx'')
      else
        let r = fsub R mu (ffloor R mu);
            ccs = fdiv R sigma_min sigma_prime;
            t0 = fdiv R (lit R ''1.'') (fmul R (fmul R (lit R ''2.'') sigma_prime) sigma_prime);
            sigma_max = lit R ''1.8205'';
            t1 = fdiv R (lit R ''1.'') (fmul R (fmul R (lit R ''2.'') sigma_max) sigma_max);
            z0 = base_sampler_bytes (rev (take 9 (drop ridx rbytes)));
            b = int (unat (rbytes ! (ridx + 9) AND 1));
            z = of_sint_d R (b + (2 * b - 1) * int z0);
            t2 = fsub R z r;
            t3 = fmul R t2 t2;
            t4 = fmul R t3 t0;
            t5 = of_sint_d R (int z0 * int z0);
            t6 = fmul R t5 t1;
            x = fsub R t4 t6
        in case ber_exp_bytes R x ccs (drop (ridx + 10) rbytes) of Inl e \<Rightarrow> Inl e
           | Inr (t7, ulen) \<Rightarrow>
               if t7 then (case cast_i32 R (fadd R z (ffloor R mu)) of Inl e \<Rightarrow> Inl e | Inr s \<Rightarrow> Inr (s, ridx + 10 + ulen))
               else samplerz_bytes_loop R mu sigma_prime sigma_min rbytes (ridx + 10 + ulen))"
  by pat_completeness auto
termination
  by (relation "measure (\<lambda>(_, _, _, _, rbytes, ridx). length rbytes - ridx)") auto

declare samplerz_bytes_loop.simps [simp del]

definition samplerz_bytes :: "('d, 'c, 'z) fops_scheme \<Rightarrow> 'd \<Rightarrow> 'd \<Rightarrow> 'd \<Rightarrow> bytes \<Rightarrow> (int \<times> nat) res" where
  "samplerz_bytes R mu sigma_prime sigma_min rbytes = samplerz_bytes_loop R mu sigma_prime sigma_min rbytes 0"

text \<open>What they report as used is there.\<close>

lemma ber_loop_bytes_used: "ber_loop_bytes z rbytes ridx n = Inr (b, m) \<Longrightarrow> ridx < m \<and> m \<le> length rbytes \<and> m \<le> Suc (ridx + n)"
proof (induction z rbytes ridx n arbitrary: b m rule: ber_loop_bytes.induct)
  case (1 z rbytes ridx n)
  show ?case
    using "1.prems" "1.IH" [OF _ refl, of b m] by (subst (asm) ber_loop_bytes.simps) (auto simp: Let_def split: if_splits)
qed

lemma ber_exp_bytes_used: "ber_exp_bytes R x ccs rbytes = Inr (b, m) \<Longrightarrow> m \<le> length rbytes \<and> m \<le> 8"
  using ber_loop_bytes_used [of _ rbytes 0 7 b m] by (auto simp: ber_exp_bytes_def Let_def split: sum.splits)

lemma samplerz_bytes_used:
  assumes "samplerz_bytes R mu sigma_prime s_min rbytes = Inr (z, n)"
  shows "n \<le> length rbytes"
proof -
  have "n \<le> length rbytes" if "samplerz_bytes_loop R mu sigma_prime s_min rbytes ridx = Inr (z, n)" "ridx \<le> length rbytes" for ridx
    using that
  proof (induction "length rbytes - ridx" arbitrary: ridx rule: less_induct)
    case less
    show ?case
    proof (cases "length rbytes \<le> ridx \<or> length rbytes < ridx + 10")
      case True
      then show ?thesis
        using less.prems by (subst (asm) (1) samplerz_bytes_loop.simps) (auto split: if_splits)
    next
      case False
      then obtain x ccs t7 ulen where ber: "ber_exp_bytes R x ccs (drop (ridx + 10) rbytes) = Inr (t7, ulen)"
        and next_turn: "n = ridx + 10 + ulen \<or> samplerz_bytes_loop R mu sigma_prime s_min rbytes (ridx + 10 + ulen) = Inr (z, n)"
        using less.prems by (subst (asm) (1) samplerz_bytes_loop.simps) (auto simp: Let_def split: sum.splits if_splits)
      have "ridx + 10 + ulen \<le> length rbytes"
        using ber_exp_bytes_used [OF ber] False by auto
      then show ?thesis
        using next_turn less.hyps [of "ridx + 10 + ulen"] False by auto
    qed
  qed
  then show ?thesis
    using assms by (simp add: samplerz_bytes_def)
qed

section \<open>The 128-bit product\<close>

lemma unat_and_mask32: "unat (w AND 0xffffffff :: u64) = unat w mod 2 ^ 32"
proof -
  have "w AND 0xffffffff = take_bit 32 w"
    by (simp add: take_bit_eq_mask mask_eq_exp_minus_1)
  then show ?thesis
    by (simp add: take_bit_eq_mod unat_mod)
qed

lemma unat_shiftr: "unat (drop_bit n w :: u64) = unat w div 2 ^ n"
  by (simp add: unsigned_drop_bit_eq take_bit_nat_eq_self [OF unat_u64, simplified] drop_bit_eq_div [of n "unat w"] del: drop_bit_eq_div)

lemma mul_split:
  fixes l r :: nat
  defines "B \<equiv> 2 ^ 32" and "a \<equiv> l div 2 ^ 32" and "b \<equiv> l mod 2 ^ 32" and "c \<equiv> r div 2 ^ 32" and "d \<equiv> r mod 2 ^ 32"
  defines "t \<equiv> b * d div B + a * d mod B + b * c mod B"
  assumes "l < 2 ^ 64" "r < 2 ^ 64"
  shows "(a * c + a * d div B + b * c div B + t div B) * 2 ^ 64 + (b * d + a * d mod B * B + b * c mod B * B) mod 2 ^ 64 = l * r"
    and "a * c + a * d div B + b * c div B + t div B < 2 ^ 64" and "t < 2 ^ 64"
    and "a * c < 2 ^ 64" and "a * d < 2 ^ 64" and "b * c < 2 ^ 64" and "b * d < 2 ^ 64"
proof -
  have BB: "B * B = 2 ^ 64" "0 < B"
    by (simp_all add: B_def)
  have lt: "a < B" "b < B" "c < B" "d < B"
    using assms(7,8) by (auto simp: a_def b_def c_def d_def B_def less_mult_imp_div_less)
  have prod: "x * y < 2 ^ 64" if "x < B" "y < B" for x y
    using mult_strict_mono [OF that BB(2)] by (simp only: BB(1))
  show p: "a * c < 2 ^ 64" "a * d < 2 ^ 64" "b * c < 2 ^ 64" "b * d < 2 ^ 64"
    using lt prod by blast+
  have "b * d div B < B"
    using p(4) unfolding BB(1) [symmetric] by (rule less_mult_imp_div_less)
  then show "t < 2 ^ 64"
    using mod_less_divisor [OF BB(2), of "a * d"] mod_less_divisor [OF BB(2), of "b * c"] by (simp add: t_def B_def)
  have low: "b * d + a * d mod B * B + b * c mod B * B = t * B + b * d mod B"
    using div_mult_mod_eq [of "b * d" B] by (simp add: t_def algebra_simps)
  have mod: "(t * B + b * d mod B) mod (B * B) = t mod B * B + b * d mod B"
    using mod_mult2_eq [of "t * B + b * d mod B" B B] BB(2) by (simp add: algebra_simps)
  have l: "l = a * B + b" and r: "r = c * B + d"
    by (simp_all add: a_def b_def c_def d_def B_def)
  have "l * r = a * c * (B * B) + (a * d + b * c) * B + b * d"
    by (simp add: l r algebra_simps)
  also have "\<dots> = a * c * (B * B) + (a * d div B * B + a * d mod B + (b * c div B * B + b * c mod B)) * B + (b * d div B * B + b * d mod B)"
    by simp
  also have "\<dots> = (a * c + a * d div B + b * c div B) * (B * B) + t * B + b * d mod B"
    by (simp only: t_def algebra_simps)
  also have "\<dots> = (a * c + a * d div B + b * c div B) * (B * B) + (t div B * B + t mod B) * B + b * d mod B"
    by simp
  also have "\<dots> = (a * c + a * d div B + b * c div B + t div B) * (B * B) + (t mod B * B + b * d mod B)"
    by (simp only: algebra_simps)
  finally have eq: "l * r = (a * c + a * d div B + b * c div B + t div B) * (B * B) + (t mod B * B + b * d mod B)" .
  then show "(a * c + a * d div B + b * c div B + t div B) * 2 ^ 64 + (b * d + a * d mod B * B + b * c mod B * B) mod 2 ^ 64 = l * r"
    by (simp only: low mod flip: BB(1))
  have "l * r < 2 ^ 64 * 2 ^ 64"
    using mult_strict_mono [OF assms(7,8)] by simp
  then have "(a * c + a * d div B + b * c div B + t div B) * (B * B) < 2 ^ 64 * (B * B)"
    using eq by (simp only: BB(1))
  then show "a * c + a * d div B + b * c div B + t div B < 2 ^ 64"
    by (simp only: mult_less_cancel2)
qed

lemma full_mul_u64_val:
  "unat (fst (full_mul_u64 l r)) * 2 ^ 64 + unat (snd (full_mul_u64 l r)) = unat l * unat r"
proof -
  define x y where "x = unat l" and "y = unat r"
  have xy: "x < 2 ^ 64" "y < 2 ^ 64"
    unfolding x_def y_def by (rule unat_u64)+
  note M = mul_split [OF xy]
  have mul: "unat (v * w) = unat v * unat w" if "unat v * unat w < 2 ^ 64" for v w :: u64
    using that by (simp add: unat_word_ariths)
  have add: "unat (v + w) = unat v + unat w" if "unat v + unat w < 2 ^ 64" for v w :: u64
    using that by (simp add: unat_word_ariths)
  have shl: "unat (push_bit 32 v :: u64) = unat v * 2 ^ 32 mod 2 ^ 64" for v :: u64
    by (simp add: push_bit_eq_mult unat_word_ariths mult.commute)
  define B where "B = (2 :: nat) ^ 32"
  define a b c d where "a = x div B" and "b = x mod B" and "c = y div B" and "d = y mod B"
  define lh ll rh rl where words: "lh = drop_bit 32 l" "ll = l AND 0xffffffff" "rh = drop_bit 32 r" "rl = r AND 0xffffffff"
  have u: "unat lh = a" "unat ll = b" "unat rh = c" "unat rl = d"
    by (simp_all add: words unat_shiftr unat_and_mask32 a_def b_def c_def d_def x_def y_def B_def)
  note M = M [folded B_def, folded a_def b_def c_def d_def]
  have m: "unat (lh * rh) = a * c" "unat (lh * rl) = a * d" "unat (ll * rh) = b * c" "unat (ll * rl) = b * d"
    using M(4-7) by (simp_all add: mul u)
  define m0h m0l m1h m1l t0 where mids: "m0h = drop_bit 32 (lh * rl)" "m0l = (lh * rl) AND 0xffffffff"
    "m1h = drop_bit 32 (ll * rh)" "m1l = (ll * rh) AND 0xffffffff" "t0 = drop_bit 32 (ll * rl)"
  have um: "unat m0h = a * d div B" "unat m0l = a * d mod B" "unat m1h = b * c div B" "unat m1l = b * c mod B"
    "unat t0 = b * d div B"
    by (simp_all add: mids unat_shiftr unat_and_mask32 m B_def)
  have t1: "unat (t0 + m0l + m1l) = b * d div B + a * d mod B + b * c mod B"
    using M(3) by (simp add: add um)
  have hi: "unat (lh * rh + m0h + m1h + drop_bit 32 (t0 + m0l + m1l)) = a * c + a * d div B + b * c div B
      + (b * d div B + a * d mod B + b * c mod B) div B"
  proof -
    have c: "unat (drop_bit 32 (t0 + m0l + m1l)) = (b * d div B + a * d mod B + b * c mod B) div B"
      by (simp only: unat_shiftr t1 B_def)
    have s1: "unat (lh * rh + m0h) = a * c + a * d div B"
      using M(2) by (subst add) (simp_all add: um m)
    have s2: "unat (lh * rh + m0h + m1h) = a * c + a * d div B + b * c div B"
      using M(2) by (subst add) (simp_all add: um s1)
    show ?thesis
      using M(2) by (subst add) (simp_all add: c s2)
  qed
  have lo: "unat (ll * rl + push_bit 32 m0l + push_bit 32 m1l) = (b * d + a * d mod B * B + b * c mod B * B) mod 2 ^ 64"
    by (simp add: unat_word_ariths shl um u mod_simps) (simp add: B_def)
  have "full_mul_u64 l r = (lh * rh + m0h + m1h + drop_bit 32 (t0 + m0l + m1l), ll * rl + push_bit 32 m0l + push_bit 32 m1l)"
    by (simp add: full_mul_u64_def Let_def words mids)
  then show ?thesis
    using M(1) by (simp add: hi lo flip: x_def y_def)
qed

section \<open>The distribution of the base sampler\<close>

lemma PDT_val:
  "map u72_val PDT =
     [1697680241746640300030, 1459943456642912959616, 928488355018011056515, 436693944817054414619, 151893140790369201013,
      39071441848292237840, 7432604049020375675, 1045641569992574730, 108788995549429682, 8370422445201343, 476288472308334,
      20042553305308, 623729532807, 14354889437, 244322621, 3075302, 28626, 197, 1]"
  by (simp add: PDT_def u72_val_def)

text \<open>Counting the thresholds above a value in a decreasing list.\<close>

lemma count_above:
  assumes "sorted_wrt (>) (rs :: nat list)"
  shows "length (filter (\<lambda>r. v < r) rs) = z \<longleftrightarrow>
    z \<le> length rs \<and> (\<forall>i<z. v < rs ! i) \<and> (\<forall>i. z \<le> i \<longrightarrow> i < length rs \<longrightarrow> rs ! i \<le> v)"
  using assms
proof (induction rs arbitrary: z)
  case (Cons r rs)
  show ?case
  proof (cases "v < r")
    case True
    show ?thesis
    proof (cases z)
      case (Suc n)
      then show ?thesis
        using Cons True by (auto simp: nth_Cons less_Suc_eq_0_disj split: nat.splits)
    qed (use True in auto)
  next
    case False
    then have "filter ((<) v) rs = []" "\<forall>x \<in> set rs. x \<le> v"
      using Cons.prems by (auto simp: filter_empty_conv)
    then show ?thesis
      using False by (auto simp: nth_Cons split: nat.splits)
  qed
qed auto

definition weight :: "nat \<Rightarrow> nat" where
  "weight z = (\<Sum>j<z. u72_val (PDT ! j))"

lemma PDT_nth:
  assumes "j < 19"
  shows "u72_wf (PDT ! j)" "0 < u72_val (PDT ! j)"
proof -
  have "list_all (\<lambda>a. u72_wf a \<and> 0 < u72_val a) PDT"
    by (simp add: PDT_def u72_wf_def u72_val_def)
  moreover have "length PDT = 19"
    by (simp add: PDT_def)
  ultimately show "u72_wf (PDT ! j)" "0 < u72_val (PDT ! j)"
    using assms by (simp_all add: list_all_length)
qed

lemma weight_total: "weight 19 = 2 ^ 72"
proof -
  have "weight 19 = sum_list (map u72_val PDT)"
  proof -
    have "length PDT = 19"
      by (simp add: PDT_def)
    then show ?thesis
      unfolding weight_def sum_list_sum_nth by (intro sum.cong) auto
  qed
  then show ?thesis
    by (simp add: PDT_val)
qed

lemma weight_mono: "i \<le> j \<Longrightarrow> weight i \<le> weight j"
  unfolding weight_def by (rule sum_mono2) auto

lemma weight_strict: "i < j \<Longrightarrow> j \<le> 19 \<Longrightarrow> weight i < weight j"
  using weight_mono [of "Suc i" j] PDT_nth(2) [of i] by (simp add: weight_def)

lemma cumulative:
  assumes "i < 19"
  shows "u72_wf (ith_cumulative_distribution i)" "u72_val (ith_cumulative_distribution i) = weight (Suc i) mod 2 ^ 72"
proof -
  have "u72_wf (fold (\<lambda>j acc. u72_add acc (PDT ! j)) [0..<n] u72_zero) \<and>
      u72_val (fold (\<lambda>j acc. u72_add acc (PDT ! j)) [0..<n] u72_zero) = weight n mod 2 ^ 72" if "n \<le> 19" for n
    using that
  proof (induction n)
    case (Suc n)
    then show ?case
      using u72_add_wf u72_add_val [OF _ PDT_nth(1), of _ n] by (simp add: weight_def mod_simps)
  qed (simp add: u72_zero_def u72_wf_def u72_val_def weight_def)
  then show "u72_wf (ith_cumulative_distribution i)" "u72_val (ith_cumulative_distribution i) = weight (Suc i) mod 2 ^ 72"
    using assms unfolding ith_cumulative_distribution_def by (metis Suc_leI)+
qed

lemma RCDT_nth:
  assumes "i < 18"
  shows "u72_val (RCDT ! i) = 2 ^ 72 - weight (Suc i)"
proof -
  have lt: "weight (Suc i) < 2 ^ 72" "0 < weight (Suc i)"
    using weight_strict [of "Suc i" 19] weight_strict [of 0 "Suc i"] assms by (simp_all add: weight_total)
  have z: "u72_wf u72_zero" "u72_val u72_zero = 0"
    by (simp_all add: u72_zero_def u72_wf_def u72_val_def)
  have "u72_val (RCDT ! i) = (2 ^ 72 - u72_val (ith_cumulative_distribution i)) mod 2 ^ 72"
    using assms u72_sub_val [OF z(1) cumulative(1), of i] by (simp add: RCDT_def CDT_def u72_neg_def z(2))
  then show ?thesis
    using assms lt cumulative(2) [of i] by simp
qed

lemma base_sampler_iff:
  assumes "z \<le> 18" "u72_val (from_le_bytes bs) < 2 ^ 72"
  shows "base_sampler_bytes bs = z \<longleftrightarrow>
    2 ^ 72 - weight (Suc z) \<le> u72_val (from_le_bytes bs) \<and> u72_val (from_le_bytes bs) < 2 ^ 72 - weight z"
proof -
  define v where "v = u72_val (from_le_bytes bs)"
  define rs where "rs = map (\<lambda>i. 2 ^ 72 - weight (Suc i)) [0..<18]"
  have fold: "fold (\<lambda>i z0. z0 + (if P i then 1 else 0)) is n = n + length (filter P is)" for P "is" and n :: nat
    by (induction "is" arbitrary: n) auto
  have "base_sampler_bytes bs = length (filter (\<lambda>i. v < 2 ^ 72 - weight (Suc i)) [0..<18])"
    unfolding base_sampler_bytes_def Let_def fold u72_lt_def u72_gt_val v_def
    by (simp, intro arg_cong [where f = length] filter_cong) (simp_all add: RCDT_nth)
  also have "\<dots> = length (filter (\<lambda>r. v < r) rs)"
    by (simp add: rs_def filter_map comp_def)
  finally have eq: "base_sampler_bytes bs = length (filter (\<lambda>r. v < r) rs)" .
  have "sorted_wrt (>) rs"
    unfolding rs_def sorted_wrt_map
  proof (rule sorted_wrt_mono_rel [OF _ sorted_wrt_upt])
    fix x y :: nat assume "x \<in> set [0..<18]" "y \<in> set [0..<18]" "x < y"
    then show "2 ^ 72 - weight (Suc y) < 2 ^ 72 - weight (Suc x)"
      using weight_strict [of "Suc x" "Suc y"] weight_strict [of "Suc x" 19] weight_total by (intro diff_less_mono2) simp_all
  qed
  note iff = count_above [OF this, of v z, folded eq]
  have len: "length rs = 18" and nth: "\<And>i. i < 18 \<Longrightarrow> rs ! i = 2 ^ 72 - weight (Suc i)"
    by (simp_all add: rs_def)
  have dec: "i \<le> j \<Longrightarrow> 2 ^ 72 - weight j \<le> 2 ^ 72 - weight i" for i j
    by (rule diff_le_mono2 [OF weight_mono])
  show ?thesis
    unfolding iff len v_def [symmetric]
  proof (intro iffI conjI allI impI)
    assume h: "z \<le> 18 \<and> (\<forall>i<z. v < rs ! i) \<and> (\<forall>i\<ge>z. i < 18 \<longrightarrow> rs ! i \<le> v)"
    show "2 ^ 72 - weight (Suc z) \<le> v"
      using h nth [of z] weight_total by (cases "z = 18") auto
    show "v < 2 ^ 72 - weight z"
      using h nth [of "z - 1"] assms by (cases z) (auto simp: v_def weight_def)
  next
    fix i assume b: "2 ^ 72 - weight (Suc z) \<le> v \<and> v < 2 ^ 72 - weight z"
    show "v < rs ! i" if "i < z"
      using b that dec [of "Suc i" z] nth [of i] assms(1) by simp
    show "rs ! i \<le> v" if "z \<le> i" "i < 18"
      using b that dec [of "Suc z" "Suc i"] nth [of i] by simp
  qed (rule assms(1))
qed

lemma from_le_bytes_bij: "bij_betw (\<lambda>bs. u72_val (from_le_bytes bs)) {bs. length bs = 9} {..<2 ^ 72}"
proof -
  let ?f = "\<lambda>bs. u72_val (from_le_bytes bs)" and ?A = "{bs :: bytes. length bs = 9}"
  have A: "finite ?A" "card ?A = 2 ^ 72"
    using card_lists_length_eq [of "UNIV :: u8 set" 9] finite_lists_length_eq [of "UNIV :: u8 set" 9] by (simp_all add: card_word)
  have sub: "?f ` ?A \<subseteq> {..<2 ^ 72}"
  proof
    fix v assume "v \<in> ?f ` ?A"
    then obtain bs where bs: "v = ?f bs"
      by blast
    have "unat (ucast (bs ! 8) :: u64) < 256"
      using unat_bound [of "bs ! 8"] by (simp add: unsigned_ucast_eq take_bit_nat_eq_self)
    then have "u72_wf (from_le_bytes bs)"
      by (simp add: u72_wf_def from_le_bytes_def)
    then show "v \<in> {..<2 ^ 72}"
      using u72_val_less bs by blast
  qed
  have sup: "{..<2 ^ 72} \<subseteq> ?f ` ?A"
  proof
    fix v :: nat assume "v \<in> {..<2 ^ 72}"
    then have v: "v div 2 ^ 64 < 256"
      by (simp add: less_mult_imp_div_less)
    define a where "a = \<lparr>hi = of_nat (v div 2 ^ 64) :: u64, lo = of_nat v\<rparr>"
    have "unat (of_nat (v div 2 ^ 64) :: u64) = v div 2 ^ 64"
      using v by (simp add: unat_of_nat)
    moreover have "unat (of_nat v :: u64) = v mod 2 ^ 64"
      by (simp add: unat_of_nat)
    ultimately have "u72_wf a" "u72_val a = v"
      using v by (simp_all add: a_def u72_wf_def u72_val_def)
    then show "v \<in> ?f ` ?A"
      using u72_bytes(1) [of a] by (intro image_eqI [of _ _ "to_le_bytes a"]) (simp_all add: to_le_bytes_def)
  qed
  have "card (?f ` ?A) = card ?A"
    using sub sup A(2) by (simp add: subset_antisym [OF sub sup])
  then show ?thesis
    using eq_card_imp_inj_on [OF A(1), of ?f] subset_antisym [OF sub sup] by (simp add: bij_betw_def)
qed

text \<open>
  C40. The base sampler has exactly the distribution of its table: of the \<open>2^72\<close> strings of nine bytes, as many give \<open>z\<close> as entry \<open>z\<close>
  of the table of probabilities says, and no string gives more than 18.
\<close>

theorem base_sampler_distribution:
  assumes "z \<le> 18"
  shows "card {bs. length bs = 9 \<and> base_sampler_bytes bs = z} = u72_val (PDT ! z) \<and> (\<Sum>z\<le>18. u72_val (PDT ! z)) = 2 ^ 72"
proof -
  let ?f = "\<lambda>bs. u72_val (from_le_bytes bs)"
  let ?I = "{2 ^ 72 - weight (Suc z)..<2 ^ 72 - weight z}"
  note bij = from_le_bytes_bij
  have "?f bs < 2 ^ 72" if "length bs = 9" for bs
    using bij that by (auto simp: bij_betw_def)
  then have "{bs. length bs = 9 \<and> base_sampler_bytes bs = z} = {bs \<in> {bs. length bs = 9}. ?f bs \<in> ?I}"
    using base_sampler_iff [OF assms] by auto
  moreover have "bij_betw ?f {bs \<in> {bs. length bs = 9}. ?f bs \<in> ?I} ?I"
  proof (rule bij_betwI' )
    show "?f x = ?f y \<longleftrightarrow> x = y" if "x \<in> {bs \<in> {bs. length bs = 9}. ?f bs \<in> ?I}" "y \<in> {bs \<in> {bs. length bs = 9}. ?f bs \<in> ?I}" for x y
      using that bij by (auto simp: bij_betw_def dest: inj_onD)
    show "\<exists>x \<in> {bs \<in> {bs. length bs = 9}. ?f bs \<in> ?I}. y = ?f x" if "y \<in> ?I" for y
    proof -
      have "y \<in> {..<2 ^ 72}"
        using that less_le_trans [OF _ diff_le_self, of y "2 ^ 72"] by (metis atLeastLessThan_iff lessThan_iff)
      then obtain x where "length x = 9" "y = ?f x"
        using bij unfolding bij_betw_def by (metis (mono_tags, lifting) imageE mem_Collect_eq)
      then show ?thesis
        using that by blast
    qed
  qed blast
  ultimately have "card {bs. length bs = 9 \<and> base_sampler_bytes bs = z} = card ?I"
    by (simp add: bij_betw_same_card)
  moreover have "weight (Suc z) \<le> 2 ^ 72"
    using weight_mono [of "Suc z" 19] assms by (simp only: weight_total)
  moreover have "weight (Suc z) = weight z + u72_val (PDT ! z)"
    by (simp only: weight_def sum.lessThan_Suc)
  moreover have "(\<Sum>z\<le>18. u72_val (PDT ! z)) = 2 ^ 72"
  proof -
    have "{..18 :: nat} = {..<19}"
      by auto
    then show ?thesis
      using weight_total unfolding weight_def by (simp only:)
  qed
  ultimately show ?thesis
    by simp
qed

theorem base_sampler_distribution_witness:
  "(18 :: nat) \<le> 18 \<and> card {bs. length bs = 9 \<and> base_sampler_bytes bs = 18} = 1"
proof -
  have "u72_val (PDT ! 18) = 1"
    by (simp add: PDT_def u72_val_def)
  then show ?thesis
    using base_sampler_distribution [of 18] by simp
qed

section \<open>The Bernoulli trial\<close>

text \<open>The bytes of single reads one after the other, and their value read from the most significant one.\<close>

fun prng_bytes :: "nat \<Rightarrow> xof \<Rightarrow> bytes" where
  "prng_bytes 0 rng = []"
| "prng_bytes (Suc n) rng = (case prng_read 1 rng of (t0, rng) \<Rightarrow> t0 ! 0 # prng_bytes n rng)"

fun be_val :: "bytes \<Rightarrow> nat" where
  "be_val [] = 0"
| "be_val (b # bs) = unat b * 256 ^ length bs + be_val bs"

lemma length_prng_bytes [simp]: "length (prng_bytes n rng) = n"
  by (induction n arbitrary: rng) (auto split: prod.splits)

lemma be_val_less: "be_val bs < 256 ^ length bs"
proof (induction bs)
  case (Cons b bs)
  have "unat b * 256 ^ length bs + be_val bs < (unat b + 1) * 256 ^ length bs"
    using Cons by simp
  also have "\<dots> \<le> 256 * 256 ^ length bs"
    using unat_bound [of b] by (intro mult_le_mono1) simp
  finally show ?case
    by simp
qed simp

text \<open>Comparing digit by digit from the top is comparing the numbers.\<close>

lemma digit_compare:
  fixes B :: nat
  assumes "x < B" "y < B"
  shows "a * B + x < b * B + y \<longleftrightarrow> a < b \<or> a = b \<and> x < y"
proof (cases a b rule: linorder_cases)
  case less
  have "a * B + x < Suc a * B"
    using assms(1) by simp
  also have "\<dots> \<le> b * B"
    using less by (intro mult_le_mono1) simp
  finally show ?thesis
    using less by simp
next
  case greater
  have "b * B + y < Suc b * B"
    using assms(2) by simp
  also have "\<dots> \<le> a * B"
    using greater by (intro mult_le_mono1) simp
  finally show ?thesis
    using greater by simp
qed simp

lemma ber_loop_less:
  "fst (ber_loop z n rng) \<longleftrightarrow> be_val (prng_bytes (Suc n) rng) < unat z mod 256 ^ Suc n"
proof (induction n arbitrary: rng)
  case 0
  have "int x - int y < 0 \<longleftrightarrow> x < y" for x y :: nat
    by linarith
  then show ?case
    by (cases "prng_read 1 rng") (simp only: ber_loop.simps prng_bytes.simps be_val.simps unat_and_ff prod.case fst_conv list.size power.simps mult_1_right add_0_right)
next
  case (Suc n)
  obtain t0 r where r: "prng_read 1 rng = (t0, r)"
    by fastforce
  define top where "top = unat z div 256 ^ Suc n mod 256"
  have split: "unat z mod 256 ^ Suc (Suc n) = top * 256 ^ Suc n + unat z mod 256 ^ Suc n"
    unfolding top_def using mod_mult2_eq [of "unat z" "256 ^ Suc n" 256] by (simp add: mult.commute)
  have top: "unat (drop_bit (8 * Suc n) z AND 0xff) = top"
    by (simp only: unat_and_ff unat_shiftr top_def power_mult) simp
  define bs where "bs = prng_bytes (Suc n) r"
  have "be_val (prng_bytes (Suc (Suc n)) rng) < unat z mod 256 ^ Suc (Suc n) \<longleftrightarrow>
      unat (t0 ! 0) * 256 ^ Suc n + be_val bs < top * 256 ^ Suc n + unat z mod 256 ^ Suc n"
    unfolding split prng_bytes.simps(2) [of "Suc n" rng] r prod.case be_val.simps by (simp only: bs_def length_prng_bytes)
  also have "\<dots> \<longleftrightarrow> unat (t0 ! 0) < top \<or> unat (t0 ! 0) = top \<and> be_val bs < unat z mod 256 ^ Suc n"
    by (rule digit_compare) (use be_val_less [of bs] in \<open>simp_all add: bs_def del: prng_bytes.simps\<close>)
  also have "\<dots> \<longleftrightarrow> fst (ber_loop z (Suc n) rng)"
  proof -
    have "fst (ber_loop z (Suc n) rng) = (if int (unat (t0 ! 0)) - int top = 0 then fst (ber_loop z n r) else int (unat (t0 ! 0)) - int top < 0)"
      by (simp only: ber_loop.simps r prod.case Let_def top if_distrib [of fst] fst_conv)
    moreover have "int x - int y = 0 \<longleftrightarrow> x = y" "int x - int y < 0 \<longleftrightarrow> x < y" for x y :: nat
      by linarith+
    ultimately show ?thesis
      using Suc.IH [of r, folded bs_def] by (simp only: split: if_split) auto
  qed
  finally show ?case
    by simp
qed

text \<open>
  The Bernoulli trial compares eight random bytes with a threshold, although it stops reading at the first byte that differs: it
  accepts exactly when the number of these bytes is below the 64-bit threshold.
\<close>

theorem ber_loop_threshold: "fst (ber_loop z 7 rng) \<longleftrightarrow> be_val (prng_bytes 8 rng) < unat z"
proof -
  have "unat z mod 256 ^ Suc 7 = unat z"
    using unat_u64 [of z] by simp
  then show ?thesis
    using ber_loop_less [of z 7 rng] by (simp only: Suc_eq_plus1 numeral_plus_one semiring_norm)
qed

text \<open>The candidates of the sampler before the shift by the mean are between -18 and 19.\<close>

lemma base_sampler_le: "base_sampler_bytes bs \<le> 18"
proof -
  have "fold (\<lambda>i z0. z0 + (if P i then 1 else 0)) is n \<le> n + length is" for P "is" and n :: nat
  proof (induction "is" arbitrary: n)
    case (Cons i js)
    then show ?case
      using Cons [of n] Cons [of "n + 1"] by (auto simp: le_Suc_eq)
  qed simp
  from this [of _ "[0..<18]" 0] show ?thesis
    by (simp add: base_sampler_bytes_def Let_def)
qed

lemma approx_exp_bound: "approx_exp R x ccs = Inr y \<Longrightarrow> unat y < 2 ^ 63"
proof -
  have top: "unat (top_63_bits v) < 2 ^ 63" for v
  proof -
    have "top_63_bits v = take_bit 63 (top_63_bits v)"
    proof (rule bit_word_eqI)
      fix n assume n: "n < LENGTH(64)"
      have m: "push_bit 62 1 - 1 = (mask 62 :: u64)"
        by (simp add: mask_eq_exp_minus_1)
      have "n < 63" if "bit (snd v) (63 + n)"
        using bit_imp_le_length [OF that] by simp
      then show "bit (top_63_bits v) n = bit (take_bit 63 (top_63_bits v)) n"
        unfolding top_63_bits_def m
        by (auto simp only: bit_or_iff bit_push_bit_iff bit_and_iff bit_mask_iff bit_drop_bit_eq bit_take_bit_iff o_def)
    qed
    then show ?thesis
      by (metis unsigned_take_bit_eq take_bit_nat_less_exp)
  qed
  assume "approx_exp R x ccs = Inr y"
  then have "y \<in> range top_63_bits"
    by (auto simp: approx_exp_def Let_def split: sum.splits)
  then show "unat y < 2 ^ 63"
    using top by auto
qed

end
