(* ===== verification/Falcon_FFT.thy ===== *)
theory Falcon_FFT
  imports Falcon_Sampler
begin

text \<open>
  The Fourier transform of the vendored Falcon scheme on lists of complex numbers (\<open>fft.hpp\<close>, the complex overloads of
  \<open>polynomial.hpp\<close>) and the computations that use it: the Gram matrix of a basis (\<open>keygen.hpp\<close>) and the Falcon tree
  (\<open>falcon_tree.hpp\<close>). Complex arithmetic and the table of roots are the parameter \<open>R\<close>; what is proved of the code that uses these
  definitions holds for every rounding.
\<close>

section \<open>The transform\<close>

definition fft_butterfly :: "('d, 'c, 'z) fops_scheme \<Rightarrow> 'c \<Rightarrow> nat \<Rightarrow> nat \<Rightarrow> 'c list \<Rightarrow> 'c list" where
  "fft_butterfly R zeta_exp len i vec =
     (let tmp = cmul R zeta_exp (vec ! (i + len));
          vec = vec[i + len := csub R (vec ! i) tmp]
      in vec[i := cadd R (vec ! i) tmp])"

definition fft_layer :: "('d, 'c, 'z) fops_scheme \<Rightarrow> nat \<Rightarrow> nat \<Rightarrow> 'c list \<Rightarrow> 'c list" where
  "fft_layer R LOG2N l vec =
     (let N = 2 ^ LOG2N; len = 2 ^ l; lenx2 = 2 * len; k_beg = N div 2 ^ (l + 1)
      in fold (\<lambda>s vec.
            let start = s * lenx2; k_now = k_beg + start div 2 ^ (l + 1)
            in fold (fft_butterfly R (zeta_table R k_now) len) [start..<start + len] vec)
          [0..<N div lenx2] vec)"

definition fft :: "('d, 'c, 'z) fops_scheme \<Rightarrow> nat \<Rightarrow> 'c list \<Rightarrow> 'c list" where
  "fft R LOG2N vec = fold (fft_layer R LOG2N) (rev [0..<LOG2N]) vec"

definition ifft_butterfly :: "('d, 'c, 'z) fops_scheme \<Rightarrow> 'c \<Rightarrow> nat \<Rightarrow> nat \<Rightarrow> 'c list \<Rightarrow> 'c list" where
  "ifft_butterfly R neg_zeta_exp len i vec =
     (let tmp = vec ! i;
          vec = vec[i := cadd R (vec ! i) (vec ! (i + len))];
          vec = vec[i + len := csub R tmp (vec ! (i + len))]
      in vec[i + len := cmul R (vec ! (i + len)) neg_zeta_exp])"

definition ifft_layer :: "('d, 'c, 'z) fops_scheme \<Rightarrow> nat \<Rightarrow> nat \<Rightarrow> 'c list \<Rightarrow> 'c list" where
  "ifft_layer R LOG2N l vec =
     (let N = 2 ^ LOG2N; len = 2 ^ l; lenx2 = 2 * len; k_beg = N div 2 ^ l - 1
      in fold (\<lambda>s vec.
            let start = s * lenx2; k_now = k_beg - start div 2 ^ (l + 1)
            in fold (ifft_butterfly R (cneg R (zeta_table R k_now)) len) [start..<start + len] vec)
          [0..<N div lenx2] vec)"

definition ifft :: "('d, 'c, 'z) fops_scheme \<Rightarrow> nat \<Rightarrow> 'c list \<Rightarrow> 'c list" where
  "ifft R LOG2N vec =
     (let INV_N = fdiv R (lit R ''1.'') (of_int_d R (2 ^ LOG2N))
      in map (\<lambda>x. cscale R x INV_N) (fold (ifft_layer R LOG2N) [0..<LOG2N] vec))"

definition split_fft :: "('d, 'c, 'z) fops_scheme \<Rightarrow> nat \<Rightarrow> 'c list \<Rightarrow> 'c list \<times> 'c list" where
  "split_fft R LOG2N f =
     (let hN = 2 ^ LOG2N div 2
      in (map (\<lambda>i. cscale R (cadd R (f ! (2 * i)) (f ! (2 * i + 1))) (lit R ''0.5'')) [0..<hN],
          map (\<lambda>i. cmul R (cscale R (csub R (f ! (2 * i)) (f ! (2 * i + 1))) (lit R ''0.5'')) (cconj R (zeta_table R (hN + i))))
            [0..<hN]))"

definition merge_fft :: "('d, 'c, 'z) fops_scheme \<Rightarrow> nat \<Rightarrow> 'c list \<Rightarrow> 'c list \<Rightarrow> 'c list" where
  "merge_fft R LOG2N f0 f1 =
     (let hN = 2 ^ LOG2N div 2
      in concat (map (\<lambda>i. [cadd R (f0 ! i) (cmul R (f1 ! i) (zeta_table R (hN + i))),
           csub R (f0 ! i) (cmul R (f1 ! i) (zeta_table R (hN + i)))]) [0..<hN]))"

definition adj_poly :: "('d, 'c, 'z) fops_scheme \<Rightarrow> nat \<Rightarrow> 'c list \<Rightarrow> 'c list" where
  "adj_poly R LOG2N poly = map (\<lambda>i. cconj R (poly ! i)) [0..<2 ^ LOG2N]"

section \<open>Pointwise operations\<close>

definition cpoly_add :: "('d, 'c, 'z) fops_scheme \<Rightarrow> nat \<Rightarrow> 'c list \<Rightarrow> 'c list \<Rightarrow> 'c list" where
  "cpoly_add R lg2n polya polyb = map (\<lambda>i. cadd R (polya ! i) (polyb ! i)) [0..<2 ^ lg2n]"

definition cpoly_sub :: "('d, 'c, 'z) fops_scheme \<Rightarrow> nat \<Rightarrow> 'c list \<Rightarrow> 'c list \<Rightarrow> 'c list" where
  "cpoly_sub R lg2n polya polyb = map (\<lambda>i. csub R (polya ! i) (polyb ! i)) [0..<2 ^ lg2n]"

definition cpoly_mul :: "('d, 'c, 'z) fops_scheme \<Rightarrow> nat \<Rightarrow> 'c list \<Rightarrow> 'c list \<Rightarrow> 'c list" where
  "cpoly_mul R lg2n polya polyb = map (\<lambda>i. cmul R (polya ! i) (polyb ! i)) [0..<2 ^ lg2n]"

definition cpoly_div :: "('d, 'c, 'z) fops_scheme \<Rightarrow> nat \<Rightarrow> 'c list \<Rightarrow> 'c list \<Rightarrow> 'c list" where
  "cpoly_div R lg2n polya polyb = map (\<lambda>i. cdiv R (polya ! i) (polyb ! i)) [0..<2 ^ lg2n]"

definition of_real_c :: "('d, 'c, 'z) fops_scheme \<Rightarrow> 'd \<Rightarrow> 'c" where
  "of_real_c R d = cplx R d (lit R ''0.0'')"

definition cpoly_of_int :: "('d, 'c, 'z) fops_scheme \<Rightarrow> int list \<Rightarrow> 'c list" where
  "cpoly_of_int R f = map (\<lambda>c. of_real_c R (of_sint_d R c)) f"

section \<open>Norms\<close>

definition sqrd_norm :: "('d, 'c, 'z) fops_scheme \<Rightarrow> 'd list \<Rightarrow> 'd" where
  "sqrd_norm R poly = fold (\<lambda>x res. fadd R res (fmul R x x)) poly (lit R ''0.'')"

definition sqrd_norm_fft :: "('d, 'c, 'z) fops_scheme \<Rightarrow> nat \<Rightarrow> 'c list \<Rightarrow> 'd" where
  "sqrd_norm_fft R LOG2N poly =
     (let res = fold (\<lambda>x res. cadd R res (cmul R x (cconj R x))) poly (cplx R (lit R ''0.0'') (lit R ''0.0''))
      in fdiv R (creal R res) (of_int_d R (2 ^ LOG2N)))"

definition gram_schmidt_norm :: "('d, 'c, 'z) fops_scheme \<Rightarrow> nat \<Rightarrow> int list \<Rightarrow> int list \<Rightarrow> 'd" where
  "gram_schmidt_norm R LOG2N f g =
     (let qxq = fmul R (of_int_d R 12289) (of_int_d R 12289);
          sq_norm_fg = fadd R (sqrd_norm R (map (of_sint_d R) f)) (sqrd_norm R (map (of_sint_d R) g));
          f_fft = fft R LOG2N (cpoly_of_int R f);
          g_fft = fft R LOG2N (cpoly_of_int R g);
          f_adj = adj_poly R LOG2N f_fft;
          g_adj = adj_poly R LOG2N g_fft;
          fxf_adj = cpoly_mul R LOG2N f_fft f_adj;
          gxg_adj = cpoly_mul R LOG2N g_fft g_adj;
          den = cpoly_add R LOG2N fxf_adj gxg_adj;
          ft = cpoly_div R LOG2N f_adj den;
          gt = cpoly_div R LOG2N g_adj den;
          sq_norm_FG = fmul R qxq (fadd R (sqrd_norm_fft R LOG2N ft) (sqrd_norm_fft R LOG2N gt))
      in fmax R sq_norm_fg sq_norm_FG)"

section \<open>The Falcon tree\<close>

text \<open>A matrix of two by two polynomials is the list of its four entries.\<close>

definition compute_gram_matrix :: "('d, 'c, 'z) fops_scheme \<Rightarrow> nat \<Rightarrow> 'c list list \<Rightarrow> 'c list list" where
  "compute_gram_matrix R LOG2N B =
     (let B_adj = map (adj_poly R LOG2N) B;
          entry = (\<lambda>i j. cpoly_add R LOG2N (cpoly_mul R LOG2N (B ! i) (B_adj ! j)) (cpoly_mul R LOG2N (B ! (i + 1)) (B_adj ! (j + 1))))
      in [entry 0 0, entry 0 2, entry 2 0, entry 2 2])"

definition ldl :: "('d, 'c, 'z) fops_scheme \<Rightarrow> nat \<Rightarrow> 'c list list \<Rightarrow> 'c list \<times> 'c list \<times> 'c list" where
  "ldl R LOG2N G =
     (let g00 = G ! 0; g10 = G ! 2; g11 = G ! 3;
          l10 = cpoly_div R LOG2N g10 g00;
          tmp0 = adj_poly R LOG2N l10;
          tmp1 = cpoly_mul R LOG2N l10 tmp0;
          tmp0 = cpoly_mul R LOG2N tmp1 g00;
          d11 = cpoly_sub R LOG2N g11 tmp0
      in (l10, g00, d11))"

text \<open>
  The array of the tree as a tree: a node carries the polynomial \<open>l10\<close> of its level, the two leaves below the last level one
  complex number each.
\<close>

datatype 'c ftree = Leaf 'c | Node "'c list" "'c ftree" "'c ftree"

fun ffldl :: "('d, 'c, 'z) fops_scheme \<Rightarrow> nat \<Rightarrow> 'c list list \<Rightarrow> 'c ftree" where
  "ffldl R 0 G = Leaf (G ! 0 ! 0)"
| "ffldl R (Suc n) G =
     (case ldl R (Suc n) G of (l10, D00, D11) \<Rightarrow>
        if n = 0 then Node l10 (Leaf (D00 ! 0)) (Leaf (D11 ! 0))
        else let (d00, d01) = split_fft R (Suc n) D00;
                 (d10, d11) = split_fft R (Suc n) D11;
                 G0 = [d00, d01, adj_poly R n d01, adj_poly R n d00];
                 G1 = [d10, d11, adj_poly R n d11, adj_poly R n d10]
             in Node l10 (ffldl R n G0) (ffldl R n G1))"

fun normalize_tree :: "('d, 'c, 'z) fops_scheme \<Rightarrow> 'd \<Rightarrow> 'c ftree \<Rightarrow> 'c ftree" where
  "normalize_tree R sigma (Leaf d) = Leaf (of_real_c R (fdiv R sigma (fsqrt R (creal R d))))"
| "normalize_tree R sigma (Node l t0 t1) = Node l (normalize_tree R sigma t0) (normalize_tree R sigma t1)"

section \<open>Shape\<close>

lemma length_fft [simp]: "length (fft R L v) = length v"
proof -
  have b: "length (fold (fft_butterfly R z len) is v) = length v" for z len "is" v
    by (induction "is" arbitrary: v) (simp_all add: fft_butterfly_def Let_def)
  have "length (fft_layer R L l v) = length v" for l v
  proof -
    have "length (fold (\<lambda>s vec. fold (fft_butterfly R (z s) len) (js s) vec) ss v) = length v" for z len js ss
      by (induction ss arbitrary: v) (simp_all add: b)
    then show ?thesis
      by (simp add: fft_layer_def Let_def)
  qed
  then have "length (fold (fft_layer R L) ls v) = length v" for ls
    by (induction ls arbitrary: v) simp_all
  then show ?thesis
    by (simp add: fft_def)
qed

lemma length_cpoly [simp]:
  "length (adj_poly R L p) = 2 ^ L" "length (cpoly_add R L p q) = 2 ^ L" "length (cpoly_sub R L p q) = 2 ^ L"
  "length (cpoly_mul R L p q) = 2 ^ L" "length (cpoly_div R L p q) = 2 ^ L"
  by (simp_all add: adj_poly_def cpoly_add_def cpoly_sub_def cpoly_mul_def cpoly_div_def)

text \<open>The tree of a matrix over \<open>2^n\<close> points is complete of height \<open>n\<close>, which is what the sampler descends.\<close>

fun ftree_ok :: "nat \<Rightarrow> 'c ftree \<Rightarrow> bool" where
  "ftree_ok 0 (Leaf _) = True"
| "ftree_ok (Suc n) (Node l t0 t1) = (length l = 2 ^ Suc n \<and> ftree_ok n t0 \<and> ftree_ok n t1)"
| "ftree_ok _ _ = False"

lemma ffldl_ok: "ftree_ok n (ffldl R n G)"
  by (induction n arbitrary: G) (auto simp: ldl_def Let_def split: prod.splits)

lemma normalize_tree_ok: "ftree_ok n t \<Longrightarrow> ftree_ok n (normalize_tree R sigma t)"
  by (induction n t rule: ftree_ok.induct) auto

end
