(* ===== verification/Falcon_Ring.thy ===== *)
theory Falcon_Ring
  imports Falcon_Bignum
begin

text \<open>
  The ring \<open>Z[x]/(x^n + 1)\<close> as functions on the integers that change sign over a period of \<open>n\<close>: products are cyclic sums, which
  makes associativity a change of the order of summation. Even and odd parts give the field norm and the lifting between
  \<open>x^(n/2) + 1\<close> and \<open>x^n + 1\<close>, on which the key generation of Falcon rests.
\<close>

definition antiper :: "nat \<Rightarrow> (int \<Rightarrow> int) \<Rightarrow> bool" where
  "antiper n p \<longleftrightarrow> (\<forall>i. p (i + int n) = - p i)"

definition mulf :: "nat \<Rightarrow> (int \<Rightarrow> int) \<Rightarrow> (int \<Rightarrow> int) \<Rightarrow> int \<Rightarrow> int" where
  "mulf n p q k = (\<Sum>i\<in>{0..<int n}. p i * q (k - i))"

text \<open>A list of \<open>n\<close> coefficients as such a function.\<close>

definition ext :: "nat \<Rightarrow> int list \<Rightarrow> int \<Rightarrow> int" where
  "ext n xs i = (if even (i div int n) then xs ! nat (i mod int n) else - (xs ! nat (i mod int n)))"

section \<open>Periodic sums\<close>

lemma antiperD: "antiper n p \<Longrightarrow> p (i + int n) = - p i" "antiper n p \<Longrightarrow> p (i - int n) = - p i"
proof -
  assume p: "antiper n p"
  show "p (i + int n) = - p i"
    using p by (simp add: antiper_def)
  have "p (i - int n + int n) = - p (i - int n)"
    using p unfolding antiper_def by blast
  then show "p (i - int n) = - p i"
    by simp
qed

lemma sum_period:
  assumes "\<And>i. h (i + int n) = (h i :: int)"
  shows "(\<Sum>i\<in>{a..<a + int n}. h i) = (\<Sum>i\<in>{0..<int n}. h i)"
proof -
  have step: "(\<Sum>i\<in>{b + 1..<b + 1 + int n}. h i) = (\<Sum>i\<in>{b..<b + int n}. h i)" for b
  proof (cases "n = 0")
    case False
    have l: "{b..<b + int n} = insert b {b + 1..<b + int n}"
      and r: "{b + 1..<b + 1 + int n} = insert (b + int n) {b + 1..<b + int n}"
      using False by auto
    show ?thesis
      unfolding l r by (simp add: assms)
  qed simp
  show ?thesis
  proof (induction a rule: int_induct [of _ 0])
    case (step1 i)
    then show ?case
      using step [of i] by simp
  next
    case (step2 i)
    then show ?case
      using step [of "i - 1"] by simp
  qed simp
qed

lemma mulf_period:
  assumes "antiper n p" "antiper n q"
  shows "mulf n p q k = (\<Sum>i\<in>{a..<a + int n}. p i * q (k - i))"
  unfolding mulf_def
proof (rule sum_period [symmetric])
  fix i
  have "q (k - (i + int n)) = - q (k - i)"
    using antiperD(2) [OF assms(2), of "k - i"] by (simp add: algebra_simps)
  then show "p (i + int n) * q (k - (i + int n)) = p i * q (k - i)"
    using antiperD(1) [OF assms(1), of i] by simp
qed

lemma mulf_comm:
  assumes "antiper n p" "antiper n q"
  shows "mulf n p q = mulf n q p"
proof
  fix k
  have "mulf n p q k = (\<Sum>i\<in>{k - int n + 1..<k - int n + 1 + int n}. p i * q (k - i))"
    by (rule mulf_period [OF assms])
  also have "\<dots> = (\<Sum>j\<in>{0..<int n}. q j * p (k - j))"
    by (rule sum.reindex_bij_witness [of _ "\<lambda>j. k - j" "\<lambda>i. k - i"]) auto
  finally show "mulf n p q k = mulf n q p k"
    by (simp add: mulf_def)
qed

lemma antiper_mulf: "antiper n q \<Longrightarrow> antiper n (mulf n p q)"
proof -
  assume q: "antiper n q"
  have "q (k + int n - i) = - q (k - i)" for k i
    using antiperD(1) [OF q, of "k - i"] by (simp add: algebra_simps)
  then show ?thesis
    by (simp add: antiper_def mulf_def sum_negf)
qed

lemma mulf_assoc:
  assumes "antiper n p" "antiper n q" "antiper n r"
  shows "mulf n (mulf n p q) r = mulf n p (mulf n q r)"
proof
  fix k
  have "mulf n (mulf n p q) r k = (\<Sum>m\<in>{0..<int n}. \<Sum>i\<in>{0..<int n}. p i * q (m - i) * r (k - m))"
    by (simp add: mulf_def sum_distrib_right)
  also have "\<dots> = (\<Sum>i\<in>{0..<int n}. \<Sum>m\<in>{0..<int n}. p i * q (m - i) * r (k - m))"
    by (rule sum.swap)
  also have "\<dots> = (\<Sum>i\<in>{0..<int n}. p i * mulf n q r (k - i))"
  proof (rule sum.cong [OF refl])
    fix i
    have "mulf n q r (k - i) = (\<Sum>j\<in>{- i..<- i + int n}. q j * r (k - i - j))"
      by (rule mulf_period [OF assms(2,3)])
    also have "\<dots> = (\<Sum>m\<in>{0..<int n}. q (m - i) * r (k - m))"
      by (rule sum.reindex_bij_witness [of _ "\<lambda>m. m - i" "\<lambda>j. j + i"]) (auto simp: algebra_simps)
    finally show "(\<Sum>m\<in>{0..<int n}. p i * q (m - i) * r (k - m)) = p i * mulf n q r (k - i)"
      by (simp add: sum_distrib_left mult.assoc)
  qed
  finally show "mulf n (mulf n p q) r k = mulf n p (mulf n q r) k"
    by (simp add: mulf_def)
qed

lemma mulf_linear:
  "mulf n p (\<lambda>i. q i - c * r i) k = mulf n p q k - c * mulf n p r k"
  "mulf n p (\<lambda>i. c * r i) k = c * mulf n p r k"
  "mulf n p (\<lambda>i. q i - r i) k = mulf n p q k - mulf n p r k"
  by (simp_all add: mulf_def algebra_simps sum_subtractf sum_distrib_left)

section \<open>Coefficient lists\<close>

lemma antiper_ext: "0 < n \<Longrightarrow> antiper n (ext n xs)"
  by (auto simp: antiper_def ext_def div_add_self2)

lemma ext_nth [simp]: "i < n \<Longrightarrow> ext n xs (int i) = xs ! i"
  by (simp add: ext_def)

lemma antiper_eqI:
  assumes "antiper n p" "antiper n q" "0 < n" and eq: "\<And>i. i < n \<Longrightarrow> p (int i) = q (int i)"
  shows "p = q"
proof
  fix i
  have shift: "f (int j + int n * c) = (if even c then f (int j) else - f (int j))" if "antiper n f" for f j c
  proof (induction c rule: int_induct [of _ 0])
    case (step1 c)
    then show ?case
      using antiperD(1) [OF that, of "int j + int n * c"] by (auto simp: algebra_simps)
  next
    case (step2 c)
    then show ?case
      using antiperD(2) [OF that, of "int j + int n * c"] by (auto simp: algebra_simps)
  qed simp
  have "i = int (nat (i mod int n)) + int n * (i div int n)" "nat (i mod int n) < n"
    using assms(3) by (simp_all add: nat_less_iff)
  then show "p i = q i"
    using shift [OF assms(1), of "nat (i mod int n)" "i div int n"]
      shift [OF assms(2), of "nat (i mod int n)" "i div int n"] eq [of "nat (i mod int n)"] by simp
qed

lemma ext_eqI: "antiper n p \<Longrightarrow> 0 < n \<Longrightarrow> (\<And>i. i < n \<Longrightarrow> xs ! i = p (int i)) \<Longrightarrow> ext n xs = p"
  by (rule antiper_eqI) (auto simp: antiper_ext)

lemma ext_neg: "0 < n \<Longrightarrow> i < n \<Longrightarrow> ext n xs (int i - int n) = - (xs ! i)"
  using antiperD(2) [OF antiper_ext, of n xs "int i"] by simp

lemma int_negacyclic_mulf:
  assumes "k < n"
  shows "int_negacyclic n a b k = mulf n (ext n a) (ext n b) (int k)"
proof -
  have inner: "(\<Sum>j<n. if i + j = k then a ! i * b ! j else if i + j = k + n then - (a ! i * b ! j) else 0)
      = a ! i * ext n b (int k - int i)" if "i < n" for i
  proof (cases "i \<le> k")
    case True
    have "(\<Sum>j<n. if i + j = k then a ! i * b ! j else if i + j = k + n then - (a ! i * b ! j) else 0)
        = (\<Sum>j<n. if j = k - i then a ! i * b ! j else 0)"
      using True that assms by (intro sum.cong) auto
    also have "\<dots> = a ! i * b ! (k - i)"
      using assms less_imp_diff_less [OF assms, of i] by simp
    also have "b ! (k - i) = ext n b (int (k - i))"
      using assms by (intro ext_nth [symmetric]) simp
    finally show ?thesis
      using True by (simp add: of_nat_diff)
  next
    case False
    have "(\<Sum>j<n. if i + j = k then a ! i * b ! j else if i + j = k + n then - (a ! i * b ! j) else 0)
        = (\<Sum>j<n. if j = k + n - i then - (a ! i * b ! j) else 0)"
      using False that assms by (intro sum.cong) auto
    also have "\<dots> = - (a ! i * b ! (k + n - i))"
    proof -
      have "k + n - i < n"
        using False that by simp
      then show ?thesis
        by simp
    qed
    also have "b ! (k + n - i) = - ext n b (int (k + n - i) - int n)"
      using False that ext_neg [of n "k + n - i" b] by simp
    finally show ?thesis
      using that by (simp add: of_nat_diff)
  qed
  have "int_negacyclic n a b k = (\<Sum>i<n. a ! i * ext n b (int k - int i))"
    unfolding int_negacyclic_def by (rule sum.cong) (simp_all add: inner)
  also have "\<dots> = (\<Sum>i\<in>{0..<int n}. ext n a i * ext n b (int k - i))"
    by (rule sum.reindex_bij_witness [of _ nat int]) auto
  finally show ?thesis
    by (simp add: mulf_def)
qed

lemma length_karamul [simp]: "length (karamul k a b) = 2 ^ k"
  by (simp add: karamul_def Let_def)

lemma karamul_eq:
  assumes "length a = 2 ^ k" "length b = 2 ^ k"
  shows "karamul k a b = map (int_negacyclic (2 ^ k) a b) [0..<2 ^ k]"
  by (rule karamul_negacyclic [OF assms])

lemma ext_karamul:
  assumes "length a = 2 ^ k" "length b = 2 ^ k"
  shows "ext (2 ^ k) (karamul k a b) = mulf (2 ^ k) (ext (2 ^ k) a) (ext (2 ^ k) b)"
  by (rule ext_eqI) (simp_all add: karamul_eq [OF assms] int_negacyclic_mulf antiper_mulf antiper_ext)

section \<open>Even and odd parts\<close>

definition evenp :: "(int \<Rightarrow> int) \<Rightarrow> int \<Rightarrow> int" where
  "evenp p i = p (2 * i)"

definition oddp :: "(int \<Rightarrow> int) \<Rightarrow> int \<Rightarrow> int" where
  "oddp p i = p (2 * i + 1)"

definition conjf :: "(int \<Rightarrow> int) \<Rightarrow> int \<Rightarrow> int" where
  "conjf p i = (if even i then p i else - p i)"

definition liftf :: "(int \<Rightarrow> int) \<Rightarrow> int \<Rightarrow> int" where
  "liftf p i = (if even i then p (i div 2) else 0)"

lemma parts_eqI: "evenp p = evenp q \<Longrightarrow> oddp p = oddp q \<Longrightarrow> p = q"
proof
  fix i
  assume eq: "evenp p = evenp q" "oddp p = oddp q"
  show "p i = q i"
  proof (cases "even i")
    case True
    then show ?thesis
      using fun_cong [OF eq(1), of "i div 2"] by (simp add: evenp_def)
  next
    case False
    then show ?thesis
      using fun_cong [OF eq(2), of "i div 2"] by (simp add: oddp_def)
  qed
qed

lemma parts_simps:
  "evenp (conjf p) = evenp p" "oddp (conjf p) = (\<lambda>i. - oddp p i)" "evenp (liftf p) = p" "oddp (liftf p) = (\<lambda>_. 0)"
  by (auto simp: evenp_def oddp_def conjf_def liftf_def fun_eq_iff)

lemma antiper_parts:
  assumes "antiper (2 * h) p"
  shows "antiper h (evenp p)" "antiper h (oddp p)"
proof -
  have "p (2 * (i + int h)) = - p (2 * i)" "p (2 * (i + int h) + 1) = - p (2 * i + 1)" for i
    using antiperD(1) [OF assms, of "2 * i"] antiperD(1) [OF assms, of "2 * i + 1"] by (simp_all add: algebra_simps)
  then show "antiper h (evenp p)" "antiper h (oddp p)"
    by (simp_all add: antiper_def evenp_def oddp_def)
qed

lemma antiper_lift: "antiper h p \<Longrightarrow> antiper (2 * h) (liftf p)"
  by (auto simp: antiper_def liftf_def)

lemma antiper_conj: "antiper (2 * h) p \<Longrightarrow> antiper (2 * h) (conjf p)"
  by (auto simp: antiper_def conjf_def)

lemma sum_parts: "(\<Sum>i\<in>{0..<int (2 * h)}. g i) = (\<Sum>i\<in>{0..<int h}. g (2 * i)) + (\<Sum>i\<in>{0..<int h}. g (2 * i + 1) :: int)"
proof (induction h)
  case (Suc h)
  have s: "{0..<int (2 * Suc h)} = insert (2 * int h + 1) (insert (2 * int h) {0..<int (2 * h)})"
    "{0..<int (Suc h)} = insert (int h) {0..<int h}"
    by auto
  show ?case
    unfolding s using Suc by simp
qed simp

lemma mulf_parts:
  "evenp (mulf (2 * h) p q) = (\<lambda>m. mulf h (evenp p) (evenp q) m + mulf h (oddp p) (oddp q) (m - 1))"
  "oddp (mulf (2 * h) p q) = (\<lambda>m. mulf h (evenp p) (oddp q) m + mulf h (oddp p) (evenp q) m)"
  unfolding fun_eq_iff evenp_def oddp_def mulf_def sum_parts by (auto simp: algebra_simps)

lemma mulf_zero [simp]: "mulf n p (\<lambda>_. 0) k = 0" "mulf n (\<lambda>_. 0) q k = 0"
  by (simp_all add: mulf_def)

lemma mulf_minus: "mulf n p (\<lambda>i. - q i) k = - mulf n p q k"
  by (simp add: mulf_def sum_negf)

lemma mulf_lift: "mulf (2 * h) (liftf p) (liftf q) = liftf (mulf h p q)"
  by (rule parts_eqI) (simp_all add: mulf_parts parts_simps)

text \<open>The product of a polynomial with its conjugate \<open>p(-x)\<close> has only even powers: it is lifted from the field norm.\<close>

definition normf :: "nat \<Rightarrow> (int \<Rightarrow> int) \<Rightarrow> int \<Rightarrow> int" where
  "normf h p m = mulf h (evenp p) (evenp p) m - mulf h (oddp p) (oddp p) (m - 1)"

lemma mulf_conj:
  assumes "antiper (2 * h) p"
  shows "mulf (2 * h) p (conjf p) = liftf (normf h p)"
proof (rule parts_eqI)
  show "evenp (mulf (2 * h) p (conjf p)) = evenp (liftf (normf h p))"
    by (simp add: mulf_parts parts_simps mulf_minus normf_def fun_eq_iff)
  show "oddp (mulf (2 * h) p (conjf p)) = oddp (liftf (normf h p))"
    using mulf_comm [OF antiper_parts [OF assms]] by (simp add: mulf_parts parts_simps mulf_minus)
qed

lemma antiper_norm: "antiper (2 * h) p \<Longrightarrow> antiper h (normf h p)"
proof -
  assume p: "antiper (2 * h) p"
  have "antiper h (mulf h (evenp p) (evenp p))" "antiper h (mulf h (oddp p) (oddp p))"
    using antiper_mulf antiper_parts [OF p] by blast+
  then show ?thesis
    unfolding antiper_def normf_def by (simp add: diff_add_eq [symmetric])
qed

text \<open>A solution over \<open>x^(h) + 1\<close> of the norms lifts to a solution over \<open>x^(2h) + 1\<close>.\<close>

lemma lift_solution:
  assumes fg: "antiper (2 * h) f" "antiper (2 * h) g" and FG: "antiper h F" "antiper h G"
    and sol: "\<And>k. mulf h (normf h f) G k - mulf h (normf h g) F k = e k"
  shows "mulf (2 * h) f (mulf (2 * h) (liftf G) (conjf f)) k - mulf (2 * h) g (mulf (2 * h) (liftf F) (conjf g)) k = liftf e k"
proof -
  have one: "mulf (2 * h) f (mulf (2 * h) (liftf G) (conjf f)) = liftf (mulf h (normf h f) G)"
    if f: "antiper (2 * h) f" and G: "antiper h G" for f G
  proof -
    have "mulf (2 * h) f (mulf (2 * h) (liftf G) (conjf f)) = mulf (2 * h) f (mulf (2 * h) (conjf f) (liftf G))"
      using mulf_comm [OF antiper_lift [OF G] antiper_conj [OF f]] by simp
    also have "\<dots> = mulf (2 * h) (mulf (2 * h) f (conjf f)) (liftf G)"
      by (rule mulf_assoc [symmetric, OF f antiper_conj [OF f] antiper_lift [OF G]])
    finally show ?thesis
      by (simp add: mulf_conj [OF f] mulf_lift)
  qed
  show ?thesis
    using sol by (simp add: one [OF fg(1) FG(2)] one [OF fg(2) FG(1)] liftf_def)
qed

text \<open>Subtracting the same multiple of \<open>f\<close> from \<open>F\<close> and of \<open>g\<close> from \<open>G\<close> does not change \<open>f G - g F\<close>.\<close>

lemma reduce_solution:
  assumes "antiper n f" "antiper n g" "antiper n r"
  shows "mulf n f (\<lambda>i. G i - c * mulf n g r i) k - mulf n g (\<lambda>i. F i - c * mulf n f r i) k = mulf n f G k - mulf n g F k"
proof -
  have "mulf n f (mulf n g r) = mulf n (mulf n f g) r"
    by (rule mulf_assoc [symmetric, OF assms])
  also have "\<dots> = mulf n (mulf n g f) r"
    by (simp add: mulf_comm [OF assms(1,2)])
  also have "\<dots> = mulf n g (mulf n f r)"
    by (rule mulf_assoc [OF assms(2,1,3)])
  finally show ?thesis
    by (simp add: mulf_linear)
qed

end
