(* ===== verification/Falcon_Field.thy ===== *)
theory Falcon_Field
  imports Prelude
begin

unbundle bit_operations_syntax

text \<open>
  The field of 12289 elements that Falcon computes in (\<open>vendors/includes/falcon/ff.hpp\<close>): addition and negation with one conditional
  subtraction, multiplication with a Barrett reduction, inversion by the extended Euclidean algorithm in 16-bit integers, and
  powers by repeated squaring, against arithmetic modulo 12289.
\<close>

section \<open>Elements\<close>

type_synonym ff_t = u16

definition FQ :: u16 where
  "FQ = 12289"

definition FR :: u16 where
  "FR = 21843"

definition ff_new :: "u16 \<Rightarrow> ff_t" where
  "ff_new v = (if v < FQ then v else v mod FQ)"

definition ff_add :: "ff_t \<Rightarrow> ff_t \<Rightarrow> ff_t" where
  "ff_add a b =
     (let t0 = a + b; t1 = t0 - (if t0 \<ge> FQ then FQ else 0) in ff_new t1)"

definition ff_neg :: "ff_t \<Rightarrow> ff_t" where
  "ff_neg a = ff_new (FQ - a)"

definition ff_sub :: "ff_t \<Rightarrow> ff_t \<Rightarrow> ff_t" where
  "ff_sub a b = ff_add a (ff_neg b)"

definition ff_mul :: "ff_t \<Rightarrow> ff_t \<Rightarrow> ff_t" where
  "ff_mul a b =
     (let t2 = ucast a * ucast b :: u32;
          t3 = ucast t2 * ucast FR :: u64;
          t4 = ucast (drop_bit 28 t3) :: u32;
          t5 = t4 * ucast FQ;
          t6 = ucast (t2 - t5) :: u16;
          t7 = t6 - (if t6 \<ge> FQ then FQ else 0)
      in ff_new t7)"

text \<open>
  The extended Euclidean algorithm. Its arguments are below \<open>2 ^ 15\<close> at the only call, so that the remainders are never negative and
  fit \<open>int16_t\<close>; the coefficients are converted to \<open>int16_t\<close> at every assignment.
\<close>

definition i16 :: "int \<Rightarrow> int" where
  "i16 x = (x + 2 ^ 15) mod 2 ^ 16 - 2 ^ 15"

function xgcd_loop :: "nat \<Rightarrow> nat \<Rightarrow> int \<Rightarrow> int \<Rightarrow> int \<Rightarrow> int \<Rightarrow> int \<times> int \<times> nat" where
  "xgcd_loop old_r r old_s s old_t t =
     (if r = 0 then (old_s, old_t, old_r)
      else let quotient = old_r div r
           in xgcd_loop r (old_r - quotient * r) s (i16 (old_s - int quotient * s)) t (i16 (old_t - int quotient * t)))"
  by pat_completeness auto
termination
  by (relation "measure (\<lambda>(old_r, r, _). r)") (auto simp: minus_div_mult_eq_mod)

definition xgcd :: "u16 \<Rightarrow> u16 \<Rightarrow> int \<times> int \<times> nat" where
  "xgcd x y = xgcd_loop (unat x) (unat y) 1 0 0 1"

definition ff_inv :: "ff_t \<Rightarrow> ff_t" where
  "ff_inv a =
     (let flg0 = (a = 0);
          t0 = a + (if flg0 then 1 else 0);
          (s, _, _) = xgcd t0 FQ;
          t1 = word_of_int ((if s < 0 then uint FQ else 0) + s) :: u16;
          t2 = t1 - (if t1 \<ge> FQ then FQ else 0);
          t3 = t2 - (if flg0 then 1 else 0)
      in ff_new t3)"

definition ff_div :: "ff_t \<Rightarrow> ff_t \<Rightarrow> ff_t" where
  "ff_div a b = ff_mul a (ff_inv b)"

text \<open>\<open>64 - std::countl_zero(n)\<close>.\<close>

fun bit_width :: "nat \<Rightarrow> nat" where
  "bit_width n = (if n = 0 then 0 else bit_width (n div 2) + 1)"

definition ff_pow :: "ff_t \<Rightarrow> u64 \<Rightarrow> ff_t" where
  "ff_pow a n =
     snd (fold (\<lambda>i (base, res). let base = ff_mul base base in (base, ff_mul res (if bit n i then base else 1)))
       [1..<bit_width (unat n)] (a, if bit n 0 then a else 1))"

section \<open>Arithmetic modulo 12289\<close>

text \<open>A canonical element.\<close>

definition ff_ok :: "ff_t \<Rightarrow> bool" where
  "ff_ok a \<longleftrightarrow> unat a < 12289"

lemma unat_FQ [simp]: "unat FQ = 12289"
  by (simp add: FQ_def)

lemma uint_FQ: "uint FQ = 12289"
  by (simp add: FQ_def)

lemma unat_ff_new [simp]: "unat (ff_new v) = unat v mod 12289"
  by (simp add: ff_new_def word_less_nat_alt unat_mod)

lemma ff_ok_new [simp]: "ff_ok (ff_new v)"
  by (simp add: ff_ok_def)

lemma ff_ok_ops [simp]: "ff_ok (ff_add a b)" "ff_ok (ff_neg a)" "ff_ok (ff_sub a b)" "ff_ok (ff_mul a b)" "ff_ok (ff_inv a)"
  by (simp_all add: ff_add_def ff_neg_def ff_sub_def ff_mul_def ff_inv_def Let_def split: prod.split)

lemma unat_ucast_mod: "unat (ucast w :: 'b::len word) = unat w mod 2 ^ LENGTH('b)" for w :: "'a::len word"
  by (simp add: unsigned_ucast_eq take_bit_eq_mod)

text \<open>One conditional subtraction reduces every number below twice the modulus.\<close>

lemma unat_conditional_sub:
  "unat t < 2 * 12289 \<Longrightarrow> unat (ff_new (t - (if t \<ge> FQ then FQ else 0))) = unat t mod 12289" for t :: u16
  by (simp add: word_le_nat_alt unat_sub le_mod_geq)

lemma unat_ff_add: "ff_ok a \<Longrightarrow> ff_ok b \<Longrightarrow> unat (ff_add a b) = (unat a + unat b) mod 12289"
proof -
  assume "ff_ok a" "ff_ok b"
  then have "unat (a + b) = unat a + unat b"
    by (simp add: ff_ok_def unat_word_ariths)
  then show ?thesis
    using unat_conditional_sub [of "a + b"] \<open>ff_ok a\<close> \<open>ff_ok b\<close> by (simp add: ff_add_def Let_def ff_ok_def)
qed

lemma unat_ff_neg: "ff_ok a \<Longrightarrow> unat (ff_neg a) = (12289 - unat a) mod 12289"
  by (simp add: ff_neg_def ff_ok_def unat_sub word_le_nat_alt)

lemma unat_ff_sub: "ff_ok a \<Longrightarrow> ff_ok b \<Longrightarrow> unat (ff_sub a b) = (unat a + (12289 - unat b)) mod 12289"
  by (simp add: ff_sub_def unat_ff_add unat_ff_neg mod_simps)

text \<open>The Barrett reduction leaves less than twice the modulus.\<close>

lemma barrett:
  fixes t :: nat
  assumes "t \<le> 12288 * 12288"
  shows "(t * 21843) div 2 ^ 28 * 12289 \<le> t" "t - (t * 21843) div 2 ^ 28 * 12289 < 2 * 12289"
proof -
  define k where "k = (t * 21843) div 2 ^ 28"
  have lower: "k * 2 ^ 28 \<le> t * 21843"
    unfolding k_def by (rule div_times_less_eq_dividend)
  have upper: "t * 21843 < 2 ^ 28 + k * 2 ^ 28"
    unfolding k_def by (rule dividend_less_div_times) simp
  show "k * 12289 \<le> t" "t - k * 12289 < 2 * 12289"
    using lower upper assms by simp_all
qed

lemma unat_ff_mul: "ff_ok a \<Longrightarrow> ff_ok b \<Longrightarrow> unat (ff_mul a b) = (unat a * unat b) mod 12289"
proof -
  assume ok: "ff_ok a" "ff_ok b"
  define t2 where "t2 = (ucast a * ucast b :: u32)"
  define t where "t = unat a * unat b"
  have t: "t \<le> 12288 * 12288"
    using ok unfolding t_def ff_ok_def by (intro mult_le_mono) simp_all
  have t2: "unat t2 = t"
    using t ok by (simp add: t2_def t_def ff_ok_def unat_word_ariths unat_ucast_mod)
  have t3: "unat (ucast t2 * ucast FR :: u64) = t * 21843"
    using t by (simp add: unat_word_ariths unat_ucast_mod t2 FR_def)
  define k where "k = (t * 21843) div 2 ^ 28"
  have k: "k * 12289 \<le> t" "t - k * 12289 < 2 * 12289"
    using barrett [OF t] by (simp_all add: k_def)
  define t4 where "t4 = (ucast (drop_bit 28 (ucast t2 * ucast FR :: u64)) :: u32)"
  have "unat (drop_bit 28 (ucast t2 * ucast FR :: u64)) = k"
    by (simp only: unat_drop_bit_eq t3) (simp add: drop_bit_eq_div k_def)
  then have t4: "unat t4 = k"
    using k(1) t unfolding t4_def by (simp only: unat_ucast_mod) simp
  define t5 where "t5 = t4 * ucast FQ"
  have t5: "unat t5 = k * 12289"
    using k(1) t by (simp add: t5_def unat_word_ariths t4 unat_ucast_mod)
  have "unat (ucast (t2 - t5) :: u16) = t - k * 12289"
    using k by (simp add: unat_ucast_mod unat_sub word_le_nat_alt t2 t5)
  then have "unat (ff_mul a b) = (t - k * 12289) mod 12289"
    using unat_conditional_sub [of "ucast (t2 - t5)"] k(2) by (simp add: ff_mul_def Let_def t5_def t4_def t2_def)
  also have "\<dots> = t mod 12289"
    using k(1) by (metis mod_mult_self1 le_add_diff_inverse2 mult.commute)
  finally show ?thesis
    by (simp add: t_def)
qed

section \<open>Inversion\<close>

text \<open>
  The invariant of the loop: the Bezout equations, and that the coefficients alternate in sign and stay below the arguments, so that no
  conversion to \<open>int16_t\<close> changes a value.
\<close>

definition xgcd_inv :: "nat \<Rightarrow> nat \<Rightarrow> nat \<Rightarrow> nat \<Rightarrow> int \<Rightarrow> int \<Rightarrow> int \<Rightarrow> int \<Rightarrow> bool" where
  "xgcd_inv x y old_r r old_s s old_t t \<longleftrightarrow>
     old_s * int x + old_t * int y = int old_r \<and> s * int x + t * int y = int r \<and>
     \<bar>s\<bar> * int old_r + \<bar>old_s\<bar> * int r = int y \<and> \<bar>t\<bar> * int old_r + \<bar>old_t\<bar> * int r = int x \<and>
     s * old_s \<le> 0 \<and> t * old_t \<le> 0 \<and> \<bar>old_s\<bar> \<le> int y \<and> gcd old_r r = gcd x y \<and> old_r > 0"

lemma i16_small: "\<bar>x\<bar> < 2 ^ 15 \<Longrightarrow> i16 x = x"
  by (simp add: i16_def)

lemma abs_diff_opposite: "a * b \<le> 0 \<Longrightarrow> 0 \<le> q \<Longrightarrow> \<bar>b - q * a\<bar> = \<bar>b\<bar> + q * \<bar>a\<bar>" for a b q :: int
proof -
  assume ab: "a * b \<le> 0" and q: "0 \<le> q"
  then consider "a = 0" | "a > 0" "b \<le> 0" | "a < 0" "b \<ge> 0"
    by (fastforce simp: mult_le_0_iff)
  then show ?thesis
  proof cases
    case 2
    then have "0 \<le> q * a"
      using q by simp
    then show ?thesis
      using 2 by simp
  next
    case 3
    then have "q * a \<le> 0"
      using q by (simp add: mult_nonneg_nonpos)
    then show ?thesis
      using 3 by simp
  qed simp
qed

lemma coefficient_step:
  fixes s old_s :: int
  assumes "\<bar>s\<bar> * int old_r + \<bar>old_s\<bar> * int r = int y" and "s * old_s \<le> 0" and "r > 0" and "y < 2 ^ 15" and "q * r \<le> old_r"
    and s': "s' = old_s - int q * s"
  shows "\<bar>s'\<bar> * int r + \<bar>s\<bar> * int (old_r - q * r) = int y" "s' * s \<le> 0" "i16 s' = s'"
proof -
  have abs: "\<bar>s'\<bar> = \<bar>old_s\<bar> + int q * \<bar>s\<bar>"
    unfolding s' using assms(2) by (intro abs_diff_opposite) simp_all
  show sum: "\<bar>s'\<bar> * int r + \<bar>s\<bar> * int (old_r - q * r) = int y"
    using assms(1,5) by (simp add: abs of_nat_diff algebra_simps)
  show "s' * s \<le> 0"
    using assms(2) by (simp add: s' left_diff_distrib mult.commute [of old_s s] mult.assoc) (smt (verit) mult_nonneg_nonneg of_nat_0_le_iff zero_le_square)
  have "\<bar>s'\<bar> * 1 \<le> \<bar>s'\<bar> * int r"
    using assms(3) by (intro mult_left_mono) simp_all
  also have "\<dots> \<le> int y"
    using sum by (smt (verit) abs_ge_zero mult_nonneg_nonneg of_nat_0_le_iff)
  finally show "i16 s' = s'"
    using assms(4) by (intro i16_small) simp
qed

lemma xgcd_inv_step:
  assumes inv: "xgcd_inv x y old_r r old_s s old_t t" and r: "r > 0" and "x < 2 ^ 15" and "y < 2 ^ 15"
  defines "q \<equiv> old_r div r"
  shows "xgcd_inv x y r (old_r - q * r) s (i16 (old_s - int q * s)) t (i16 (old_t - int q * t))"
proof -
  have q: "q * r \<le> old_r"
    by (simp add: q_def)
  note I = inv [unfolded xgcd_inv_def]
  note S = coefficient_step [OF _ _ r assms(4) q refl, of s old_s] and T = coefficient_step [OF _ _ r assms(3) q refl, of t old_t]
  have "\<bar>s\<bar> * 1 \<le> \<bar>s\<bar> * int old_r"
    using I by (intro mult_left_mono) simp_all
  then have "\<bar>s\<bar> \<le> int y"
    using I by (smt (verit) abs_ge_zero mult_nonneg_nonneg of_nat_0_le_iff)
  moreover have "gcd r (old_r - q * r) = gcd x y"
    using I by (simp add: q_def minus_div_mult_eq_mod gcd_red_nat [of old_r r])
  moreover have "(old_s - int q * s) * int x + (old_t - int q * t) * int y = int (old_r - q * r)"
  proof -
    have "(old_s - int q * s) * int x + (old_t - int q * t) * int y = int old_r - int q * int r"
    proof -
      have "(old_s - int q * s) * int x + (old_t - int q * t) * int y
          = (old_s * int x + old_t * int y) - int q * (s * int x + t * int y)"
        by (simp add: algebra_simps)
      then show ?thesis
        using I by simp
    qed
    then show ?thesis
      using q by (simp add: of_nat_diff)
  qed
  ultimately show ?thesis
    using I S T r unfolding xgcd_inv_def by simp
qed

lemma xgcd_loop_inv:
  assumes "xgcd_inv x y old_r r old_s s old_t t" and "x < 2 ^ 15" and "y < 2 ^ 15"
  shows "\<exists>a b. xgcd_loop old_r r old_s s old_t t = (a, b, gcd x y) \<and> a * int x + b * int y = int (gcd x y) \<and> \<bar>a\<bar> \<le> int y"
  using assms
proof (induction old_r r old_s s old_t t rule: xgcd_loop.induct)
  case (1 old_r r old_s s old_t t)
  show ?case
  proof (cases "r = 0")
    case True
    then show ?thesis
      using 1(2) by (simp add: xgcd_inv_def)
  next
    case False
    then show ?thesis
      using "1.IH" [OF False refl xgcd_inv_step [OF 1(2) _ 1(3,4)]] 1(3,4) by (subst xgcd_loop.simps) (simp add: Let_def)
  qed
qed

declare xgcd_loop.simps [simp del]

lemma coprime_12289:
  assumes "0 < x" and "x < 12289"
  shows "gcd x 12289 = (1 :: nat)"
proof (rule ccontr)
  define g where "g = gcd x 12289"
  assume "gcd x 12289 \<noteq> 1"
  moreover have "g dvd 12289" "g \<le> x" "g > 0"
    using assms by (simp_all add: g_def gcd_le1_nat)
  moreover obtain h where h: "12289 = g * h"
    using \<open>g dvd 12289\<close> by (elim dvdE)
  ultimately have g: "1 < g" "g < 12289"
    using assms unfolding g_def by linarith+
  have "h \<noteq> 0" "h \<noteq> 1"
    using h g by (intro notI; simp)+
  then have "1 < h"
    by linarith
  have "g \<le> 110 \<or> h \<le> 110"
    using h mult_le_mono [of 111 g 111 h] by linarith
  moreover have "h dvd 12289"
    unfolding h by (rule dvd_triv_right)
  ultimately obtain d :: nat where "d dvd 12289" "1 < d" "d \<le> 110"
    using \<open>g dvd 12289\<close> g(1) \<open>1 < h\<close> by blast
  moreover have "list_all (\<lambda>d. 12289 mod d \<noteq> 0) [2..110 :: int]"
    by code_simp
  note all = this [unfolded list_all_iff set_upto, rule_format]
  have "12289 mod int d \<noteq> 0" if "1 < d" "d \<le> 110" for d
    by (rule all) (use that in simp)
  ultimately show False
    by (metis dvd_imp_mod_0 of_nat_numeral of_nat_dvd_iff)
qed

lemma xgcd_canonical:
  assumes "ff_ok a" and "a \<noteq> 0"
  shows "\<exists>s t. xgcd a FQ = (s, t, 1) \<and> s * int (unat a) + t * 12289 = 1 \<and> \<bar>s\<bar> \<le> 12289"
proof -
  have "xgcd_inv (unat a) 12289 (unat a) 12289 1 0 0 1"
    using assms by (simp add: xgcd_inv_def unat_gt_0)
  then show ?thesis
    using xgcd_loop_inv [of "unat a" 12289 "unat a" 12289 1 0 0 1] coprime_12289 [of "unat a"] assms
    by (simp add: xgcd_def ff_ok_def unat_gt_0)
qed

text \<open>Inversion: the product of an element other than zero and its inverse is one; zero is mapped to zero.\<close>

lemma unat_ff_inv:
  assumes "ff_ok a" and "a \<noteq> 0"
  shows "(unat a * unat (ff_inv a)) mod 12289 = 1"
proof -
  obtain s t where st: "xgcd a FQ = (s, t, 1)" "s * int (unat a) + t * 12289 = 1" "\<bar>s\<bar> \<le> 12289"
    using xgcd_canonical [OF assms] by blast
  define u where "u = (if s < 0 then 12289 else 0) + s"
  have u: "0 \<le> u" "u \<le> 12289"
    using st(3) unfolding u_def by (cases "s < 0"; simp)+
  define t1 where "t1 = (word_of_int u :: u16)"
  have t1: "int (unat t1) = u"
    using u by (simp add: t1_def unat_eq_nat_uint uint_word_of_int)
  have "ff_inv a = ff_new (t1 - (if t1 \<ge> FQ then FQ else 0))"
    using assms(2) by (simp add: ff_inv_def st(1) t1_def u_def uint_FQ Let_def)
  then have "unat (ff_inv a) = unat t1 mod 12289"
    using unat_conditional_sub [of t1] t1 u by simp
  then have "int ((unat a * unat (ff_inv a)) mod 12289) = (int (unat a) * u) mod 12289"
    using t1 by (simp add: zmod_int mod_simps)
  also have "\<dots> = (int (unat a) * s) mod 12289"
    by (simp add: u_def distrib_left)
  also have "\<dots> = (1 - t * 12289) mod 12289"
  proof -
    have "int (unat a) * s = 1 - t * 12289"
      using st(2) by (simp add: mult.commute [of s] del: uint_nat)
    then show ?thesis
      by (rule arg_cong)
  qed
  also have "\<dots> = 1"
    by (simp add: mod_diff_eq [symmetric])
  finally show ?thesis
    by simp
qed

section \<open>Powers\<close>

declare bit_width.simps [simp del]

lemma bit_width_bound: "n < 2 ^ bit_width n"
proof (induction n rule: bit_width.induct)
  case (1 n)
  show ?case
  proof (cases "n = 0")
    case False
    then have "n div 2 < 2 ^ bit_width (n div 2)"
      by (rule 1)
    then show ?thesis
      using False by (subst bit_width.simps) simp
  qed (simp add: bit_width.simps)
qed

lemma mod_power_step:
  "a ^ (n mod 2 ^ Suc i) = a ^ (n mod 2 ^ i) * (if bit n i then a ^ 2 ^ i else 1)" for a n :: nat
proof -
  have "n mod 2 ^ Suc i = n mod 2 ^ i + (if bit n i then 2 ^ i else 0)"
    using take_bit_Suc_from_most [of i n] by (simp add: take_bit_eq_mod)
  then show ?thesis
    by (simp add: power_add)
qed

lemma ff_pow_loop:
  assumes "ff_ok a"
  shows "\<exists>base res. fold (\<lambda>i (base, res). let base = ff_mul base base in (base, ff_mul res (if bit n i then base else 1)))
      [1..<Suc k] (a, if bit n 0 then a else 1) = (base, res) \<and> ff_ok base \<and> ff_ok res
    \<and> unat base = unat a ^ 2 ^ k mod 12289 \<and> unat res = unat a ^ (unat n mod 2 ^ Suc k) mod 12289"
proof (induction k)
  case 0
  have "ff_ok 1"
    by (simp add: ff_ok_def)
  moreover have "odd (unat n) = odd n"
  proof -
    have "bit (unat n) 0 = bit n 0"
      by (simp only: bit_unsigned_iff) simp
    then show ?thesis
      by (simp only: bit_0)
  qed
  then have "unat n mod 2 = (if bit n 0 then 1 else 0)"
    by (simp add: bit_0 mod_2_eq_odd)
  ultimately show ?case
    using assms by (simp add: ff_ok_def)
next
  case (Suc k)
  then obtain base res where b: "fold (\<lambda>i (base, res). let base = ff_mul base base in (base, ff_mul res (if bit n i then base else 1)))
      [1..<Suc k] (a, if bit n 0 then a else 1) = (base, res)" "ff_ok base" "ff_ok res"
      "unat base = unat a ^ 2 ^ k mod 12289" "unat res = unat a ^ (unat n mod 2 ^ Suc k) mod 12289"
    by blast
  let ?base = "ff_mul base base" and ?i = "Suc k"
  have sq: "unat ?base = unat a ^ 2 ^ Suc k mod 12289"
    using b by (simp add: unat_ff_mul mod_simps mult.commute [of "2 ^ k" 2] flip: power_mult_distrib power_add power2_eq_square power_mult)
  have "unat (ff_mul res (if bit n ?i then ?base else 1)) = unat a ^ (unat n mod 2 ^ Suc ?i) mod 12289"
    using b sq mod_power_step [of "unat a" "unat n" ?i] by (simp add: unat_ff_mul ff_ok_def mod_simps bit_unsigned_iff)
  then show ?case
    using b sq by (simp add: Let_def)
qed

lemma unat_ff_pow:
  assumes "ff_ok a"
  shows "unat (ff_pow a n) = unat a ^ unat n mod 12289"
proof (cases "n = 0")
  case True
  then show ?thesis
    by (simp add: ff_pow_def bit_width.simps)
next
  case False
  then have "bit_width (unat n) = Suc (bit_width (unat n) - 1)"
    by (subst (1 2) bit_width.simps) (simp add: unat_eq_0)
  then obtain k where k: "bit_width (unat n) = Suc k"
    by blast
  have "unat n mod 2 ^ Suc k = unat n"
    using bit_width_bound [of "unat n"] k by simp
  then show ?thesis
    using ff_pow_loop [OF assms, of n k] unfolding ff_pow_def k by (metis snd_conv)
qed

section \<open>The field\<close>

text \<open>
  C25. The arithmetic of the code is arithmetic modulo 12289: on canonical elements every operation gives a canonical element with the value
  that sum, difference, product and power have modulo 12289, the inverse of an element other than zero is its multiplicative
  inverse, that of zero is zero, and division undoes multiplication. No intermediate value of the Barrett reduction or of
  the Euclidean algorithm leaves its machine type.
\<close>

theorem ff_arithmetic:
  assumes "ff_ok a" and "ff_ok b"
  shows "unat (ff_add a b) = (unat a + unat b) mod 12289
    \<and> int (unat (ff_sub a b)) = (int (unat a) - int (unat b)) mod 12289
    \<and> unat (ff_mul a b) = (unat a * unat b) mod 12289
    \<and> unat (ff_pow a n) = unat a ^ unat n mod 12289
    \<and> ff_mul a (ff_inv a) = (if a = 0 then 0 else 1)
    \<and> (b \<noteq> 0 \<longrightarrow> ff_div (ff_mul a b) b = a)"
proof -
  have "int (unat (ff_sub a b)) = (int (unat a) - int (unat b)) mod 12289"
  proof -
    have "int (unat (ff_sub a b)) = (int (unat a) - int (unat b) + 12289) mod 12289"
      using assms by (simp add: unat_ff_sub ff_ok_def zmod_int of_nat_diff algebra_simps del: uint_nat)
    then show ?thesis
      by simp
  qed
  moreover have "ff_mul a (ff_inv a) = (if a = 0 then 0 else 1)"
    using unat_ff_mul [OF assms(1), of "ff_inv a"] unat_ff_inv [OF assms(1)] by (auto simp: word_unat_eq_iff)
  moreover have "ff_div (ff_mul a b) b = a" if "b \<noteq> 0"
  proof -
    have "unat (ff_div (ff_mul a b) b) = (unat a * (unat b * unat (ff_inv b) mod 12289)) mod 12289"
      using assms by (simp add: ff_div_def unat_ff_mul mod_simps mult.assoc)
    then show ?thesis
      using unat_ff_inv [OF assms(2) that] assms(1) by (simp add: ff_ok_def word_unat_eq_iff)
  qed
  ultimately show ?thesis
    using assms by (simp add: unat_ff_add unat_ff_mul unat_ff_pow)
qed

theorem ff_arithmetic_witness: "unat (ff_mul 12288 12288) = 1 \<and> ff_div (ff_mul 5 7) 7 = 5"
proof -
  have "ff_ok 12288" "ff_ok 5" "ff_ok 7"
    by (simp_all add: ff_ok_def)
  then show ?thesis
    using ff_arithmetic [of 12288 12288 0] ff_arithmetic [of 5 7 0] by simp
qed

end
