(* ===== verification/Butterfly.thy ===== *)
theory Butterfly
  imports Prelude
begin

text \<open>
  What the number-theoretic transform and the Fourier transform of the vendored Falcon scheme share: loops that replace pairs of
  array elements, the reversal of bits, polynomials modulo \<open>x^n + 1\<close> with their values, and, as a locale over a table of roots, the
  layers of the two transforms with their meaning: they evaluate, they are undone, and they turn products into element-wise ones.
\<close>

section \<open>Loops over pairs\<close>

text \<open>Both inner loops replace the elements at distance \<open>len\<close> by two functions of them.\<close>

definition pair_step :: "('a \<Rightarrow> 'a \<Rightarrow> 'a) \<Rightarrow> ('a \<Rightarrow> 'a \<Rightarrow> 'a) \<Rightarrow> nat \<Rightarrow> nat \<Rightarrow> 'a list \<Rightarrow> 'a list" where
  "pair_step f g len i p = p[i := f (p ! i) (p ! (i + len)), i + len := g (p ! i) (p ! (i + len))]"

lemma length_pair_step [simp]: "length (pair_step f g len i p) = length p"
  by (simp add: pair_step_def)

lemma length_pair_block [simp]: "length (fold (pair_step f g len) is p) = length p"
  by (induction "is" arbitrary: p) auto

lemma length_pair_layer [simp]:
  "length (fold (\<lambda>b p. fold (pair_step (f b) (g b) len) (is b) p) bs p) = length p"
  by (induction bs arbitrary: p) auto

lemma nth_pair_step:
  "i + len < length p \<Longrightarrow> j < length p \<Longrightarrow> pair_step f g len i p ! j =
    (if j = i + len then g (p ! i) (p ! (i + len)) else if j = i then f (p ! i) (p ! (i + len)) else p ! j)"
  by (simp add: pair_step_def nth_list_update)

lemma nth_pair_block:
  assumes "m \<le> len" "s + 2 * len \<le> length p" "j < length p"
  shows "fold (pair_step f g len) [s..<s + m] p ! j =
    (if s \<le> j \<and> j < s + m then f (p ! j) (p ! (j + len))
     else if s + len \<le> j \<and> j < s + len + m then g (p ! (j - len)) (p ! j) else p ! j)"
  using assms
proof (induction m arbitrary: j)
  case (Suc m)
  define q where "q = fold (pair_step f g len) [s..<s + m] p"
  have q: "q ! i = (if s \<le> i \<and> i < s + m then f (p ! i) (p ! (i + len))
     else if s + len \<le> i \<and> i < s + len + m then g (p ! (i - len)) (p ! i) else p ! i)" if "i < length p" for i
    using Suc that by (simp add: q_def)
  have unfold: "fold (pair_step f g len) [s..<s + Suc m] p = pair_step f g len (s + m) q"
    by (simp add: q_def)
  have "length q = length p" "s + m + len < length p"
    using Suc.prems by (simp_all add: q_def)
  moreover have "q ! (s + m) = p ! (s + m)" "q ! (s + m + len) = p ! (s + m + len)"
    using Suc.prems by (simp_all add: q)
  ultimately show ?case
    using Suc.prems unfolding unfold by (auto simp: nth_pair_step q less_Suc_eq)
qed auto

lemma nth_pair_layer:
  assumes "0 < len" "nb * (2 * len) \<le> length p" "j < length p"
  shows "fold (\<lambda>b p. fold (pair_step (f b) (g b) len) [b * (2 * len)..<b * (2 * len) + len] p) [0..<nb] p ! j =
    (if j < nb * (2 * len)
     then if j mod (2 * len) < len then f (j div (2 * len)) (p ! j) (p ! (j + len)) else g (j div (2 * len)) (p ! (j - len)) (p ! j)
     else p ! j)"
  using assms(2,3)
proof (induction nb arbitrary: j)
  case (Suc nb)
  let ?q = "fold (\<lambda>b p. fold (pair_step (f b) (g b) len) [b * (2 * len)..<b * (2 * len) + len] p) [0..<nb] p"
  let ?s = "nb * (2 * len)"
  have len: "length ?q = length p" "?s + 2 * len \<le> length p"
    using Suc.prems by (simp_all add: algebra_simps)
  have q: "?q ! i = (if i < ?s
     then if i mod (2 * len) < len then f (i div (2 * len)) (p ! i) (p ! (i + len)) else g (i div (2 * len)) (p ! (i - len)) (p ! i)
     else p ! i)" if "i < length p" for i
    using Suc that by simp
  have blk: "fold (pair_step (f nb) (g nb) len) [?s..<?s + len] ?q ! j =
    (if ?s \<le> j \<and> j < ?s + len then f nb (?q ! j) (?q ! (j + len))
     else if ?s + len \<le> j \<and> j < ?s + len + len then g nb (?q ! (j - len)) (?q ! j) else ?q ! j)"
    using nth_pair_block [of len len ?s ?q j "f nb" "g nb"] len Suc.prems by simp
  have unfold: "fold (\<lambda>b p. fold (pair_step (f b) (g b) len) [b * (2 * len)..<b * (2 * len) + len] p) [0..<Suc nb] p
      = fold (pair_step (f nb) (g nb) len) [?s..<?s + len] ?q"
    by simp
  show ?case
  proof (cases "?s \<le> j \<and> j < ?s + 2 * len")
    case True
    then obtain r where r: "j = ?s + r" "r < 2 * len"
      by (metis add_less_cancel_left le_iff_add)
    then have "j div (2 * len) = nb" "j mod (2 * len) = r"
      using assms(1) by simp_all
    then show ?thesis
      using r len Suc.prems unfolding unfold blk by (auto simp: q)
  next
    case False
    then show ?thesis
      using Suc.prems len(2) unfolding unfold blk by (auto simp: q)
  qed
qed simp

text \<open>The blocks of a layer.\<close>

lemma layer_blocks:
  assumes "l < L"
  shows "(2 :: nat) ^ L div (2 ^ l * 2) = 2 ^ (L - l - 1)" "(2 :: nat) ^ (L - l - 1) * (2 * 2 ^ l) = 2 ^ L"
    "(2 :: nat) ^ L div 2 ^ (l + 1) = 2 ^ (L - l - 1)" "(2 :: nat) ^ L div 2 ^ l = 2 * 2 ^ (L - l - 1)"
proof -
  have e: "(2 :: nat) ^ L = 2 ^ (L - l - 1) * (2 ^ l * 2)"
  proof -
    have "(2 :: nat) ^ L = 2 ^ (L - l - 1 + (l + 1))"
      using assms by simp
    also have "\<dots> = 2 ^ (L - l - 1) * (2 ^ l * 2)"
      by (simp only: power_add power_one_right)
    finally show ?thesis .
  qed
  then show "(2 :: nat) ^ L div (2 ^ l * 2) = 2 ^ (L - l - 1)" "(2 :: nat) ^ (L - l - 1) * (2 * 2 ^ l) = 2 ^ L"
    "(2 :: nat) ^ L div 2 ^ (l + 1) = 2 ^ (L - l - 1)"
    by simp_all
  have "(2 :: nat) ^ L = (2 * 2 ^ (L - l - 1)) * 2 ^ l"
    using e by simp
  then show "(2 :: nat) ^ L div 2 ^ l = 2 * 2 ^ (L - l - 1)"
    by (metis nonzero_mult_div_cancel_right power_not_zero zero_neq_numeral)
qed

section \<open>Bit reversal\<close>

text \<open>The reversal of the \<open>n\<close> low bits, as a number.\<close>

fun brv :: "nat \<Rightarrow> nat \<Rightarrow> nat" where
  "brv 0 v = 0"
| "brv (Suc n) v = 2 * brv n v + v div 2 ^ n mod 2"

lemma brv_low: "brv (Suc n) v = v mod 2 * 2 ^ n + brv n (v div 2)"
  by (induction n) (simp_all add: div_mult2_eq algebra_simps)

lemma brv_small: "v < 2 ^ n \<Longrightarrow> brv (Suc n) v = 2 * brv n v"
  by simp

lemma brv_bound: "brv n v < 2 ^ n"
proof (induction n)
  case (Suc n)
  have "v div 2 ^ n mod 2 < 2"
    by simp
  then show ?case
    using Suc by simp
qed simp

lemma brv_double:
  assumes "0 < n" "m < 2 ^ (n - 1)"
  shows "2 * brv n (2 * m) = brv n m" "2 * brv n (2 * m + 1) = brv n m + 2 ^ n"
proof -
  obtain k where k: "n = Suc k"
    using assms(1) by (cases n) auto
  have "brv n m = 2 * brv k m"
    using assms(2) unfolding k by (intro brv_small) simp
  moreover have "brv n (2 * m) = brv k m" "brv n (2 * m + 1) = 2 ^ k + brv k m"
    unfolding k brv_low by simp_all
  ultimately show "2 * brv n (2 * m) = brv n m" "2 * brv n (2 * m + 1) = brv n m + 2 ^ n"
    using k by simp_all
qed

lemma brv_zero [simp]: "brv n 0 = 0"
  by (induction n) auto

lemma brv_complement:
  assumes "s < 2 ^ t" "t < n"
  shows "brv n (2 ^ t + s) + brv n (2 * 2 ^ t - 1 - s) = 2 ^ n"
  using assms
proof (induction t arbitrary: n s)
  case 0
  then show ?case
    by (cases n) (simp_all add: brv_low del: brv.simps(2))
next
  case (Suc t)
  obtain n' where n: "n = Suc n'"
    using Suc.prems(2) by (cases n) auto
  define u where "u = s div 2"
  have u: "u < 2 ^ t" "t < n'"
    using Suc.prems n by (auto simp: u_def)
  have s: "s = 2 * u + s mod 2"
    by (simp add: u_def)
  have v: "(2 ^ Suc t + s) div 2 = 2 ^ t + u" "(2 ^ Suc t + s) mod 2 = s mod 2"
    by (simp_all add: u_def)
  have "2 * 2 ^ Suc t - 1 - s = 2 * (2 * 2 ^ t - 1 - u) + (1 - s mod 2)"
    using s u(1) by (cases "even s") auto
  then have w: "(2 * 2 ^ Suc t - 1 - s) div 2 = 2 * 2 ^ t - 1 - u" "(2 * 2 ^ Suc t - 1 - s) mod 2 = 1 - s mod 2"
    by (auto simp: mod2_eq_if)
  have "brv n (2 ^ Suc t + s) + brv n (2 * 2 ^ Suc t - 1 - s)
      = (s mod 2 + (1 - s mod 2)) * 2 ^ n' + (brv n' (2 ^ t + u) + brv n' (2 * 2 ^ t - 1 - u))"
    unfolding n brv_low v w by (cases "even s") (simp_all add: mod2_eq_if)
  also have "\<dots> = 2 ^ n"
    using Suc.IH [OF u] n by (simp add: mod2_eq_if)
  finally show ?case .
qed

section \<open>Indices\<close>

text \<open>The partner of an index within its block.\<close>

lemma layer_index:
  fixes j :: nat
  assumes "l < L" "j < 2 ^ L"
  defines "m \<equiv> 2 * 2 ^ l"
  shows "j div m < 2 ^ (L - l - 1)"
    and "j mod m < 2 ^ l \<Longrightarrow> j + 2 ^ l < 2 ^ L \<and> (j + 2 ^ l) div m = j div m \<and> (j + 2 ^ l) mod m = j mod m + 2 ^ l"
    and "\<not> j mod m < 2 ^ l \<Longrightarrow> 2 ^ l \<le> j \<and> (j - 2 ^ l) div m = j div m \<and> (j - 2 ^ l) mod m = j mod m - 2 ^ l"
proof -
  have m: "0 < m" "2 ^ (L - l - 1) * m = 2 ^ L"
    using layer_blocks(2) [OF assms(1)] by (simp_all add: m_def)
  show b: "j div m < 2 ^ (L - l - 1)"
    using m assms(2) by (simp add: less_mult_imp_div_less)
  have j: "j = j div m * m + j mod m" "j mod m < m"
    using m(1) by simp_all
  have idx: "(j div m * m + r) div m = j div m" "(j div m * m + r) mod m = r" if "r < m" for r
    using that by simp_all
  show "j + 2 ^ l < 2 ^ L \<and> (j + 2 ^ l) div m = j div m \<and> (j + 2 ^ l) mod m = j mod m + 2 ^ l" if "j mod m < 2 ^ l"
  proof -
    have r: "j mod m + 2 ^ l < m"
      using that by (simp add: m_def)
    have "Suc (j div m) * m \<le> 2 ^ (L - l - 1) * m"
      using b by (intro mult_le_mono1) simp
    then have "m + j div m * m \<le> 2 ^ L"
      using m(2) by simp
    then have "j + 2 ^ l < 2 ^ L"
      using j(1) r by linarith
    moreover have "j + 2 ^ l = j div m * m + (j mod m + 2 ^ l)"
      using j(1) by simp
    ultimately show ?thesis
      using idx [OF r] by metis
  qed
  show "2 ^ l \<le> j \<and> (j - 2 ^ l) div m = j div m \<and> (j - 2 ^ l) mod m = j mod m - 2 ^ l" if "\<not> j mod m < 2 ^ l"
  proof -
    have "2 ^ l \<le> j mod m" "j mod m - 2 ^ l < m"
      using that j(2) by auto
    moreover from this have "j - 2 ^ l = j div m * m + (j mod m - 2 ^ l)" "2 ^ l \<le> j"
      using j(1) by linarith+
    ultimately show ?thesis
      using idx by metis
  qed
qed

lemma layer_root_index:
  fixes j :: nat
  assumes "l < L" "j < 2 ^ L"
  shows "2 ^ (L - l - 1) + j div (2 * 2 ^ l) < 2 ^ L" "2 * 2 ^ (L - l - 1) - 1 - j div (2 * 2 ^ l) < 2 ^ L"
proof -
  have "2 * 2 ^ (L - l - 1) \<le> (2 :: nat) ^ L"
    using power_increasing [of "Suc (L - l - 1)" L "2 :: nat"] assms(1) by simp
  then show "2 ^ (L - l - 1) + j div (2 * 2 ^ l) < 2 ^ L" "2 * 2 ^ (L - l - 1) - 1 - j div (2 * 2 ^ l) < 2 ^ L"
    using layer_index(1) [OF assms] by auto
qed

section \<open>Polynomials modulo \<open>x^N + 1\<close>\<close>

lemma sum_lessThan_add: "(\<Sum>i<m + n. f i) = (\<Sum>i<m. f i) + (\<Sum>i<n. f (m + i))" for f :: "nat \<Rightarrow> 'a::comm_monoid_add"
  by (induction n) (simp_all add: ac_simps)

definition peval :: "nat \<Rightarrow> (nat \<Rightarrow> 'a::comm_ring_1) \<Rightarrow> 'a \<Rightarrow> 'a" where
  "peval n f w = (\<Sum>i<n. f i * w ^ i)"

text \<open>Coefficient \<open>k\<close> of the product of two polynomials modulo \<open>x^n + 1\<close>.\<close>

definition negacyclic :: "nat \<Rightarrow> (nat \<Rightarrow> 'a::comm_ring_1) \<Rightarrow> (nat \<Rightarrow> 'a) \<Rightarrow> nat \<Rightarrow> 'a" where
  "negacyclic n f g k = (\<Sum>i<n. f i * (if i \<le> k then g (k - i) else - g (n + k - i)))"

lemma peval_shift:
  assumes "w ^ n = - 1" "i < n"
  shows "(\<Sum>k<n. (if i \<le> k then g (k - i) else - g (n + k - i)) * w ^ k) = w ^ i * peval n g w"
proof -
  have n: "n = i + (n - i)" "n = n - i + i"
    using assms(2) by simp_all
  have "(\<Sum>k<n. (if i \<le> k then g (k - i) else - g (n + k - i)) * w ^ k)
      = (\<Sum>k<i. - g (n - i + k) * w ^ k) + (\<Sum>k<n - i. g k * w ^ (i + k))"
    by (subst n(1), subst sum_lessThan_add) (simp add: assms(2) less_imp_le)
  also have "(\<Sum>k<i. - g (n - i + k) * w ^ k) = (\<Sum>k<i. w ^ i * (g (n - i + k) * w ^ (n - i + k)))"
  proof (rule sum.cong)
    fix k
    have "w ^ i * w ^ (n - i + k) = w ^ n * w ^ k"
      using assms(2) by (simp flip: power_add)
    then show "- g (n - i + k) * w ^ k = w ^ i * (g (n - i + k) * w ^ (n - i + k))"
      using assms(1) by (subst mult.left_commute) simp
  qed simp
  also have "(\<Sum>k<n - i. g k * w ^ (i + k)) = (\<Sum>k<n - i. w ^ i * (g k * w ^ k))"
    by (simp add: power_add algebra_simps)
  also have "(\<Sum>k<i. w ^ i * (g (n - i + k) * w ^ (n - i + k))) + (\<Sum>k<n - i. w ^ i * (g k * w ^ k)) = w ^ i * peval n g w"
    unfolding peval_def by (subst (3) n(2), subst sum_lessThan_add) (simp add: sum_distrib_left distrib_left)
  finally show ?thesis .
qed

lemma peval_negacyclic:
  assumes "w ^ n = - 1"
  shows "peval n (negacyclic n f g) w = peval n f w * peval n g w"
proof -
  have "peval n (negacyclic n f g) w = (\<Sum>i<n. f i * (\<Sum>k<n. (if i \<le> k then g (k - i) else - g (n + k - i)) * w ^ k))"
    unfolding peval_def negacyclic_def
    by (subst sum_distrib_right, subst sum.swap) (simp add: sum_distrib_left mult.assoc)
  also have "\<dots> = (\<Sum>i<n. f i * (w ^ i * peval n g w))"
    using assms by (intro sum.cong refl) (simp add: peval_shift)
  finally show ?thesis
    by (simp add: peval_def sum_distrib_right mult.assoc)
qed

lemma peval_linear:
  "peval n (\<lambda>i. f i + g i) w = peval n f w + peval n g w" "peval n (\<lambda>i. - f i) w = - peval n f w"
  "peval n (\<lambda>i. f i - g i) w = peval n f w - peval n g w"
  by (simp_all add: peval_def algebra_simps sum.distrib sum_subtractf sum_negf)

section \<open>The transforms over a table of roots\<close>

text \<open>
  The table \<open>r\<close> holds at \<open>2k\<close> and \<open>2k + 1\<close> square roots of its entry at \<open>k\<close> and of the negated entry, at 1 a square root of -1, and the
  negated entries of a level in reverse are the inverses of the level.
\<close>

locale butterfly =
  fixes L :: nat and r :: "nat \<Rightarrow> 'a::comm_ring_1"
  assumes root_one: "0 < L \<Longrightarrow> r 1 ^ 2 = - 1"
    and root_even: "1 \<le> m \<Longrightarrow> 2 * m < 2 ^ L \<Longrightarrow> r (2 * m) ^ 2 = r m"
    and root_odd: "1 \<le> m \<Longrightarrow> 2 * m + 1 < 2 ^ L \<Longrightarrow> r (2 * m + 1) ^ 2 = - r m"
    and root_inverse: "s < 2 ^ t \<Longrightarrow> t < L \<Longrightarrow> r (2 ^ t + s) * - r (2 * 2 ^ t - 1 - s) = 1"
begin

definition layer :: "nat \<Rightarrow> (nat \<Rightarrow> 'a) \<Rightarrow> nat \<Rightarrow> 'a" where
  "layer l p j = (let z = r (2 ^ (L - l - 1) + j div (2 * 2 ^ l))
     in if j mod (2 * 2 ^ l) < 2 ^ l then p j + z * p (j + 2 ^ l) else p (j - 2 ^ l) - z * p j)"

definition inv_layer :: "nat \<Rightarrow> (nat \<Rightarrow> 'a) \<Rightarrow> nat \<Rightarrow> 'a" where
  "inv_layer l p j = (let z = r (2 * 2 ^ (L - l - 1) - 1 - j div (2 * 2 ^ l))
     in if j mod (2 * 2 ^ l) < 2 ^ l then p j + p (j + 2 ^ l) else (p (j - 2 ^ l) - p j) * - z)"

definition transform :: "(nat \<Rightarrow> 'a) \<Rightarrow> nat \<Rightarrow> 'a" where
  "transform p = fold layer (rev [0..<L]) p"

definition undo :: "(nat \<Rightarrow> 'a) \<Rightarrow> nat \<Rightarrow> 'a" where
  "undo p = fold inv_layer [0..<L] p"

text \<open>Only the first \<open>2^L\<close> entries matter.\<close>

lemma layer_cong:
  assumes "l < L" "j < 2 ^ L" "\<And>i. i < 2 ^ L \<Longrightarrow> p i = q i"
  shows "layer l p j = layer l q j" "inv_layer l p j = inv_layer l q j"
  using assms layer_index(2,3) [OF assms(1,2)] by (auto simp: layer_def inv_layer_def Let_def)

lemma layers_cong:
  assumes "set ls \<subseteq> {..<L}" "j < 2 ^ L" "\<And>i. i < 2 ^ L \<Longrightarrow> p i = q i"
  shows "fold layer ls p j = fold layer ls q j \<and> fold inv_layer ls p j = fold inv_layer ls q j"
  using assms(1,3)
proof (induction ls arbitrary: p q)
  case (Cons l ls)
  have "layer l p i = layer l q i \<and> inv_layer l p i = inv_layer l q i" if "i < 2 ^ L" for i
    using layer_cong [of l i p q] Cons.prems that by auto
  then show ?case
    using Cons.IH [of "layer l p" "layer l q"] Cons.IH [of "inv_layer l p" "inv_layer l q"] Cons.prems(1) by auto
qed (use assms(2) in simp)

text \<open>One layer of the inverse undoes one layer of the transform, but for a factor of 2.\<close>

lemma inv_layer_layer:
  assumes l: "l < L" and j: "j < 2 ^ L" and scaled: "\<And>i. i < 2 ^ L \<Longrightarrow> q i = c * layer l p i"
  shows "inv_layer l q j = 2 * c * p j"
proof -
  define b where "b = j div (2 * 2 ^ l)"
  define z where "z = r (2 ^ (L - l - 1) + b)"
  define y where "y = - r (2 * 2 ^ (L - l - 1) - 1 - b)"
  have zy: "z * y = 1"
    using root_inverse [OF layer_index(1) [OF l j]] l by (simp add: z_def y_def b_def)
  show ?thesis
  proof (cases "j mod (2 * 2 ^ l) < 2 ^ l")
    case True
    note idx = layer_index(2) [OF l j True]
    have "inv_layer l q j = c * layer l p j + c * layer l p (j + 2 ^ l)"
      using True idx by (simp add: inv_layer_def scaled j)
    also have "\<dots> = c * (p j + z * p (j + 2 ^ l)) + c * (p j - z * p (j + 2 ^ l))"
      using True idx by (simp add: layer_def z_def b_def)
    finally show ?thesis
      by (simp add: algebra_simps)
  next
    case False
    note idx = layer_index(3) [OF l j False]
    have "j mod (2 * 2 ^ l) < 2 * 2 ^ l"
      by simp
    then have i: "j - 2 ^ l < 2 ^ L" "(j - 2 ^ l) mod (2 * 2 ^ l) < 2 ^ l"
      using j idx by linarith+
    have "inv_layer l q j = (c * layer l p (j - 2 ^ l) - c * layer l p j) * y"
      using False i by (simp add: inv_layer_def scaled j y_def b_def)
    also have "\<dots> = (c * (p (j - 2 ^ l) + z * p j) - c * (p (j - 2 ^ l) - z * p j)) * y"
      using False idx i by (simp add: layer_def z_def b_def)
    also have "\<dots> = 2 * c * p j * (z * y)"
      by (simp only: right_diff_distrib distrib_left left_diff_distrib) (simp add: algebra_simps)
    finally show ?thesis
      by (simp add: zy)
  qed
qed

lemma inv_layers_transform:
  assumes "m \<le> L" "j < 2 ^ L"
  shows "fold inv_layer [0..<m] (transform p) j = 2 ^ m * fold layer (rev [m..<L]) p j"
  using assms
proof (induction m arbitrary: j)
  case 0
  then show ?case by (simp add: transform_def)
next
  case (Suc m)
  have "fold layer (rev [m..<L]) p = layer m (fold layer (rev [Suc m..<L]) p)"
    using Suc.prems by (simp add: upt_conv_Cons)
  then show ?case
    using inv_layer_layer [of m j "fold inv_layer [0..<m] (transform p)" "2 ^ m" "fold layer (rev [Suc m..<L]) p"] Suc by simp
qed

lemma inverse_transform:
  "j < 2 ^ L \<Longrightarrow> undo (transform p) j = 2 ^ L * p j"
  using inv_layers_transform [of L j p] by (simp add: undo_def)

text \<open>The square of entry \<open>k\<close> of the table: of the node at \<open>k\<close> of the tree of moduli.\<close>

definition modulus :: "nat \<Rightarrow> 'a" where
  "modulus k = (if k = 1 then - 1 else if even k then r (k div 2) else - r (k div 2))"

lemma root_square:
  assumes "1 \<le> k" "k < 2 ^ L"
  shows "r k ^ 2 = modulus k"
proof -
  have L: "0 < L"
    using assms by (cases L) auto
  consider "k = 1" | m where "1 \<le> m" "k = 2 * m" | m where "1 \<le> m" "k = 2 * m + 1"
  proof (cases "k = 1")
    case False
    then have "1 \<le> k div 2"
      using assms(1) by linarith
    moreover have "k = 2 * (k div 2) \<or> k = 2 * (k div 2) + 1"
      by presburger
    ultimately show ?thesis
      using that by blast
  qed
  then show ?thesis
  proof cases
    case 1
    then show ?thesis
      using root_one [OF L] by (simp add: modulus_def)
  next
    case 2
    then show ?thesis
      using root_even assms(2) by (simp add: modulus_def)
  next
    case 3
    then show ?thesis
      using root_odd assms(2) by (simp add: modulus_def)
  qed
qed

text \<open>
  Before layer \<open>m\<close> is undone the array holds, block by block, the polynomial modulo \<open>x^B - \<rho>\<close>, \<open>B = 2^m\<close>: at every \<open>w\<close> with \<open>w^B = \<rho>\<close> the
  block and the polynomial have the same value.
\<close>

lemma layers_eval:
  assumes "m \<le> L"
  shows "b < 2 ^ (L - m) \<Longrightarrow> w ^ 2 ^ m = modulus (2 ^ (L - m) + b) \<Longrightarrow>
    peval (2 ^ m) (\<lambda>i. fold layer (rev [m..<L]) p (b * 2 ^ m + i)) w = peval (2 ^ L) p w \<and> w ^ 2 ^ L = - 1"
  using assms
proof (induction m arbitrary: b rule: inc_induct)
  case base
  then show ?case
    by (simp add: modulus_def)
next
  case (step m)
  define B where "B = (2 :: nat) ^ m"
  define P where "P = fold layer (rev [Suc m..<L]) p"
  define c where "c = b div 2"
  define k where "k = 2 ^ (L - Suc m) + c"
  have lay: "fold layer (rev [m..<L]) p = layer m P"
    using step.hyps by (simp add: P_def upt_conv_Cons)
  have pow: "(2 :: nat) ^ (L - m) = 2 * 2 ^ (L - Suc m)"
    using step.hyps by (simp add: Suc_diff_Suc flip: power_Suc)
  have c: "c < 2 ^ (L - Suc m)"
    using step.prems(1) pow by (simp add: c_def)
  have k: "1 \<le> k" "k < 2 ^ L" "2 ^ (L - m) + b = 2 * k + b mod 2"
  proof -
    have "2 * 2 ^ (L - Suc m) \<le> (2 :: nat) ^ L"
      using step.hyps power_increasing [of "L - m" L "2 :: nat"] pow by simp
    then show "k < 2 ^ L"
      using c by (simp add: k_def)
    show "1 \<le> k"
      by (simp add: k_def trans_le_add1)
    show "2 ^ (L - m) + b = 2 * k + b mod 2"
      using pow by (simp add: k_def c_def)
  qed
  have wB: "w ^ B = (if even b then r k else - r k)"
    using step.prems(2) k by (auto simp: B_def modulus_def mod2_eq_if)
  have "w ^ 2 ^ Suc m = (w ^ B) ^ 2"
    by (simp add: B_def mult.commute flip: power_mult)
  also have "\<dots> = modulus k"
    using root_square [OF k(1,2)] by (simp add: wB)
  finally have IH: "peval (2 ^ Suc m) (\<lambda>i. P (c * 2 ^ Suc m + i)) w = peval (2 ^ L) p w" "w ^ 2 ^ L = - 1"
    using step.IH [OF c] by (simp_all add: k_def P_def)
  let ?a = "\<lambda>i. P (c * 2 ^ Suc m + i)" and ?d = "\<lambda>i. P (c * 2 ^ Suc m + (B + i))"
  have entry: "layer m P (b * B + i) = ?a i + w ^ B * ?d i" if i: "i < B" for i
  proof -
    have b: "b = 2 * c + b mod 2"
      by (simp add: c_def)
    have idx: "b * B + i = c * (2 * B) + (b mod 2 * B + i)"
      by (subst b) (simp add: algebra_simps)
    have small: "b mod 2 * B + i < 2 * B"
      using i by (cases "even b") (auto simp: mod2_eq_if)
    have "(b * B + i) div (2 * B) = c" "(b * B + i) mod (2 * B) = b mod 2 * B + i"
      using small unfolding idx by simp_all
    then show ?thesis
      using step.hyps i idx
      by (cases "even b") (simp_all add: layer_def wB k_def mod2_eq_if B_def [symmetric] algebra_simps)
  qed
  have "peval B (\<lambda>i. layer m P (b * B + i)) w = (\<Sum>i<B. (?a i + w ^ B * ?d i) * w ^ i)"
    unfolding peval_def by (intro sum.cong) (simp_all add: entry)
  also have "\<dots> = (\<Sum>i<B. ?a i * w ^ i) + (\<Sum>i<B. ?d i * w ^ (B + i))"
    by (simp add: power_add distrib_right sum.distrib mult.assoc mult.left_commute)
  also have "\<dots> = peval (2 ^ Suc m) ?a w"
    unfolding peval_def power_Suc mult_2 B_def [symmetric] by (simp only: sum_lessThan_add)
  finally show ?case
    using IH by (simp add: lay B_def)
qed

text \<open>The point at which entry \<open>j\<close> of the transformed array is the value.\<close>

definition point :: "nat \<Rightarrow> 'a" where
  "point j = modulus (2 ^ L + j)"

lemma transform_eval:
  assumes "j < 2 ^ L"
  shows "transform p j = peval (2 ^ L) p (point j)" "point j ^ 2 ^ L = - 1"
  using layers_eval [of 0 j "point j" p] assms by (simp_all add: point_def transform_def peval_def)

lemma transform_product:
  assumes "k < 2 ^ L"
  shows "undo (\<lambda>j. transform f j * transform g j) k = 2 ^ L * negacyclic (2 ^ L) f g k"
proof -
  have "transform f j * transform g j = transform (negacyclic (2 ^ L) f g) j" if "j < 2 ^ L" for j
    using transform_eval [OF that] by (simp add: peval_negacyclic)
  then have "undo (\<lambda>j. transform f j * transform g j) k = undo (transform (negacyclic (2 ^ L) f g)) k"
    unfolding undo_def by (intro layers_cong [THEN conjunct2] assms) auto
  then show ?thesis
    using inverse_transform [OF assms] by simp
qed

end

end
