(* ===== verification/Falcon_NTT.thy ===== *)
theory Falcon_NTT
  imports Falcon_Field Butterfly
begin

unbundle bit_operations_syntax

text \<open>
  The number-theoretic transform of Falcon (\<open>vendors/includes/falcon/ntt.hpp\<close>) and the polynomial operations on transformed
  polynomials (\<open>polynomial.hpp\<close>): the tables of powers of a root of unity in bit-reversed order, the in-place Cooley-Tukey and
  Gentleman-Sande loops over an array of 512 or 1024 field elements, and element-wise arithmetic. The index \<open>L\<close> is \<open>LOG2N\<close>. The
  correctness statements are in the ring of integers modulo 12289, the numeral type \<open>12289\<close>.
\<close>

section \<open>Tables\<close>

definition bit_rev :: "nat \<Rightarrow> nat \<Rightarrow> nat" where
  "bit_rev mbw v = fold (\<lambda>i v_rev. v_rev XOR push_bit (mbw - 1 - i) (drop_bit i v AND 1)) [0..<mbw] 0"

definition FALCON_zeta :: "nat \<Rightarrow> ff_t" where
  "FALCON_zeta L = (if L = 9 then 49 else 7)"

definition INV_FALCON_N :: "nat \<Rightarrow> ff_t" where
  "INV_FALCON_N L = (if L = 9 then ff_inv (ff_new 512) else ff_inv (ff_new 1024))"

definition POWERS_OF_zeta :: "nat \<Rightarrow> ff_t list" where
  "POWERS_OF_zeta L = map (\<lambda>i. ff_pow (FALCON_zeta L) (of_nat (bit_rev L i))) [0..<2 ^ L]"

definition NEG_POWERS_OF_zeta :: "nat \<Rightarrow> ff_t list" where
  "NEG_POWERS_OF_zeta L = map ff_neg (POWERS_OF_zeta L)"

section \<open>The transforms\<close>

text \<open>The inner loop body, the loop over one block, the loop over the blocks of a layer, and the loop over the layers.\<close>

definition ntt_butterfly :: "ff_t \<Rightarrow> nat \<Rightarrow> nat \<Rightarrow> ff_t list \<Rightarrow> ff_t list" where
  "ntt_butterfly zeta_exp len i poly =
     (let tmp = ff_mul zeta_exp (poly ! (i + len));
          poly = poly[i + len := ff_sub (poly ! i) tmp]
      in poly[i := ff_add (poly ! i) tmp])"

definition ntt_layer :: "nat \<Rightarrow> nat \<Rightarrow> ff_t list \<Rightarrow> ff_t list" where
  "ntt_layer L l poly =
     (let N = 2 ^ L; len = 2 ^ l; lenx2 = len * 2; k_beg = N div 2 ^ (l + 1)
      in fold (\<lambda>b poly.
           let start = b * lenx2;
               k_now = k_beg + start div 2 ^ (l + 1);
               zeta_exp = POWERS_OF_zeta L ! k_now
           in fold (ntt_butterfly zeta_exp len) [start..<start + len] poly) [0..<N div lenx2] poly)"

definition ntt :: "nat \<Rightarrow> ff_t list \<Rightarrow> ff_t list" where
  "ntt L poly = fold (ntt_layer L) (rev [0..<L]) poly"

definition intt_butterfly :: "ff_t \<Rightarrow> nat \<Rightarrow> nat \<Rightarrow> ff_t list \<Rightarrow> ff_t list" where
  "intt_butterfly neg_zeta_exp len i poly =
     (let tmp = poly ! i;
          poly = poly[i := ff_add (poly ! i) (poly ! (i + len))];
          poly = poly[i + len := ff_sub tmp (poly ! (i + len))]
      in poly[i + len := ff_mul (poly ! (i + len)) neg_zeta_exp])"

definition intt_layer :: "nat \<Rightarrow> nat \<Rightarrow> ff_t list \<Rightarrow> ff_t list" where
  "intt_layer L l poly =
     (let N = 2 ^ L; len = 2 ^ l; lenx2 = len * 2; k_beg = N div 2 ^ l - 1
      in fold (\<lambda>b poly.
           let start = b * lenx2;
               k_now = k_beg - start div 2 ^ (l + 1);
               neg_zeta_exp = NEG_POWERS_OF_zeta L ! k_now
           in fold (intt_butterfly neg_zeta_exp len) [start..<start + len] poly) [0..<N div lenx2] poly)"

definition intt :: "nat \<Rightarrow> ff_t list \<Rightarrow> ff_t list" where
  "intt L poly =
     (let poly = fold (intt_layer L) [0..<L] poly
      in fold (\<lambda>i poly. poly[i := ff_mul (poly ! i) (INV_FALCON_N L)]) [0..<2 ^ L] poly)"

section \<open>Element-wise operations\<close>

definition poly_add_to :: "nat \<Rightarrow> ff_t list \<Rightarrow> ff_t list \<Rightarrow> ff_t list" where
  "poly_add_to L polya polyb = fold (\<lambda>i polya. polya[i := ff_add (polya ! i) (polyb ! i)]) [0..<2 ^ L] polya"

definition poly_neg :: "nat \<Rightarrow> ff_t list \<Rightarrow> ff_t list" where
  "poly_neg L poly = fold (\<lambda>i poly. poly[i := ff_neg (poly ! i)]) [0..<2 ^ L] poly"

definition poly_mul :: "nat \<Rightarrow> ff_t list \<Rightarrow> ff_t list \<Rightarrow> ff_t list" where
  "poly_mul L polya polyb = map (\<lambda>i. ff_mul (polya ! i) (polyb ! i)) [0..<2 ^ L]"

definition poly_div :: "nat \<Rightarrow> ff_t list \<Rightarrow> ff_t list \<Rightarrow> ff_t list" where
  "poly_div L polya polyb = map (\<lambda>i. ff_div (polya ! i) (polyb ! i)) [0..<2 ^ L]"

section \<open>The ring of integers modulo 12289\<close>

type_synonym zq = 12289

definition zq :: "ff_t \<Rightarrow> zq" where
  "zq a = of_nat (unat a)"

lemma of_nat_mod_zq: "of_nat (n mod 12289) = (of_nat n :: zq)"
proof -
  have "(of_nat 12289 :: zq) = 0"
    by simp
  then have "(of_nat (12289 * (n div 12289)) :: zq) = 0"
    by (simp only: of_nat_mult mult_zero_left)
  moreover have "(of_nat n :: zq) = of_nat (n mod 12289) + of_nat (12289 * (n div 12289))"
    by (simp only: mod_mult_div_eq of_nat_add [symmetric])
  ultimately show ?thesis
    by (simp only: add_0_right)
qed

lemma zq_ops [simp]:
  assumes "ff_ok a" "ff_ok b"
  shows "zq (ff_add a b) = zq a + zq b" "zq (ff_mul a b) = zq a * zq b"
    "zq (ff_neg a) = - zq a" "zq (ff_sub a b) = zq a - zq b"
proof -
  have q: "(of_nat 12289 :: zq) = 0"
    by simp
  show "zq (ff_add a b) = zq a + zq b" "zq (ff_mul a b) = zq a * zq b"
    using assms by (simp_all add: zq_def unat_ff_add unat_ff_mul of_nat_mod_zq)
  have neg: "(of_nat (12289 - unat c) :: zq) = - zq c" if "ff_ok c" for c
    using that q by (simp only: ff_ok_def zq_def of_nat_diff less_imp_le) simp
  show "zq (ff_neg a) = - zq a"
    using assms(1) neg by (simp add: zq_def unat_ff_neg of_nat_mod_zq)
  show "zq (ff_sub a b) = zq a - zq b"
    using assms neg [OF assms(2)] by (simp add: zq_def unat_ff_sub of_nat_mod_zq)
qed

lemma zq_neg [simp]: "ff_ok a \<Longrightarrow> zq (ff_neg a) = - zq a"
  by (rule zq_ops(3))

lemma zq_pow: "ff_ok a \<Longrightarrow> zq (ff_pow a n) = zq a ^ unat n"
  by (simp add: zq_def unat_ff_pow of_nat_mod_zq)

lemma zq_inj:
  assumes "ff_ok a" "ff_ok b" "zq a = zq b"
  shows "a = b"
proof -
  have *: "m = n" if "(of_nat m :: zq) = of_nat n" "m \<le> n" "n < 12289" for m n :: nat
  proof -
    have "(of_nat (n - m) :: zq) = 0"
      using that by (simp add: of_nat_diff)
    then have "CHAR(zq) dvd n - m"
      by (simp only: of_nat_eq_0_iff_char_dvd)
    then have "12289 dvd n - m"
      by simp
    moreover have "n - m < 12289"
      using that(3) by linarith
    ultimately have "n - m = 0"
      using nat_dvd_not_less by blast
    then show ?thesis
      using that(2) by linarith
  qed
  have "unat a < 12289" "unat b < 12289" "(of_nat (unat a) :: zq) = of_nat (unat b)"
    using assms by (simp_all only: ff_ok_def zq_def)
  then have "unat a = unat b"
    by (metis * nat_le_linear)
  then show ?thesis
    by (simp add: word_unat_eq_iff)
qed

lemma ntt_butterfly_pair:
  "0 < len \<Longrightarrow> ntt_butterfly z len i p = pair_step (\<lambda>x y. ff_add x (ff_mul z y)) (\<lambda>x y. ff_sub x (ff_mul z y)) len i p"
  by (simp add: ntt_butterfly_def pair_step_def Let_def list_update_swap)

lemma intt_butterfly_pair:
  "0 < len \<Longrightarrow> i + len < length p \<Longrightarrow>
    intt_butterfly z len i p = pair_step ff_add (\<lambda>x y. ff_mul (ff_sub x y) z) len i p"
  by (simp add: intt_butterfly_def pair_step_def Let_def)

lemma intt_block_pair:
  assumes "0 < len" "\<forall>i \<in> set is. i + len < length p"
  shows "fold (intt_butterfly z len) is p = fold (pair_step ff_add (\<lambda>x y. ff_mul (ff_sub x y) z) len) is p"
  using assms(2) by (induction "is" arbitrary: p) (simp_all add: intt_butterfly_pair [OF assms(1)])

lemma ntt_layer_pair:
  assumes "l < L"
  shows "ntt_layer L l p = fold (\<lambda>b p. fold (pair_step
      (\<lambda>x y. ff_add x (ff_mul (POWERS_OF_zeta L ! (2 ^ (L - l - 1) + b)) y))
      (\<lambda>x y. ff_sub x (ff_mul (POWERS_OF_zeta L ! (2 ^ (L - l - 1) + b)) y)) (2 ^ l))
      [b * (2 * 2 ^ l)..<b * (2 * 2 ^ l) + 2 ^ l] p) [0..<2 ^ (L - l - 1)] p"
proof -
  have "ntt_butterfly z (2 ^ l) = pair_step (\<lambda>x y. ff_add x (ff_mul z y)) (\<lambda>x y. ff_sub x (ff_mul z y)) (2 ^ l)" for z
    by (intro ext ntt_butterfly_pair) simp
  then show ?thesis
    using layer_blocks [OF assms] by (simp add: ntt_layer_def Let_def mult.commute [of "2 ^ l" 2])
qed

lemma intt_layer_pair:
  assumes "l < L" "length p = 2 ^ L"
  shows "intt_layer L l p = fold (\<lambda>b p. fold (pair_step ff_add
      (\<lambda>x y. ff_mul (ff_sub x y) (NEG_POWERS_OF_zeta L ! (2 * 2 ^ (L - l - 1) - 1 - b))) (2 ^ l))
      [b * (2 * 2 ^ l)..<b * (2 * 2 ^ l) + 2 ^ l] p) [0..<2 ^ (L - l - 1)] p"
proof -
  let ?nb = "2 ^ (L - l - 1) :: nat"
  let ?z = "\<lambda>b. NEG_POWERS_OF_zeta L ! (2 * ?nb - 1 - b)"
  have range: "i + 2 ^ l < 2 ^ L" if "b < ?nb" "i \<in> {b * (2 * 2 ^ l)..<b * (2 * 2 ^ l) + 2 ^ l}" for b i :: nat
  proof -
    have "Suc b * (2 * 2 ^ l) \<le> ?nb * (2 * 2 ^ l)"
      using that(1) by (intro mult_le_mono1) simp
    then show ?thesis
      using that(2) layer_blocks(2) [OF assms(1)] by auto
  qed
  have "fold (\<lambda>b p. fold (intt_butterfly (?z b) (2 ^ l)) [b * (2 * 2 ^ l)..<b * (2 * 2 ^ l) + 2 ^ l] p) [0..<n] p
      = fold (\<lambda>b p. fold (pair_step ff_add (\<lambda>x y. ff_mul (ff_sub x y) (?z b)) (2 ^ l))
          [b * (2 * 2 ^ l)..<b * (2 * 2 ^ l) + 2 ^ l] p) [0..<n] p" if "n \<le> ?nb" for n
    using that
  proof (induction n)
    case (Suc n)
    define q where "q = fold (\<lambda>b p. fold (pair_step ff_add (\<lambda>x y. ff_mul (ff_sub x y) (?z b)) (2 ^ l))
          [b * (2 * 2 ^ l)..<b * (2 * 2 ^ l) + 2 ^ l] p) [0..<n] p"
    have "length q = 2 ^ L"
      using assms(2) by (simp add: q_def)
    then have "fold (intt_butterfly (?z n) (2 ^ l)) [n * (2 * 2 ^ l)..<n * (2 * 2 ^ l) + 2 ^ l] q
        = fold (pair_step ff_add (\<lambda>x y. ff_mul (ff_sub x y) (?z n)) (2 ^ l)) [n * (2 * 2 ^ l)..<n * (2 * 2 ^ l) + 2 ^ l] q"
      using range [of n] Suc.prems by (intro intt_block_pair) auto
    then show ?case
      using Suc by (simp add: q_def)
  qed simp
  then show ?thesis
    using layer_blocks [OF assms(1)] by (simp add: intt_layer_def Let_def mult.commute [of "2 ^ l" 2])
qed

lemma length_ntt_layer [simp]: "l < L \<Longrightarrow> length (ntt_layer L l p) = length p"
  by (simp add: ntt_layer_pair)

lemma length_intt_layer [simp]: "l < L \<Longrightarrow> length p = 2 ^ L \<Longrightarrow> length (intt_layer L l p) = 2 ^ L"
  by (simp add: intt_layer_pair)

lemma nth_ntt_layer:
  assumes "l < L" "length p = 2 ^ L" "j < 2 ^ L"
  shows "ntt_layer L l p ! j =
    (let z = POWERS_OF_zeta L ! (2 ^ (L - l - 1) + j div (2 * 2 ^ l))
     in if j mod (2 * 2 ^ l) < 2 ^ l then ff_add (p ! j) (ff_mul z (p ! (j + 2 ^ l))) else ff_sub (p ! (j - 2 ^ l)) (ff_mul z (p ! j)))"
  unfolding ntt_layer_pair [OF assms(1)] using assms layer_blocks(2) [OF assms(1)]
  by (subst nth_pair_layer) (simp_all add: Let_def)

lemma nth_intt_layer:
  assumes "l < L" "length p = 2 ^ L" "j < 2 ^ L"
  shows "intt_layer L l p ! j =
    (let z = NEG_POWERS_OF_zeta L ! (2 * 2 ^ (L - l - 1) - 1 - j div (2 * 2 ^ l))
     in if j mod (2 * 2 ^ l) < 2 ^ l then ff_add (p ! j) (p ! (j + 2 ^ l)) else ff_mul (ff_sub (p ! (j - 2 ^ l)) (p ! j)) z)"
  unfolding intt_layer_pair [OF assms(1,2)] using assms layer_blocks(2) [OF assms(1)]
  by (subst nth_pair_layer) (simp_all add: Let_def)

section \<open>Bit reversal and the roots of unity\<close>

lemma bit_rev_brv: "bit_rev m v = brv m v"
proof -
  have "fold (\<lambda>i v_rev. v_rev XOR push_bit (m - 1 - i) (drop_bit i v AND 1)) [0..<n] 0 = push_bit (m - n) (brv n v)" if "n \<le> m" for n
    using that
  proof (induction n)
    case (Suc n)
    have b: "drop_bit n v mod 2 = v div 2 ^ n mod 2"
      by (simp add: drop_bit_eq_div)
    have x: "2 * a XOR c mod 2 = 2 * a + c mod 2" for a c :: nat
      using xor_one_eq [of "2 * a"] by (cases "even c") (simp_all add: mod2_eq_if)
    have "push_bit (m - n) (brv n v) XOR push_bit (m - 1 - n) (v div 2 ^ n mod 2)
        = push_bit (m - Suc n) (push_bit 1 (brv n v) XOR (v div 2 ^ n mod 2))"
      using Suc.prems by (simp add: push_bit_xor push_bit_push_bit flip: Suc_diff_Suc)
    also have "push_bit 1 (brv n v) XOR (v div 2 ^ n mod 2) = brv (Suc n) v"
      using x [of "brv n v" "v div 2 ^ n"] by (simp add: mult.commute)
    finally show ?case
      using Suc by (simp add: b del: brv.simps)
  qed simp
  from this [of m] show ?thesis
    by (simp add: bit_rev_def)
qed

text \<open>The parameter sets: \<open>LOG2N\<close> is 9 or 10.\<close>

definition ntt_size :: "nat \<Rightarrow> bool" where
  "ntt_size L \<longleftrightarrow> L = 9 \<or> L = 10"

definition zroot :: "nat \<Rightarrow> nat \<Rightarrow> zq" where
  "zroot L k = zq (POWERS_OF_zeta L ! k)"

lemma ff_ok_zeta [simp]: "ff_ok (FALCON_zeta L)"
  by (simp add: FALCON_zeta_def ff_ok_def)

lemma ff_ok_pow: "ff_ok a \<Longrightarrow> ff_ok (ff_pow a n)"
  by (simp add: ff_ok_def unat_ff_pow)

lemma ff_ok_tables:
  "k < 2 ^ L \<Longrightarrow> ff_ok (POWERS_OF_zeta L ! k)" "k < 2 ^ L \<Longrightarrow> ff_ok (NEG_POWERS_OF_zeta L ! k)"
  by (simp_all add: POWERS_OF_zeta_def NEG_POWERS_OF_zeta_def ff_ok_pow)

lemma root_power:
  assumes "ntt_size L" "k < 2 ^ L"
  shows "zroot L k = zq (FALCON_zeta L) ^ brv L k"
proof -
  have "brv L k < 2 ^ L"
    by (rule brv_bound)
  then have "brv L k < 2 ^ 64"
    using assms(1) by (auto simp: ntt_size_def)
  then show ?thesis
    using assms(2) by (simp add: zroot_def POWERS_OF_zeta_def zq_pow bit_rev_brv unat_of_nat_u64)
qed

lemma zq_neg_powers: "k < 2 ^ L \<Longrightarrow> zq (NEG_POWERS_OF_zeta L ! k) = - zroot L k"
  using ff_ok_tables(1) [of k L] by (simp add: zroot_def NEG_POWERS_OF_zeta_def POWERS_OF_zeta_def)

text \<open>\<open>\<zeta>^N = -1\<close>: 49 and 7 are primitive roots of unity of the orders 1024 and 2048.\<close>

lemma repeated_squaring: "((\<lambda>r. r * r mod 12289) ^^ k) a mod 12289 = a ^ 2 ^ k mod (12289 :: nat)"
proof (induction k)
  case (Suc k)
  have "((\<lambda>r. r * r mod 12289) ^^ Suc k) a mod 12289
      = (((\<lambda>r. r * r mod 12289) ^^ k) a mod 12289) * (((\<lambda>r. r * r mod 12289) ^^ k) a mod 12289) mod 12289"
    by (simp add: mod_simps)
  also have "\<dots> = a ^ 2 ^ Suc k mod 12289"
    by (simp only: Suc mod_mult_eq power_add [symmetric] power_Suc mult_2)
  finally show ?case .
qed simp

lemma funpow_numeral: "(f ^^ numeral n) x = (f ^^ pred_numeral n) (f x)"
  by (simp add: numeral_eq_Suc funpow_swap1)

lemma zeta_N:
  assumes "ntt_size L"
  shows "zq (FALCON_zeta L) ^ 2 ^ L = - 1"
proof -
  have neg: "(of_nat 12288 :: zq) = - 1"
    by simp
  have "zq (FALCON_zeta L) ^ 2 ^ L = of_nat (((\<lambda>r. r * r mod 12289) ^^ L) (unat (FALCON_zeta L)) mod 12289)"
    by (simp only: zq_def repeated_squaring of_nat_mod_zq of_nat_power)
  also have "((\<lambda>r. r * r mod 12289) ^^ L) (unat (FALCON_zeta L)) mod 12289 = 12288"
    using assms by (auto simp: ntt_size_def FALCON_zeta_def funpow_numeral)
  finally show ?thesis
    by (simp only: neg)
qed

lemma zroot_inverse:
  assumes "ntt_size L" "s < 2 ^ t" "t < L"
  shows "zroot L (2 ^ t + s) * - zroot L (2 * 2 ^ t - 1 - s) = 1"
proof -
  have "2 * 2 ^ t \<le> (2 :: nat) ^ L"
    using assms(3) power_increasing [of "Suc t" L "2 :: nat"] by simp
  then have k: "2 ^ t + s < 2 ^ L" "2 * 2 ^ t - 1 - s < 2 ^ L"
    using assms(2) by auto
  have "zroot L (2 ^ t + s) * - zroot L (2 * 2 ^ t - 1 - s)
      = - (zq (FALCON_zeta L) ^ (brv L (2 ^ t + s) + brv L (2 * 2 ^ t - 1 - s)))"
    by (simp only: root_power [OF assms(1) k(1)] root_power [OF assms(1) k(2)] power_add mult_minus_right)
  also have "\<dots> = 1"
    by (simp only: brv_complement [OF assms(2,3)] zeta_N [OF assms(1)]) simp
  finally show ?thesis .
qed

text \<open>The table is one of roots as the transforms need it.\<close>

lemma zroot_table:
  assumes "ntt_size L"
  shows "butterfly L (zroot L)"
proof
  let ?z = "zq (FALCON_zeta L)"
  have L: "0 < L"
    using assms by (auto simp: ntt_size_def)
  have sq: "zroot L k ^ 2 = ?z ^ (2 * brv L k)" if "k < 2 ^ L" for k
    by (simp only: root_power [OF assms that] power_mult [symmetric] mult.commute)
  show "zroot L 1 ^ 2 = - 1"
    using sq [of 1] brv_double(2) [OF L, of 0] zeta_N [OF assms] one_less_power [of "2 :: nat" L] L by simp
  show "zroot L (2 ^ t + s) * - zroot L (2 * 2 ^ t - 1 - s) = 1" if "s < 2 ^ t" "t < L" for s t
    by (rule zroot_inverse [OF assms that])
  fix m :: nat
  have half: "m < 2 ^ (L - 1) \<and> m < 2 ^ L" if "2 * m < 2 ^ L"
    using that L by (cases L) auto
  show "zroot L (2 * m) ^ 2 = zroot L m" if "2 * m < 2 ^ L"
    using sq [OF that] brv_double(1) [OF L, of m] root_power [OF assms, of m] half that by simp
  show "zroot L (2 * m + 1) ^ 2 = - zroot L m" if "2 * m + 1 < 2 ^ L"
    using sq [OF that] brv_double(2) [OF L, of m] root_power [OF assms, of m] half that zeta_N [OF assms] by (simp add: power_add)
qed

interpretation ntt512: butterfly 9 "zroot 9"
  by (rule zroot_table) (simp add: ntt_size_def)

interpretation ntt1024: butterfly 10 "zroot 10"
  by (rule zroot_table) (simp add: ntt_size_def)

section \<open>The inverse transform\<close>

definition poly_ok :: "nat \<Rightarrow> ff_t list \<Rightarrow> bool" where
  "poly_ok L p \<longleftrightarrow> length p = 2 ^ L \<and> (\<forall>a \<in> set p. ff_ok a)"

lemma poly_okD: "poly_ok L p \<Longrightarrow> length p = 2 ^ L" "poly_ok L p \<Longrightarrow> j < 2 ^ L \<Longrightarrow> ff_ok (p ! j)"
  by (auto simp: poly_ok_def)

lemma poly_okI: "length p = 2 ^ L \<Longrightarrow> (\<And>j. j < 2 ^ L \<Longrightarrow> ff_ok (p ! j)) \<Longrightarrow> poly_ok L p"
  by (auto simp: poly_ok_def in_set_conv_nth)

lemma poly_eqI:
  assumes "poly_ok L p" "poly_ok L q" "\<And>j. j < 2 ^ L \<Longrightarrow> zq (p ! j) = zq (q ! j)"
  shows "p = q"
  using assms by (intro nth_equalityI) (auto simp: poly_okD intro: zq_inj)

lemma poly_ok_layers:
  "l < L \<Longrightarrow> poly_ok L p \<Longrightarrow> poly_ok L (ntt_layer L l p)" "l < L \<Longrightarrow> poly_ok L p \<Longrightarrow> poly_ok L (intt_layer L l p)"
  by (auto intro!: poly_okI simp: poly_okD nth_ntt_layer nth_intt_layer Let_def)

text \<open>In the ring the layers are those of the table.\<close>

lemma zq_layers:
  assumes "ntt_size L" "l < L" "poly_ok L p" "j < 2 ^ L"
  shows "zq (ntt_layer L l p ! j) = butterfly.layer L (zroot L) l (\<lambda>i. zq (p ! i)) j"
    and "zq (intt_layer L l p ! j) = butterfly.inv_layer L (zroot L) l (\<lambda>i. zq (p ! i)) j"
proof -
  note ok = poly_okD(2) [OF assms(3)] ff_ok_tables(1) [OF layer_root_index(1) [OF assms(2,4)]]
    ff_ok_tables(2) [OF layer_root_index(2) [OF assms(2,4)]] zq_neg_powers [OF layer_root_index(2) [OF assms(2,4)]]
  show "zq (ntt_layer L l p ! j) = butterfly.layer L (zroot L) l (\<lambda>i. zq (p ! i)) j"
    using ok assms layer_index(2,3) [OF assms(2,4)]
    by (simp add: nth_ntt_layer poly_okD(1) Let_def zroot_def butterfly.layer_def [OF zroot_table])
  show "zq (intt_layer L l p ! j) = butterfly.inv_layer L (zroot L) l (\<lambda>i. zq (p ! i)) j"
    using ok assms layer_index(2,3) [OF assms(2,4)]
    by (simp add: nth_intt_layer poly_okD(1) Let_def butterfly.inv_layer_def [OF zroot_table])
qed

lemma poly_ok_folds:
  "set ls \<subseteq> {..<L} \<Longrightarrow> poly_ok L p \<Longrightarrow> poly_ok L (fold (ntt_layer L) ls p)"
  "set ls \<subseteq> {..<L} \<Longrightarrow> poly_ok L p \<Longrightarrow> poly_ok L (fold (intt_layer L) ls p)"
  by (induction ls arbitrary: p) (auto simp: poly_ok_layers)

lemma poly_ok_ntt: "poly_ok L p \<Longrightarrow> poly_ok L (ntt L p)"
  unfolding ntt_def by (rule poly_ok_folds) auto

lemma zq_folds:
  assumes "ntt_size L" "set ls \<subseteq> {..<L}" "poly_ok L p" "j < 2 ^ L"
  shows "zq (fold (ntt_layer L) ls p ! j) = fold (butterfly.layer L (zroot L)) ls (\<lambda>i. zq (p ! i)) j
    \<and> zq (fold (intt_layer L) ls p ! j) = fold (butterfly.inv_layer L (zroot L)) ls (\<lambda>i. zq (p ! i)) j"
  using assms(2,3)
proof (induction ls arbitrary: p)
  case (Cons l ls)
  have ls: "l < L" "set ls \<subseteq> {..<L}"
    using Cons.prems(1) by auto
  note cong = butterfly.layers_cong [OF zroot_table [OF assms(1)] ls(2) assms(4)]
    and lay = zq_layers [OF assms(1) ls(1) Cons.prems(2)]
  have "fold (butterfly.layer L (zroot L)) ls (\<lambda>i. zq (ntt_layer L l p ! i)) j
      = fold (butterfly.layer L (zroot L)) ls (butterfly.layer L (zroot L) l (\<lambda>i. zq (p ! i))) j"
    by (rule cong [THEN conjunct1]) (rule lay(1))
  moreover have "fold (butterfly.inv_layer L (zroot L)) ls (\<lambda>i. zq (intt_layer L l p ! i)) j
      = fold (butterfly.inv_layer L (zroot L)) ls (butterfly.inv_layer L (zroot L) l (\<lambda>i. zq (p ! i))) j"
    by (rule cong [THEN conjunct2]) (rule lay(2))
  ultimately show ?case
    using Cons.IH [OF ls(2) poly_ok_layers(1) [OF ls(1) Cons.prems(2)]] Cons.IH [OF ls(2) poly_ok_layers(2) [OF ls(1) Cons.prems(2)]]
    by simp
qed simp

lemma zq_ntt:
  assumes "ntt_size L" "poly_ok L p" "j < 2 ^ L"
  shows "zq (ntt L p ! j) = butterfly.transform L (zroot L) (\<lambda>i. zq (p ! i)) j"
  using zq_folds [OF assms(1) _ assms(2,3), of "rev [0..<L]"] by (simp add: atLeast0LessThan ntt_def butterfly.transform_def [OF zroot_table [OF assms(1)]])

lemma fold_update_map:
  "length p = n \<Longrightarrow> fold (\<lambda>i p. p[i := f i (p ! i)]) [0..<n] p = map (\<lambda>i. f i (p ! i)) [0..<n]"
proof -
  assume n: "length p = n"
  have "fold (\<lambda>i p. p[i := f i (p ! i)]) [0..<m] p ! j = (if j < m then f j (p ! j) else p ! j)
      \<and> length (fold (\<lambda>i p. p[i := f i (p ! i)]) [0..<m] p) = n" if "m \<le> n" "j < n" for m j
    using that
  proof (induction m arbitrary: j)
    case (Suc m)
    then show ?case
      by (auto simp: nth_list_update less_Suc_eq)
  qed (use n in simp)
  moreover have "length (fold (\<lambda>i p. p[i := f i (p ! i)]) is p) = length p" for "is"
    by (induction "is" arbitrary: p) auto
  ultimately show ?thesis
    using n by (intro nth_equalityI) auto
qed

lemma zq_inv: "ff_ok a \<Longrightarrow> a \<noteq> 0 \<Longrightarrow> zq a * zq (ff_inv a) = 1"
  using unat_ff_inv [of a] of_nat_mod_zq [of "unat a * unat (ff_inv a)"] by (simp add: zq_def)

lemma zq_inv_N:
  assumes "ntt_size L"
  shows "ff_ok (INV_FALCON_N L)" "2 ^ L * zq (INV_FALCON_N L) = 1"
proof -
  show "ff_ok (INV_FALCON_N L)"
    by (simp add: INV_FALCON_N_def)
  have "ff_new 512 = 512" "ff_new 1024 = 1024"
    by (simp_all add: word_unat_eq_iff)
  moreover have "zq 512 = 2 ^ 9" "zq 1024 = 2 ^ 10"
    by (simp_all add: zq_def)
  moreover have "ff_ok 512" "ff_ok 1024"
    by (simp_all add: ff_ok_def)
  ultimately show "2 ^ L * zq (INV_FALCON_N L) = 1"
    using assms zq_inv [of 512] zq_inv [of 1024] by (auto simp: ntt_size_def INV_FALCON_N_def simp del: power_numeral_even power_numeral_odd)
qed

lemma zq_intt:
  assumes "ntt_size L" "poly_ok L p" "j < 2 ^ L"
  shows "zq (intt L p ! j) = butterfly.undo L (zroot L) (\<lambda>i. zq (p ! i)) j * zq (INV_FALCON_N L)"
proof -
  let ?q = "fold (intt_layer L) [0..<L] p"
  have q: "poly_ok L ?q"
    by (rule poly_ok_folds) (use assms(2) in auto)
  have "zq (intt L p ! j) = zq (?q ! j) * zq (INV_FALCON_N L)"
    using poly_okD [OF q] zq_inv_N(1) [OF assms(1)] assms(3) fold_update_map [of ?q "2 ^ L" "\<lambda>i a. ff_mul a (INV_FALCON_N L)"]
    by (simp add: intt_def)
  then show ?thesis
    using zq_folds [OF assms(1) _ assms(2,3), of "[0..<L]"] by (simp add: atLeast0LessThan butterfly.undo_def [OF zroot_table [OF assms(1)]])
qed

lemma poly_ok_intt:
  assumes "poly_ok L p"
  shows "poly_ok L (intt L p)"
proof -
  have "poly_ok L (fold (intt_layer L) [0..<L] p)"
    by (rule poly_ok_folds) (use assms in auto)
  then show ?thesis
    using fold_update_map [of "fold (intt_layer L) [0..<L] p" "2 ^ L" "\<lambda>i a. ff_mul a (INV_FALCON_N L)"]
    by (auto simp: intt_def poly_okD(1) intro!: poly_okI)
qed

text \<open>Undoing the layers and dividing by their number gives the coefficients back.\<close>

lemma zq_intt_transform:
  assumes "ntt_size L" "poly_ok L q" "\<And>j. j < 2 ^ L \<Longrightarrow> zq (q ! j) = butterfly.transform L (zroot L) f j" "k < 2 ^ L"
  shows "zq (intt L q ! k) = f k"
proof -
  note b = zroot_table [OF assms(1)]
  have "butterfly.undo L (zroot L) (\<lambda>i. zq (q ! i)) k = butterfly.undo L (zroot L) (butterfly.transform L (zroot L) f) k"
    using butterfly.layers_cong [OF b _ assms(4), of "[0..<L]" "\<lambda>i. zq (q ! i)" "butterfly.transform L (zroot L) f"] assms(3)
    by (simp add: atLeast0LessThan butterfly.undo_def [OF b])
  then have "zq (intt L q ! k) = (2 ^ L * zq (INV_FALCON_N L)) * f k"
    using zq_intt [OF assms(1,2,4)] butterfly.inverse_transform [OF b assms(4)] by (simp add: ac_simps)
  then show ?thesis
    by (simp only: zq_inv_N(2) [OF assms(1)]) simp
qed

lemma intt_ntt:
  assumes "ntt_size L" "poly_ok L p"
  shows "intt L (ntt L p) = p"
proof (rule poly_eqI)
  show "poly_ok L (intt L (ntt L p))" "poly_ok L p"
    using assms(2) by (simp_all add: poly_ok_intt poly_ok_ntt)
  show "zq (intt L (ntt L p) ! j) = zq (p ! j)" if "j < 2 ^ L" for j
    using zq_intt_transform [OF assms(1) poly_ok_ntt [OF assms(2)] zq_ntt [OF assms] that] .
qed

section \<open>The transform evaluates\<close>

text \<open>Every array is a transform: the transform is injective on a finite set.\<close>

lemma ntt_intt:
  assumes "ntt_size L" "poly_ok L q"
  shows "ntt L (intt L q) = q"
proof -
  let ?A = "{p. poly_ok L p}"
  have "?A \<subseteq> {p :: ff_t list. set p \<subseteq> UNIV \<and> length p = 2 ^ L}"
    by (auto simp: poly_ok_def)
  then have "finite ?A"
    by (rule finite_subset) (rule finite_lists_length_eq, simp)
  moreover have "ntt L ` ?A \<subseteq> ?A" "inj_on (ntt L) ?A"
    using intt_ntt [OF assms(1)] by (auto simp: poly_ok_ntt intro: inj_on_inverseI)
  ultimately have "ntt L ` ?A = ?A"
    by (rule endo_inj_surj)
  then obtain p where "poly_ok L p" "q = ntt L p"
    using assms(2) by auto
  then show ?thesis
    using intt_ntt [OF assms(1)] by simp
qed

text \<open>The point at which entry \<open>j\<close> of the transformed array is the value.\<close>

definition point :: "nat \<Rightarrow> nat \<Rightarrow> zq" where
  "point L j = butterfly.point L (zroot L) j"

lemma ntt_eval:
  assumes "ntt_size L" "poly_ok L p" "j < 2 ^ L"
  shows "zq (ntt L p ! j) = peval (2 ^ L) (\<lambda>i. zq (p ! i)) (point L j)" "point L j ^ 2 ^ L = - 1"
  using butterfly.transform_eval [OF zroot_table [OF assms(1)] assms(3)] zq_ntt [OF assms] by (simp_all add: point_def)

text \<open>An array that holds the values of a polynomial at the points is transformed back to its coefficients.\<close>

lemma intt_eval:
  assumes "ntt_size L" "poly_ok L q" "\<And>j. j < 2 ^ L \<Longrightarrow> zq (q ! j) = peval (2 ^ L) f (point L j)" "k < 2 ^ L"
  shows "zq (intt L q ! k) = f k"
  by (rule zq_intt_transform [OF assms(1,2) _ assms(4)])
    (simp add: assms(3) point_def butterfly.transform_eval [OF zroot_table [OF assms(1)]])

lemma pointwise_map:
  assumes "length p = 2 ^ L"
  shows "poly_neg L p = map (\<lambda>i. ff_neg (p ! i)) [0..<2 ^ L]"
    and "poly_add_to L p q = map (\<lambda>i. ff_add (p ! i) (q ! i)) [0..<2 ^ L]"
  using fold_update_map [OF assms, of "\<lambda>i a. ff_neg a"] fold_update_map [OF assms, of "\<lambda>i a. ff_add a (q ! i)"]
  by (simp_all add: poly_neg_def poly_add_to_def)

lemma poly_ok_pointwise:
  "poly_ok L (poly_mul L p q)" "poly_ok L (poly_div L p q)"
  "length p = 2 ^ L \<Longrightarrow> poly_ok L (poly_neg L p)" "length p = 2 ^ L \<Longrightarrow> poly_ok L (poly_add_to L p q)"
  by (auto simp: poly_mul_def poly_div_def ff_div_def pointwise_map intro!: poly_okI)

text \<open>
  C27. The transform and its inverse compute polynomial multiplication: the inverse of the transform of a polynomial is the
  polynomial, and the inverse of the element-wise product of two transforms is their product modulo \<open>x^N + 1\<close> and 12289.
\<close>

theorem ntt_multiplication:
  assumes "ntt_size L" "poly_ok L a" "poly_ok L b"
  shows "intt L (ntt L a) = a \<and> (\<forall>k<2 ^ L. zq (intt L (poly_mul L (ntt L a) (ntt L b)) ! k)
      = negacyclic (2 ^ L) (\<lambda>i. zq (a ! i)) (\<lambda>i. zq (b ! i)) k)"
proof -
  have "zq (poly_mul L (ntt L a) (ntt L b) ! j) = peval (2 ^ L) (negacyclic (2 ^ L) (\<lambda>i. zq (a ! i)) (\<lambda>i. zq (b ! i))) (point L j)"
    if "j < 2 ^ L" for j
    using that assms ntt_eval [OF assms(1,2) that] ntt_eval [OF assms(1,3) that]
      poly_okD(2) [OF poly_ok_ntt [OF assms(2)] that] poly_okD(2) [OF poly_ok_ntt [OF assms(3)] that]
    by (simp add: poly_mul_def peval_negacyclic)
  then show ?thesis
    using intt_ntt [OF assms(1,2)] intt_eval [OF assms(1) poly_ok_pointwise(1)] by blast
qed

theorem ntt_multiplication_witness:
  "intt 9 (ntt 9 (replicate 512 3)) = replicate 512 3"
proof -
  have "poly_ok 9 (replicate 512 3)"
    by (simp add: poly_ok_def ff_ok_def)
  then show ?thesis
    using ntt_multiplication [of 9 "replicate 512 3" "replicate 512 3"] by (simp add: ntt_size_def)
qed

end
