(* ===== verification/Falcon_Codec.thy ===== *)
theory Falcon_Codec
  imports Falcon_Field
begin

unbundle bit_operations_syntax

text \<open>
  The encodings of Falcon keys (\<open>vendors/includes/falcon/encoding.hpp\<close>, \<open>decoding.hpp\<close>): a public key is a header byte and the
  14-bit coefficients of a polynomial, four of them in seven bytes; a secret key is a header byte, the small polynomials \<open>f\<close>
  and \<open>g\<close> with 6 or 5 bits for a coefficient in two's complement, and \<open>F\<close> with 8. The loops over the blocks are recursions that take
  one block at a time.
\<close>

section \<open>Lengths\<close>

definition compute_pkey_len :: "nat \<Rightarrow> nat" where
  "compute_pkey_len N = 1 + N * 14 div 8"

definition compute_skey_len :: "nat \<Rightarrow> nat" where
  "compute_skey_len N = (let br = if N = 512 then 6 else 5 in 1 + N * br div 8 + N * br div 8 + N)"

definition compute_sig_len :: "nat \<Rightarrow> nat" where
  "compute_sig_len N = (if N = 512 then 666 else 1280)"

definition falcon_log2 :: "nat \<Rightarrow> u8" where
  "falcon_log2 N = (if N = 512 then 9 else 10)"

section \<open>Public keys\<close>

fun encode_blocks7 :: "ff_t list \<Rightarrow> bytes" where
  "encode_blocks7 (h0 # h1 # h2 # h3 # hs) =
     [ucast h0,
      push_bit 6 (ucast (h1 AND 0x03)) OR ucast (drop_bit 8 h0),
      ucast (drop_bit 2 h1),
      push_bit 4 (ucast (h2 AND 0x0f)) OR ucast (drop_bit 10 h1),
      ucast (drop_bit 4 h2),
      push_bit 2 (ucast (h3 AND 0x3f)) OR ucast (drop_bit 12 h2),
      ucast (drop_bit 6 h3)] @ encode_blocks7 hs"
| "encode_blocks7 _ = []"

definition encode_pkey :: "nat \<Rightarrow> ff_t list \<Rightarrow> bytes" where
  "encode_pkey N h = falcon_log2 N # encode_blocks7 h"

fun decode_blocks7 :: "bytes \<Rightarrow> ff_t list" where
  "decode_blocks7 (p0 # p1 # p2 # p3 # p4 # p5 # p6 # ps) =
     [push_bit 8 (ucast (p1 AND 0x3f)) OR ucast p0,
      push_bit 10 (ucast (p3 AND 0x0f)) OR push_bit 2 (ucast p2) OR ucast (drop_bit 6 p1),
      push_bit 12 (ucast (p5 AND 0x03)) OR push_bit 4 (ucast p4) OR ucast (drop_bit 4 p3),
      push_bit 6 (ucast p6) OR ucast (drop_bit 2 p5)] @ decode_blocks7 ps"
| "decode_blocks7 _ = []"

text \<open>\<open>None\<close>: the header is not the one of the parameter set.\<close>

definition decode_pkey :: "nat \<Rightarrow> bytes \<Rightarrow> ff_t list option" where
  "decode_pkey N pkey = (if hd pkey \<noteq> falcon_log2 N then None else Some (decode_blocks7 (tl pkey)))"

section \<open>Secret keys\<close>

text \<open>A coefficient as an unsigned number: the negative ones are moved up by \<open>wrap_at\<close>; and back.\<close>

definition wrap_coeff :: "int \<Rightarrow> int \<Rightarrow> u8" where
  "wrap_coeff wrap_at c = word_of_int ((if c < 0 then wrap_at else 0) + c)"

definition unwrap_coeff :: "int \<Rightarrow> u8 \<Rightarrow> int" where
  "unwrap_coeff wrap_at w = uint w - (if uint w > wrap_at div 2 - 1 then wrap_at else 0)"

fun encode_blocks3 :: "u8 list \<Rightarrow> bytes" where
  "encode_blocks3 (f0 # f1 # f2 # f3 # fs) =
     [push_bit 6 f1 OR f0, push_bit 4 f2 OR drop_bit 2 f1, push_bit 2 f3 OR drop_bit 4 f2] @ encode_blocks3 fs"
| "encode_blocks3 _ = []"

fun encode_blocks5 :: "u8 list \<Rightarrow> bytes" where
  "encode_blocks5 (f0 # f1 # f2 # f3 # f4 # f5 # f6 # f7 # fs) =
     [push_bit 5 f1 OR f0,
      push_bit 7 f3 OR push_bit 2 f2 OR drop_bit 3 f1,
      push_bit 4 f4 OR drop_bit 1 f3,
      push_bit 6 f6 OR push_bit 1 f5 OR drop_bit 4 f4,
      push_bit 3 f7 OR drop_bit 2 f6] @ encode_blocks5 fs"
| "encode_blocks5 _ = []"

definition encode_small :: "nat \<Rightarrow> int list \<Rightarrow> bytes" where
  "encode_small N f = (if N = 512 then encode_blocks3 (map (wrap_coeff 64) f) else encode_blocks5 (map (wrap_coeff 32) f))"

definition encode_skey :: "nat \<Rightarrow> int list \<Rightarrow> int list \<Rightarrow> int list \<Rightarrow> bytes" where
  "encode_skey N f g F = [0x50 OR falcon_log2 N] @ encode_small N f @ encode_small N g @ map word_of_int F"

fun decode_blocks3 :: "bytes \<Rightarrow> u8 list" where
  "decode_blocks3 (s0 # s1 # s2 # ss) =
     [s0 AND 0x3f,
      push_bit 2 (s1 AND 0x0f) OR drop_bit 6 s0,
      push_bit 4 (s2 AND 0x03) OR drop_bit 4 s1,
      drop_bit 2 s2] @ decode_blocks3 ss"
| "decode_blocks3 _ = []"

fun decode_blocks5 :: "bytes \<Rightarrow> u8 list" where
  "decode_blocks5 (s0 # s1 # s2 # s3 # s4 # ss) =
     [s0 AND 0x1f,
      push_bit 3 (s1 AND 0x03) OR drop_bit 5 s0,
      drop_bit 2 s1 AND 0x1f,
      push_bit 1 (s2 AND 0x0f) OR drop_bit 7 s1,
      push_bit 4 (s3 AND 0x01) OR drop_bit 4 s2,
      drop_bit 1 s3 AND 0x1f,
      push_bit 2 (s4 AND 0x07) OR drop_bit 6 s3,
      drop_bit 3 s4] @ decode_blocks5 ss"
| "decode_blocks5 _ = []"

definition decode_small :: "nat \<Rightarrow> bytes \<Rightarrow> int list" where
  "decode_small N bs = (if N = 512 then map (unwrap_coeff 64) (decode_blocks3 bs) else map (unwrap_coeff 32) (decode_blocks5 bs))"

text \<open>The bytes of one small polynomial.\<close>

definition small_len :: "nat \<Rightarrow> nat" where
  "small_len N = (if N = 512 then N div 4 * 3 else N div 8 * 5)"

definition decode_skey :: "nat \<Rightarrow> bytes \<Rightarrow> (int list \<times> int list \<times> int list) option" where
  "decode_skey N skey =
     (if hd skey \<noteq> 0x50 OR falcon_log2 N then None
      else let body = tl skey; fs = take (small_len N) body; body = drop (small_len N) body;
               gs = take (small_len N) body; Fs = take N (drop (small_len N) body)
           in Some (decode_small N fs, decode_small N gs, map (unwrap_coeff 256) Fs))"

section \<open>Bits\<close>

text \<open>Equality of words, bit by bit.\<close>

lemma u16_eqI: "list_all (\<lambda>n. bit a n = bit b n) [0..<16] \<Longrightarrow> a = b" for a b :: u16
  by (rule bit_word_eqI) (simp only: list_all_iff set_upt atLeastLessThan_iff, simp)

lemma u8_eqI: "list_all (\<lambda>n. bit a n = bit b n) [0..<8] \<Longrightarrow> a = b" for a b :: u8
  by (rule bit_word_eqI) (simp only: list_all_iff set_upt atLeastLessThan_iff, simp)

lemma upt_16: "[0..<16] = [0, 1, 2, 3, 4, 5, 6, 7, 8, 9, 10, 11, 12, 13, 14, 15]" and upt_8: "[0..<8] = [0, 1, 2, 3, 4, 5, 6, 7]"
  by (simp_all add: upt_rec)

lemma high_bits_clear: "unat w < 2 ^ k \<Longrightarrow> k \<le> n \<Longrightarrow> \<not> bit w n" for w :: "'a::len word"
proof -
  assume "unat w < 2 ^ k" "k \<le> n"
  then have "unat w < 2 ^ n"
    using power_increasing [of k n "2 :: nat"] by linarith
  then have "\<not> bit (unat w) n"
    by (simp add: bit_iff_odd)
  then show ?thesis
    by (simp add: bit_unsigned_iff bit_imp_le_length)
qed

lemma no_high_bits: "8 \<le> n \<Longrightarrow> \<not> bit b n" "16 \<le> n \<Longrightarrow> \<not> bit h n" for b :: u8 and h :: u16
  using bit_imp_le_length [of b n] bit_imp_le_length [of h n] by auto

lemma bit_double: "bit (b * 2) n \<longleftrightarrow> 0 < n \<and> n < 8 \<and> bit b (n - 1)" for b :: u8
  using bit_push_bit_iff [of 1 b n] by (auto simp: mult.commute)

lemmas bitwise = upt_16 upt_8 list.pred_inject

section \<open>Public keys have one encoding\<close>

lemma decode_block7:
  assumes "list_all (\<lambda>h. unat h < 2 ^ 14) [h0, h1, h2, h3]"
  shows "decode_blocks7 (encode_blocks7 (h0 # h1 # h2 # h3 # hs)) = h0 # h1 # h2 # h3 # decode_blocks7 (encode_blocks7 hs)"
proof -
  have "\<not> bit h 14" "\<not> bit h 15" if "h \<in> set [h0, h1, h2, h3]" for h
    using assms that high_bits_clear [of h 14] by (auto simp: list_all_iff)
  note clear = this [of h0] this [of h1] this [of h2] this [of h3]
  show ?thesis
    by (simp only: encode_blocks7.simps append_Cons append_Nil decode_blocks7.simps list.inject)
       (intro conjI u16_eqI refl; simp only: bitwise; simp add: bit_simps no_high_bits clear)
qed

lemma decode_encode7:
  "length h mod 4 = 0 \<Longrightarrow> list_all (\<lambda>h. unat h < 2 ^ 14) h \<Longrightarrow> decode_blocks7 (encode_blocks7 h) = h"
proof (induction h rule: encode_blocks7.induct)
  case (1 h0 h1 h2 h3 hs)
  then show ?case
    using decode_block7 [of h0 h1 h2 h3 hs] by simp
qed auto

lemma encode_decode7: "length p mod 7 = 0 \<Longrightarrow> encode_blocks7 (decode_blocks7 p) = p"
proof (induction p rule: decode_blocks7.induct)
  case (1 p0 p1 p2 p3 p4 p5 p6 ps)
  then have "encode_blocks7 (decode_blocks7 ps) = ps"
    by simp
  then show ?case
    by (simp only: decode_blocks7.simps append_Cons append_Nil encode_blocks7.simps list.inject)
       (intro conjI u8_eqI refl; simp only: bitwise; simp add: bit_simps no_high_bits)
qed auto

lemma length_encode7: "length h mod 4 = 0 \<Longrightarrow> length (encode_blocks7 h) = length h div 4 * 7"
  by (induction h rule: encode_blocks7.induct) auto

lemma length_decode7: "length p mod 7 = 0 \<Longrightarrow> length (decode_blocks7 p) = length p div 7 * 4"
  by (induction p rule: decode_blocks7.induct) auto

text \<open>
  Public keys have exactly one encoding: for both parameter sets a polynomial with coefficients below \<open>2 ^ 14\<close>, and so every
  polynomial over the field, is encoded in the length of the specification and decoded from it, and every key of that length
  that is decoded at all is the encoding of what it is decoded to.
\<close>

theorem pkey_codec:
  assumes "N \<in> {512, 1024}"
  shows "(length h = N \<and> list_all (\<lambda>c. unat c < 2 ^ 14) h \<longrightarrow>
      length (encode_pkey N h) = compute_pkey_len N \<and> decode_pkey N (encode_pkey N h) = Some h)
    \<and> (length pk = compute_pkey_len N \<and> decode_pkey N pk = Some h' \<longrightarrow> length h' = N \<and> encode_pkey N h' = pk)"
proof (intro conjI impI)
  assume h: "length h = N \<and> list_all (\<lambda>c. unat c < 2 ^ 14) h"
  then have N: "length h mod 4 = 0"
    using assms by auto
  show "length (encode_pkey N h) = compute_pkey_len N"
    using h assms by (auto simp: encode_pkey_def length_encode7 [OF N] compute_pkey_len_def)
  show "decode_pkey N (encode_pkey N h) = Some h"
    using h decode_encode7 [OF N] by (simp add: decode_pkey_def encode_pkey_def)
next
  assume pk: "length pk = compute_pkey_len N \<and> decode_pkey N pk = Some h'"
  then obtain ps where ps: "pk = falcon_log2 N # ps" "h' = decode_blocks7 ps"
    by (cases pk) (auto simp: decode_pkey_def compute_pkey_len_def split: if_splits)
  then have len: "length ps mod 7 = 0" "length ps div 7 * 4 = N"
    using pk assms by (auto simp: compute_pkey_len_def)
  then show "length h' = N" "encode_pkey N h' = pk"
    using encode_decode7 [OF len(1)] length_decode7 [OF len(1)] by (simp_all add: ps encode_pkey_def)
qed

theorem pkey_codec_witness: "decode_pkey 512 (encode_pkey 512 (replicate 512 12288)) = Some (replicate 512 12288)"
  using pkey_codec [of 512 "replicate 512 12288" "[]" "[]"] by (simp add: list_all_iff)

text \<open>Decoding does not check that the coefficients are below the modulus, as the specification of Falcon asks.\<close>

lemma decode_pkey_not_canonical:
  "\<exists>pk h. length pk = compute_pkey_len 512 \<and> decode_pkey 512 pk = Some h \<and> \<not> list_all ff_ok h"
proof -
  let ?h = "replicate 512 (16383 :: u16)"
  have "length ?h mod 4 = 0" "list_all (\<lambda>c. unat c < 2 ^ 14) ?h" "\<not> list_all ff_ok ?h"
    by (simp_all add: list_all_iff ff_ok_def)
  then show ?thesis
    using decode_encode7 [of ?h] length_encode7 [of ?h]
    by (intro exI [of _ "encode_pkey 512 ?h"] exI [of _ ?h]) (simp add: encode_pkey_def decode_pkey_def compute_pkey_len_def)
qed

section \<open>Secret keys are read back\<close>

lemma wrap_coeff_range:
  assumes "- (2 ^ k) \<le> c" and "c < 2 ^ k" and "k \<le> 7"
  shows "unat (wrap_coeff (2 * 2 ^ k) c) < 2 ^ Suc k" "unwrap_coeff (2 * 2 ^ k) (wrap_coeff (2 * 2 ^ k) c) = c"
proof -
  have "(2 :: int) ^ k \<le> 2 ^ 7"
    using assms(3) by (intro power_increasing) simp_all
  then have u: "uint (wrap_coeff (2 * 2 ^ k) c) = (if c < 0 then 2 * 2 ^ k else 0) + c"
    using assms(1,2) unfolding wrap_coeff_def uint_word_of_int by (cases "c < 0") simp_all
  then show "unwrap_coeff (2 * 2 ^ k) (wrap_coeff (2 * 2 ^ k) c) = c"
    using assms(1,2) by (simp add: unwrap_coeff_def)
  have "int (unat (wrap_coeff (2 * 2 ^ k) c)) < int (2 ^ Suc k)"
    using u assms(1,2) by simp
  then show "unat (wrap_coeff (2 * 2 ^ k) c) < 2 ^ Suc k"
    by (simp only: of_nat_less_iff)
qed

lemma decode_encode3:
  "length f mod 4 = 0 \<Longrightarrow> list_all (\<lambda>c. unat c < 2 ^ 6) f \<Longrightarrow> decode_blocks3 (encode_blocks3 f) = f"
proof (induction f rule: encode_blocks3.induct)
  case (1 f0 f1 f2 f3 fs)
  have "\<not> bit c 6" "\<not> bit c 7" if "c \<in> set [f0, f1, f2, f3]" for c
    using 1(3) that high_bits_clear [of c 6] by (auto simp: list_all_iff)
  note clear = this [of f0] this [of f1] this [of f2] this [of f3]
  have "decode_blocks3 (encode_blocks3 fs) = fs"
    using 1 by simp
  then show ?case
    by (simp only: encode_blocks3.simps append_Cons append_Nil decode_blocks3.simps list.inject)
       (intro conjI u8_eqI refl; simp only: bitwise; simp add: bit_simps no_high_bits clear)
qed auto

lemma decode_encode5:
  "length f mod 8 = 0 \<Longrightarrow> list_all (\<lambda>c. unat c < 2 ^ 5) f \<Longrightarrow> decode_blocks5 (encode_blocks5 f) = f"
proof (induction f rule: encode_blocks5.induct)
  case (1 f0 f1 f2 f3 f4 f5 f6 f7 fs)
  have "\<not> bit c 5" "\<not> bit c 6" "\<not> bit c 7" if "c \<in> set [f0, f1, f2, f3, f4, f5, f6, f7]" for c
    using 1(3) that high_bits_clear [of c 5] by (auto simp: list_all_iff)
  note clear = this [of f0] this [of f1] this [of f2] this [of f3] this [of f4] this [of f5] this [of f6] this [of f7]
  have "decode_blocks5 (encode_blocks5 fs) = fs"
    using 1 by simp
  then show ?case
    by (simp only: encode_blocks5.simps append_Cons append_Nil decode_blocks5.simps list.inject)
       (intro conjI u8_eqI refl; simp only: bitwise; simp add: bit_simps bit_double no_high_bits clear;
        simp add: numeral_2_eq_2 numeral_3_eq_3)
qed auto

lemma length_encode3: "length f mod 4 = 0 \<Longrightarrow> length (encode_blocks3 f) = length f div 4 * 3"
  by (induction f rule: encode_blocks3.induct) auto

lemma length_encode5: "length f mod 8 = 0 \<Longrightarrow> length (encode_blocks5 f) = length f div 8 * 5"
  by (induction f rule: encode_blocks5.induct) auto

text \<open>The bits of a coefficient of \<open>f\<close> and \<open>g\<close>, without the sign.\<close>

definition small_bits :: "nat \<Rightarrow> nat" where
  "small_bits N = (if N = 512 then 5 else 4)"

lemma length_encode_small:
  assumes "N \<in> {512, 1024}" and "length f = N"
  shows "length (encode_small N f) = small_len N"
  using assms by (auto simp: encode_small_def small_len_def length_encode3 length_encode5)

lemma decode_encode_small:
  assumes "N \<in> {512, 1024}" and "length f = N" and "list_all (\<lambda>c. - (2 ^ small_bits N) \<le> c \<and> c < 2 ^ small_bits N) f"
  shows "decode_small N (encode_small N f) = f"
proof (cases "N = 512")
  case True
  have r: "unat (wrap_coeff 64 c) < 2 ^ 6" "unwrap_coeff 64 (wrap_coeff 64 c) = c" if "c \<in> set f" for c
    using wrap_coeff_range [of 5 c] assms(3) that True by (auto simp: list_all_iff small_bits_def)
  then have "decode_blocks3 (encode_blocks3 (map (wrap_coeff 64) f)) = map (wrap_coeff 64) f"
    using True assms(2) by (intro decode_encode3) (auto simp: list_all_iff)
  then show ?thesis
    using r True by (simp add: encode_small_def decode_small_def map_idI)
next
  case False
  then have N: "N = 1024"
    using assms(1) by simp
  have r: "unat (wrap_coeff 32 c) < 2 ^ 5" "unwrap_coeff 32 (wrap_coeff 32 c) = c" if "c \<in> set f" for c
    using wrap_coeff_range [of 4 c] assms(3) that N by (auto simp: list_all_iff small_bits_def)
  then have "decode_blocks5 (encode_blocks5 (map (wrap_coeff 32) f)) = map (wrap_coeff 32) f"
    using N assms(2) by (intro decode_encode5) (auto simp: list_all_iff)
  then show ?thesis
    using r N by (simp add: encode_small_def decode_small_def map_idI)
qed

lemma length_encode_pkey: "N \<in> {512, 1024} \<Longrightarrow> length h = N \<Longrightarrow> length (encode_pkey N h) = compute_pkey_len N"
  by (auto simp: encode_pkey_def length_encode7 compute_pkey_len_def)

lemma length_encode_skey:
  assumes "N \<in> {512, 1024}" and "length f = N" and "length g = N" and "length F = N"
  shows "length (encode_skey N f g F) = compute_skey_len N"
  using assms length_encode_small [OF assms(1,2)] length_encode_small [OF assms(1,3)]
  by (auto simp: encode_skey_def compute_skey_len_def small_len_def)

text \<open>
  A secret key is read back: when the coefficients of \<open>f\<close> and \<open>g\<close> fit 6 bits (for 512) or 5 bits (for 1024) and those of \<open>F\<close> 8 bits,
  negative ones included, the encoding has the length of the specification and decodes to the three polynomials.
\<close>

theorem skey_roundtrip:
  assumes "N \<in> {512, 1024}" and "length f = N" and "length g = N" and "length F = N"
    and "list_all (\<lambda>c. - (2 ^ small_bits N) \<le> c \<and> c < 2 ^ small_bits N) (f @ g)" and "list_all (\<lambda>c. - 128 \<le> c \<and> c < 128) F"
  shows "length (encode_skey N f g F) = compute_skey_len N \<and> decode_skey N (encode_skey N f g F) = Some (f, g, F)"
proof -
  have ok: "list_all (\<lambda>c. - (2 ^ small_bits N) \<le> c \<and> c < 2 ^ small_bits N) f" "list_all (\<lambda>c. - (2 ^ small_bits N) \<le> c \<and> c < 2 ^ small_bits N) g"
    using assms(5) by simp_all
  note small = decode_encode_small [OF assms(1,2) ok(1)] decode_encode_small [OF assms(1,3) ok(2)]
    length_encode_small [OF assms(1,2)] length_encode_small [OF assms(1,3)]
  have "word_of_int c = wrap_coeff 256 c" for c
    by (simp add: wrap_coeff_def)
  then have "unwrap_coeff 256 (word_of_int c) = c" if "c \<in> set F" for c
    using wrap_coeff_range [of 7 c] assms(6) that by (auto simp: list_all_iff)
  then have F: "map (unwrap_coeff 256) (map word_of_int F) = F"
    by (simp add: map_idI)
  show ?thesis
    using small F assms(4) length_encode_skey [OF assms(1-4)] by (simp add: encode_skey_def decode_skey_def Let_def)
qed

theorem skey_roundtrip_witness:
  "decode_skey 1024 (encode_skey 1024 (replicate 1024 (- 16)) (replicate 1024 15) (replicate 1024 (- 128)))
     = Some (replicate 1024 (- 16), replicate 1024 15, replicate 1024 (- 128))"
  using skey_roundtrip [of 1024 "replicate 1024 (- 16)" "replicate 1024 15" "replicate 1024 (- 128)"]
  by (simp add: list_all_iff small_bits_def)

text \<open>Keys that begin with a zero byte are refused.\<close>

lemma decode_skey_zero: "hd sk = 0 \<Longrightarrow> decode_skey N sk = None"
  by (simp add: decode_skey_def falcon_log2_def)

lemma decode_pkey_zero: "hd pk = 0 \<Longrightarrow> decode_pkey N pk = None"
  by (simp add: decode_pkey_def falcon_log2_def)

end
