(* ===== verification/Falcon_Compress.thy ===== *)
theory Falcon_Compress
  imports Falcon_Codec
begin

unbundle bit_operations_syntax

text \<open>
  The compressed signatures of Falcon (\<open>vendors/includes/falcon/encoding.hpp\<close>, \<open>decoding.hpp\<close>): after a header byte and 40 bytes of
  salt, a coefficient is a sign bit, the seven low bits of its absolute value and the rest of it in unary. The bit writes and
  reads carry the bounds of the arrays they touch: an access outside of them is \<open>Undefined\<close>.
\<close>

definition bind_res :: "'a res \<Rightarrow> ('a \<Rightarrow> 'b res) \<Rightarrow> 'b res" where
  "bind_res r f = (case r of Inl e \<Rightarrow> Inl e | Inr x \<Rightarrow> f x)"

lemma bind_res_simps [simp]: "bind_res (Inl e) f = Inl e" "bind_res (Inr x) f = f x"
  by (simp_all add: bind_res_def)

section \<open>Compression\<close>

text \<open>\<open>sig_buf[i >> 3] |= b << (7 - (i & 7))\<close>, and a run of such writes.\<close>

definition put_bit :: "bool \<Rightarrow> bytes \<times> nat \<Rightarrow> (bytes \<times> nat) res" where
  "put_bit b = (\<lambda>(buf, i).
     if i div 8 < length buf then Inr (buf[i div 8 := buf ! (i div 8) OR push_bit (7 - i mod 8) (of_bool b)], i + 1)
     else Inl (Undefined ''sig_buf''))"

fun put_bits :: "bool list \<Rightarrow> bytes \<times> nat \<Rightarrow> (bytes \<times> nat) res" where
  "put_bits [] s = Inr s"
| "put_bits (b # bs) s = bind_res (put_bit b s) (put_bits bs)"

text \<open>The body of the loop of \<open>compress_sig\<close>: sign, low bits, unary high bits with their terminator.\<close>

definition compress_coeff :: "int \<Rightarrow> bytes \<times> nat \<Rightarrow> (bytes \<times> nat) res" where
  "compress_coeff c s =
     bind_res (put_bits [c < 0] s) (\<lambda>s.
     bind_res (put_bits (map (\<lambda>j. bit (nat \<bar>c\<bar>) (6 - j)) [0..<7]) s) (\<lambda>s.
     bind_res (put_bits (replicate (nat \<bar>c\<bar> div 128) False) s) (\<lambda>s.
     put_bits [True] s)))"

fun compress_loop :: "int list \<Rightarrow> bytes \<times> nat \<Rightarrow> (bytes \<times> nat) res" where
  "compress_loop [] s = Inr s"
| "compress_loop (c # cs) s = bind_res (compress_coeff c s) (compress_loop cs)"

text \<open>The result: whether the polynomial fitted, and the signature with its bytes from 41 on overwritten.\<close>

definition compress_sig :: "nat \<Rightarrow> nat \<Rightarrow> int list \<Rightarrow> bytes \<Rightarrow> (bool \<times> bytes) res" where
  "compress_sig N sbytelen poly_s sig =
     (let slen = 8 * sbytelen - (8 + 320);
          max_sbytelen = (14 * N) div 8
      in bind_res (compress_loop poly_s (replicate max_sbytelen 0, 0)) (\<lambda>(sig_buf, bit_idx).
         let sig_buf = (if bit_idx \<ge> slen then replicate max_sbytelen 0 else sig_buf)
         in Inr (bit_idx < slen, take 41 sig @ take (sbytelen - 41) sig_buf)))"

section \<open>Decompression\<close>

definition extract_8_contiguous_bits :: "bytes \<Rightarrow> nat \<Rightarrow> u8 res" where
  "extract_8_contiguous_bits bs bitoff =
     (let byte_at = bitoff div 8; bit_at = bitoff mod 8
      in if byte_at + 1 < length bs
         then Inr (ucast (drop_bit (8 - bit_at) (push_bit 8 (ucast (bs ! byte_at)) OR ucast (bs ! (byte_at + 1)) :: u16)))
         else Inl (Undefined ''sig[byte_at + 1]''))"

definition extract_rem_contiguous_bits_in_byte :: "bytes \<Rightarrow> nat \<Rightarrow> u8 res" where
  "extract_rem_contiguous_bits_in_byte bs bitoff =
     (let byte_at = bitoff div 8; bit_at = bitoff mod 8
      in if byte_at < length bs then Inr (push_bit bit_at (bs ! byte_at)) else Inl (Undefined ''sig[byte_at]''))"

definition byte_bits :: "u8 \<Rightarrow> bool list" where
  "byte_bits w = map (\<lambda>j. bit w (7 - j)) [0..<8]"

definition countl_zero :: "u8 \<Rightarrow> nat" where
  "countl_zero w = length (takeWhile Not (byte_bits w))"

text \<open>The next \<open>ebits = min(8, slen - bit_idx)\<close> bits: how many of them are zeros before the first one.\<close>

definition zeros_ahead :: "bytes \<Rightarrow> nat \<Rightarrow> nat \<Rightarrow> nat res" where
  "zeros_ahead sig slen bit_idx =
     (if slen - bit_idx < 8
      then bind_res (extract_rem_contiguous_bits_in_byte sig bit_idx) (\<lambda>t. Inr (countl_zero t))
      else bind_res (extract_8_contiguous_bits sig bit_idx) (\<lambda>t. Inr (countl_zero t)))"

text \<open>The loop for eight or more zeros; \<open>k\<close> is counted and not used afterwards.\<close>

function high_bits_loop :: "bytes \<Rightarrow> nat \<Rightarrow> nat \<Rightarrow> nat \<Rightarrow> (nat \<times> nat) res" where
  "high_bits_loop sig slen k bit_idx =
     (if bit_idx < slen
      then bind_res (zeros_ahead sig slen bit_idx) (\<lambda>v.
             let ebits = min 8 (slen - bit_idx); k = k + v; bit_idx' = bit_idx + ebits
             in if v < ebits then Inr (k, bit_idx') else high_bits_loop sig slen k bit_idx')
      else Inr (k, bit_idx))"
  by pat_completeness auto
termination by (relation "measure (\<lambda>(_, slen, _, bit_idx). slen - bit_idx)") auto

declare high_bits_loop.simps [simp del]

text \<open>One coefficient: its value, its sign bit, and the index of the bit that ends its unary part.\<close>

definition decompress_coeff :: "bytes \<Rightarrow> nat \<Rightarrow> nat \<Rightarrow> (int \<times> bool \<times> nat) res" where
  "decompress_coeff sig slen bit_idx =
     bind_res (extract_8_contiguous_bits sig bit_idx) (\<lambda>res.
       let sign_bit = (drop_bit 7 res = 1);
           coeff = uint (res AND 0x7f);
           bit_idx = bit_idx + 8
       in bind_res (extract_8_contiguous_bits sig bit_idx) (\<lambda>t.
            let k = countl_zero t
            in bind_res (if k < 8 then Inr (coeff + 128 * int k, bit_idx + k)
                         else bind_res (high_bits_loop sig slen k (bit_idx + k)) (\<lambda>(_, bit_idx). Inr (coeff, bit_idx)))
                 (\<lambda>(coeff, bit_idx). Inr (if sign_bit then - coeff else coeff, sign_bit, bit_idx))))"

text \<open>
  The main loop, \<open>n\<close> coefficients before its end: whether it broke off, the coefficients it stored, how many are missing, and
  the bit index.
\<close>

fun decompress_sig_loop :: "bytes \<Rightarrow> nat \<Rightarrow> nat \<Rightarrow> nat \<Rightarrow> (bool \<times> int list \<times> nat \<times> nat) res" where
  "decompress_sig_loop sig slen 0 bit_idx = Inr (False, [], 0, bit_idx)"
| "decompress_sig_loop sig slen (Suc n) bit_idx =
     (if bit_idx < slen
      then bind_res (decompress_coeff sig slen bit_idx) (\<lambda>(coeff, sign_bit, bit_idx).
             if coeff = 0 \<and> sign_bit then Inr (True, [], Suc n, bit_idx)
             else bind_res (decompress_sig_loop sig slen n (bit_idx + 1)) (\<lambda>(failed, cs, m, bit_idx). Inr (failed, coeff # cs, m, bit_idx)))
      else Inr (False, [], Suc n, bit_idx))"

text \<open>The trailing bits: whether one of them is set.\<close>

function trailing_loop :: "bytes \<Rightarrow> nat \<Rightarrow> nat \<Rightarrow> bool \<Rightarrow> bool res" where
  "trailing_loop sig slen bit_idx failed =
     (if bit_idx < slen
      then bind_res (zeros_ahead sig slen bit_idx) (\<lambda>v.
             let ebits = min 8 (slen - bit_idx) in trailing_loop sig slen (bit_idx + ebits) (failed \<or> v < ebits))
      else Inr failed)"
  by pat_completeness auto
termination by (relation "measure (\<lambda>(_, slen, bit_idx, _). slen - bit_idx)") auto

declare trailing_loop.simps [simp del]

definition decompress_sig :: "nat \<Rightarrow> nat \<Rightarrow> bytes \<Rightarrow> (bool \<times> int list) res" where
  "decompress_sig N sbytelen sig =
     (let slen = 8 * sbytelen
      in bind_res (decompress_sig_loop sig slen N (8 + 320)) (\<lambda>(failed, poly_s, missing, bit_idx).
         let failed = (failed \<or> bit_idx \<ge> slen \<or> missing > 0)
         in bind_res (if failed then Inr True else trailing_loop sig slen bit_idx False) (\<lambda>failed.
            Inr (\<not> failed, if failed then replicate N 0 else poly_s))))"

text \<open>\<open>decode_sig\<close>: the salt and the polynomial; \<open>None\<close> when the code returns false.\<close>

definition decode_sig :: "nat \<Rightarrow> bytes \<Rightarrow> (bytes \<times> int list) option res" where
  "decode_sig N sig =
     (let header = 0x30 OR falcon_log2 N; slen = (if N = 1024 then 1280 else 666)
      in if sig = [] then Inl (Undefined ''sig[0]'')
         else if sig ! 0 \<noteq> header then Inr None
         else bind_res (decompress_sig N slen sig) (\<lambda>(decompressed, s2).
           if \<not> decompressed then Inr None else Inr (Some (take 40 (drop 1 sig), s2))))"


section \<open>Bit strings\<close>

definition bits_of :: "bytes \<Rightarrow> bool list" where
  "bits_of bs = concat (map byte_bits bs)"

definition coeff_bits :: "int \<Rightarrow> bool list" where
  "coeff_bits c = (c < 0) # map (\<lambda>j. bit (nat \<bar>c\<bar>) (6 - j)) [0..<7] @ replicate (nat \<bar>c\<bar> div 128) False @ [True]"

lemma length_byte_bits [simp]: "length (byte_bits w) = 8"
  by (simp add: byte_bits_def)

lemma length_bits_of [simp]: "length (bits_of bs) = 8 * length bs"
  by (simp add: bits_of_def length_concat comp_def sum_list_triv)

lemma length_coeff_bits [simp]: "length (coeff_bits c) = 9 + nat \<bar>c\<bar> div 128"
  by (simp add: coeff_bits_def)

lemma bits_of_Cons: "bits_of (b # bs) = byte_bits b @ bits_of bs"
  by (simp add: bits_of_def)

lemma bits_of_append: "bits_of (as @ bs) = bits_of as @ bits_of bs"
  by (simp add: bits_of_def)

lemma nth_bits_of: "i < 8 * length bs \<Longrightarrow> bits_of bs ! i = bit (bs ! (i div 8)) (7 - i mod 8)"
proof (induction bs arbitrary: i)
  case (Cons b bs)
  show ?case
  proof (cases "i < 8")
    case True
    then show ?thesis
      by (simp add: bits_of_Cons nth_append byte_bits_def)
  next
    case False
    then obtain j where "i = j + 8"
      by (metis add.commute le_add_diff_inverse not_less)
    moreover from this have "i div 8 = Suc (j div 8)"
      by simp
    ultimately show ?thesis
      using Cons by (simp add: bits_of_Cons nth_append)
  qed
qed simp

lemma bits_of_zeros: "bits_of (replicate n 0) = replicate (8 * n) False"
  by (rule nth_equalityI) (auto simp: nth_bits_of)

lemma bit_or_push: "m < 8 \<Longrightarrow> bit (w OR push_bit m (of_bool b) :: u8) n \<longleftrightarrow> bit w n \<or> b \<and> n = m"
  by (cases b) (auto simp: bit_or_iff bit_exp_iff)

lemma put_bit_bits:
  assumes "i < 8 * length buf"
  shows "\<exists>buf'. put_bit b (buf, i) = Inr (buf', i + 1) \<and> length buf' = length buf \<and> bits_of buf' = (bits_of buf)[i := bits_of buf ! i \<or> b]"
proof -
  let ?buf' = "buf[i div 8 := buf ! (i div 8) OR push_bit (7 - i mod 8) (of_bool b)]"
  have "bits_of ?buf' ! j = (bits_of buf)[i := bits_of buf ! i \<or> b] ! j" if "j < 8 * length buf" for j
  proof (cases "j div 8 = i div 8")
    case True
    have "i mod 8 < 8" "j mod 8 < 8"
      by simp_all
    then have "7 - i mod 8 = 7 - j mod 8 \<longleftrightarrow> i mod 8 = j mod 8"
      by linarith
    also have "\<dots> \<longleftrightarrow> i = j"
      using True by (metis div_mult_mod_eq)
    finally have "7 - i mod 8 = 7 - j mod 8 \<longleftrightarrow> i = j" .
    then show ?thesis
      using that assms True by (cases "i = j") (simp_all add: nth_bits_of nth_list_update bit_or_push less_mult_imp_div_less mult.commute)
  next
    case False
    then show ?thesis
      using that assms by (auto simp: nth_bits_of nth_list_update)
  qed
  then have "bits_of ?buf' = (bits_of buf)[i := bits_of buf ! i \<or> b]"
    by (intro nth_equalityI) auto
  then show ?thesis
    using assms by (intro exI [of _ ?buf']) (auto simp: put_bit_def)
qed

text \<open>A run of bits written where the buffer holds zeros.\<close>

lemma put_bits_bits:
  assumes "bits_of buf = pre @ replicate (length bs) False @ post" "i = length pre"
  shows "\<exists>buf'. put_bits bs (buf, i) = Inr (buf', i + length bs) \<and> length buf' = length buf \<and> bits_of buf' = pre @ bs @ post"
  using assms
proof (induction bs arbitrary: buf i pre)
  case (Cons b bs)
  have "i < 8 * length buf"
    using arg_cong [OF Cons.prems(1), of length] Cons.prems(2) by simp
  from put_bit_bits [OF this, of b] obtain buf1 where 1: "put_bit b (buf, i) = Inr (buf1, i + 1)" "length buf1 = length buf"
      "bits_of buf1 = (pre @ [b]) @ replicate (length bs) False @ post"
    using Cons.prems by (auto simp: list_update_append)
  from Cons.IH [OF 1(3), of "i + 1"] obtain buf' where "put_bits bs (buf1, i + 1) = Inr (buf', i + 1 + length bs)"
      "length buf' = length buf1" "bits_of buf' = (pre @ [b]) @ bs @ post"
    using Cons.prems(2) by auto
  then show ?case
    using 1 by (intro exI [of _ buf']) simp
qed simp

lemma put_bits_append: "put_bits (as @ bs) s = bind_res (put_bits as s) (put_bits bs)"
  by (induction as arbitrary: s) (auto simp: bind_res_def split: sum.splits)

lemma compress_coeff_bits: "compress_coeff c s = put_bits (coeff_bits c) s"
proof -
  have "coeff_bits c = [c < 0] @ map (\<lambda>j. bit (nat \<bar>c\<bar>) (6 - j)) [0..<7] @ replicate (nat \<bar>c\<bar> div 128) False @ [True]"
    by (simp add: coeff_bits_def)
  moreover have "put_bits (as @ bs) = (\<lambda>s. bind_res (put_bits as s) (put_bits bs))" for as bs
    by (rule ext) (rule put_bits_append)
  ultimately show ?thesis
    by (simp only: compress_coeff_def)
qed

lemma compress_loop_bits: "compress_loop cs s = put_bits (concat (map coeff_bits cs)) s"
  by (induction cs arbitrary: s) (auto simp: put_bits_append compress_coeff_bits bind_res_def split: sum.splits)


section \<open>Reading bits\<close>

lemma bit_window:
  fixes b0 b1 :: u8
  assumes "n < 8" "r < 8"
  shows "bit (ucast (drop_bit (8 - r) (push_bit 8 (ucast b0) OR ucast b1 :: u16)) :: u8) n
     \<longleftrightarrow> (if r \<le> n then bit b0 (n - r) else bit b1 (8 - r + n))"
proof (cases "r \<le> n")
  case True
  then have "8 - r + n = 8 + (n - r)"
    using assms by simp
  moreover have "\<not> bit b1 (8 + (n - r))"
    by (auto dest: bit_imp_le_length)
  ultimately show ?thesis
    using assms True by (auto simp: bit_ucast_iff bit_drop_bit_eq bit_or_iff bit_push_bit_iff)
next
  case False
  then show ?thesis
    using assms by (auto simp: bit_ucast_iff bit_drop_bit_eq bit_or_iff bit_push_bit_iff)
qed

text \<open>The two extractions read the bit string of the bytes.\<close>

lemma extract_8_bits:
  assumes "i div 8 + 1 < length bs"
  shows "\<exists>w. extract_8_contiguous_bits bs i = Inr w \<and> byte_bits w = take 8 (drop i (bits_of bs))"
proof -
  let ?w = "ucast (drop_bit (8 - i mod 8) (push_bit 8 (ucast (bs ! (i div 8))) OR ucast (bs ! (i div 8 + 1)) :: u16)) :: u8"
  have i: "i = 8 * (i div 8) + i mod 8" "i mod 8 < 8"
    by simp_all
  have "byte_bits ?w ! j = take 8 (drop i (bits_of bs)) ! j" if j: "j < 8" for j
  proof -
    have d: "(i + j) div 8 = i div 8 + (i mod 8 + j) div 8" "(i + j) mod 8 = (i mod 8 + j) mod 8"
      using j div_add1_eq [of i j 8] mod_add_left_eq [of i 8 j] by simp_all
    have "take 8 (drop i (bits_of bs)) ! j = bit (bs ! ((i + j) div 8)) (7 - (i + j) mod 8)"
      using assms j i by (simp add: nth_bits_of)
    also have "\<dots> = (if i mod 8 \<le> 7 - j then bit (bs ! (i div 8)) (7 - j - i mod 8) else bit (bs ! (i div 8 + 1)) (8 - i mod 8 + (7 - j)))"
    proof (cases "i mod 8 + j < 8")
      case True
      then have "i mod 8 \<le> 7 - j"
        by linarith
      then show ?thesis
        using True j by (simp add: d add.commute)
    next
      case False
      then obtain x where x: "i mod 8 + j = x + 8"
        by (metis add.commute le_add_diff_inverse not_less)
      moreover have "x < 8"
        using x j i(2) by linarith
      ultimately have "(i mod 8 + j) div 8 = 1" "(i mod 8 + j) mod 8 = i mod 8 + j - 8"
        by simp_all
      moreover have "7 - (i mod 8 + j - 8) = 8 - i mod 8 + (7 - j)" "\<not> i mod 8 \<le> 7 - j"
        using False j i(2) by linarith+
      ultimately show ?thesis
        using j by (simp add: d)
    qed
    also have "\<dots> = bit ?w (7 - j)"
      by (rule bit_window [symmetric]) (use j in simp_all)
    finally show ?thesis
      using j by (simp add: byte_bits_def)
  qed
  then have "byte_bits ?w = take 8 (drop i (bits_of bs))"
    using assms i by (intro nth_equalityI) auto
  then show ?thesis
    using assms by (auto simp: extract_8_contiguous_bits_def Let_def)
qed

lemma extract_rem_bits:
  assumes "i div 8 < length bs"
  shows "\<exists>w. extract_rem_contiguous_bits_in_byte bs i = Inr w
           \<and> byte_bits w = take (8 - i mod 8) (drop i (bits_of bs)) @ replicate (i mod 8) False"
proof -
  let ?w = "push_bit (i mod 8) (bs ! (i div 8))"
  have i: "i = 8 * (i div 8) + i mod 8" "i mod 8 < 8"
    by simp_all
  have len: "8 - i mod 8 + i \<le> 8 * length bs"
    using assms i by linarith
  have "byte_bits ?w ! j = (take (8 - i mod 8) (drop i (bits_of bs)) @ replicate (i mod 8) False) ! j" if j: "j < 8" for j
  proof (cases "i mod 8 + j < 8")
    case True
    then have "(i + j) div 8 = i div 8" "(i + j) mod 8 = i mod 8 + j"
      using j div_add1_eq [of i j 8] mod_add_left_eq [of i 8 j] by simp_all
    moreover have b: "j < 8 * length bs - i" "j < 8 - i mod 8" "i mod 8 \<le> 7 - j" "7 - j < LENGTH(8)"
      using True j len by simp_all
    moreover have "bit ?w (7 - j) = bit (bs ! (i div 8)) (7 - (i mod 8 + j))"
      unfolding bit_push_bit_iff using b(3,4) by (simp add: add.commute)
    moreover have "(take (8 - i mod 8) (drop i (bits_of bs)) @ replicate (i mod 8) False) ! j = bits_of bs ! (i + j)"
      using b(1,2) by (simp add: nth_append)
    moreover have "i + j < 8 * length bs"
      using b(1) by simp
    ultimately show ?thesis
      using j by (simp add: byte_bits_def nth_bits_of)
  next
    case False
    then have f: "\<not> j < 8 - i mod 8" "j - (8 - i mod 8) < i mod 8" "\<not> i mod 8 \<le> 7 - j" "8 - i mod 8 \<le> 8 * length bs - i"
      using j len i(2) by linarith+
    then have "(take (8 - i mod 8) (drop i (bits_of bs)) @ replicate (i mod 8) False) ! j = False"
      by (simp only: nth_append length_take length_drop length_bits_of min_absorb2 if_False nth_replicate)
    moreover have "\<not> bit ?w (7 - j)"
      using f(3) by (simp add: bit_push_bit_iff)
    ultimately show ?thesis
      using j by (simp add: byte_bits_def)
  qed
  then have "byte_bits ?w = take (8 - i mod 8) (drop i (bits_of bs)) @ replicate (i mod 8) False"
    using len i(2) by (intro nth_equalityI) auto
  then show ?thesis
    using assms by (auto simp: extract_rem_contiguous_bits_in_byte_def Let_def)
qed


lemma takeWhile_zeros: "length (takeWhile Not (replicate k False @ True # r)) = k"
  by (induction k) auto

lemma countl_zero_bits:
  assumes "byte_bits w = take 8 (replicate k False @ True # r)"
  shows "countl_zero w = min k 8"
proof (cases "k < 8")
  case True
  then have "take 8 (replicate k False @ True # r) = replicate k False @ take (8 - k) (True # r)" "0 < 8 - k"
    by simp_all
  then show ?thesis
    using True assms by (cases "8 - k") (simp_all add: countl_zero_def takeWhile_zeros)
next
  case False
  then show ?thesis
    using assms by (simp add: countl_zero_def min_def)
qed

lemma sign_and_low_bits:
  assumes "byte_bits w = s # map (\<lambda>j. bit n (6 - j)) [0..<7]"
  shows "(drop_bit 7 w = 1) = s" "uint (w AND 0x7f) = int (n mod 128)"
proof -
  have nth: "bit w (7 - j) = (s # map (\<lambda>j. bit n (6 - j)) [0..<7]) ! j" if "j < 8" for j
    using arg_cong [OF assms, of "\<lambda>l. l ! j"] that by (simp add: byte_bits_def)
  have low: "bit w m = bit n m" if "m < 7" for m
    using nth [of "7 - m"] that by simp
  have "drop_bit 7 w = of_bool (bit w 7)"
  proof (rule bit_word_eqI)
    fix m
    show "bit (drop_bit 7 w) m = bit (of_bool (bit w 7) :: u8) m"
      by (cases m) (auto simp: bit_drop_bit_eq bit_1_iff dest: bit_imp_le_length)
  qed
  then show "(drop_bit 7 w = 1) = s"
    using nth [of 0] by simp
  have "(0x7f :: u8) = mask 7"
    by (simp add: mask_eq_exp_minus_1)
  then have "uint (w AND 0x7f) = take_bit 7 (uint w)"
    by (simp only: take_bit_eq_mask [symmetric] unsigned_take_bit_eq)
  also have "\<dots> = take_bit 7 (int n)"
    using low by (intro bit_eqI) (auto simp: bit_take_bit_iff bit_uint_iff bit_of_nat_iff_bit)
  finally show "uint (w AND 0x7f) = int (n mod 128)"
    by (simp add: take_bit_eq_mod zmod_int)
qed

text \<open>One coefficient is read back, as long as its unary part fits in a byte.\<close>

lemma decompress_coeff_bits:
  assumes bits: "drop i (bits_of sig) = coeff_bits c @ rest" and i: "i + 16 < 8 * length sig" and c: "\<bar>c\<bar> < 1024"
  shows "decompress_coeff sig slen i = Inr (c, c < 0, i + 8 + nat \<bar>c\<bar> div 128)"
proof -
  define n where "n = nat \<bar>c\<bar>"
  have k: "n div 128 < 8"
    using c by (simp add: n_def less_mult_imp_div_less)
  have "i div 8 < length sig - 2"
    using i by (intro less_mult_imp_div_less) simp
  then have range: "i div 8 + 1 < length sig" "(i + 8) div 8 + 1 < length sig"
    by simp_all
  obtain w where w: "extract_8_contiguous_bits sig i = Inr w" "byte_bits w = (c < 0) # map (\<lambda>j. bit n (6 - j)) [0..<7]"
    using extract_8_bits [OF range(1)] bits by (auto simp: coeff_bits_def n_def)
  have "drop (i + 8) (bits_of sig) = replicate (n div 128) False @ True # rest"
    using arg_cong [OF bits, of "drop 8"] by (simp add: coeff_bits_def n_def add.commute)
  then obtain t where t: "extract_8_contiguous_bits sig (i + 8) = Inr t" "countl_zero t = n div 128"
    using extract_8_bits [OF range(2)] k countl_zero_bits [of _ "n div 128" rest] by auto
  have "int (n mod 128) + 128 * int (n div 128) = \<bar>c\<bar>"
  proof -
    have "int (n mod 128) + 128 * int (n div 128) = int n"
      by (metis mod_mult_div_eq of_nat_add of_nat_mult of_nat_numeral)
    then show ?thesis
      by (simp add: n_def)
  qed
  then show ?thesis
    using k w(1) t sign_and_low_bits [OF w(2)] by (simp add: decompress_coeff_def Let_def n_def [symmetric])
qed

lemma decompress_loop_bits:
  assumes "drop i (bits_of sig) = concat (map coeff_bits cs) @ rest" "\<forall>c \<in> set cs. \<bar>c\<bar> < 1024"
    "i + length (concat (map coeff_bits cs)) < 8 * length sig"
    "cs \<noteq> [] \<Longrightarrow> i + length (concat (map coeff_bits cs)) + 8 \<le> 8 * length sig + nat \<bar>last cs\<bar> div 128"
  shows "decompress_sig_loop sig (8 * length sig) (length cs) i = Inr (False, cs, 0, i + length (concat (map coeff_bits cs)))"
  using assms
proof (induction cs arbitrary: i)
  case (Cons c cs)
  let ?i = "i + 8 + nat \<bar>c\<bar> div 128 + 1"
  have "i + 16 < 8 * length sig"
    using Cons.prems(3,4) by (cases cs) auto
  then have "decompress_coeff sig (8 * length sig) i = Inr (c, c < 0, i + 8 + nat \<bar>c\<bar> div 128)"
    using Cons.prems by (intro decompress_coeff_bits [of _ _ _ "concat (map coeff_bits cs) @ rest"]) auto
  moreover have "drop ?i (bits_of sig) = concat (map coeff_bits cs) @ rest"
    using arg_cong [OF Cons.prems(1), of "drop (length (coeff_bits c))"] by (simp add: algebra_simps)
  then have "decompress_sig_loop sig (8 * length sig) (length cs) ?i = Inr (False, cs, 0, ?i + length (concat (map coeff_bits cs)))"
    using Cons.prems by (intro Cons.IH) auto
  ultimately show ?case
    using Cons.prems by simp
qed simp

text \<open>The unary part of a coefficient is read in a window of eight bits and the byte behind it, whatever its length is.\<close>

lemma decompress_coeff_overread:
  assumes "8 * length sig \<le> i + 16"
  shows "decompress_coeff sig slen i = Inl (Undefined ''sig[byte_at + 1]'')"
proof -
  have "i = 8 * (i div 8) + i mod 8" "i mod 8 < 8"
    by simp_all
  then have "length sig \<le> (i + 8) div 8 + 1"
    using assms by simp
  then show ?thesis
    by (auto simp: decompress_coeff_def extract_8_contiguous_bits_def Let_def)
qed

lemma decompress_loop_overread:
  assumes "drop i (bits_of sig) = concat (map coeff_bits cs) @ rest" "\<forall>c \<in> set cs. \<bar>c\<bar> < 1024"
    "i + length (concat (map coeff_bits cs)) < 8 * length sig" "cs \<noteq> []"
    "8 * length sig + nat \<bar>last cs\<bar> div 128 < i + length (concat (map coeff_bits cs)) + 8"
  shows "decompress_sig_loop sig (8 * length sig) (length cs) i = Inl (Undefined ''sig[byte_at + 1]'')"
  using assms
proof (induction cs arbitrary: i)
  case (Cons c cs)
  let ?i = "i + 8 + nat \<bar>c\<bar> div 128 + 1"
  show ?case
  proof (cases "cs = []")
    case True
    then show ?thesis
      using Cons.prems decompress_coeff_overread [of sig i] by simp
  next
    case False
    then have "i + 16 < 8 * length sig"
      using Cons.prems(3) by (cases cs) auto
    then have "decompress_coeff sig (8 * length sig) i = Inr (c, c < 0, i + 8 + nat \<bar>c\<bar> div 128)"
      using Cons.prems by (intro decompress_coeff_bits [of _ _ _ "concat (map coeff_bits cs) @ rest"]) auto
    moreover have "drop ?i (bits_of sig) = concat (map coeff_bits cs) @ rest"
      using arg_cong [OF Cons.prems(1), of "drop (length (coeff_bits c))"] by (simp add: algebra_simps)
    then have "decompress_sig_loop sig (8 * length sig) (length cs) ?i = Inl (Undefined ''sig[byte_at + 1]'')"
      using Cons.prems False by (intro Cons.IH) auto
    ultimately show ?thesis
      using Cons.prems by simp
  qed
qed simp

section \<open>Trailing bits\<close>

lemma countl_zero_zeros: "byte_bits w = replicate 8 False \<Longrightarrow> countl_zero w = 8"
  by (simp add: countl_zero_def)

lemma zeros_ahead_zeros:
  assumes "drop i (bits_of sig) = replicate n False" "i < 8 * length sig" "i mod 8 \<noteq> 0"
  shows "zeros_ahead sig (8 * length sig) i = Inr 8"
proof -
  have n: "n = 8 * length sig - i"
    using arg_cong [OF assms(1), of length] by simp
  have i: "i = 8 * (i div 8) + i mod 8" "i mod 8 < 8"
    by simp_all
  show ?thesis
  proof (cases "8 * length sig - i < 8")
    case True
    have "i div 8 < length sig"
      using assms(2) i(1) by linarith
    moreover from this have "8 - i mod 8 \<le> n"
      using n i by linarith
    ultimately show ?thesis
      using True extract_rem_bits [of i sig] assms(1) i(2)
      by (auto simp: zeros_ahead_def countl_zero_zeros min_absorb1 simp flip: replicate_add)
  next
    case False
    have "i div 8 + 1 < length sig" "8 \<le> n"
      using False assms(3) i n by linarith+
    then show ?thesis
      using False extract_8_bits [of i sig] assms(1) by (auto simp: zeros_ahead_def countl_zero_zeros min_absorb1)
  qed
qed

text \<open>Zeros to the end pass the last check; but when they start at a byte boundary it reads a byte behind the signature.\<close>

lemma trailing_loop_zeros:
  assumes "drop i (bits_of sig) = replicate n False" "i \<le> 8 * length sig" "i mod 8 \<noteq> 0"
  shows "trailing_loop sig (8 * length sig) i f = Inr f"
  using assms
proof (induction "8 * length sig - i" arbitrary: i n rule: less_induct)
  case less
  show ?case
  proof (cases "i < 8 * length sig")
    case True
    let ?e = "min 8 (8 * length sig - i)"
    note z = zeros_ahead_zeros [OF less.prems(1) True less.prems(3)]
    have "trailing_loop sig (8 * length sig) (i + ?e) f = Inr f"
    proof (cases "i + 8 \<le> 8 * length sig")
      case True
      have "drop (i + 8) (bits_of sig) = replicate (n - 8) False"
        using arg_cong [OF less.prems(1), of "drop 8"] by (simp add: add.commute)
      then show ?thesis
        using True less.hyps [of "i + 8" "n - 8"] less.prems(3) by (simp add: min_absorb1)
    next
      case False
      then have "i + ?e = 8 * length sig"
        using \<open>i < 8 * length sig\<close> by (simp add: min_def)
      then show ?thesis
        by (simp add: trailing_loop.simps)
    qed
    then show ?thesis
      using True z by (subst trailing_loop.simps) (simp add: Let_def)
  qed (use less.prems in \<open>simp add: trailing_loop.simps\<close>)
qed

lemma trailing_loop_overread:
  assumes "i < 8 * length sig" "i mod 8 = 0"
  shows "trailing_loop sig (8 * length sig) i f = Inl (Undefined ''sig[byte_at + 1]'')"
  using assms
proof (induction "8 * length sig - i" arbitrary: i f rule: less_induct)
  case less
  obtain j where j: "i = 8 * j"
    using less.prems(2) by (metis mod_0_imp_dvd dvd_def)
  then have "j < length sig"
    using less.prems(1) by simp
  then have ge: "\<not> 8 * length sig - i < 8" "min 8 (8 * length sig - i) = 8"
    using j by auto
  show ?case
  proof (cases "j + 1 < length sig")
    case True
    obtain w where w: "extract_8_contiguous_bits sig i = Inr w"
      using extract_8_bits [of i sig] True j by auto
    have "trailing_loop sig (8 * length sig) (i + 8) (f \<or> countl_zero w < 8) = Inl (Undefined ''sig[byte_at + 1]'')"
      using True j by (intro less.hyps) auto
    then show ?thesis
      using less.prems(1) ge w by (subst trailing_loop.simps) (simp add: zeros_ahead_def Let_def)
  next
    case False
    then show ?thesis
      using less.prems(1) ge j by (subst trailing_loop.simps) (simp add: zeros_ahead_def extract_8_contiguous_bits_def)
  qed
qed

section \<open>Round trip\<close>

text \<open>The length of a compressed polynomial in bits.\<close>

definition compressed_len :: "int list \<Rightarrow> nat" where
  "compressed_len cs = (\<Sum>c\<leftarrow>cs. 9 + nat \<bar>c\<bar> div 128)"

lemma length_concat_coeff_bits: "length (concat (map coeff_bits cs)) = compressed_len cs"
  by (induction cs) (simp_all add: compressed_len_def)

lemma put_bits_overflow:
  assumes "8 * length buf < i + length bs" "i \<le> 8 * length buf"
  shows "put_bits bs (buf, i) = Inl (Undefined ''sig_buf'')"
  using assms
proof (induction bs arbitrary: buf i)
  case (Cons b bs)
  show ?case
  proof (cases "i < 8 * length buf")
    case True
    then show ?thesis
      using put_bit_bits [OF True, of b] Cons.IH [of _ "i + 1"] Cons.prems by auto
  next
    case False
    then show ?thesis
      using Cons.prems by (simp add: put_bit_def)
  qed
qed simp

text \<open>
  \<open>compress_sig\<close> returns true exactly when the bits of the coefficients, in order, are fewer than the bits the signature has for
  them, and then stores these bits and zeros behind them; it writes outside its buffer when they exceed 14 bits for a
  coefficient.
\<close>

theorem compress_sig_result:
  assumes "length cs = N" "N = 512 \<and> sbytelen = 666 \<or> N = 1024 \<and> sbytelen = 1280" "41 \<le> length sig"
  shows "if compressed_len cs > 14 * N then compress_sig N sbytelen cs sig = Inl (Undefined ''sig_buf'')
    else \<exists>out. compress_sig N sbytelen cs sig = Inr (compressed_len cs < 8 * (sbytelen - 41), take 41 sig @ out)
         \<and> length out = sbytelen - 41
         \<and> bits_of out = (if compressed_len cs < 8 * (sbytelen - 41)
              then concat (map coeff_bits cs) @ replicate (8 * (sbytelen - 41) - compressed_len cs) False
              else replicate (8 * (sbytelen - 41)) False)"
proof -
  define T where "T = compressed_len cs"
  define m where "m = (14 * N) div 8"
  have m: "8 * m = 14 * N" "sbytelen - 41 \<le> m" "8 * sbytelen - 328 = 8 * (sbytelen - 41)"
    using assms(2) by (auto simp: m_def)
  show ?thesis
  proof (cases "T > 14 * N")
    case True
    then show ?thesis
      using put_bits_overflow [of "replicate m 0" 0 "concat (map coeff_bits cs)"] m
      by (simp add: compress_sig_def Let_def compress_loop_bits length_concat_coeff_bits T_def flip: m_def)
  next
    case False
    then have "bits_of (replicate m 0) = [] @ replicate (length (concat (map coeff_bits cs))) False @ replicate (8 * m - T) False"
      using m(1) by (simp add: bits_of_zeros length_concat_coeff_bits T_def flip: replicate_add)
    from put_bits_bits [OF this, of 0] obtain buf where buf: "compress_loop cs (replicate m 0, 0) = Inr (buf, T)"
        "length buf = m" "bits_of buf = concat (map coeff_bits cs) @ replicate (8 * m - T) False"
      by (auto simp: compress_loop_bits length_concat_coeff_bits T_def)
    let ?l = "sbytelen - 41"
    have take_bits: "bits_of (take k bs) = take (8 * k) (bits_of bs)" if "k \<le> length bs" for k bs
      using bits_of_append [of "take k bs" "drop k bs"] that by simp
    have "compress_sig N sbytelen cs sig
        = Inr (T < 8 * ?l, take 41 sig @ take ?l (if T \<ge> 8 * ?l then replicate m 0 else buf))"
      using buf(1) m(3) by (simp add: compress_sig_def Let_def flip: m_def)
    moreover have "bits_of (take ?l buf) = concat (map coeff_bits cs) @ replicate (8 * ?l - T) False" if "T < 8 * ?l"
      using that m(2) buf(2,3) by (simp add: take_bits length_concat_coeff_bits T_def)
    moreover have "bits_of (take ?l (replicate m 0)) = replicate (8 * ?l) False"
      using m(2) by (simp add: bits_of_zeros)
    ultimately show ?thesis
      using False m(2) buf(2) by (auto simp: T_def not_less)
  qed
qed

text \<open>
  The codes that decompression reads: they do not end at a byte boundary, where the check of the trailing bits reads on, and the
  unary part of the last coefficient does not start in the last byte, where the window of eight bits reads on.
\<close>

definition readable :: "nat \<Rightarrow> int list \<Rightarrow> bool" where
  "readable sbytelen cs \<longleftrightarrow> compressed_len cs mod 8 \<noteq> 0
     \<and> compressed_len cs + 8 \<le> 8 * (sbytelen - 41) + nat \<bar>last cs\<bar> div 128"

text \<open>Decompression reads what compression wrote, whatever the header and the salt in front of it are.\<close>

lemma decompress_bits:
  assumes len: "length cs = N" "N = 512 \<and> sbytelen = 666 \<or> N = 1024 \<and> sbytelen = 1280" "length s = sbytelen"
    and small: "\<forall>c \<in> set cs. \<bar>c\<bar> < 1024" and fits: "compressed_len cs < 8 * (sbytelen - 41)"
    and bits: "drop 328 (bits_of s) = concat (map coeff_bits cs) @ replicate (8 * (sbytelen - 41) - compressed_len cs) False"
  shows "decompress_sig N sbytelen s = (if readable sbytelen cs then Inr (True, cs) else Inl (Undefined ''sig[byte_at + 1]''))"
proof -
  define T where "T = compressed_len cs"
  have l: "41 \<le> sbytelen" "T < 8 * (sbytelen - 41)" "cs \<noteq> []"
    using len(1,2) fits by (auto simp: T_def)
  have T: "length (concat (map coeff_bits cs)) = T" "8 * length s = 8 * (sbytelen - 41) + 328"
    using l(1) len(3) by (simp_all add: length_concat_coeff_bits T_def)
  show ?thesis
  proof (cases "T + 8 \<le> 8 * (sbytelen - 41) + nat \<bar>last cs\<bar> div 128")
    case True
    have rest: "drop (328 + T) (bits_of s) = replicate (8 * (sbytelen - 41) - T) False"
      using arg_cong [OF bits, of "drop T"] by (simp add: length_concat_coeff_bits T_def add.commute)
    have end_idx: "328 + T < 8 * length s" "(328 + T) mod 8 = T mod 8"
      using l T(2) by (auto simp: mod_add_left_eq [symmetric])
    have loop: "decompress_sig_loop s (8 * length s) N 328 = Inr (False, cs, 0, 328 + T)"
      using decompress_loop_bits [OF bits small] len(1) True l T by simp
    then show ?thesis
      using True end_idx trailing_loop_zeros [OF rest] trailing_loop_overread [of "328 + T" s]
      by (simp add: decompress_sig_def Let_def len(3) readable_def flip: T_def)
  next
    case False
    then have "decompress_sig_loop s (8 * length s) N 328 = Inl (Undefined ''sig[byte_at + 1]'')"
      using decompress_loop_overread [OF bits small] len(1) l T by simp
    then show ?thesis
      using False by (simp add: decompress_sig_def Let_def len(3) readable_def flip: T_def)
  qed
qed

text \<open>
  C28. A polynomial with coefficients below 1024 in absolute value whose code is shorter than the room in the signature is compressed,
  the header and the salt in front are kept, and decompressing gives exactly this polynomial, except for two kinds of code on which
  decompression reads a byte behind the signature: those that end at a byte boundary, and those in which the unary part of the last
  coefficient starts in the last byte.
\<close>

theorem compress_roundtrip:
  assumes len: "length cs = N" "N = 512 \<and> sbytelen = 666 \<or> N = 1024 \<and> sbytelen = 1280" "41 \<le> length sig"
    and small: "\<forall>c \<in> set cs. \<bar>c\<bar> < 1024" and fits: "compressed_len cs < 8 * (sbytelen - 41)"
  shows "\<exists>sig'. compress_sig N sbytelen cs sig = Inr (True, sig') \<and> take 41 sig' = take 41 sig \<and> length sig' = sbytelen
    \<and> decompress_sig N sbytelen sig' = (if readable sbytelen cs then Inr (True, cs) else Inl (Undefined ''sig[byte_at + 1]''))"
proof -
  define T where "T = compressed_len cs"
  have l: "41 \<le> sbytelen" "\<not> T > 14 * N" "T < 8 * (sbytelen - 41)"
    using len(2) fits by (auto simp: T_def)
  from compress_sig_result [OF len] l obtain out where
    out: "compress_sig N sbytelen cs sig = Inr (True, take 41 sig @ out)" "length out = sbytelen - 41"
      "bits_of out = concat (map coeff_bits cs) @ replicate (8 * (sbytelen - 41) - T) False"
    by (auto simp: T_def)
  define s where "s = take 41 sig @ out"
  have s: "length s = sbytelen" "take 41 s = take 41 sig"
    using len(3) out(2) l(1) by (simp_all add: s_def)
  have bits: "drop 328 (bits_of s) = concat (map coeff_bits cs) @ replicate (8 * (sbytelen - 41) - compressed_len cs) False"
    using len(3) out(3) by (simp add: s_def bits_of_append T_def)
  show ?thesis
    using out(1) s decompress_bits [OF len(1,2) s(1) small fits bits] by (simp add: s_def)
qed

lemma compressed_len_witness:
  "compressed_len (128 # replicate 511 0) = 4609" "compressed_len (replicate 391 128 @ replicate 121 0) = 4999"
  by (simp_all add: compressed_len_def map_replicate sum_list_replicate)

theorem compress_roundtrip_witness:
  "(\<exists>sig'. compress_sig 512 666 (128 # replicate 511 0) (replicate 666 0) = Inr (True, sig')
     \<and> decompress_sig 512 666 sig' = Inr (True, 128 # replicate 511 0))
   \<and> (\<exists>sig'. compress_sig 512 666 (replicate 391 128 @ replicate 121 0) (replicate 666 0) = Inr (True, sig')
     \<and> decompress_sig 512 666 sig' = Inl (Undefined ''sig[byte_at + 1]''))"
proof -
  have "\<not> readable 666 (replicate 391 128 @ replicate 121 0)" "readable 666 (128 # replicate 511 0)"
    by (simp_all add: readable_def compressed_len_witness)
  then show ?thesis
    using compress_roundtrip [of "128 # replicate 511 0" 512 666 "replicate 666 0"]
      compress_roundtrip [of "replicate 391 128 @ replicate 121 0" 512 666 "replicate 666 0"]
    by (auto simp: compressed_len_witness)
qed

theorem compress_sig_result_witness:
  "compress_sig 512 666 (replicate 512 1024) (replicate 666 0) = Inl (Undefined ''sig_buf'')"
  using compress_sig_result [of "replicate 512 1024" 512 666 "replicate 666 0"]
  by (simp add: compressed_len_def map_replicate sum_list_replicate)

text \<open>
  What is decompressed is always below 1024: a unary part of eight or more bits is skipped and not added, so no polynomial with a
  larger coefficient comes back, although \<open>compress_sig\<close> writes them.
\<close>

lemma decompress_coeff_small:
  assumes "decompress_coeff sig slen i = Inr (c, s, j)"
  shows "\<bar>c\<bar> < 1024"
proof -
  have low: "0 \<le> uint (w AND 0x7f) \<and> uint (w AND 0x7f) < 128" for w :: u8
  proof -
    have "(0x7f :: u8) = mask 7"
      by (simp add: mask_eq_exp_minus_1)
    then have "uint (w AND 0x7f) = take_bit 7 (uint w)"
      by (simp only: take_bit_eq_mask [symmetric] unsigned_take_bit_eq)
    then show ?thesis
      by (simp add: take_bit_eq_mod)
  qed
  from assms obtain w where w: "extract_8_contiguous_bits sig i = Inr w"
    by (cases "extract_8_contiguous_bits sig i") (auto simp: decompress_coeff_def)
  with assms obtain t where t: "extract_8_contiguous_bits sig (i + 8) = Inr t"
    by (cases "extract_8_contiguous_bits sig (i + 8)") (auto simp: decompress_coeff_def Let_def)
  show ?thesis
  proof (cases "countl_zero t < 8")
    case True
    define y where "y = uint (w AND 0x7f) + 128 * int (countl_zero t)"
    have "0 \<le> y" "y < 1024"
      using low [of w] True by (simp_all add: y_def)
    moreover have "c = (if s then - y else y)"
      using assms w t True by (auto simp: decompress_coeff_def Let_def y_def)
    ultimately show ?thesis
      by simp
  next
    case False
    then show ?thesis
      using assms w t low [of w]
      by (cases "high_bits_loop sig slen (countl_zero t) (i + 8 + countl_zero t)") (auto simp: decompress_coeff_def Let_def)
  qed
qed

lemma decompress_loop_small:
  "decompress_sig_loop sig slen n i = Inr (f, cs, m, j) \<Longrightarrow> \<forall>c \<in> set cs. \<bar>c\<bar> < 1024"
proof (induction n arbitrary: i f cs m j)
  case (Suc n)
  show ?case
  proof (cases "i < slen")
    case True
    with Suc.prems obtain c s k where c: "decompress_coeff sig slen i = Inr (c, s, k)"
      by (cases "decompress_coeff sig slen i") auto
    note step = Suc.prems True c
    show ?thesis
    proof (cases "c = 0 \<and> s")
      case True
      then show ?thesis
        using step by simp
    next
      case False
      then obtain f' cs' m' j' where "decompress_sig_loop sig slen n (k + 1) = Inr (f', cs', m', j')" "cs = c # cs'"
        using step by (cases "decompress_sig_loop sig slen n (k + 1)") auto
      then show ?thesis
        using Suc.IH decompress_coeff_small [OF c] by auto
    qed
  qed (use Suc.prems in simp)
qed simp

theorem decompress_sig_small:
  assumes "decompress_sig N sbytelen sig = Inr (ok, cs)"
  shows "\<forall>c \<in> set cs. \<bar>c\<bar> < 1024"
proof -
  from assms obtain f cs' m j where "decompress_sig_loop sig (8 * sbytelen) N 328 = Inr (f, cs', m, j)"
    by (cases "decompress_sig_loop sig (8 * sbytelen) N 328") (auto simp: decompress_sig_def)
  then show ?thesis
    using assms decompress_loop_small
    by (fastforce simp: decompress_sig_def Let_def bind_res_def split: sum.splits if_splits)
qed

end
