(* ===== verification/Falcon_Verify.thy ===== *)
theory Falcon_Verify
  imports Falcon_NTT Falcon_Compress Sponge
begin

unbundle bit_operations_syntax

text \<open>
  Verification of Falcon signatures (\<open>vendors/includes/falcon/verification.hpp\<close>, \<open>hashing.hpp\<close>, \<open>verify\<close> of \<open>falcon.hpp\<close>) and the public
  key (\<open>compute_public_key\<close> of \<open>keygen.hpp\<close>), over the sponge, the decompression and the transform of the other theories. A
  computation that does not return is \<open>None\<close>: the rejection sampling of the message hash has no bound.
\<close>

definition log2N :: "nat \<Rightarrow> nat" where
  "log2N N = (if N = 512 then 9 else 10)"

section \<open>Hashing a message to a polynomial\<close>

text \<open>The bytes of a buffer in pairs; a pair below \<open>5 q\<close> is reduced and stored, while fewer than \<open>n\<close> are.\<close>

fun sample_pairs :: "nat \<Rightarrow> bytes \<Rightarrow> ff_t list \<Rightarrow> ff_t list" where
  "sample_pairs n (b0 # b1 # buf) poly =
     (if length poly < n
      then let t = push_bit 8 (ucast b0) OR ucast b1 :: u16
           in sample_pairs n buf (if t < 61445 then poly @ [ff_new t] else poly)
      else poly)"
| "sample_pairs n _ poly = poly"

partial_function (option) hash_loop :: "nat \<Rightarrow> xof \<Rightarrow> ff_t list \<Rightarrow> ff_t list option" where
  "hash_loop n hasher poly =
     (if length poly < n
      then case shake256_read (replicate 136 0) hasher of (buf, hasher) \<Rightarrow> hash_loop n hasher (sample_pairs n buf poly)
      else Some poly)"

definition hash_to_point :: "nat \<Rightarrow> bytes \<Rightarrow> bytes \<Rightarrow> ff_t list option" where
  "hash_to_point n salt msg = hash_loop n (shake256_finalize (shake256_absorb msg (shake256_absorb salt xof_new))) []"

section \<open>Verification\<close>

text \<open>\<open>static_cast<uint16_t>((x < 0) * Q + x)\<close>, and back to the residues around zero.\<close>

definition to_ff :: "int \<Rightarrow> ff_t" where
  "to_ff x = word_of_int ((if x < 0 then 12289 else 0) + x)"

definition normalize_coeff :: "ff_t \<Rightarrow> int" where
  "normalize_coeff v = uint v - (if unat v \<ge> 12289 div 2 then 12289 else 0)"

text \<open>\<open>sqrd_norm += x * x\<close> on an \<open>int32_t\<close>: a product or a sum outside of its range is undefined.\<close>

fun add_squares :: "int list \<Rightarrow> int \<Rightarrow> int res" where
  "add_squares [] acc = Inr acc"
| "add_squares (x # xs) acc =
     (if x * x < 2 ^ 31 \<and> acc + x * x < 2 ^ 31 then add_squares xs (acc + x * x) else Inl (Undefined ''sqrd_norm''))"

definition compute_s1 :: "nat \<Rightarrow> ff_t list \<Rightarrow> ff_t list \<Rightarrow> ff_t list \<Rightarrow> ff_t list" where
  "compute_s1 N h c s2 =
     (let c = ntt (log2N N) c;
          s2_ntt = ntt (log2N N) s2;
          h' = ntt (log2N N) h;
          s1 = poly_mul (log2N N) s2_ntt h';
          s1 = poly_neg (log2N N) s1;
          s1 = poly_add_to (log2N N) s1 c
      in intt (log2N N) s1)"

text \<open>What follows the decoding and the hash: the bound on the squared norm of the two polynomials.\<close>

definition check_norm :: "nat \<Rightarrow> int \<Rightarrow> ff_t list \<Rightarrow> ff_t list \<Rightarrow> int list \<Rightarrow> bool res" where
  "check_norm N bound h c s2 =
     (let s1 = compute_s1 N h c (map to_ff s2)
      in bind_res (add_squares s2 0) (\<lambda>sqrd_norm.
         bind_res (add_squares (map normalize_coeff s1) sqrd_norm) (\<lambda>sqrd_norm. Inr (sqrd_norm \<le> bound))))"

definition verification_verify :: "nat \<Rightarrow> int \<Rightarrow> ff_t list \<Rightarrow> bytes \<Rightarrow> bytes \<Rightarrow> bool res option" where
  "verification_verify N bound h msg sig =
     (case decode_sig N sig of
        Inl e \<Rightarrow> Some (Inl e)
      | Inr None \<Rightarrow> Some (Inr False)
      | Inr (Some (salt, s2)) \<Rightarrow> map_option (\<lambda>c. check_norm N bound h c s2) (hash_to_point N salt msg))"

definition beta2 :: "nat \<Rightarrow> int" where
  "beta2 N = (if N = 1024 then 70265242 else 34034726)"

definition falcon_verify :: "nat \<Rightarrow> bytes \<Rightarrow> bytes \<Rightarrow> bytes \<Rightarrow> bool res option" where
  "falcon_verify N pkey msg sig =
     (case decode_pkey N pkey of None \<Rightarrow> Some (Inr False) | Some h \<Rightarrow> verification_verify N (beta2 N) h msg sig)"

section \<open>The public key\<close>

definition compute_public_key :: "nat \<Rightarrow> int list \<Rightarrow> int list \<Rightarrow> ff_t list" where
  "compute_public_key N f g =
     (let f' = ntt (log2N N) (map to_ff f);
          g' = ntt (log2N N) (map to_ff g)
      in intt (log2N N) (poly_div (log2N N) g' f'))"

section \<open>The sampled coefficients\<close>

text \<open>Candidate \<open>i\<close> of the output of a state, and the accepted ones among the first \<open>n\<close>.\<close>

definition candidate :: "u64 list \<Rightarrow> nat \<Rightarrow> u16" where
  "candidate st i = push_bit 8 (ucast (squeezed 136 st (2 * i))) OR ucast (squeezed 136 st (2 * i + 1))"

definition accepted :: "u64 list \<Rightarrow> nat \<Rightarrow> ff_t list" where
  "accepted st n = map ff_new (filter (\<lambda>t. t < 61445) (map (candidate st) [0..<n]))"

lemma sample_pairs_eq:
  "length poly \<le> n \<Longrightarrow> sample_pairs n (concat (map (\<lambda>i. [f i, g i]) is)) poly =
     take n (poly @ map ff_new (filter (\<lambda>t. t < 61445) (map (\<lambda>i. push_bit 8 (ucast (f i)) OR ucast (g i)) is)))"
proof (induction "is" arbitrary: poly)
  case (Cons i "is")
  show ?case
  proof (cases "length poly < n")
    case True
    then show ?thesis
      using Cons.IH [of poly] Cons.IH [of "poly @ [ff_new (push_bit 8 (ucast (f i)) OR ucast (g i))]"] by (auto simp: Let_def)
  next
    case False
    then show ?thesis
      using Cons.prems by simp
  qed
qed simp

lemma concat_pairs: "concat (map (\<lambda>i. [f (2 * i), f (2 * i + 1)]) [a..<b]) = map f [2 * a..<2 * b]"
proof (induction b)
  case (Suc b)
  show ?case
  proof (cases "a \<le> b")
    case True
    then show ?thesis
      using Suc by simp
  qed simp
qed simp

lemma accepted_add: "accepted st (m + n) = accepted st m @ map ff_new (filter (\<lambda>t. t < 61445) (map (candidate st) [m..<m + n]))"
  by (simp add: accepted_def upt_add_eq_append [of 0 m n, simplified])

text \<open>A hasher that has given out \<open>k\<close> blocks of the output of \<open>st\<close>.\<close>

definition after_blocks :: "u64 list \<Rightarrow> nat \<Rightarrow> xof \<Rightarrow> bool" where
  "after_blocks st k h \<longleftrightarrow> absorbed h \<and> x_state h = (permute ^^ k) st \<and> readable h = 136"

lemma read_block:
  assumes "after_blocks st k h" "length st = 25"
  shows "\<exists>h'. shake256_read (replicate 136 0) h = (map (squeezed 136 st) [136 * k..<136 * Suc k], h') \<and> after_blocks st (Suc k) h'"
  using assms xof_read_loop_squeezed [of 136 st "136 * k" 136]
  by (simp add: shake256_read_def xof_read_def after_blocks_def add.commute [of 136])

lemma hash_loop_step:
  assumes "after_blocks st k h" "length st = 25"
  shows "\<exists>h'. after_blocks st (Suc k) h' \<and> hash_loop n h (take n (accepted st (68 * k))) =
    (if length (accepted st (68 * k)) < n then hash_loop n h' (take n (accepted st (68 * Suc k)))
     else Some (take n (accepted st (68 * k))))"
proof -
  from read_block [OF assms] obtain h' where h': "after_blocks st (Suc k) h'"
    "shake256_read (replicate 136 0) h = (map (squeezed 136 st) [136 * k..<136 * Suc k], h')"
    by blast
  have "map (squeezed 136 st) [136 * k..<136 * Suc k]
      = concat (map (\<lambda>i. [squeezed 136 st (2 * i), squeezed 136 st (2 * i + 1)]) [68 * k..<68 * Suc k])"
    by (simp only: concat_pairs) (simp add: algebra_simps)
  moreover have "accepted st (68 * Suc k) = accepted st (68 * k)
      @ map ff_new (filter (\<lambda>t. t < 61445) (map (candidate st) [68 * k..<68 * Suc k]))"
    using accepted_add [of st "68 * k" 68] by (simp add: add.commute)
  ultimately have "sample_pairs n (map (squeezed 136 st) [136 * k..<136 * Suc k]) (accepted st (68 * k)) = take n (accepted st (68 * Suc k))"
    if "length (accepted st (68 * k)) < n"
    using that by (simp only: sample_pairs_eq candidate_def [abs_def] less_imp_le)
  then show ?thesis
    using h' by (subst hash_loop.simps) (auto simp: min_def)
qed


lemma accepted_take: "m \<le> m' \<Longrightarrow> n \<le> length (accepted st m) \<Longrightarrow> take n (accepted st m') = take n (accepted st m)"
  using accepted_add [of st m "m' - m"] by simp

lemma hash_loop_returns:
  assumes "length st = 25" "n \<le> length (accepted st (68 * m))" "k \<le> m"
  shows "after_blocks st k h \<Longrightarrow> hash_loop n h (take n (accepted st (68 * k))) = Some (take n (accepted st (68 * m)))"
  using assms(3)
proof (induction k arbitrary: h rule: inc_induct)
  case base
  then show ?case
    using hash_loop_step [of st m h n] assms by auto
next
  case (step k)
  from hash_loop_step [OF step.prems assms(1), of n] obtain h' where h': "after_blocks st (Suc k) h'"
    "hash_loop n h (take n (accepted st (68 * k))) = (if length (accepted st (68 * k)) < n
       then hash_loop n h' (take n (accepted st (68 * Suc k))) else Some (take n (accepted st (68 * k))))"
    by blast
  show ?case
  proof (cases "length (accepted st (68 * k)) < n")
    case True
    then show ?thesis
      using h' step.IH by simp
  next
    case False
    then show ?thesis
      using h' accepted_take [of "68 * k" "68 * m" n st] step.hyps by simp
  qed
qed

text \<open>
  The message hash is rejection sampling on the output of SHAKE256 for the salt and the message: as soon as the candidates of some
  number of blocks contain enough values below \<open>5 q\<close>, it returns the first \<open>n\<close> of these, reduced.
\<close>

theorem hash_to_point_samples:
  assumes "n \<le> length (accepted (absorbed_state 0x0F 4 136 (salt @ msg)) (68 * m))"
  shows "hash_to_point n salt msg = Some (take n (accepted (absorbed_state 0x0F 4 136 (salt @ msg)) (68 * m)))"
proof -
  let ?st = "absorbed_state 0x0F 4 136 (salt @ msg)"
  have "after_blocks ?st 0 (shake256_finalize (shake256_absorb msg (shake256_absorb salt xof_new)))"
    using xof_incremental_state [of 136 "[salt, msg]"]
    by (simp add: after_blocks_def shake256_finalize_def shake256_absorb_def)
  then show ?thesis
    using hash_loop_returns [OF _ assms, of 0] by (simp add: hash_to_point_def accepted_def)
qed

text \<open>Whatever it returns has \<open>n\<close> canonical coefficients.\<close>

lemma sample_pairs_ok:
  "length poly \<le> n \<Longrightarrow> \<forall>a \<in> set poly. ff_ok a \<Longrightarrow>
    length (sample_pairs n buf poly) \<le> n \<and> (\<forall>a \<in> set (sample_pairs n buf poly). ff_ok a)"
proof (induction n buf poly rule: sample_pairs.induct)
  case (1 n b0 b1 buf poly)
  show ?case
  proof (cases "length poly < n")
    case True
    define t :: u16 where "t = push_bit 8 (ucast b0) OR ucast b1"
    define p where "p = (if t < 61445 then poly @ [ff_new t] else poly)"
    have "sample_pairs n (b0 # b1 # buf) poly = sample_pairs n buf p"
      by (simp only: sample_pairs.simps True if_True Let_def p_def t_def)
    moreover have "length p \<le> n" "\<forall>a \<in> set p. ff_ok a"
      using True "1.prems" by (simp_all add: p_def)
    ultimately show ?thesis
      using "1.IH" [OF True t_def, folded p_def] by simp
  next
    case False
    then show ?thesis
      using "1.prems" by (simp only: sample_pairs.simps if_False)
  qed
qed simp_all

lemma hash_loop_ok:
  assumes "hash_loop n h poly = Some c"
  shows "length poly \<le> n \<longrightarrow> (\<forall>a \<in> set poly. ff_ok a) \<longrightarrow> length c = n \<and> (\<forall>a \<in> set c. ff_ok a)"
proof (rule hash_loop.raw_induct [OF _ assms])
  fix loop n h poly c
  assume IH: "\<And>n h poly c. loop n h poly = Some c \<Longrightarrow>
      length poly \<le> n \<longrightarrow> (\<forall>a \<in> set poly. ff_ok a) \<longrightarrow> length c = n \<and> (\<forall>a \<in> set c. ff_ok a)"
    and step: "(if length poly < n
      then case shake256_read (replicate 136 0) h of (buf, h) \<Rightarrow> loop n h (sample_pairs n buf poly)
      else Some poly) = Some c"
  obtain buf h' where r: "shake256_read (replicate 136 0) h = (buf, h')"
    by fastforce
  show "length poly \<le> n \<longrightarrow> (\<forall>a \<in> set poly. ff_ok a) \<longrightarrow> length c = n \<and> (\<forall>a \<in> set c. ff_ok a)"
  proof (cases "length poly < n")
    case True
    then have "loop n h' (sample_pairs n buf poly) = Some c"
      using step by (simp only: if_True r prod.case)
    then show ?thesis
      using IH sample_pairs_ok by blast
  next
    case False
    then show ?thesis
      using step by auto
  qed
qed

lemma hash_to_point_ok: "hash_to_point n salt msg = Some c \<Longrightarrow> length c = n \<and> (\<forall>a \<in> set c. ff_ok a)"
  using hash_loop_ok [of n _ "[]" c] by (simp add: hash_to_point_def)

section \<open>The norm\<close>

lemma add_squares_sum:
  "0 \<le> acc \<Longrightarrow> acc < 2 ^ 31 \<Longrightarrow> add_squares xs acc =
    (if acc + (\<Sum>x\<leftarrow>xs. x * x) < 2 ^ 31 then Inr (acc + (\<Sum>x\<leftarrow>xs. x * x)) else Inl (Undefined ''sqrd_norm''))"
proof (induction xs arbitrary: acc)
  case (Cons x xs)
  have "0 \<le> (\<Sum>x\<leftarrow>xs. x * x)" "0 \<le> x * x"
    by (rule sum_list_nonneg) auto
  then show ?case
    using Cons.IH [of "acc + x * x"] Cons.prems by (auto simp: add.assoc)
qed simp

lemma to_ff_zq:
  assumes "\<bar>x\<bar> < 12289"
  shows "ff_ok (to_ff x)" "zq (to_ff x) = of_int x"
proof -
  define y where "y = (if x < 0 then 12289 else 0) + x"
  have y: "0 \<le> y" "y < 12289" "(of_int y :: zq) = of_int x"
    using assms by (auto simp: y_def)
  then have u: "unat (to_ff x) = nat y"
    by (simp add: to_ff_def unat_eq_nat_uint uint_word_of_int flip: y_def)
  show "ff_ok (to_ff x)"
    using u y by (simp add: ff_ok_def)
  show "zq (to_ff x) = of_int x"
    using u y by (simp add: zq_def)
qed

lemma normalize_coeff_zq:
  assumes "ff_ok v"
  shows "of_int (normalize_coeff v) = zq v" "- 6145 \<le> normalize_coeff v" "normalize_coeff v \<le> 6143"
proof -
  have "(of_int (uint v) :: zq) = zq v"
    by (simp add: zq_def)
  then show "of_int (normalize_coeff v) = zq v"
    by (auto simp: normalize_coeff_def)
  show "- 6145 \<le> normalize_coeff v" "normalize_coeff v \<le> 6143"
  proof -
    have "normalize_coeff v = int (unat v) - (if unat v \<ge> 6144 then 12289 else 0)" "unat v < 12289"
      using assms by (simp_all only: normalize_coeff_def uint_nat ff_ok_def) simp
    then show "- 6145 \<le> normalize_coeff v" "normalize_coeff v \<le> 6143"
      by (cases "6144 \<le> unat v"; simp only: if_True if_False; linarith)+
  qed
qed


section \<open>What verification checks\<close>

lemma log2N: "N = 512 \<or> N = 1024 \<Longrightarrow> ntt_size (log2N N) \<and> 2 ^ log2N N = N"
  by (auto simp: ntt_size_def log2N_def)

lemma poly_ok_to_ff:
  "length xs = 2 ^ L \<Longrightarrow> \<forall>x \<in> set xs. \<bar>x\<bar> < 12289 \<Longrightarrow> poly_ok L (map to_ff xs)"
  by (auto simp: poly_ok_def to_ff_zq)

lemma compute_s1_spec:
  assumes "N = 512 \<or> N = 1024" "poly_ok (log2N N) h" "poly_ok (log2N N) c" "poly_ok (log2N N) s2" "k < N"
  shows "ff_ok (compute_s1 N h c s2 ! k)"
    and "zq (compute_s1 N h c s2 ! k) = zq (c ! k) - negacyclic N (\<lambda>i. zq (s2 ! i)) (\<lambda>i. zq (h ! i)) k"
    and "length (compute_s1 N h c s2) = N"
proof -
  define L where "L = log2N N"
  have L: "ntt_size L" "2 ^ L = N"
    using log2N [OF assms(1)] by (simp_all add: L_def)
  note ok = assms(2-4) [folded L_def] assms(2-4) [folded L_def, THEN poly_ok_ntt]
  define q where "q = poly_add_to L (poly_neg L (poly_mul L (ntt L s2) (ntt L h))) (ntt L c)"
  have s1: "compute_s1 N h c s2 = intt L q"
    by (simp add: compute_s1_def q_def Let_def flip: L_def)
  have q: "poly_ok L q"
    unfolding q_def by (intro poly_ok_pointwise poly_okD(1))
  then show "ff_ok (compute_s1 N h c s2 ! k)" "length (compute_s1 N h c s2) = N"
    using poly_okD [OF poly_ok_intt [OF q]] assms(5) L(2) by (simp_all add: s1)
  have "zq (q ! j) = peval (2 ^ L) (\<lambda>k. zq (c ! k) - negacyclic N (\<lambda>i. zq (s2 ! i)) (\<lambda>i. zq (h ! i)) k) (point L j)" if "j < 2 ^ L" for j
  proof -
    note e = ntt_eval [OF L(1) ok(1) that] ntt_eval [OF L(1) ok(2) that] ntt_eval [OF L(1) ok(3) that]
    have "zq (q ! j) = zq (ntt L c ! j) - zq (ntt L s2 ! j) * zq (ntt L h ! j)"
      using that ok(4-6) by (simp add: q_def pointwise_map poly_okD poly_ok_pointwise poly_mul_def)
    also have "\<dots> = peval (2 ^ L) (\<lambda>i. zq (c ! i)) (point L j)
        - peval (2 ^ L) (negacyclic N (\<lambda>i. zq (s2 ! i)) (\<lambda>i. zq (h ! i))) (point L j)"
      using e by (simp add: peval_negacyclic L(2))
    finally show ?thesis
      by (simp only: peval_linear)
  qed
  from intt_eval [OF L(1) q this, of k]
  show "zq (compute_s1 N h c s2 ! k) = zq (c ! k) - negacyclic N (\<lambda>i. zq (s2 ! i)) (\<lambda>i. zq (h ! i)) k"
    using assms(5) by (simp add: s1 L(2))
qed

text \<open>
  C26. Once a signature is decoded and the message hashed, verification computes \<open>s1 = c - s2 h\<close> modulo \<open>x^N + 1\<close> and 12289 with
  residues in \<open>[-6145, 6143]\<close>, and accepts exactly when the squared norm of \<open>(s1, s2)\<close> is within the bound; when that norm does not
  fit an \<open>int32_t\<close> the code overflows.
\<close>

theorem check_norm_spec:
  assumes "N = 512 \<or> N = 1024" "poly_ok (log2N N) h" "poly_ok (log2N N) c" "length s2 = N" "\<forall>x \<in> set s2. \<bar>x\<bar> < 1024"
  shows "\<exists>s1. length s1 = N
    \<and> (\<forall>k<N. - 6145 \<le> s1 ! k \<and> s1 ! k \<le> 6143
        \<and> of_int (s1 ! k) = zq (c ! k) - negacyclic N (\<lambda>i. of_int (s2 ! i)) (\<lambda>i. zq (h ! i)) k)
    \<and> check_norm N bound h c s2 =
        (if (\<Sum>x\<leftarrow>s2. x * x) + (\<Sum>x\<leftarrow>s1. x * x) < 2 ^ 31
         then Inr ((\<Sum>x\<leftarrow>s2. x * x) + (\<Sum>x\<leftarrow>s1. x * x) \<le> bound) else Inl (Undefined ''sqrd_norm''))"
proof -
  define s1 where "s1 = map normalize_coeff (compute_s1 N h c (map to_ff s2))"
  have s2: "poly_ok (log2N N) (map to_ff s2)"
    using assms(4,5) log2N [OF assms(1)] by (intro poly_ok_to_ff) auto
  note S = compute_s1_spec [OF assms(1-3) s2]
  have len: "length (compute_s1 N h c (map to_ff s2)) = N"
    using S(3) [of 0] assms(1) by auto
  have "- 6145 \<le> s1 ! k \<and> s1 ! k \<le> 6143
      \<and> of_int (s1 ! k) = zq (c ! k) - negacyclic N (\<lambda>i. of_int (s2 ! i)) (\<lambda>i. zq (h ! i)) k" if "k < N" for k
  proof -
    have "negacyclic N (\<lambda>i. zq (map to_ff s2 ! i)) g k = negacyclic N (\<lambda>i. of_int (s2 ! i)) g k" for g
      unfolding negacyclic_def
    proof (intro sum.cong refl)
      fix i
      assume "i \<in> {..<N}"
      moreover have "\<bar>s2 ! i\<bar> < 12289" if "i < N"
        using assms(4,5) that by (fastforce dest: nth_mem)
      ultimately show "zq (map to_ff s2 ! i) * (if i \<le> k then g (k - i) else - g (N + k - i))
          = of_int (s2 ! i) * (if i \<le> k then g (k - i) else - g (N + k - i))"
        using assms(4) by (simp add: to_ff_zq)
    qed
    then show ?thesis
      using S(1,2) [OF that] normalize_coeff_zq [OF S(1) [OF that]] len that by (simp add: s1_def)
  qed
  moreover have "check_norm N bound h c s2 =
      (if (\<Sum>x\<leftarrow>s2. x * x) + (\<Sum>x\<leftarrow>s1. x * x) < 2 ^ 31
       then Inr ((\<Sum>x\<leftarrow>s2. x * x) + (\<Sum>x\<leftarrow>s1. x * x) \<le> bound) else Inl (Undefined ''sqrd_norm''))"
  proof -
    have "0 \<le> (\<Sum>x\<leftarrow>s2. x * x)" "0 \<le> (\<Sum>x\<leftarrow>s1. x * x)"
      by (rule sum_list_nonneg; auto)+
    then show ?thesis
      using add_squares_sum [of 0 s2] add_squares_sum [of "\<Sum>x\<leftarrow>s2. x * x" s1]
      by (cases "(\<Sum>x\<leftarrow>s2. x * x) < 2 ^ 31") (simp_all add: check_norm_def Let_def flip: s1_def)
  qed
  ultimately show ?thesis
    using len by (intro exI [of _ s1]) (simp add: s1_def)
qed


theorem check_norm_spec_witness:
  "\<exists>s1 :: int list. length s1 = 512 \<and> check_norm 512 34034726 (replicate 512 7) (replicate 512 1) (replicate 512 2) =
     (if 2048 + (\<Sum>x\<leftarrow>s1. x * x) < 2 ^ 31 then Inr (2048 + (\<Sum>x\<leftarrow>s1. x * x) \<le> 34034726) else Inl (Undefined ''sqrd_norm''))"
proof -
  have "poly_ok (log2N 512) (replicate 512 7)" "poly_ok (log2N 512) (replicate 512 1)"
    by (simp_all add: poly_ok_def ff_ok_def log2N_def)
  then show ?thesis
    using check_norm_spec [of 512 "replicate 512 7" "replicate 512 1" "replicate 512 2" 34034726]
    by (fastforce simp: map_replicate sum_list_replicate)
qed

section \<open>The public key\<close>

lemma public_key_eq:
  assumes "N = 512 \<or> N = 1024" "length f = N" "length g = N" "\<forall>x \<in> set f \<union> set g. \<bar>x\<bar> < 12289"
    and "\<forall>a \<in> set (ntt (log2N N) (map to_ff f)). a \<noteq> 0" and "k < N"
  shows "negacyclic N (\<lambda>i. zq (compute_public_key N f g ! i)) (\<lambda>i. of_int (f ! i)) k = of_int (g ! k)"
proof -
  define L where "L = log2N N"
  have L: "ntt_size L" "2 ^ L = N"
    using log2N [OF assms(1)] by (simp_all add: L_def)
  define F G where "F = map to_ff f" and "G = map to_ff g"
  have FG: "poly_ok L F" "poly_ok L G"
    using assms(2-4) L(2) by (auto simp: F_def G_def intro!: poly_ok_to_ff)
  have vals: "zq (F ! i) = of_int (f ! i)" "zq (G ! i) = of_int (g ! i)" if "i < N" for i
    using assms(2-4) that nth_mem [of i f] nth_mem [of i g] by (simp_all add: F_def G_def to_ff_zq)
  define H where "H = compute_public_key N f g"
  have H: "H = intt L (poly_div L (ntt L G) (ntt L F))"
    by (simp add: H_def compute_public_key_def Let_def F_def G_def L_def)
  then have okH: "poly_ok L H" and nttH: "ntt L H = poly_div L (ntt L G) (ntt L F)"
    using L(1) by (simp_all add: poly_ok_intt poly_ok_pointwise ntt_intt)
  have "zq (ntt L G ! j) = peval (2 ^ L) (negacyclic N (\<lambda>i. zq (H ! i)) (\<lambda>i. zq (F ! i))) (point L j)" if j: "j < 2 ^ L" for j
  proof -
    note ok = poly_okD(2) [OF poly_ok_ntt [OF FG(1)] j] poly_okD(2) [OF poly_ok_ntt [OF FG(2)] j]
    have "ntt L F ! j \<noteq> 0"
      using assms(5) j poly_okD(1) [OF poly_ok_ntt [OF FG(1)]] nth_mem [of j "ntt L F"] by (auto simp: F_def L_def)
    then have "zq (ntt L F ! j) * zq (ff_inv (ntt L F ! j)) = 1"
      by (rule zq_inv [OF ok(1)])
    moreover have "zq (ntt L H ! j) = zq (ntt L G ! j) * zq (ff_inv (ntt L F ! j))"
      using j ok by (simp add: nttH poly_div_def ff_div_def)
    ultimately have "zq (ntt L G ! j) = zq (ntt L H ! j) * zq (ntt L F ! j)"
      by (simp add: mult.assoc mult.commute [of "zq (ff_inv _)"])
    then show ?thesis
      using ntt_eval [OF L(1) okH j] ntt_eval(1) [OF L(1) FG(1) j] by (simp add: peval_negacyclic L(2))
  qed
  from intt_eval [OF L(1) poly_ok_ntt [OF FG(2)] this, of k]
  have "negacyclic N (\<lambda>i. zq (H ! i)) (\<lambda>i. zq (F ! i)) k = zq (G ! k)"
    using intt_ntt [OF L(1) FG(2)] assms(6) L(2) by simp
  moreover have "negacyclic N h (\<lambda>i. zq (F ! i)) k = negacyclic N h (\<lambda>i. of_int (f ! i)) k" for h
    unfolding negacyclic_def using assms(6) by (intro sum.cong refl) (auto simp: vals)
  ultimately show ?thesis
    using vals(2) [OF assms(6)] by (simp add: H_def)
qed

text \<open>
  C29. The public key of an invertible \<open>f\<close> solves the key equation: modulo \<open>x^N + 1\<close> and 12289 its product with \<open>f\<close> is \<open>g\<close>.
\<close>

theorem public_key_equation:
  assumes "N = 512 \<or> N = 1024" "length f = N" "length g = N" "\<forall>x \<in> set f \<union> set g. \<bar>x\<bar> < 12289"
    and "\<forall>a \<in> set (ntt (log2N N) (map to_ff f)). a \<noteq> 0" and "k < N"
  shows "negacyclic N (\<lambda>i. zq (compute_public_key N f g ! i)) (\<lambda>i. of_int (f ! i)) k = of_int (g ! k)"
  by (rule public_key_eq [OF assms])

lemma ntt_one:
  assumes "ntt_size L" "a \<in> set (ntt L (1 # replicate (2 ^ L - 1) 0))"
  shows "a \<noteq> 0"
proof -
  let ?p = "1 # replicate (2 ^ L - 1) 0 :: ff_t list"
  have p: "poly_ok L ?p"
    by (auto simp: poly_ok_def ff_ok_def)
  obtain j where j: "j < 2 ^ L" "a = ntt L ?p ! j"
    using assms(2) poly_okD(1) [OF poly_ok_ntt [OF p]] by (auto simp: in_set_conv_nth)
  have "(\<Sum>i<Suc n. zq ((1 # replicate n 0) ! i) * w ^ i) = 1" for w n
    by (subst sum.lessThan_Suc_shift) (simp add: zq_def)
  from this [of "2 ^ L - 1"] have "peval (2 ^ L) (\<lambda>i. zq (?p ! i)) (point L j) = 1"
    by (simp add: peval_def)
  then have "zq a = 1"
    using ntt_eval(1) [OF assms(1) p j(1)] j(2) by simp
  then show ?thesis
    by (auto simp: zq_def)
qed

theorem public_key_equation_witness:
  "negacyclic 512 (\<lambda>i. zq (compute_public_key 512 (1 # replicate 511 0) (replicate 512 5) ! i)) (\<lambda>i. of_int ((1 # replicate 511 0) ! i)) 3 = 5"
proof -
  have "map to_ff (1 # replicate 511 0) = 1 # replicate (2 ^ 9 - 1) 0"
    by (simp add: to_ff_def)
  then have "\<forall>a \<in> set (ntt (log2N 512) (map to_ff (1 # replicate 511 0))). a \<noteq> 0"
    using ntt_one [of 9] by (simp add: log2N_def ntt_size_def)
  then show ?thesis
    using public_key_equation [of 512 "1 # replicate 511 0" "replicate 512 5" 3] by simp
qed

section \<open>Whole signatures\<close>

lemma decompress_loop_length:
  "decompress_sig_loop sig slen n i = Inr (f, cs, m, j) \<Longrightarrow> length cs + m = n"
proof (induction n arbitrary: i f cs m j)
  case (Suc n)
  show ?case
  proof (cases "i < slen")
    case True
    with Suc.prems obtain c s k where c: "decompress_coeff sig slen i = Inr (c, s, k)"
      by (cases "decompress_coeff sig slen i") auto
    show ?thesis
    proof (cases "c = 0 \<and> s")
      case False
      then obtain f' cs' m' j' where "decompress_sig_loop sig slen n (k + 1) = Inr (f', cs', m', j')" "cs = c # cs'" "m = m'"
        using Suc.prems True c by (cases "decompress_sig_loop sig slen n (k + 1)") auto
      then show ?thesis
        using Suc.IH by auto
    qed (use Suc.prems True c in simp)
  qed (use Suc.prems in simp)
qed simp

lemma decompress_sig_length: "decompress_sig N sbytelen sig = Inr (ok, cs) \<Longrightarrow> length cs = N"
proof -
  assume d: "decompress_sig N sbytelen sig = Inr (ok, cs)"
  then obtain f cs' m j where l: "decompress_sig_loop sig (8 * sbytelen) N 328 = Inr (f, cs', m, j)"
    by (cases "decompress_sig_loop sig (8 * sbytelen) N 328") (auto simp: decompress_sig_def)
  then show ?thesis
    using d decompress_loop_length [OF l]
    by (cases "f \<or> 8 * sbytelen \<le> j \<or> 0 < m"; cases "trailing_loop sig (8 * sbytelen) j False") (auto simp: decompress_sig_def Let_def split: if_splits)
qed

text \<open>
  A signature that verifies under a canonical public key is short: there is a decoded polynomial \<open>s2\<close>, and the residues of
  \<open>c - s2 h\<close> for the hash \<open>c\<close> of its salt and the message, whose squared norm is within the bound of the parameter set.
\<close>

theorem falcon_verify_sound:
  assumes "N = 512 \<or> N = 1024" "falcon_verify N pkey msg sig = Some (Inr True)"
    and "\<And>h. decode_pkey N pkey = Some h \<Longrightarrow> poly_ok (log2N N) h"
  shows "\<exists>h salt s2 c s1. decode_pkey N pkey = Some h \<and> decode_sig N sig = Inr (Some (salt, s2)) \<and> hash_to_point N salt msg = Some c
    \<and> length s1 = N \<and> (\<forall>k<N. of_int (s1 ! k) = zq (c ! k) - negacyclic N (\<lambda>i. zq (to_ff (s2 ! i))) (\<lambda>i. zq (h ! i)) k)
    \<and> (\<Sum>x\<leftarrow>s2. x * x) + (\<Sum>x\<leftarrow>s1. x * x) \<le> beta2 N"
proof -
  obtain h where h: "decode_pkey N pkey = Some h" "verification_verify N (beta2 N) h msg sig = Some (Inr True)"
    using assms(2) by (auto simp: falcon_verify_def split: option.splits)
  then obtain salt s2 c where d: "decode_sig N sig = Inr (Some (salt, s2))" "hash_to_point N salt msg = Some c"
    "check_norm N (beta2 N) h c s2 = Inr True"
    by (auto simp: verification_verify_def split: sum.splits option.splits)
  define slen where "slen = (if N = 1024 then 1280 else 666 :: nat)"
  have dec: "decompress_sig N slen sig = Inr (True, s2)"
    using d(1) by (cases "decompress_sig N slen sig") (auto simp: decode_sig_def slen_def Let_def split: if_splits)
  define s1 where "s1 = map normalize_coeff (compute_s1 N h c (map to_ff s2))"
  have s2: "length s2 = N" "poly_ok (log2N N) (map to_ff s2)"
    using decompress_sig_length [OF dec] decompress_sig_small [OF dec] log2N [OF assms(1)]
    by (auto intro!: poly_ok_to_ff)
  have "poly_ok (log2N N) c"
    using hash_to_point_ok [OF d(2)] log2N [OF assms(1)] by (simp add: poly_ok_def)
  note S = compute_s1_spec [OF assms(1) assms(3) [OF h(1)] this s2(2)]
  have len: "length s1 = N"
    using S(3) [of 0] assms(1) by (auto simp: s1_def)
  have "0 \<le> (\<Sum>x\<leftarrow>s2. x * x)" "0 \<le> (\<Sum>x\<leftarrow>s1. x * x)"
    by (rule sum_list_nonneg; auto)+
  then have "(\<Sum>x\<leftarrow>s2. x * x) + (\<Sum>x\<leftarrow>s1. x * x) \<le> beta2 N"
    using d(3) add_squares_sum [of 0 s2] add_squares_sum [of "\<Sum>x\<leftarrow>s2. x * x" s1]
    by (cases "(\<Sum>x\<leftarrow>s2. x * x) < 2 ^ 31"; cases "(\<Sum>x\<leftarrow>s2. x * x) + (\<Sum>x\<leftarrow>s1. x * x) < 2 ^ 31")
      (simp_all add: check_norm_def Let_def flip: s1_def)
  moreover have "of_int (s1 ! k) = zq (c ! k) - negacyclic N (\<lambda>i. zq (to_ff (s2 ! i))) (\<lambda>i. zq (h ! i)) k" if "k < N" for k
  proof -
    have "negacyclic N (\<lambda>i. zq (map to_ff s2 ! i)) g k = negacyclic N (\<lambda>i. zq (to_ff (s2 ! i))) g k" for g
      unfolding negacyclic_def using s2(1) by (intro sum.cong refl) simp
    then show ?thesis
      using S(1,2) [OF that] normalize_coeff_zq(1) [OF S(1) [OF that]] S(3) [OF that] that by (simp add: s1_def)
  qed
  ultimately show ?thesis
    using h(1) d(1,2) len by blast
qed

text \<open>The norm of a residue vector need not fit: here the squares add up to \<open>512 * 6145^2\<close>.\<close>

lemma check_norm_overflow:
  "check_norm 512 bound (replicate 512 0) (replicate 512 6144) (replicate 512 0) = Inl (Undefined ''sqrd_norm'')"
proof -
  let ?z = "replicate 512 0 :: ff_t list" and ?c = "replicate 512 6144 :: ff_t list"
  have ok: "poly_ok (log2N 512) ?z" "poly_ok (log2N 512) ?c"
    by (simp_all add: poly_ok_def ff_ok_def log2N_def)
  have "compute_s1 512 ?z ?c ?z ! k = 6144" if "k < 512" for k
  proof -
    have "negacyclic 512 (\<lambda>i. zq (?z ! i)) g k = 0" for g
      unfolding negacyclic_def by (rule sum.neutral) (simp add: zq_def)
    then have "zq (compute_s1 512 ?z ?c ?z ! k) = zq 6144"
      using compute_s1_spec(2) [OF _ ok ok(1) that] that by simp
    then show ?thesis
      using compute_s1_spec(1) [OF _ ok ok(1) that] by (intro zq_inj) (simp_all add: ff_ok_def)
  qed
  then have "compute_s1 512 ?z ?c ?z = replicate 512 6144"
    using compute_s1_spec(3) [OF _ ok ok(1), of 0] by (intro nth_equalityI) simp_all
  moreover have "map to_ff (replicate 512 0) = ?z" "normalize_coeff 6144 = - 6145"
    by (simp_all add: to_ff_def normalize_coeff_def)
  ultimately show ?thesis
    using add_squares_sum [of 0 "replicate 512 0"] add_squares_sum [of 0 "replicate 512 (- 6145)"]
    by (simp add: check_norm_def Let_def map_replicate sum_list_replicate)
qed

end
