(* ===== verification/Falcon_NTRU.thy ===== *)
theory Falcon_NTRU
  imports Falcon_FFT Falcon_Ring Falcon_Verify "HOL-Library.Signed_Division"
begin

text \<open>
  Key generation of the vendored Falcon scheme (\<open>ntru_gen.hpp\<close>): polynomials \<open>f\<close>, \<open>g\<close> are drawn until \<open>f\<close> is invertible and the
  norm is small, then \<open>F\<close>, \<open>G\<close> with \<open>f G - g F = q\<close> are computed by descending to the integers along the field norm, Euclid's
  algorithm there, and lifting back with a size reduction in floating point at every level. The polynomials with big coefficients
  are lists of integers of length \<open>2^k\<close>. Both loops are partial functions.
\<close>

section \<open>Integer polynomials\<close>

definition field_norm :: "nat \<Rightarrow> int list \<Rightarrow> int list" where
  "field_norm k poly =
     (let Nby2 = 2 ^ k;
          polye = map (\<lambda>i. poly ! (2 * i)) [0..<Nby2];
          polyo = map (\<lambda>i. poly ! (2 * i + 1)) [0..<Nby2];
          polye_sq = karamul k polye polye;
          polyo_sq = karamul k polyo polyo;
          res = fold (\<lambda>i res. res[i + 1 := res ! (i + 1) - polyo_sq ! i]) [0..<Nby2 - 1] polye_sq
      in res[0 := res ! 0 + polyo_sq ! (Nby2 - 1)])"

function big_xgcd_loop :: "int \<Rightarrow> int \<Rightarrow> int \<Rightarrow> int \<Rightarrow> int \<Rightarrow> int \<Rightarrow> int \<times> int \<times> int" where
  "big_xgcd_loop old_r r old_s s old_t t =
     (if r = 0 then (old_s, old_t, old_r)
      else let quotient = old_r sdiv r
           in big_xgcd_loop r (old_r - quotient * r) s (old_s - quotient * s) t (old_t - quotient * t))"
  by pat_completeness auto
termination
proof (relation "measure (\<lambda>(_, r, _). nat \<bar>r\<bar>)")
  fix old_r r old_s s old_t t quotient :: int
  assume "r \<noteq> 0" "quotient = old_r sdiv r"
  then have "old_r - quotient * r = old_r smod r"
    using sdiv_mult_smod_eq [of old_r r] by simp
  also have "\<bar>old_r smod r\<bar> < \<bar>r\<bar>"
    using \<open>r \<noteq> 0\<close> by (simp add: signed_modulo_int_def abs_mult abs_sgn_eq)
  finally show "((r, old_r - quotient * r, s, old_s - quotient * s, t, old_t - quotient * t), old_r, r, old_s, s, old_t, t)
      \<in> measure (\<lambda>(_, r, _). nat \<bar>r\<bar>)"
    using \<open>r \<noteq> 0\<close> by simp
qed simp

declare big_xgcd_loop.simps [simp del]

definition big_xgcd :: "int \<Rightarrow> int \<Rightarrow> int \<times> int \<times> int" where
  "big_xgcd x y = big_xgcd_loop x y 1 0 0 1"

definition lift_poly :: "nat \<Rightarrow> int list \<Rightarrow> int list" where
  "lift_poly k poly = fold (\<lambda>i res. res[2 * i := poly ! i]) [0..<2 ^ k] (replicate (2 * 2 ^ k) 0)"

definition galois_conjugate :: "nat \<Rightarrow> int list \<Rightarrow> int list" where
  "galois_conjugate k poly = map (\<lambda>i. if odd i then - (poly ! i) else poly ! i) [0..<2 ^ k]"

fun approx_len :: "nat \<Rightarrow> nat" where
  "approx_len v = (if v = 0 then 0 else 8 + approx_len (v div 256))"

declare approx_len.simps [simp del]

definition approx_bit_len :: "int \<Rightarrow> nat" where
  "approx_bit_len v = approx_len (nat \<bar>v\<bar>)"

definition min_max :: "int list \<Rightarrow> int \<times> int" where
  "min_max arr =
     fold (\<lambda>i (mn, mx). (if mn > arr ! i then arr ! i else mn, if mx < arr ! i then arr ! i else mx)) [1..<length arr]
       (arr ! 0, arr ! 0)"

definition bit_len2 :: "int list \<Rightarrow> int list \<Rightarrow> nat" where
  "bit_len2 f g =
     (case (min_max f, min_max g) of ((f0, f1), (g0, g1)) \<Rightarrow>
        max 53 (max (max (approx_bit_len f0) (approx_bit_len f1)) (max (approx_bit_len g0) (approx_bit_len g1))))"

section \<open>Reduction\<close>

definition adjust :: "('d, 'c, 'z) fops_scheme \<Rightarrow> nat \<Rightarrow> nat \<Rightarrow> int list \<Rightarrow> 'c list" where
  "adjust R k blen f = fft R k (map (\<lambda>c. of_real_c R (of_sint_d R (c div 2 ^ (blen - 53)))) f)"

definition cast_long :: "('d, 'c, 'z) fops_scheme \<Rightarrow> 'd \<Rightarrow> int res" where
  "cast_long R d = (case trunc_d R d of
       Some i \<Rightarrow> if - (2 ^ 63) \<le> i \<and> i < 2 ^ 63 then Inr i else Inl (Undefined ''static_cast<signed long>'')
     | None \<Rightarrow> Inl (Undefined ''static_cast<signed long>''))"

fun map_res :: "('a \<Rightarrow> 'b res) \<Rightarrow> 'a list \<Rightarrow> 'b list res" where
  "map_res h [] = Inr []"
| "map_res h (x # xs) =
     (case h x of Inl e \<Rightarrow> Inl e | Inr y \<Rightarrow> (case map_res h xs of Inl e \<Rightarrow> Inl e | Inr ys \<Rightarrow> Inr (y # ys)))"

definition round_quotient :: "('d, 'c, 'z) fops_scheme \<Rightarrow> nat \<Rightarrow> nat \<Rightarrow> nat \<Rightarrow> int list \<Rightarrow> int list \<Rightarrow> int list \<Rightarrow> int list \<Rightarrow> int list res" where
  "round_quotient R k blen0 blen1 f g F G =
     (let f_adjust = adjust R k blen0 f; g_adjust = adjust R k blen0 g;
          f_adjoint = adj_poly R k f_adjust; g_adjoint = adj_poly R k g_adjust;
          F_adjust = adjust R k blen1 F; G_adjust = adjust R k blen1 G;
          ff_mul = cpoly_mul R k f_adjust f_adjoint; gg_mul = cpoly_mul R k g_adjust g_adjoint;
          Ff_mul = cpoly_mul R k F_adjust f_adjoint; Gg_mul = cpoly_mul R k G_adjust g_adjoint;
          ffgg_add = cpoly_add R k ff_mul gg_mul; FfGg_add = cpoly_add R k Ff_mul Gg_mul;
          q = ifft R k (cpoly_div R k FfGg_add ffgg_add)
      in map_res (\<lambda>c. cast_long R (fround R (creal R c))) q)"

definition reduce_by :: "nat \<Rightarrow> nat \<Rightarrow> int list \<Rightarrow> int list \<Rightarrow> int list \<Rightarrow> int list" where
  "reduce_by k sh f k_mpz F = (let fk = karamul k f k_mpz in map (\<lambda>i. F ! i - fk ! i * 2 ^ sh) [0..<2 ^ k])"

partial_function (option) reduce_loop ::
    "('d, 'c, 'z) fops_scheme \<Rightarrow> nat \<Rightarrow> nat \<Rightarrow> int list \<Rightarrow> int list \<Rightarrow> int list \<Rightarrow> int list \<Rightarrow> (int list \<times> int list) res option" where
  "reduce_loop R k blen0 f g F G =
     (let blen1 = bit_len2 F G
      in if blen1 < blen0 then Some (Inr (F, G))
         else case round_quotient R k blen0 blen1 f g F G of Inl e \<Rightarrow> Some (Inl e)
              | Inr k_rounded \<Rightarrow>
                  if list_all (\<lambda>c. c = 0) k_rounded then Some (Inr (F, G))
                  else reduce_loop R k blen0 f g (reduce_by k (blen1 - blen0) f k_rounded F)
                         (reduce_by k (blen1 - blen0) g k_rounded G))"

definition reduce_poly ::
    "('d, 'c, 'z) fops_scheme \<Rightarrow> nat \<Rightarrow> int list \<Rightarrow> int list \<Rightarrow> int list \<Rightarrow> int list \<Rightarrow> (int list \<times> int list) res option" where
  "reduce_poly R k f g F G = reduce_loop R k (bit_len2 f g) f g F G"

text \<open>The result is none inside when the norms are not coprime, which is how the code reports that there is no solution.\<close>

fun ntru_solve ::
    "('d, 'c, 'z) fops_scheme \<Rightarrow> nat \<Rightarrow> int list \<Rightarrow> int list \<Rightarrow> (int list \<times> int list) option res option" where
  "ntru_solve R 0 f g =
     (case big_xgcd (f ! 0) (g ! 0) of (a, b, d) \<Rightarrow>
        if d \<noteq> 1 then Some (Inr None) else Some (Inr (Some ([- 12289 * b], [12289 * a]))))"
| "ntru_solve R (Suc k) f g =
     (let fprime = field_norm k f; gprime = field_norm k g
      in case ntru_solve R k fprime gprime of
           None \<Rightarrow> None
         | Some (Inl e) \<Rightarrow> Some (Inl e)
         | Some (Inr None) \<Rightarrow> Some (Inr None)
         | Some (Inr (Some (F0, G0))) \<Rightarrow>
             let F = karamul (Suc k) (lift_poly k F0) (galois_conjugate (Suc k) g);
                 G = karamul (Suc k) (lift_poly k G0) (galois_conjugate (Suc k) f)
             in (case reduce_poly R (Suc k) f g F G of
                   None \<Rightarrow> None
                 | Some (Inl e) \<Rightarrow> Some (Inl e)
                 | Some (Inr (F, G)) \<Rightarrow> Some (Inr (Some (F, G)))))"

section \<open>The equation\<close>

definition ntru_ok :: "nat \<Rightarrow> int list \<Rightarrow> int list \<Rightarrow> int list \<Rightarrow> int list \<Rightarrow> bool" where
  "ntru_ok k f g F G \<longleftrightarrow> length F = 2 ^ k \<and> length G = 2 ^ k \<and>
     (\<forall>i<2 ^ k. int_negacyclic (2 ^ k) f G i - int_negacyclic (2 ^ k) g F i = (if i = 0 then 12289 else 0))"

lemma big_xgcd_loop_bezout:
  assumes "old_r = old_s * x + old_t * y" "r = s * x + t * y"
    and "big_xgcd_loop old_r r old_s s old_t t = (a, b, d)"
  shows "a * x + b * y = d \<and> \<bar>d\<bar> = gcd old_r r"
  using assms
proof (induction old_r r old_s s old_t t rule: big_xgcd_loop.induct)
  case (1 old_r r old_s s old_t t)
  show ?case
  proof (cases "r = 0")
    case True
    then show ?thesis
      using "1.prems" by (auto simp: big_xgcd_loop.simps)
  next
    case False
    let ?q = "old_r sdiv r"
    have "gcd r (old_r - ?q * r) = gcd old_r r"
      by (metis gcd.commute gcd_diff1 gcd_diff2 gcd_add_mult diff_add_cancel add.commute)
    moreover have "big_xgcd_loop r (old_r - ?q * r) s (old_s - ?q * s) t (old_t - ?q * t) = (a, b, d)"
      using "1.prems"(3) False by (simp add: big_xgcd_loop.simps [of old_r] Let_def)
    moreover have "old_r - ?q * r = (old_s - ?q * s) * x + (old_t - ?q * t) * y"
      unfolding left_diff_distrib using "1.prems"(1,2) by (simp add: algebra_simps)
    ultimately show ?thesis
      using "1.IH" [OF False refl "1.prems"(2)] by simp
  qed
qed

text \<open>Coefficient lists of the integer operations, as elements of the ring.\<close>

lemma ext_halves:
  assumes "0 < h"
  shows "ext h (map (\<lambda>i. poly ! (2 * i)) [0..<h]) = evenp (ext (2 * h) poly)"
    and "ext h (map (\<lambda>i. poly ! (2 * i + 1)) [0..<h]) = oddp (ext (2 * h) poly)"
proof -
  have a: "antiper (2 * h) (ext (2 * h) poly)"
    using assms by (simp add: antiper_ext)
  have "poly ! (2 * i) = evenp (ext (2 * h) poly) (int i)" "poly ! (2 * i + 1) = oddp (ext (2 * h) poly) (int i)" if "i < h" for i
    using that ext_nth [of "2 * i" "2 * h" poly] ext_nth [of "2 * i + 1" "2 * h" poly]
    by (simp_all add: evenp_def oddp_def add.commute)
  then show "ext h (map (\<lambda>i. poly ! (2 * i)) [0..<h]) = evenp (ext (2 * h) poly)"
    "ext h (map (\<lambda>i. poly ! (2 * i + 1)) [0..<h]) = oddp (ext (2 * h) poly)"
    using assms by (intro ext_eqI antiper_parts [OF a], simp_all)+
qed

lemma norm_fold:
  "length res = Suc n \<Longrightarrow> length (fold (\<lambda>i res. res[i + 1 := res ! (i + 1) - sq ! i]) [0..<m] res) = Suc n \<and>
     (m \<le> n \<longrightarrow> (\<forall>j\<le>n. fold (\<lambda>i res. res[i + 1 := res ! (i + 1) - sq ! i]) [0..<m] res ! j =
        (if 0 < j \<and> j \<le> m then res ! j - sq ! (j - 1) else res ! j :: int)))"
  by (induction m) (auto simp: nth_list_update)

lemma ext_field_norm:
  "length (field_norm k poly) = 2 ^ k \<and> ext (2 ^ k) (field_norm k poly) = normf (2 ^ k) (ext (2 * 2 ^ k) poly)"
proof -
  define h where "h = (2 :: nat) ^ k"
  have h: "0 < h"
    by (simp add: h_def)
  define e where "e = map (\<lambda>i. poly ! (2 * i)) [0..<h]"
  define od where "od = map (\<lambda>i. poly ! (2 * i + 1)) [0..<h]"
  define p where "p = ext (2 * h) poly"
  have len: "length e = 2 ^ k" "length od = 2 ^ k" "length (karamul k e e) = Suc (h - 1)"
    using h by (simp_all add: e_def od_def h_def)
  note nf = norm_fold [OF len(3), of "karamul k od od" "h - 1"]
  have ee: "ext h (karamul k e e) = mulf h (evenp p) (evenp p)"
    using ext_karamul [OF len(1,1)] ext_halves(1) [OF h, of poly] by (simp add: e_def p_def h_def)
  have oo: "ext h (karamul k od od) = mulf h (oddp p) (oddp p)"
    using ext_karamul [OF len(2,2)] ext_halves(2) [OF h, of poly] by (simp add: od_def p_def h_def)
  define r where "r = fold (\<lambda>i res. res[i + 1 := res ! (i + 1) - karamul k od od ! i]) [0..<h - 1] (karamul k e e)"
  have F: "field_norm k poly = r[0 := r ! 0 + karamul k od od ! (h - 1)]"
    by (simp add: field_norm_def Let_def r_def e_def od_def h_def)
  have lr: "length r = h" and nr: "\<And>j. j < h \<Longrightarrow> r ! j = (if 0 < j then karamul k e e ! j - karamul k od od ! (j - 1) else karamul k e e ! j)"
    using nf h by (auto simp: r_def)
  have ap: "antiper (2 * h) p"
    using h by (simp add: p_def antiper_ext)
  have "field_norm k poly ! j = normf h p (int j)" if j: "j < h" for j
  proof (cases j)
    case 0
    have "mulf h (oddp p) (oddp p) (- 1) = - (karamul k od od ! (h - 1))"
      using ext_neg [OF h, of "h - 1" "karamul k od od"] h by (simp add: of_nat_diff flip: oo)
    then show ?thesis
      using 0 h lr nr [of 0] ext_nth [of 0 h "karamul k e e"] by (simp add: F normf_def flip: ee)
  next
    case (Suc i)
    then show ?thesis
      using j lr nr [of j] ext_nth [of j h "karamul k e e"] ext_nth [of i h "karamul k od od"]
      by (simp add: F normf_def flip: ee oo)
  qed
  then have "ext h (field_norm k poly) = normf h p"
    by (intro ext_eqI antiper_norm ap h) simp
  then show ?thesis
    using lr by (simp add: F p_def flip: h_def)
qed

lemma lift_fold:
  "length (fold (\<lambda>i res. res[2 * i := poly ! i]) [0..<m] (replicate (2 * h) (0 :: int))) = 2 * h \<and>
   (m \<le> h \<longrightarrow> (\<forall>j<2 * h. fold (\<lambda>i res. res[2 * i := poly ! i]) [0..<m] (replicate (2 * h) 0) ! j =
      (if even j \<and> j div 2 < m then poly ! (j div 2) else 0)))"
  by (induction m) (auto simp: nth_list_update less_Suc_eq)

lemma ext_lift_poly:
  "length (lift_poly k poly) = 2 ^ Suc k \<and> ext (2 * 2 ^ k) (lift_poly k poly) = liftf (ext (2 ^ k) poly)"
proof -
  define h where "h = (2 :: nat) ^ k"
  have h: "0 < h"
    by (simp add: h_def)
  note lf = lift_fold [of poly h h]
  have "lift_poly k poly ! j = liftf (ext h poly) (int j)" if "j < 2 * h" for j
  proof -
    have d: "int j div 2 = int (j div 2)" "j div 2 < h"
      using that by (auto simp: zdiv_int)
    moreover have "lift_poly k poly ! j = (if even j then poly ! (j div 2) else 0)"
      using lf that d(2) by (simp add: lift_poly_def flip: h_def)
    ultimately show ?thesis
      by (simp add: liftf_def)
  qed
  then have "ext (2 * h) (lift_poly k poly) = liftf (ext h poly)"
    using h by (intro ext_eqI antiper_lift antiper_ext) simp_all
  then show ?thesis
    using lf by (simp add: lift_poly_def flip: h_def)
qed

lemma ext_galois:
  "length (galois_conjugate (Suc k) poly) = 2 ^ Suc k \<and>
   ext (2 * 2 ^ k) (galois_conjugate (Suc k) poly) = conjf (ext (2 * 2 ^ k) poly)"
proof -
  define h where "h = (2 :: nat) ^ k"
  have h: "0 < h"
    by (simp add: h_def)
  have "galois_conjugate (Suc k) poly ! j = conjf (ext (2 * h) poly) (int j)" if "j < 2 * h" for j
    using that by (simp add: galois_conjugate_def conjf_def h_def)
  then have "ext (2 * h) (galois_conjugate (Suc k) poly) = conjf (ext (2 * h) poly)"
    using h by (intro ext_eqI antiper_conj antiper_ext) simp_all
  then show ?thesis
    by (simp add: galois_conjugate_def h_def)
qed

lemma ext_reduce_by:
  assumes "length f = 2 ^ k" "length r = 2 ^ k"
  shows "length (reduce_by k sh f r F) = 2 ^ k"
    and "ext (2 ^ k) (reduce_by k sh f r F) = (\<lambda>i. ext (2 ^ k) F i - 2 ^ sh * mulf (2 ^ k) (ext (2 ^ k) f) (ext (2 ^ k) r) i)"
proof -
  have ap: "antiper (2 ^ k) (ext (2 ^ k) xs)" for xs
    by (simp add: antiper_ext)
  show "length (reduce_by k sh f r F) = 2 ^ k"
    by (simp add: reduce_by_def Let_def)
  show "ext (2 ^ k) (reduce_by k sh f r F) = (\<lambda>i. ext (2 ^ k) F i - 2 ^ sh * mulf (2 ^ k) (ext (2 ^ k) f) (ext (2 ^ k) r) i)"
  proof (rule ext_eqI)
    show "antiper (2 ^ k) (\<lambda>i. ext (2 ^ k) F i - 2 ^ sh * mulf (2 ^ k) (ext (2 ^ k) f) (ext (2 ^ k) r) i)"
      using ap [of F] antiper_mulf [OF ap, of "ext (2 ^ k) f" r] unfolding antiper_def by (simp add: algebra_simps)
    show "reduce_by k sh f r F ! i = ext (2 ^ k) F (int i) - 2 ^ sh * mulf (2 ^ k) (ext (2 ^ k) f) (ext (2 ^ k) r) (int i)"
      if "i < 2 ^ k" for i
      using that ext_nth [of i "2 ^ k" "karamul k f r"] by (simp add: reduce_by_def Let_def flip: ext_karamul [OF assms])
  qed simp
qed

section \<open>Solving\<close>

definition qf :: "nat \<Rightarrow> int \<Rightarrow> int" where
  "qf n = ext n (12289 # replicate (n - 1) 0)"

lemma qf_nth: "i < n \<Longrightarrow> qf n (int i) = (if i = 0 then 12289 else 0)"
  by (simp add: qf_def nth_Cons split: nat.split)

lemma antiper_qf: "0 < n \<Longrightarrow> antiper n (qf n)"
  by (simp add: qf_def antiper_ext)

lemma lift_qf: "0 < h \<Longrightarrow> liftf (qf h) = qf (2 * h)"
proof (rule antiper_eqI [of "2 * h"])
  fix i assume h: "0 < h" and i: "i < 2 * h"
  have "int i div 2 = int (i div 2)" "i div 2 < h"
    using i by (auto simp: zdiv_int)
  then show "liftf (qf h) (int i) = qf (2 * h) (int i)"
    using i h qf_nth [of 0 h] by (auto simp: liftf_def qf_nth elim: evenE)
qed (simp_all add: antiper_lift antiper_qf)

lemma ntru_ok_mulf:
  "ntru_ok k f g F G \<longleftrightarrow> length F = 2 ^ k \<and> length G = 2 ^ k \<and>
     (\<forall>i. mulf (2 ^ k) (ext (2 ^ k) f) (ext (2 ^ k) G) i - mulf (2 ^ k) (ext (2 ^ k) g) (ext (2 ^ k) F) i = qf (2 ^ k) i)"
proof -
  let ?n = "(2 :: nat) ^ k"
  let ?d = "\<lambda>i. mulf ?n (ext ?n f) (ext ?n G) i - mulf ?n (ext ?n g) (ext ?n F) i"
  have ap: "antiper ?n (mulf ?n p (ext ?n xs))" for p xs
    by (simp add: antiper_mulf antiper_ext)
  have "antiper ?n ?d"
    using ap unfolding antiper_def by simp
  then have "(\<forall>i. ?d i = qf ?n i) \<longleftrightarrow> (\<forall>i<?n. ?d (int i) = qf ?n (int i))"
  proof -
    assume d: "antiper ?n ?d"
    have "\<forall>i. ?d i = qf ?n i" if "\<forall>i<?n. ?d (int i) = qf ?n (int i)"
      using fun_cong [OF antiper_eqI [OF d antiper_qf [of ?n]]] that by simp
    then show ?thesis
      by blast
  qed
  then show ?thesis
    by (simp add: ntru_ok_def int_negacyclic_mulf qf_nth)
qed

lemma length_map_res: "map_res h xs = Inr ys \<Longrightarrow> length ys = length xs"
  by (induction xs arbitrary: ys) (auto split: sum.splits)

lemma length_ifft [simp]: "length (ifft R L v) = length v"
proof -
  have b: "length (fold (ifft_butterfly R z len) is v) = length v" for z len "is" v
    by (induction "is" arbitrary: v) (simp_all add: ifft_butterfly_def Let_def)
  have "length (ifft_layer R L l v) = length v" for l v
  proof -
    have "length (fold (\<lambda>s vec. fold (ifft_butterfly R (z s) len) (js s) vec) ss v) = length v" for z len js ss
      by (induction ss arbitrary: v) (simp_all add: b)
    then show ?thesis
      by (simp add: ifft_layer_def Let_def)
  qed
  then have "length (fold (ifft_layer R L) ls v) = length v" for ls
    by (induction ls arbitrary: v) simp_all
  then show ?thesis
    by (simp add: ifft_def Let_def)
qed

lemma length_round_quotient: "round_quotient R k b0 b1 f g F G = Inr r \<Longrightarrow> length r = 2 ^ k"
  by (auto simp: round_quotient_def Let_def dest: length_map_res)

lemma reduce_step_ok:
  assumes "length f = 2 ^ k" "length g = 2 ^ k" "length r = 2 ^ k" "ntru_ok k f g F G"
  shows "ntru_ok k f g (reduce_by k sh f r F) (reduce_by k sh g r G)"
proof -
  have ap: "antiper (2 ^ k) (ext (2 ^ k) xs)" for xs
    by (simp add: antiper_ext)
  show ?thesis
    using assms(4) reduce_solution [OF ap [of f] ap [of g] ap [of r]]
    by (simp add: ntru_ok_mulf ext_reduce_by assms)
qed

text \<open>Whatever quotients the floating-point part proposes, the reduction keeps a solution a solution.\<close>

lemma reduce_loop_ok:
  fixes R :: "('d, 'c, 'z) fops_scheme"
  assumes "reduce_loop R k b0 f g F G = Some (Inr (F', G'))" "length f = 2 ^ k" "length g = 2 ^ k" "ntru_ok k f g F G"
  shows "ntru_ok k f g F' G'"
proof -
  define P :: "('d, 'c, 'z) fops_scheme \<Rightarrow> _" where
    "P R k b0 f g F G y \<longleftrightarrow> (length f = 2 ^ k \<longrightarrow> length g = 2 ^ k \<longrightarrow> ntru_ok k f g F G \<longrightarrow>
       (case y of Inl _ \<Rightarrow> True | Inr (F', G') \<Rightarrow> ntru_ok k f g F' G'))"
    for R and k b0 :: nat and f g F G :: "int list" and y :: "(int list \<times> int list) res"
  have "P R k b0 f g F G (Inr (F', G'))"
  proof (rule reduce_loop.raw_induct [OF _ assms(1), of P])
    fix loop R k b0 f g F G y
    assume IH: "\<And>R k b0 f g F G y. loop R k b0 f g F G = Some y \<Longrightarrow> P R k b0 f g F G y"
      and step: "(let blen1 = bit_len2 F G in if blen1 < b0 then Some (Inr (F, G))
         else case round_quotient R k b0 blen1 f g F G of Inl e \<Rightarrow> Some (Inl e)
              | Inr k_rounded \<Rightarrow> if list_all (\<lambda>c. c = 0) k_rounded then Some (Inr (F, G))
                  else loop R k b0 f g (reduce_by k (blen1 - b0) f k_rounded F) (reduce_by k (blen1 - b0) g k_rounded G)) = Some y"
    show "P R k b0 f g F G y"
    proof (cases "round_quotient R k b0 (bit_len2 F G) f g F G")
      case (Inl e)
      then show ?thesis
        using step by (auto simp: P_def Let_def split: if_splits)
    next
      case (Inr r)
      show ?thesis
      proof (cases "bit_len2 F G < b0 \<or> list_all (\<lambda>c. c = 0) r")
        case True
        then show ?thesis
          using step Inr by (auto simp: P_def Let_def split: if_splits)
      next
        case False
        then have "loop R k b0 f g (reduce_by k (bit_len2 F G - b0) f r F) (reduce_by k (bit_len2 F G - b0) g r G) = Some y"
          using step Inr by (simp add: Let_def)
        from IH [OF this] show ?thesis
          using reduce_step_ok length_round_quotient [OF Inr] by (auto simp: P_def)
      qed
    qed
  qed
  then show ?thesis
    using assms by (simp add: P_def)
qed

lemma lifted_ok:
  assumes "length f = 2 ^ Suc k" "length g = 2 ^ Suc k" "ntru_ok k (field_norm k f) (field_norm k g) F G"
  shows "ntru_ok (Suc k) f g (karamul (Suc k) (lift_poly k F) (galois_conjugate (Suc k) g))
    (karamul (Suc k) (lift_poly k G) (galois_conjugate (Suc k) f))"
proof -
  define h where "h = (2 :: nat) ^ k"
  have h: "0 < h" "2 ^ Suc k = 2 * h"
    by (simp_all add: h_def)
  have ap: "antiper (2 * h) (ext (2 * h) xs)" "antiper h (ext h xs)" for xs
    using h(1) by (simp_all add: antiper_ext)
  have kar: "ext (2 * h) (karamul (Suc k) (lift_poly k P) (galois_conjugate (Suc k) f))
      = mulf (2 * h) (liftf (ext h P)) (conjf (ext (2 * h) f))" for P f
    using ext_karamul [of "lift_poly k P" "Suc k" "galois_conjugate (Suc k) f"] ext_lift_poly [of k P] ext_galois [of k f]
    by (simp add: h_def)
  have "mulf h (normf h (ext (2 * h) f)) (ext h G) i - mulf h (normf h (ext (2 * h) g)) (ext h F) i = qf h i" for i
    using assms(3) ext_field_norm [of k f] ext_field_norm [of k g] by (simp add: ntru_ok_mulf flip: h_def)
  from lift_solution [OF ap(1) [of f] ap(1) [of g] ap(2) [of F] ap(2) [of G] this]
  show ?thesis
    unfolding ntru_ok_mulf h(2) by (simp add: kar lift_qf [OF h(1)]) (simp add: h_def)
qed

lemma ntru_solve_ok:
  assumes "length f = 2 ^ k" "length g = 2 ^ k" "ntru_solve R k f g = Some (Inr (Some (F, G)))"
  shows "ntru_ok k f g F G"
  using assms
proof (induction k arbitrary: f g F G)
  case 0
  obtain a b d where x: "big_xgcd (f ! 0) (g ! 0) = (a, b, d)"
    by (metis prod_cases3)
  then have "a * f ! 0 + b * g ! 0 = d"
    using big_xgcd_loop_bezout [of "f ! 0" 1 "f ! 0" 0 "g ! 0" "g ! 0" 0 1] by (simp add: big_xgcd_def)
  then show ?case
    using 0 x by (auto simp: ntru_ok_def int_negacyclic_def algebra_simps split: if_splits)
next
  case (Suc k)
  from Suc.prems(3) obtain F0 G0 where
    sub: "ntru_solve R k (field_norm k f) (field_norm k g) = Some (Inr (Some (F0, G0)))"
    and red: "reduce_poly R (Suc k) f g (karamul (Suc k) (lift_poly k F0) (galois_conjugate (Suc k) g))
        (karamul (Suc k) (lift_poly k G0) (galois_conjugate (Suc k) f)) = Some (Inr (F, G))"
    by (auto simp: Let_def split: option.splits sum.splits)
  have "ntru_ok k (field_norm k f) (field_norm k g) F0 G0"
    using Suc.IH [OF _ _ sub] ext_field_norm by blast
  then show ?case
    using reduce_loop_ok [OF red [unfolded reduce_poly_def] Suc.prems(1,2)] lifted_ok [OF Suc.prems(1,2)] by blast
qed

section \<open>When a solution is found\<close>

fun full_norm :: "nat \<Rightarrow> int list \<Rightarrow> int" where
  "full_norm 0 f = f ! 0"
| "full_norm (Suc k) f = full_norm k (field_norm k f)"

lemma full_norm_nonneg: "0 < k \<Longrightarrow> 0 \<le> full_norm k f"
proof (induction k arbitrary: f)
  case (Suc k)
  show ?case
  proof (cases k)
    case 0
    have "field_norm 0 f ! 0 = f ! 0 * f ! 0 + f ! 1 * f ! 1"
      by (simp add: field_norm_def Let_def karamul_def)
    then show ?thesis
      using 0 by simp
  qed (use Suc.IH in simp)
qed simp

lemma big_xgcd_loop_nonneg:
  "0 \<le> old_r \<Longrightarrow> 0 \<le> r \<Longrightarrow> big_xgcd_loop old_r r old_s s old_t t = (a, b, d) \<Longrightarrow> 0 \<le> d"
proof (induction old_r r old_s s old_t t rule: big_xgcd_loop.induct)
  case (1 old_r r old_s s old_t t)
  show ?case
  proof (cases "r = 0")
    case True
    then show ?thesis
      using "1.prems" by (simp add: big_xgcd_loop.simps)
  next
    case False
    have "old_r - old_r sdiv r * r = old_r smod r"
      using sdiv_mult_smod_eq [of old_r r] by simp
    also have "0 \<le> old_r smod r"
      using "1.prems"(1) False by (simp add: signed_modulo_int_def sgn_if)
    finally show ?thesis
      using "1.IH" [OF False refl "1.prems"(2)] "1.prems"(3) False by (simp add: big_xgcd_loop.simps [of old_r] Let_def)
  qed
qed

lemma big_xgcd_gcd:
  assumes "0 \<le> x" "0 \<le> y" "big_xgcd x y = (a, b, d)"
  shows "d = gcd x y"
  using big_xgcd_loop_bezout [of x 1 x 0 y y 0 1 a b d] big_xgcd_loop_nonneg [of x y 1 0 0 1 a b d] assms
  by (simp add: big_xgcd_def)

text \<open>The number that the reduction makes smaller: the squared length of the pair.\<close>

definition sq_len :: "int list \<Rightarrow> int list \<Rightarrow> nat" where
  "sq_len F G = nat ((\<Sum>c\<leftarrow>F. c * c) + (\<Sum>c\<leftarrow>G. c * c))"

definition shrinks :: "('d, 'c, 'z) fops_scheme \<Rightarrow> nat \<Rightarrow> int list \<Rightarrow> int list \<Rightarrow> bool" where
  "shrinks R k f g \<longleftrightarrow> (\<forall>F G r. length F = 2 ^ k \<longrightarrow> length G = 2 ^ k \<longrightarrow> bit_len2 f g \<le> bit_len2 F G \<longrightarrow>
     round_quotient R k (bit_len2 f g) (bit_len2 F G) f g F G = Inr r \<longrightarrow> \<not> list_all (\<lambda>c. c = 0) r \<longrightarrow>
     sq_len (reduce_by k (bit_len2 F G - bit_len2 f g) f r F) (reduce_by k (bit_len2 F G - bit_len2 f g) g r G) < sq_len F G)"

fun shrinks_tower :: "('d, 'c, 'z) fops_scheme \<Rightarrow> nat \<Rightarrow> int list \<Rightarrow> int list \<Rightarrow> bool" where
  "shrinks_tower R 0 f g = True"
| "shrinks_tower R (Suc k) f g = (shrinks R (Suc k) f g \<and> shrinks_tower R k (field_norm k f) (field_norm k g))"

lemma length_reduce_by [simp]: "length (reduce_by k sh f r F) = 2 ^ k"
  by (simp add: reduce_by_def Let_def)

lemma reduce_returns:
  assumes "shrinks R k f g" "length F = 2 ^ k" "length G = 2 ^ k"
  shows "\<exists>r. reduce_poly R k f g F G = Some r"
  unfolding reduce_poly_def using assms(2,3)
proof (induction "sq_len F G" arbitrary: F G rule: less_induct)
  case less
  let ?b0 = "bit_len2 f g" and ?b1 = "bit_len2 F G"
  show ?case
  proof (cases "?b1 < ?b0")
    case True
    then show ?thesis
      by (subst reduce_loop.simps) (simp add: Let_def)
  next
    case False
    show ?thesis
    proof (cases "round_quotient R k ?b0 ?b1 f g F G")
      case (Inl e)
      then show ?thesis
        using False by (subst reduce_loop.simps) (simp add: Let_def)
    next
      case (Inr q)
      show ?thesis
      proof (cases "list_all (\<lambda>c. c = 0) q")
        case True
        then show ?thesis
          using False Inr by (subst reduce_loop.simps) (simp add: Let_def)
      next
        case nonzero: False
        have "sq_len (reduce_by k (?b1 - ?b0) f q F) (reduce_by k (?b1 - ?b0) g q G) < sq_len F G"
          using assms(1) less.prems False Inr nonzero unfolding shrinks_def by (meson leI)
        from less.hyps [OF this] show ?thesis
          using False Inr nonzero by (subst reduce_loop.simps) (simp add: Let_def)
      qed
    qed
  qed
qed

lemma ntru_solve_returns:
  assumes "shrinks_tower R k f g" "\<not> (\<exists>r. ntru_solve R k f g = Some r)"
  shows False
  using assms
proof (induction k arbitrary: f g)
  case 0
  then show ?case
    by (cases "big_xgcd (f ! 0) (g ! 0)") (auto split: if_splits)
next
  case (Suc k)
  then obtain r where r: "ntru_solve R k (field_norm k f) (field_norm k g) = Some r"
    by auto
  show ?case
  proof (cases r)
    case (Inr s)
    show ?thesis
    proof (cases s)
      case (Some FG)
      obtain F G where FG: "FG = (F, G)"
        by fastforce
      obtain t where "reduce_poly R (Suc k) f g (karamul (Suc k) (lift_poly k F) (galois_conjugate (Suc k) g))
          (karamul (Suc k) (lift_poly k G) (galois_conjugate (Suc k) f)) = Some t"
        using reduce_returns [of R "Suc k" f g] Suc.prems(1) by fastforce
      then show ?thesis
        using Suc.prems(2) r Inr Some FG by (cases t) (auto simp: Let_def)
    qed (use Suc.prems(2) r Inr in \<open>simp add: Let_def\<close>)
  qed (use Suc.prems(2) r in \<open>simp add: Let_def\<close>)
qed

lemma ntru_solve_fails:
  "ntru_solve R k f g = Some r \<Longrightarrow> r = Inr None \<longleftrightarrow> snd (snd (big_xgcd (full_norm k f) (full_norm k g))) \<noteq> 1"
proof (induction k arbitrary: f g r)
  case 0
  then show ?case
    by (auto split: prod.splits if_splits)
next
  case (Suc k)
  then obtain s where s: "ntru_solve R k (field_norm k f) (field_norm k g) = Some s"
    by (auto simp: Let_def split: option.splits)
  have "r = Inr None \<longleftrightarrow> s = Inr None"
    using Suc.prems s by (auto simp: Let_def split: option.splits sum.splits prod.splits)
  then show ?case
    using Suc.IH [OF s] by simp
qed

text \<open>
  C39. Solving the NTRU equation. Whatever the floating-point arithmetic computes, polynomials that \<open>ntru_solve\<close> reports as a solution
  satisfy \<open>f G - g F = 12289\<close> modulo \<open>x^n + 1\<close>; if every nonzero quotient makes the pair shorter, it returns; and what it returns is
  the failure exactly when the norms of \<open>f\<close> and \<open>g\<close> have a common divisor.
\<close>

theorem ntru_solve_spec:
  assumes "length f = 2 ^ k" "length g = 2 ^ k" "0 < k"
  shows "(\<forall>F G. ntru_solve R k f g = Some (Inr (Some (F, G))) \<longrightarrow> ntru_ok k f g F G)
    \<and> (shrinks_tower R k f g \<longrightarrow> (\<exists>r. ntru_solve R k f g = Some r))
    \<and> (\<forall>r. ntru_solve R k f g = Some r \<longrightarrow> (r = Inr None \<longleftrightarrow> gcd (full_norm k f) (full_norm k g) \<noteq> 1))"
proof (intro conjI allI impI)
  show "ntru_ok k f g F G" if "ntru_solve R k f g = Some (Inr (Some (F, G)))" for F G
    by (rule ntru_solve_ok [OF assms(1,2) that])
  show "\<exists>r. ntru_solve R k f g = Some r" if "shrinks_tower R k f g"
    using ntru_solve_returns [OF that] by blast
  show "r = Inr None \<longleftrightarrow> gcd (full_norm k f) (full_norm k g) \<noteq> 1" if "ntru_solve R k f g = Some r" for r
    using ntru_solve_fails [OF that] big_xgcd_gcd [OF full_norm_nonneg [OF assms(3)] full_norm_nonneg [OF assms(3)]]
    by (metis prod.collapse)
qed

text \<open>An arithmetic in which every quotient rounds to 0: then nothing is reduced.\<close>

definition unit_ops :: "(unit, unit) fops" where
  "unit_ops = \<lparr>lit = \<lambda>_. (), of_int_d = \<lambda>_. (), fadd = \<lambda>_ _. (), fsub = \<lambda>_ _. (), fmul = \<lambda>_ _. (), fdiv = \<lambda>_ _. (),
     fmax = \<lambda>_ _. (), fmin = \<lambda>_ _. (), flog2 = \<lambda>_. (), fless = \<lambda>_ _. False, image_d = \<lambda>_. [],
     cplx = \<lambda>_ _. (), cadd = \<lambda>_ _. (), cmul = \<lambda>_ _. (), cconj = \<lambda>_. (), creal = \<lambda>_. (), cimag = \<lambda>_. (), cscale = \<lambda>_ _. (),
     cabs = \<lambda>_. (), cnorm = \<lambda>_. (), ceq = \<lambda>_ _. True, fabs = \<lambda>_. (), fsqrt = \<lambda>_. (), fcos = \<lambda>_. (), fsin = \<lambda>_. (), fneg = \<lambda>_. (),
     fge = \<lambda>_ _. True, fisnan = \<lambda>_. False, fisfinite = \<lambda>_. True, vnorm = \<lambda>_. (), vnormalize = \<lambda>v. v, mat_vec = \<lambda>_ v. v,
     csub = \<lambda>_ _. (), cneg = \<lambda>_. (), cdiv = \<lambda>_ _. (), of_sint_d = \<lambda>_. (), ffloor = \<lambda>_. (), fround = \<lambda>_. (),
     trunc_d = \<lambda>_. Some 0, zeta_table = \<lambda>_. ()\<rparr>"

lemma unit_quotient: "round_quotient unit_ops k b0 b1 f g F G = Inr r \<Longrightarrow> list_all (\<lambda>c. c = 0) r"
proof -
  have "map_res h xs = Inr r \<Longrightarrow> list_all (\<lambda>c. c = 0) r" if "\<And>x. h x = Inr (0 :: int)" for h :: "unit \<Rightarrow> int res" and xs r
    using that by (induction xs arbitrary: r) (auto split: sum.splits)
  then show "round_quotient unit_ops k b0 b1 f g F G = Inr r \<Longrightarrow> list_all (\<lambda>c. c = 0) r"
    by (auto simp: round_quotient_def Let_def cast_long_def unit_ops_def)
qed

lemma unit_shrinks: "shrinks_tower unit_ops k f g"
  by (induction k arbitrary: f g) (auto simp: shrinks_def dest: unit_quotient)

theorem ntru_solve_spec_witness:
  "length [2, 1 :: int] = 2 ^ 1 \<and> length [1, 1 :: int] = 2 ^ 1 \<and> (0 :: nat) < 1 \<and> shrinks_tower unit_ops 1 [2, 1] [1, 1] \<and>
   (\<exists>r. ntru_solve unit_ops 1 [2, 1] [1, 1] = Some r \<and> r \<noteq> Inr None)"
proof -
  have "full_norm 1 [2, 1] = 5" "full_norm 1 [1, 1] = 2"
    by (simp_all add: field_norm_def Let_def karamul_def)
  moreover have "gcd 5 (2 :: int) = 1"
    by (simp add: gcd_red_int [of 5 2] gcd_red_int [of 2 1])
  ultimately have g: "\<not> gcd (full_norm 1 [2, 1]) (full_norm 1 [1, 1]) \<noteq> 1"
    by (simp only:)
  have l: "length [2, 1 :: int] = 2 ^ 1" "length [1, 1 :: int] = 2 ^ 1" "(0 :: nat) < 1"
    by simp_all
  note S = ntru_solve_spec [OF l, of unit_ops]
  obtain r where r: "ntru_solve unit_ops 1 [2, 1] [1, 1] = Some r"
    using S [THEN conjunct2, THEN conjunct1, THEN mp, OF unit_shrinks] by (elim exE)
  have "r \<noteq> Inr None"
    using S [THEN conjunct2, THEN conjunct2, THEN spec, THEN mp, OF r] g by (simp only: simp_thms)
  then show ?thesis
    by (intro conjI exI [of _ r] l r unit_shrinks)
qed

end
