(* ===== verification/Falcon_Keygen.thy ===== *)
theory Falcon_Keygen
  imports Falcon_NTRU
begin

text \<open>
  Key pairs of the vendored Falcon scheme (\<open>ntru_gen.hpp\<close>, \<open>keygen.hpp\<close>, \<open>falcon::keygen\<close> of \<open>falcon.hpp\<close>): the polynomials are
  drawn until one of the turns succeeds, the public key is computed from them and both keys are encoded. The random seed is an
  argument.
\<close>

section \<open>Drawing polynomials\<close>

fun gen_coeff :: "('d, 'c, 'z) fops_scheme \<Rightarrow> nat \<Rightarrow> 'd \<Rightarrow> int \<Rightarrow> xof \<Rightarrow> (int \<times> xof) res option" where
  "gen_coeff R 0 sigma_min acc rng = Some (Inr (acc, rng))"
| "gen_coeff R (Suc j) sigma_min acc rng =
     (case samplerz R (lit R ''0.'') (lit R ''1.43300980528773'') sigma_min rng of
        None \<Rightarrow> None
      | Some (Inl e) \<Rightarrow> Some (Inl e)
      | Some (Inr (s, rng)) \<Rightarrow>
          if acc + s < - (2 ^ 31) \<or> 2 ^ 31 \<le> acc + s then Some (Inl (Undefined ''int32_t res''))
          else gen_coeff R j sigma_min (acc + s) rng)"

fun gen_coeffs :: "('d, 'c, 'z) fops_scheme \<Rightarrow> nat \<Rightarrow> nat \<Rightarrow> 'd \<Rightarrow> xof \<Rightarrow> (int list \<times> xof) res option" where
  "gen_coeffs R 0 k sigma_min rng = Some (Inr ([], rng))"
| "gen_coeffs R (Suc i) k sigma_min rng =
     (case gen_coeff R k sigma_min 0 rng of
        None \<Rightarrow> None
      | Some (Inl e) \<Rightarrow> Some (Inl e)
      | Some (Inr (c, rng)) \<Rightarrow>
          (case gen_coeffs R i k sigma_min rng of
             None \<Rightarrow> None
           | Some (Inl e) \<Rightarrow> Some (Inl e)
           | Some (Inr (cs, rng)) \<Rightarrow> Some (Inr (c # cs, rng))))"

definition sigma_min :: "('d, 'c, 'z) fops_scheme \<Rightarrow> nat \<Rightarrow> 'd" where
  "sigma_min R N = (if N = 1024 then lit R ''1.298280334'' else lit R ''1.277833697'')"

definition gen_poly :: "('d, 'c, 'z) fops_scheme \<Rightarrow> nat \<Rightarrow> xof \<Rightarrow> (int list \<times> xof) res option" where
  "gen_poly R N rng = gen_coeffs R N (4096 div N) (sigma_min R N) rng"

definition is_poly_invertible :: "nat \<Rightarrow> int list \<Rightarrow> bool" where
  "is_poly_invertible LOG2N poly = list_all (\<lambda>a. a \<noteq> 0) (ntt LOG2N (map to_ff poly))"

text \<open>
  \<open>mpz_get_si\<close> returns the low bits of a number that does not fit a \<open>long\<close>, with its sign; the cast to 32 bits keeps the low
  half of what it returns.
\<close>

definition get_si :: "int \<Rightarrow> int" where
  "get_si z = (if - (2 ^ 63) \<le> z \<and> z < 2 ^ 63 then z else sgn z * (\<bar>z\<bar> mod 2 ^ 63))"

definition to_i32 :: "int \<Rightarrow> int" where
  "to_i32 z = signed_take_bit 31 (get_si z)"

text \<open>One turn of \<open>ntru_gen\<close>: the four polynomials, or none when the turn ends with \<open>continue\<close>.\<close>

definition ntru_gen_turn ::
    "('d, 'c, 'z) fops_scheme \<Rightarrow> nat \<Rightarrow> xof \<Rightarrow> ((int list \<times> int list \<times> int list \<times> int list) option \<times> xof) res option" where
  "ntru_gen_turn R N rng =
     (case gen_poly R N rng of None \<Rightarrow> None | Some (Inl e) \<Rightarrow> Some (Inl e)
      | Some (Inr (f, rng)) \<Rightarrow>
          (case gen_poly R N rng of None \<Rightarrow> None | Some (Inl e) \<Rightarrow> Some (Inl e)
           | Some (Inr (g, rng)) \<Rightarrow>
               if \<not> is_poly_invertible (log2N N) f then Some (Inr (None, rng))
               else let gsnorm = gram_schmidt_norm R (log2N N) f g;
                        GS_NORM_THRESHOLD = fmul R (fmul R (lit R ''1.17'') (lit R ''1.17'')) (of_int_d R 12289)
                    in if fless R GS_NORM_THRESHOLD gsnorm then Some (Inr (None, rng))
                       else (case ntru_solve R (log2N N) f g of None \<Rightarrow> None | Some (Inl e) \<Rightarrow> Some (Inl e)
                             | Some (Inr None) \<Rightarrow> Some (Inr (None, rng))
                             | Some (Inr (Some (F, G))) \<Rightarrow> Some (Inr (Some (f, g, map to_i32 F, map to_i32 G), rng)))))"

partial_function (option) ntru_gen ::
    "('d, 'c, 'z) fops_scheme \<Rightarrow> nat \<Rightarrow> xof \<Rightarrow> ((int list \<times> int list \<times> int list \<times> int list) \<times> xof) res option" where
  "ntru_gen R N rng =
     (case ntru_gen_turn R N rng of None \<Rightarrow> None
      | Some r \<Rightarrow> (case r of Inl e \<Rightarrow> Some (Inl e)
          | Inr (Some fg, rng) \<Rightarrow> Some (Inr (fg, rng))
          | Inr (None, rng) \<Rightarrow> ntru_gen R N rng))"

definition falcon_keygen :: "('d, 'c, 'z) fops_scheme \<Rightarrow> nat \<Rightarrow> bytes \<Rightarrow> (bytes \<times> bytes) res option" where
  "falcon_keygen R N seed =
     (case ntru_gen R N (prng_new seed) of None \<Rightarrow> None | Some (Inl e) \<Rightarrow> Some (Inl e)
      | Some (Inr ((f, g, F, G), rng)) \<Rightarrow>
          let h = compute_public_key N f g in Some (Inr (encode_pkey N h, encode_skey N f g F)))"

section \<open>What a turn returns\<close>

lemma length_gen_coeffs: "gen_coeffs R i k s rng = Some (Inr (cs, rng')) \<Longrightarrow> length cs = i"
  by (induction i arbitrary: rng cs rng') (auto split: option.splits sum.splits)

definition good_quad :: "nat \<Rightarrow> int list \<times> int list \<times> int list \<times> int list \<Rightarrow> bool" where
  "good_quad N fg = (case fg of (f, g, F, G) \<Rightarrow> length f = N \<and> length g = N \<and> is_poly_invertible (log2N N) f \<and>
     (\<exists>F' G'. ntru_ok (log2N N) f g F' G' \<and> F = map to_i32 F' \<and> G = map to_i32 G'))"

lemma ntru_gen_turn_good:
  assumes "N = 512 \<or> N = 1024" "ntru_gen_turn R N rng = Some (Inr (Some fg, rng'))"
  shows "good_quad N fg"
proof -
  have N: "2 ^ log2N N = N"
    using log2N [OF assms(1)] by simp
  obtain f g F G r1 r2 where
    f: "gen_poly R N rng = Some (Inr (f, r1))" and g: "gen_poly R N r1 = Some (Inr (g, r2))"
    and inv: "is_poly_invertible (log2N N) f" and sol: "ntru_solve R (log2N N) f g = Some (Inr (Some (F, G)))"
    and fg: "fg = (f, g, map to_i32 F, map to_i32 G)"
    using assms(2) by (auto simp: ntru_gen_turn_def Let_def split: option.splits sum.splits if_splits)
  have len: "length f = N" "length g = N"
    using f g length_gen_coeffs by (auto simp: gen_poly_def)
  then have "ntru_ok (log2N N) f g F G"
    using ntru_solve_ok [OF _ _ sol] N by simp
  then show ?thesis
    using len inv by (auto simp: good_quad_def fg)
qed

lemma ntru_gen_good:
  fixes R :: "('d, 'c, 'z) fops_scheme"
  assumes "N = 512 \<or> N = 1024" "ntru_gen R N rng = Some (Inr (fg, rng'))"
  shows "good_quad N fg"
proof -
  define P :: "('d, 'c, 'z) fops_scheme \<Rightarrow> _" where
    "P R N rng y \<longleftrightarrow> (N = 512 \<or> N = 1024 \<longrightarrow> (case y of Inl _ \<Rightarrow> True | Inr (fg, _) \<Rightarrow> good_quad N fg))"
    for R and N :: nat and rng :: xof and y :: "((int list \<times> int list \<times> int list \<times> int list) \<times> xof) res"
  have "P R N rng (Inr (fg, rng'))"
  proof (rule ntru_gen.raw_induct [OF _ assms(2), of P])
    fix loop R N rng y
    assume IH: "\<And>R N rng y. loop R N rng = Some y \<Longrightarrow> P R N rng y"
      and step: "(case ntru_gen_turn R N rng of None \<Rightarrow> None
        | Some r \<Rightarrow> (case r of Inl e \<Rightarrow> Some (Inl e) | Inr (Some fg, rng) \<Rightarrow> Some (Inr (fg, rng)) | Inr (None, rng) \<Rightarrow> loop R N rng)) = Some y"
    show "P R N rng y"
    proof (cases "ntru_gen_turn R N rng")
      case (Some r)
      show ?thesis
      proof (cases r)
        case (Inr t)
        obtain o' rng1 where t: "t = (o', rng1)"
          by fastforce
        show ?thesis
        proof (cases o')
          case None
          then show ?thesis
            using IH step Some Inr t by (simp add: P_def)
        next
          case (Some fg)
          then show ?thesis
            using ntru_gen_turn_good [of N R rng fg rng1] step \<open>ntru_gen_turn R N rng = Some r\<close> Inr t by (auto simp: P_def)
        qed
      qed (use step Some in \<open>auto simp: P_def\<close>)
    qed (use step in simp)
  qed
  then show ?thesis
    using assms(1) by (simp add: P_def)
qed

text \<open>The loop ends with the first turn that succeeds.\<close>

lemma ntru_gen_returns:
  assumes "\<And>j. j < m \<Longrightarrow> ntru_gen_turn R N (rngs j) = Some (Inr (None, rngs (Suc j)))"
    and "ntru_gen_turn R N (rngs m) = Some (Inr (Some fg, rng'))"
  shows "ntru_gen R N (rngs 0) = Some (Inr (fg, rng'))"
proof -
  have "ntru_gen R N (rngs j) = Some (Inr (fg, rng'))" if "j \<le> m" for j
    using that
  proof (induction rule: inc_induct)
    case base
    show ?case
      by (subst ntru_gen.simps) (simp add: assms(2))
  next
    case (step j)
    then show ?case
      by (subst ntru_gen.simps) (simp add: assms(1))
  qed
  then show ?thesis
    by simp
qed

section \<open>Key pairs\<close>

lemma public_key_ok:
  assumes "N = 512 \<or> N = 1024"
  shows "poly_ok (log2N N) (compute_public_key N f g)"
  using log2N [OF assms] by (simp add: compute_public_key_def Let_def poly_ok_intt poly_ok_pointwise)

lemma public_key_decodes:
  assumes "N = 512 \<or> N = 1024"
  shows "decode_pkey N (encode_pkey N (compute_public_key N f g)) = Some (compute_public_key N f g)"
proof -
  have "length (compute_public_key N f g) = N" "\<forall>a \<in> set (compute_public_key N f g). ff_ok a"
    using public_key_ok [OF assms, of f g] log2N [OF assms] by (auto simp: poly_ok_def)
  then have ok: "length (compute_public_key N f g) = N \<and> list_all (\<lambda>c. unat c < 2 ^ 14) (compute_public_key N f g)"
    by (auto simp: list_all_iff ff_ok_def)
  have "N \<in> {512, 1024}"
    using assms by simp
  from pkey_codec [OF this, THEN conjunct1, THEN mp, OF ok] show ?thesis
    by blast
qed

text \<open>What a pair of encoded keys should be for the polynomials it is made of.\<close>

definition key_pair_ok :: "nat \<Rightarrow> int list \<Rightarrow> int list \<Rightarrow> int list \<Rightarrow> int list \<Rightarrow> bytes \<Rightarrow> bytes \<Rightarrow> bool" where
  "key_pair_ok N f g F G pkey skey \<longleftrightarrow>
     length f = N \<and> length g = N \<and> is_poly_invertible (log2N N) f \<and> ntru_ok (log2N N) f g F G
     \<and> (\<exists>h. decode_pkey N pkey = Some h \<and>
          ((\<forall>x \<in> set f \<union> set g. \<bar>x\<bar> < 12289) \<longrightarrow>
             (\<forall>k<N. negacyclic N (\<lambda>i. zq (h ! i)) (\<lambda>i. of_int (f ! i)) k = of_int (g ! k))))
     \<and> (list_all (\<lambda>c. - (2 ^ small_bits N) \<le> c \<and> c < 2 ^ small_bits N) (f @ g) \<and> list_all (\<lambda>c. - 128 \<le> c \<and> c < 128) F \<longrightarrow>
          decode_skey N skey = Some (f, g, F))"

lemma encoded_pair_ok:
  assumes N: "N = 512 \<or> N = 1024" and q: "length f = N" "length g = N" "is_poly_invertible (log2N N) f" "ntru_ok (log2N N) f g F G"
  shows "key_pair_ok N f g F G (encode_pkey N (compute_public_key N f g)) (encode_skey N f g (map to_i32 F))"
proof -
  have inv: "\<forall>a \<in> set (ntt (log2N N) (map to_ff f)). a \<noteq> 0"
    using q(3) by (simp add: is_poly_invertible_def list_all_iff)
  have lF: "length F = N"
    using q(4) log2N [OF N] by (simp add: ntru_ok_def)
  have i32: "map to_i32 F = F" if "list_all (\<lambda>c. - 128 \<le> c \<and> c < 128) F"
    using that by (induction F) (simp_all add: to_i32_def get_si_def signed_take_bit_int_eq_self)
  have sk: "decode_skey N (encode_skey N f g (map to_i32 F)) = Some (f, g, F)"
    if "list_all (\<lambda>c. - (2 ^ small_bits N) \<le> c \<and> c < 2 ^ small_bits N) (f @ g) \<and> list_all (\<lambda>c. - 128 \<le> c \<and> c < 128) F"
    using skey_roundtrip [OF _ q(1,2) lF] N that by (auto simp: i32)
  have pk: "negacyclic N (\<lambda>i. zq (compute_public_key N f g ! i)) (\<lambda>i. of_int (f ! i)) k = of_int (g ! k)"
    if "\<forall>x \<in> set f \<union> set g. \<bar>x\<bar> < 12289" "k < N" for k
    by (rule public_key_eq [OF N q(1,2) that(1) inv that(2)])
  show ?thesis
    unfolding key_pair_ok_def using q public_key_decodes [OF N, of f g] sk pk by blast
qed

text \<open>
  A key pair is what it should be. Whatever the floating-point arithmetic computes, the keys that \<open>keygen\<close> returns are made of
  the polynomials of \<open>ntru_gen\<close>, with \<open>f\<close> invertible and \<open>f G - g F = 12289\<close> before \<open>F\<close> and \<open>G\<close> are cut to 32 bits; the public key decodes to \<open>h\<close>, which satisfies \<open>h f = g\<close> modulo 12289 for
  coefficients below the modulus; and the secret key decodes to \<open>f\<close>, \<open>g\<close>, \<open>F\<close> when the coefficients fit its fields, which the code
  does not check. It returns after the first turn that succeeds.
\<close>

theorem falcon_keygen_sound:
  assumes "N = 512 \<or> N = 1024"
  shows "(\<forall>pkey skey. falcon_keygen R N seed = Some (Inr (pkey, skey)) \<longrightarrow>
      (\<exists>f g F G rng. ntru_gen R N (prng_new seed) = Some (Inr ((f, g, map to_i32 F, map to_i32 G), rng)) \<and> key_pair_ok N f g F G pkey skey))
    \<and> ((\<forall>j<m. ntru_gen_turn R N (rngs j) = Some (Inr (None, rngs (Suc j)))) \<and> rngs 0 = prng_new seed
        \<and> ntru_gen_turn R N (rngs m) = Some (Inr (Some fg, rng')) \<longrightarrow> (\<exists>keys. falcon_keygen R N seed = Some (Inr keys)))"
proof (intro conjI impI allI)
  fix pkey skey assume "falcon_keygen R N seed = Some (Inr (pkey, skey))"
  then obtain f g F' G' rng where gen: "ntru_gen R N (prng_new seed) = Some (Inr ((f, g, F', G'), rng))"
    and keys: "pkey = encode_pkey N (compute_public_key N f g)" "skey = encode_skey N f g F'"
    by (auto simp: falcon_keygen_def Let_def split: option.splits sum.splits)
  from ntru_gen_good [OF assms gen] obtain F G where q: "length f = N" "length g = N" "is_poly_invertible (log2N N) f"
    "ntru_ok (log2N N) f g F G" "F' = map to_i32 F" "G' = map to_i32 G"
    unfolding good_quad_def prod.case by blast
  show "\<exists>f g F G rng. ntru_gen R N (prng_new seed) = Some (Inr ((f, g, map to_i32 F, map to_i32 G), rng)) \<and> key_pair_ok N f g F G pkey skey"
    using gen encoded_pair_ok [OF assms q(1-4)] unfolding keys q(5,6) by blast
next
  assume turns: "(\<forall>j<m. ntru_gen_turn R N (rngs j) = Some (Inr (None, rngs (Suc j)))) \<and> rngs 0 = prng_new seed
        \<and> ntru_gen_turn R N (rngs m) = Some (Inr (Some fg, rng'))"
  then have "ntru_gen R N (prng_new seed) = Some (Inr (fg, rng'))"
    using ntru_gen_returns [of m R N rngs fg rng'] by metis
  then show "\<exists>keys. falcon_keygen R N seed = Some (Inr keys)"
    by (cases fg) (simp add: falcon_keygen_def Let_def)
qed

lemma negacyclic_one:
  assumes "0 < n" "i < n"
  shows "int_negacyclic n (c # replicate (n - 1) 0) b i = c * b ! i" "int_negacyclic n (replicate n 0) b i = 0"
proof -
  let ?a = "c # replicate (n - 1) (0 :: int)"
  have z: "?a ! j = (if j = 0 then c else 0)" if "j < n" for j
    using that by (cases j) simp_all
  have "(\<Sum>l<n. if j + l = i then ?a ! j * b ! l else if j + l = i + n then - (?a ! j * b ! l) else 0) = (if j = 0 then c * b ! i else 0)"
    if "j < n" for j
  proof (cases "j = 0")
    case True
    have "(\<Sum>l<n. if j + l = i then ?a ! j * b ! l else if j + l = i + n then - (?a ! j * b ! l) else 0) = (\<Sum>l<n. if l = i then c * b ! l else 0)"
      using True by (intro sum.cong refl) simp
    then show ?thesis
      using True assms by simp
  next
    case False
    then show ?thesis
      using z [OF that] by (simp add: sum.neutral)
  qed
  then show "int_negacyclic n ?a b i = c * b ! i"
    unfolding int_negacyclic_def using assms by simp
  show "int_negacyclic n (replicate n 0) b i = 0"
    unfolding int_negacyclic_def by (intro sum.neutral ballI) simp
qed

theorem falcon_keygen_sound_witness:
  "(\<forall>pkey skey. falcon_keygen unit_ops 512 [] = Some (Inr (pkey, skey)) \<longrightarrow>
      (\<exists>f g F G rng. ntru_gen unit_ops 512 (prng_new []) = Some (Inr ((f, g, map to_i32 F, map to_i32 G), rng)) \<and> key_pair_ok 512 f g F G pkey skey))
   \<and> (\<exists>pkey skey. key_pair_ok 512 (1 # replicate 511 0) (replicate 512 0) (replicate 512 0) (12289 # replicate 511 0) pkey skey)"
proof -
  let ?f = "1 # replicate 511 (0 :: int)" and ?g = "replicate 512 (0 :: int)" and ?G = "12289 # replicate 511 (0 :: int)"
  have "map to_ff ?f = 1 # replicate (2 ^ 9 - 1) 0"
    by (simp add: to_ff_def)
  then have "is_poly_invertible 9 ?f"
    using ntt_one [of 9] by (auto simp: is_poly_invertible_def list_all_iff ntt_size_def)
  moreover have "ntru_ok 9 ?f ?g ?g ?G"
    using negacyclic_one(1) [of 512 _ 1 ?G] negacyclic_one(2) [of 512 _ ?g] by (auto simp: ntru_ok_def nth_Cons split: nat.splits)
  moreover have "log2N 512 = 9" "length ?f = 512" "length ?g = 512"
    by (simp_all add: log2N_def)
  ultimately have "\<exists>pkey skey. key_pair_ok 512 ?f ?g ?g ?G pkey skey"
    using encoded_pair_ok [of 512 ?f ?g ?g ?G] by metis
  then show ?thesis
    using falcon_keygen_sound [of 512 unit_ops "[]"] by blast
qed

end
