(* ===== verification/Falcon_Sign.thy ===== *)
theory Falcon_Sign
  imports Falcon_Keygen
begin

unbundle bit_operations_syntax

text \<open>
  Signing in the vendored Falcon scheme (\<open>ffsampling.hpp\<close>, \<open>signing.hpp\<close>, \<open>falcon::sign\<close> of \<open>falcon.hpp\<close>): the message is hashed to a
  point with a random salt, a lattice vector near it is sampled along the Falcon tree, and the difference is compressed when it is
  short enough; otherwise the turn is repeated. The four polynomials of the basis are a list, the tree is the one of \<open>Falcon_FFT\<close>, the
  random seed is an argument.
\<close>

section \<open>Fast Fourier sampling\<close>

fun ff_sampling :: "('d, 'c, 'z) fops_scheme \<Rightarrow> nat \<Rightarrow> 'c list \<Rightarrow> 'c list \<Rightarrow> 'c ftree \<Rightarrow> 'd \<Rightarrow> xof \<Rightarrow> ('c list \<times> 'c list \<times> xof) res option" where
  "ff_sampling R n t0 t1 (Leaf d) s_min rng =
     (let sigma_prime = creal R d
      in case samplerz R (creal R (t0 ! 0)) sigma_prime s_min rng of None \<Rightarrow> None | Some (Inl e) \<Rightarrow> Some (Inl e)
         | Some (Inr (z0, rng)) \<Rightarrow>
             (case samplerz R (creal R (t1 ! 0)) sigma_prime s_min rng of None \<Rightarrow> None | Some (Inl e) \<Rightarrow> Some (Inl e)
              | Some (Inr (z1, rng)) \<Rightarrow> Some (Inr ([of_real_c R (of_sint_d R z0)], [of_real_c R (of_sint_d R z1)], rng))))"
| "ff_sampling R n t0 t1 (Node l Tl Tr) s_min rng =
     (case split_fft R n t1 of (t1_0, t1_1) \<Rightarrow>
        (case ff_sampling R (n - 1) t1_0 t1_1 Tr s_min rng of None \<Rightarrow> None | Some (Inl e) \<Rightarrow> Some (Inl e)
         | Some (Inr (z0r, z1r, rng)) \<Rightarrow>
             let merged_z1 = merge_fft R n z0r z1r;
                 tmp0 = cpoly_sub R n t1 merged_z1;
                 tmp1 = cpoly_mul R n tmp0 l;
                 tmp0 = cpoly_add R n t0 tmp1
             in (case split_fft R n tmp0 of (t0_0, t0_1) \<Rightarrow>
                   (case ff_sampling R (n - 1) t0_0 t0_1 Tl s_min rng of None \<Rightarrow> None | Some (Inl e) \<Rightarrow> Some (Inl e)
                    | Some (Inr (z0l, z1l, rng)) \<Rightarrow> Some (Inr (merge_fft R n z0l z1l, merged_z1, rng))))))"

section \<open>Signing\<close>

definition finish_sig :: "nat \<Rightarrow> bytes \<Rightarrow> bytes \<Rightarrow> bytes" where
  "finish_sig N salt sig = (let header = 0x30 OR falcon_log2 N in header # salt @ drop 41 sig)"

text \<open>One turn of the loop of \<open>signing::sign\<close>: the signature buffer, whether the turn ends the loop, and the generator.\<close>

definition sign_turn ::
    "('d, 'c, 'z) fops_scheme \<Rightarrow> nat \<Rightarrow> 'c list list \<Rightarrow> 'c ftree \<Rightarrow> 'c list \<Rightarrow> 'c list \<Rightarrow> bytes \<Rightarrow> xof \<Rightarrow> (bool \<times> bytes \<times> xof) res option" where
  "sign_turn R N B T t0 t1 sig rng =
     (let k = log2N N; slen = (if N = 1024 then 1280 else 666)
      in case ff_sampling R k t0 t1 T (sigma_min R N) rng of None \<Rightarrow> None | Some (Inl e) \<Rightarrow> Some (Inl e)
         | Some (Inr (z0, z1, rng)) \<Rightarrow>
             let tz0 = cpoly_sub R k t0 z0; tz1 = cpoly_sub R k t1 z1;
                 s0 = cpoly_add R k (cpoly_mul R k tz0 (B ! 0)) (cpoly_mul R k tz1 (B ! 2));
                 s1 = cpoly_add R k (cpoly_mul R k tz0 (B ! 1)) (cpoly_mul R k tz1 (B ! 3));
                 sq_norm = fadd R (sqrd_norm_fft R k s0) (sqrd_norm_fft R k s1)
             in if fge R (of_sint_d R (beta2 N)) sq_norm
                then (case map_res (\<lambda>c. cast_i32 R (fround R (creal R c))) (ifft R k s1) of Inl e \<Rightarrow> Some (Inl e)
                      | Inr s2 \<Rightarrow> (case compress_sig N slen s2 sig of Inl e \<Rightarrow> Some (Inl e)
                          | Inr (compressed, sig) \<Rightarrow> Some (Inr (compressed, sig, rng))))
                else Some (Inr (False, sig, rng)))"

partial_function (option) sign_loop ::
    "('d, 'c, 'z) fops_scheme \<Rightarrow> nat \<Rightarrow> 'c list list \<Rightarrow> 'c ftree \<Rightarrow> 'c list \<Rightarrow> 'c list \<Rightarrow> bytes \<Rightarrow> xof \<Rightarrow> bytes res option" where
  "sign_loop R N B T t0 t1 sig rng =
     (case sign_turn R N B T t0 t1 sig rng of None \<Rightarrow> None
      | Some r \<Rightarrow> (case r of Inl e \<Rightarrow> Some (Inl e)
          | Inr (done, sig, rng) \<Rightarrow> if done then Some (Inr sig) else sign_loop R N B T t0 t1 sig rng))"

definition sign_with :: "('d, 'c, 'z) fops_scheme \<Rightarrow> nat \<Rightarrow> 'c list list \<Rightarrow> 'c ftree \<Rightarrow> bytes \<Rightarrow> bytes \<Rightarrow> xof \<Rightarrow> bytes res option" where
  "sign_with R N B T msg sig rng =
     (let k = log2N N
      in case prng_read 40 rng of (salt, rng) \<Rightarrow>
         (case hash_to_point N salt msg of None \<Rightarrow> None
          | Some c \<Rightarrow>
              let c_fft = fft R k (map (\<lambda>a. of_real_c R (of_int_d R (unat a))) c);
                  q = of_real_c R (of_int_d R 12289);
                  t0 = map (\<lambda>x. cdiv R x q) (cpoly_mul R k c_fft (B ! 3));
                  t1 = map (\<lambda>x. cneg R (cdiv R x q)) (cpoly_mul R k c_fft (B ! 1))
              in (case sign_loop R N B T t0 t1 sig rng of None \<Rightarrow> None | Some (Inl e) \<Rightarrow> Some (Inl e)
                  | Some (Inr sig) \<Rightarrow> Some (Inr (finish_sig N salt sig)))))"

definition recompute_G :: "('d, 'c, 'z) fops_scheme \<Rightarrow> nat \<Rightarrow> int list \<Rightarrow> int list \<Rightarrow> int list \<Rightarrow> int list res" where
  "recompute_G R N f g F =
     (let k = log2N N;
          f_fft = fft R k (cpoly_of_int R f); g_fft = fft R k (cpoly_of_int R g); F_fft = fft R k (cpoly_of_int R F);
          q = replicate N (of_real_c R (of_int_d R 12289));
          tmp = cpoly_add R k (cpoly_mul R k g_fft F_fft) q;
          G_fft = cpoly_div R k tmp f_fft
      in map_res (\<lambda>c. cast_i32 R (fround R (creal R c))) (ifft R k G_fft))"

definition compute_matrix_B :: "('d, 'c, 'z) fops_scheme \<Rightarrow> nat \<Rightarrow> int list \<Rightarrow> int list \<Rightarrow> int list \<Rightarrow> int list \<Rightarrow> 'c list list" where
  "compute_matrix_B R N f g F G =
     (let k = log2N N; neg = (\<lambda>p. map (\<lambda>c. of_real_c R (fneg R (of_sint_d R c))) p)
      in [fft R k (cpoly_of_int R g), fft R k (neg f), fft R k (cpoly_of_int R G), fft R k (neg F)])"

definition compute_falcon_tree :: "('d, 'c, 'z) fops_scheme \<Rightarrow> nat \<Rightarrow> 'c list list \<Rightarrow> 'c ftree" where
  "compute_falcon_tree R N B =
     (let k = log2N N; sigma = (if N = 1024 then lit R ''168.388571447'' else lit R ''165.736617183'')
      in normalize_tree R sigma (ffldl R k (compute_gram_matrix R k B)))"

text \<open>The key generation of \<open>keygen.hpp\<close>: the matrix and the tree instead of the encoded keys.\<close>

definition keygen_matrix :: "('d, 'c, 'z) fops_scheme \<Rightarrow> nat \<Rightarrow> 'd \<Rightarrow> xof \<Rightarrow> ('c list list \<times> 'c ftree \<times> ff_t list \<times> xof) res option" where
  "keygen_matrix R N sigma rng =
     (case ntru_gen R N rng of None \<Rightarrow> None | Some (Inl e) \<Rightarrow> Some (Inl e)
      | Some (Inr ((f, g, F, G), rng)) \<Rightarrow>
          let B = compute_matrix_B R N f g F G;
              T = normalize_tree R sigma (ffldl R (log2N N) (compute_gram_matrix R (log2N N) B));
              h = compute_public_key N f g
          in Some (Inr (B, T, h, rng)))"

text \<open>Without a decoded key nothing is signed and the buffer is left alone.\<close>

definition falcon_sign :: "('d, 'c, 'z) fops_scheme \<Rightarrow> nat \<Rightarrow> bytes \<Rightarrow> bytes \<Rightarrow> bytes \<Rightarrow> bytes \<Rightarrow> (bool \<times> bytes) res option" where
  "falcon_sign R N seed skey msg sig =
     (case decode_skey N skey of None \<Rightarrow> Some (Inr (False, sig))
      | Some (f, g, F) \<Rightarrow>
          (case recompute_G R N f g F of Inl e \<Rightarrow> Some (Inl e)
           | Inr G \<Rightarrow>
               let B = compute_matrix_B R N f g F G; T = compute_falcon_tree R N B
               in (case sign_with R N B T msg sig (prng_new seed) of None \<Rightarrow> None | Some (Inl e) \<Rightarrow> Some (Inl e)
                   | Some (Inr sig) \<Rightarrow> Some (Inr (True, sig)))))"

section \<open>What is signed is what is verified\<close>

text \<open>Both ways to a tree give one that the sampler descends to its leaves.\<close>

lemma tree_shape:
  "ftree_ok (log2N N) (compute_falcon_tree R N B)"
  "keygen_matrix R N sigma rng = Some (Inr (B, T, h, rng')) \<Longrightarrow> ftree_ok (log2N N) T"
  by (auto simp: compute_falcon_tree_def keygen_matrix_def Let_def intro!: normalize_tree_ok ffldl_ok split: option.splits sum.splits prod.splits)

lemma sign_turn_compressed:
  assumes "sign_turn R N B T t0 t1 sig rng = Some (Inr (fin, out, rng'))" "N = 512 \<or> N = 1024"
  shows "if fin then \<exists>s2. length s2 = N \<and> compress_sig N (if N = 1024 then 1280 else 666) s2 sig = Inr (True, out)
    else out = sig \<or> (\<exists>s2. compress_sig N (if N = 1024 then 1280 else 666) s2 sig = Inr (False, out))"
proof -
  have k: "2 ^ log2N N = N"
    using log2N [OF assms(2)] by simp
  have len: "length (ifft R (log2N N) (cpoly_add R (log2N N) p q)) = N" for p q
    by (simp add: k cpoly_add_def)
  show ?thesis
  proof (cases fin)
    case True
    then obtain p q s2 where "map_res (\<lambda>c. cast_i32 R (fround R (creal R c))) (ifft R (log2N N) (cpoly_add R (log2N N) p q)) = Inr s2"
      "compress_sig N (if N = 1024 then 1280 else 666) s2 sig = Inr (True, out)"
      using assms(1) unfolding sign_turn_def Let_def by (auto split: option.splits sum.splits if_split_asm)
    then show ?thesis
      using True length_map_res len by metis
  next
    case False
    then show ?thesis
      using assms(1) unfolding sign_turn_def Let_def by (auto split: option.splits sum.splits if_split_asm)
  qed
qed

lemma compress_sig_length:
  assumes "compress_sig N slen s2 sig = Inr (b, out)" "N = 512 \<and> slen = 666 \<or> N = 1024 \<and> slen = 1280" "41 \<le> length sig"
  shows "41 \<le> length out"
  using assms by (auto simp: compress_sig_def Let_def bind_res_def split: sum.splits)

text \<open>Whatever the arithmetic computes, the loop leaves with a polynomial that was compressed into the buffer.\<close>

lemma sign_loop_compressed:
  fixes R :: "('d, 'c, 'z) fops_scheme"
  assumes "sign_loop R N B T t0 t1 sig rng = Some (Inr out)" "N = 512 \<or> N = 1024" "41 \<le> length sig"
  shows "\<exists>s2 sig'. length s2 = N \<and> 41 \<le> length sig' \<and> compress_sig N (if N = 1024 then 1280 else 666) s2 sig' = Inr (True, out)"
proof -
  define P :: "('d, 'c, 'z) fops_scheme \<Rightarrow> _" where
    "P R N B T t0 t1 sig rng y \<longleftrightarrow> (N = 512 \<or> N = 1024 \<longrightarrow> 41 \<le> length sig \<longrightarrow> (\<forall>out. y = Inr out \<longrightarrow>
       (\<exists>s2 sig'. length s2 = N \<and> 41 \<le> length sig' \<and> compress_sig N (if N = 1024 then 1280 else 666) s2 sig' = Inr (True, out))))"
    for R and N :: nat and B :: "'c list list" and T :: "'c ftree" and t0 t1 :: "'c list" and sig :: bytes and rng :: xof and y :: "bytes res"
  have "P R N B T t0 t1 sig rng (Inr out)"
  proof (rule sign_loop.raw_induct [OF _ assms(1), of P])
    fix loop R N B T t0 t1 sig rng y
    assume IH: "\<And>R N B T t0 t1 sig rng y. loop R N B T t0 t1 sig rng = Some y \<Longrightarrow> P R N B T t0 t1 sig rng y"
      and step: "(case sign_turn R N B T t0 t1 sig rng of None \<Rightarrow> None
        | Some r \<Rightarrow> (case r of Inl e \<Rightarrow> Some (Inl e)
          | Inr (fin, sig, rng) \<Rightarrow> if fin then Some (Inr sig) else loop R N B T t0 t1 sig rng)) = Some y"
    show "P R N B T t0 t1 sig rng y"
    proof (cases "sign_turn R N B T t0 t1 sig rng")
      case (Some r)
      show ?thesis
      proof (cases r)
        case (Inr u)
        obtain fin out rng1 where u: "u = (fin, out, rng1)"
          by (metis prod_cases3)
        have turn: "sign_turn R N B T t0 t1 sig rng = Some (Inr (fin, out, rng1))"
          using Some Inr u by simp
        show ?thesis
        proof (cases fin)
          case True
          then have "y = Inr out"
            using step turn by simp
          then show ?thesis
            using sign_turn_compressed [OF turn] True unfolding P_def by (metis sum.inject(2))
        next
          case False
          have next_turn: "P R N B T t0 t1 out rng1 y"
            using IH step turn False by simp
          have "41 \<le> length out" if N: "N = 512 \<or> N = 1024" and len: "41 \<le> length sig"
          proof -
            have "out = sig \<or> (\<exists>s2. compress_sig N (if N = 1024 then 1280 else 666) s2 sig = Inr (False, out))"
              using sign_turn_compressed [OF turn N] False by simp
            then show ?thesis
              using compress_sig_length [OF _ _ len, of N] N len by (elim disjE exE) auto
          qed
          then show ?thesis
            using next_turn unfolding P_def by blast
        qed
      qed (use step Some in \<open>auto simp: P_def\<close>)
    qed (use step in simp)
  qed
  then show ?thesis
    using assms(2,3) unfolding P_def by blast
qed

lemma sign_with_output:
  assumes "sign_with R N B T msg sig rng = Some (Inr out)" "N = 512 \<or> N = 1024" "41 \<le> length sig"
  shows "\<exists>s2 sig0 sig'. length s2 = N \<and> 41 \<le> length sig0 \<and> compress_sig N (if N = 1024 then 1280 else 666) s2 sig0 = Inr (True, sig')
    \<and> out = finish_sig N (fst (prng_read 40 rng)) sig'"
proof -
  obtain salt r where r: "prng_read 40 rng = (salt, r)"
    by fastforce
  obtain t0 t1 sig' where "sign_loop R N B T t0 t1 sig r = Some (Inr sig')" "out = finish_sig N salt sig'"
    using assms(1) r by (auto simp: sign_with_def Let_def split: option.splits sum.splits)
  then show ?thesis
    using sign_loop_compressed [OF _ assms(2,3)] r by fastforce
qed

lemma falcon_sign_output:
  assumes "falcon_sign R N seed skey msg sig = Some (Inr (True, out))" "N = 512 \<or> N = 1024" "41 \<le> length sig"
  shows "\<exists>s2 sig0 sig'. length s2 = N \<and> 41 \<le> length sig0 \<and> compress_sig N (if N = 1024 then 1280 else 666) s2 sig0 = Inr (True, sig')
    \<and> out = finish_sig N (fst (prng_read 40 (prng_new seed))) sig'"
proof -
  obtain B T where "sign_with R N B T msg sig (prng_new seed) = Some (Inr out)"
    using assms(1) by (auto simp: falcon_sign_def Let_def split: option.splits sum.splits prod.splits)
  then show ?thesis
    by (rule sign_with_output [OF _ assms(2,3)])
qed

lemma length_prng_read: "length (fst (prng_read n (prng_new seed))) = n"
  using arg_cong [OF xof_output(2) [of 136 "[n]" "[seed]"], of length]
  by (simp add: prng_read_def prng_new_def shake256_read_def shake256_hash_def split: prod.splits)

text \<open>A polynomial that survives compression and decompression.\<close>

definition sig_encodable :: "nat \<Rightarrow> int list \<Rightarrow> bool" where
  "sig_encodable slen s2 \<longleftrightarrow> (\<forall>x \<in> set s2. \<bar>x\<bar> < 1024) \<and> compressed_len s2 < 8 * (slen - 41) \<and> readable slen s2"

lemma signature_decodes:
  assumes N: "N = 512 \<and> slen = 666 \<or> N = 1024 \<and> slen = 1280" and "length salt = 40" "41 \<le> length sig"
    and s2: "length s2 = N" "sig_encodable slen s2"
  shows "\<exists>sig'. compress_sig N slen s2 sig = Inr (True, sig') \<and> decode_sig N (finish_sig N salt sig') = Inr (Some (salt, s2))"
proof -
  have e: "\<forall>x \<in> set s2. \<bar>x\<bar> < 1024" "compressed_len s2 < 8 * (slen - 41)" "readable slen s2"
    using s2(2) by (simp_all add: sig_encodable_def)
  have l: "\<not> compressed_len s2 > 14 * N" "compressed_len s2 < 8 * (slen - 41)" "41 \<le> slen"
    using N e(2) by auto
  from compress_sig_result [OF s2(1) N assms(3)] l obtain out where
    out: "compress_sig N slen s2 sig = Inr (True, take 41 sig @ out)" "length out = slen - 41"
      "bits_of out = concat (map coeff_bits s2) @ replicate (8 * (slen - 41) - compressed_len s2) False"
    by auto
  define w where "w = finish_sig N salt (take 41 sig @ out)"
  have w: "w = (0x30 OR falcon_log2 N) # salt @ out" "length w = slen"
    using assms(2,3) out(2) l(3) by (simp_all add: w_def finish_sig_def)
  have "drop 328 (bits_of w) = bits_of out"
    using assms(2) bits_of_append [of "(0x30 OR falcon_log2 N) # salt" out] by (simp add: w(1) length_bits_of)
  then have "decompress_sig N slen w = Inr (True, s2)"
    using decompress_bits [OF s2(1) N w(2) e(1,2)] out(3) e(3) by simp
  then have "decode_sig N w = Inr (Some (salt, s2))"
    using N assms(2) by (auto simp: decode_sig_def Let_def w(1) bind_res_def)
  then show ?thesis
    using out(1) by (simp flip: w_def)
qed

end
