(* ===== verification/Falcon_Signature.thy ===== *)
theory Falcon_Signature
  imports Falcon_Sign
begin

text \<open>
  Signatures (\<open>include/crypto/falcon_signature.hpp\<close>, \<open>src/crypto/falcon_signature.cpp\<close>): an object with four buffers, for the
  two keys, the last signature and the message, over the key generation, signing and verification of the vendored Falcon scheme as
  they are modelled in \<open>Falcon_Keygen\<close>, \<open>Falcon_Sign\<close> and \<open>Falcon_Verify\<close>. The seeds that the random generators of key generation and
  signing take from the system are arguments; \<open>None\<close> stands for a call that does not return.
\<close>

section \<open>The object\<close>

record FalconSignature =
  fs_N :: nat
  pklen :: nat
  sklen :: nat
  msglen :: nat
  public_key :: bytes
  secret_key :: bytes
  signature_buf :: bytes
  message_buf :: bytes

definition FalconSignature_new :: "nat \<Rightarrow> FalconSignature res" where
  "FalconSignature_new N =
     (if N = 512 \<or> N = 1024
      then Inr \<lparr>fs_N = N, pklen = compute_pkey_len N, sklen = compute_skey_len N, msglen = 32,
                public_key = replicate (compute_pkey_len N) 0, secret_key = replicate (compute_skey_len N) 0,
                signature_buf = replicate (compute_sig_len N) 0, message_buf = replicate 32 0\<rparr>
      else Inl (Invalid_argument ''Invalid Falcon parameter N. Supported values are 512 and 1024.''))"

text \<open>\<open>std::memset\<close> to zero and \<open>std::memcpy\<close> at the start of a buffer.\<close>

definition memset0 :: "bytes \<Rightarrow> bytes" where
  "memset0 buf = replicate (length buf) 0"

definition memcpy :: "bytes \<Rightarrow> bytes \<Rightarrow> bytes" where
  "memcpy buf src = src @ drop (length src) buf"

text \<open>The scheme writes the encoded keys over the cleared buffers.\<close>

definition generate_key_pair ::
    "('d, 'c, 'z) fops_scheme \<Rightarrow> bytes \<Rightarrow> FalconSignature \<Rightarrow> ((bytes \<times> bytes) \<times> FalconSignature) res option" where
  "generate_key_pair R seed s =
     (let s = s\<lparr>public_key := memset0 (public_key s), secret_key := memset0 (secret_key s)\<rparr>
      in case falcon_keygen R (fs_N s) seed of None \<Rightarrow> None | Some (Inl e) \<Rightarrow> Some (Inl e)
         | Some (Inr (pkey, skey)) \<Rightarrow>
             let s = s\<lparr>public_key := memcpy (public_key s) pkey, secret_key := memcpy (secret_key s) skey\<rparr>
             in Some (Inr ((take (pklen s) (public_key s), take (sklen s) (secret_key s)), s)))"

text \<open>The message is copied into a cleared buffer, and the scheme is given the buffer with the length of the message.\<close>

definition load_message :: "bytes \<Rightarrow> FalconSignature \<Rightarrow> FalconSignature" where
  "load_message msg s = s\<lparr>message_buf := memcpy (memset0 (message_buf s)) msg\<rparr>"

definition sign_message :: "('d, 'c, 'z) fops_scheme \<Rightarrow> bytes \<Rightarrow> bytes \<Rightarrow> FalconSignature \<Rightarrow> (bytes res \<times> FalconSignature) option" where
  "sign_message R seed msg s =
     (if length msg > msglen s then Some (Inl (Invalid_argument ''Message too long''), s)
      else let s = load_message msg s;
               sig_len = compute_sig_len (fs_N s);
               s = s\<lparr>signature_buf := memset0 (signature_buf s)\<rparr>
           in case falcon_sign R (fs_N s) seed (secret_key s) (take (length msg) (message_buf s)) (signature_buf s) of
                None \<Rightarrow> None
              | Some (Inl e) \<Rightarrow> Some (Inl e, s)
              | Some (Inr (success, sig)) \<Rightarrow>
                  let s = s\<lparr>signature_buf := sig\<rparr>
                  in Some (if success then Inr (take sig_len (signature_buf s)) else Inl (Runtime_error ''Signature generation failed''), s))"

definition verify_signature :: "bytes \<Rightarrow> bytes \<Rightarrow> FalconSignature \<Rightarrow> (bool res \<times> FalconSignature) option" where
  "verify_signature msg sig s =
     (if length msg > msglen s then Some (Inl (Invalid_argument ''Message too long''), s)
      else let s = load_message msg s;
               sig_len = compute_sig_len (fs_N s)
           in if length sig \<noteq> sig_len then Some (Inr False, s)
              else let sig_buffer = memcpy (replicate sig_len 0) sig
                   in map_option (\<lambda>result. (result, s)) (falcon_verify (fs_N s) (public_key s) (take (length msg) (message_buf s)) sig_buffer))"

definition import_key_pair :: "bytes \<Rightarrow> bytes \<Rightarrow> FalconSignature \<Rightarrow> bool res \<times> FalconSignature" where
  "import_key_pair pk sk s =
     (if length pk \<noteq> pklen s \<or> length sk \<noteq> sklen s then (Inl (Invalid_argument ''Invalid key length''), s)
      else (Inr True, s\<lparr>public_key := memcpy (public_key s) pk, secret_key := memcpy (secret_key s) sk\<rparr>))"

definition export_key_pair :: "FalconSignature \<Rightarrow> bytes \<times> bytes" where
  "export_key_pair s = (take (pklen s) (public_key s), take (sklen s) (secret_key s))"

section \<open>Sequences of calls\<close>

text \<open>
  A sequence of calls goes on after an exception, in the state the call left; it has no outcome when a call does not return or is
  undefined.
\<close>

datatype call = Generate bytes | Sign bytes bytes | Verify bytes bytes | Import bytes bytes

definition goes_on :: "('a res \<times> FalconSignature) option \<Rightarrow> FalconSignature option" where
  "goes_on r = (case r of None \<Rightarrow> None | Some (Inl (Undefined _), _) \<Rightarrow> None | Some (_, s) \<Rightarrow> Some s)"

fun falcon_call :: "('d, 'c, 'z) fops_scheme \<Rightarrow> call \<Rightarrow> FalconSignature \<Rightarrow> FalconSignature option" where
  "falcon_call R (Generate seed) s = (case generate_key_pair R seed s of Some (Inr (_, s)) \<Rightarrow> Some s | _ \<Rightarrow> None)"
| "falcon_call R (Sign seed msg) s = goes_on (sign_message R seed msg s)"
| "falcon_call R (Verify msg sig) s = goes_on (verify_signature msg sig s)"
| "falcon_call R (Import pk sk) s = Some (snd (import_key_pair pk sk s))"

fun falcon_calls :: "('d, 'c, 'z) fops_scheme \<Rightarrow> call list \<Rightarrow> FalconSignature \<Rightarrow> FalconSignature option" where
  "falcon_calls R [] s = Some s"
| "falcon_calls R (c # cs) s = (case falcon_call R c s of None \<Rightarrow> None | Some s \<Rightarrow> falcon_calls R cs s)"

fun keeps_keys :: "call \<Rightarrow> bool" where
  "keeps_keys (Sign _ _) \<longleftrightarrow> True"
| "keeps_keys (Verify _ _) \<longleftrightarrow> True"
| "keeps_keys _ \<longleftrightarrow> False"

section \<open>The buffers\<close>

text \<open>The invariant of the buffers: each has the length that it was allocated with.\<close>

definition buffers_ok :: "FalconSignature \<Rightarrow> bool" where
  "buffers_ok s \<longleftrightarrow> fs_N s \<in> {512, 1024} \<and> pklen s = compute_pkey_len (fs_N s) \<and> sklen s = compute_skey_len (fs_N s) \<and>
     msglen s = 32 \<and> length (public_key s) = pklen s \<and> length (secret_key s) = sklen s \<and>
     length (signature_buf s) = compute_sig_len (fs_N s) \<and> length (message_buf s) = 32"

lemma memcpy_all: "length src = length buf \<Longrightarrow> memcpy buf src = src"
  by (simp add: memcpy_def)

lemma length_memcpy: "length src \<le> length buf \<Longrightarrow> length (memcpy buf src) = length buf"
  by (simp add: memcpy_def)

lemma take_memcpy [simp]: "take (length src) (memcpy buf src) = src"
  by (simp add: memcpy_def)

lemma length_memset0 [simp]: "length (memset0 buf) = length buf"
  by (simp add: memset0_def)

lemma load_message_simps [simp]:
  "fs_N (load_message m s) = fs_N s" "pklen (load_message m s) = pklen s" "sklen (load_message m s) = sklen s"
  "msglen (load_message m s) = msglen s" "public_key (load_message m s) = public_key s"
  "secret_key (load_message m s) = secret_key s" "signature_buf (load_message m s) = signature_buf s"
  "take (length m) (message_buf (load_message m s)) = m"
  by (simp_all add: load_message_def)

lemma length_load_message: "length m \<le> length (message_buf s) \<Longrightarrow> length (message_buf (load_message m s)) = length (message_buf s)"
  by (simp add: load_message_def length_memcpy)

lemma buffers_ok_new: "FalconSignature_new N = Inr s \<Longrightarrow> buffers_ok s \<and> fs_N s = N"
  by (auto simp: FalconSignature_new_def buffers_ok_def split: if_splits)

lemma buffers_ok_load: "buffers_ok s \<Longrightarrow> length m \<le> msglen s \<Longrightarrow> buffers_ok (load_message m s)"
  by (simp add: buffers_ok_def length_load_message)

text \<open>The signature that is returned fills the buffer.\<close>

lemma length_finish_sig:
  assumes "N = 512 \<or> N = 1024" "length s2 = N" "41 \<le> length sig0" "length salt = 40"
    and "compress_sig N (compute_sig_len N) s2 sig0 = Inr (True, sig')"
  shows "length (finish_sig N salt sig') = compute_sig_len N"
proof -
  have N: "N = 512 \<and> compute_sig_len N = 666 \<or> N = 1024 \<and> compute_sig_len N = 1280"
    using assms(1) by (auto simp: compute_sig_len_def)
  from compress_sig_result [OF assms(2) N assms(3)] assms(5) obtain out where
    "sig' = take 41 sig0 @ out" "length out = compute_sig_len N - 41"
    by (auto split: if_splits)
  then show ?thesis
    using assms(3,4) N by (auto simp: finish_sig_def)
qed

lemma falcon_sign_length:
  assumes "falcon_sign R N seed skey msg sig = Some (Inr (success, out))" "N = 512 \<or> N = 1024" "length sig = compute_sig_len N"
  shows "length out = compute_sig_len N"
proof (cases success)
  case True
  have len: "41 \<le> length sig" "(if N = 1024 then 1280 else 666) = compute_sig_len N"
    using assms(2,3) by (auto simp: compute_sig_len_def)
  have sign: "falcon_sign R N seed skey msg sig = Some (Inr (True, out))"
    using assms(1) True by simp
  show ?thesis
    using falcon_sign_output [OF sign assms(2) len(1)] length_finish_sig [OF assms(2) _ _ length_prng_read] unfolding len(2) by fast
next
  case False
  then show ?thesis
    using assms by (auto simp: falcon_sign_def Let_def split: option.splits sum.splits prod.splits)
qed

lemma falcon_keygen_length:
  assumes "falcon_keygen R N seed = Some (Inr (pkey, skey))" "N = 512 \<or> N = 1024"
  shows "length pkey = compute_pkey_len N \<and> length skey = compute_skey_len N"
proof -
  obtain f g F G rng where gen: "ntru_gen R N (prng_new seed) = Some (Inr ((f, g, F, G), rng))"
    and keys: "pkey = encode_pkey N (compute_public_key N f g)" "skey = encode_skey N f g F"
    using assms(1) by (auto simp: falcon_keygen_def Let_def split: option.splits sum.splits)
  have "length f = N" "length g = N" "length F = N" "length (compute_public_key N f g) = N"
    using ntru_gen_good [OF assms(2) gen] public_key_ok [OF assms(2), of f g] log2N [OF assms(2)]
    by (auto simp: good_quad_def ntru_ok_def poly_ok_def)
  then show ?thesis
    using keys assms(2) length_encode_pkey [of N] length_encode_skey [of N] by simp
qed

lemma generate_key_pair_eq:
  assumes "buffers_ok s"
  shows "generate_key_pair R seed s = (case falcon_keygen R (fs_N s) seed of None \<Rightarrow> None | Some (Inl e) \<Rightarrow> Some (Inl e)
    | Some (Inr keys) \<Rightarrow> Some (Inr (keys, s\<lparr>public_key := fst keys, secret_key := snd keys\<rparr>)))"
  using falcon_keygen_length [of R "fs_N s" seed] assms
  by (auto simp: generate_key_pair_def buffers_ok_def memcpy_all Let_def split: option.split sum.split)

section \<open>What the calls keep\<close>

lemma goes_on_cases: "goes_on r = Some t \<Longrightarrow> \<exists>v. r = Some (v, t)"
  by (auto simp: goes_on_def split: option.splits prod.splits sum.splits exn.splits)

lemma buffers_ok_sign:
  assumes "buffers_ok s" "sign_message R seed m s = Some (v, t)"
  shows "buffers_ok t \<and> public_key t = public_key s \<and> secret_key t = secret_key s \<and> fs_N t = fs_N s"
proof (cases "length m \<le> msglen s")
  case True
  then have "buffers_ok (load_message m s)"
    by (rule buffers_ok_load [OF assms(1)])
  then show ?thesis
    using True assms(2) falcon_sign_length [of R "fs_N s" seed "secret_key s" m "memset0 (signature_buf s)"]
    by (auto simp: sign_message_def Let_def buffers_ok_def split: option.splits sum.splits prod.splits)
next
  case False
  then show ?thesis
    using assms by (auto simp: sign_message_def)
qed

lemma buffers_ok_verify:
  "buffers_ok s \<Longrightarrow> verify_signature m sig s = Some (v, t) \<Longrightarrow>
     buffers_ok t \<and> public_key t = public_key s \<and> secret_key t = secret_key s \<and> fs_N t = fs_N s"
  using buffers_ok_load [of s m] by (auto simp: verify_signature_def Let_def split: if_splits)

lemma import_key_pair_ok:
  "buffers_ok s \<Longrightarrow> buffers_ok (snd (import_key_pair pk sk s)) \<and> fs_N (snd (import_key_pair pk sk s)) = fs_N s"
  by (auto simp: import_key_pair_def buffers_ok_def memcpy_def)

lemma buffers_ok_call:
  assumes "buffers_ok s" "falcon_call R c s = Some t"
  shows "buffers_ok t \<and> fs_N t = fs_N s"
proof (cases c)
  case (Generate seed)
  then show ?thesis
    using falcon_keygen_length [of R "fs_N s" seed] assms
    by (auto simp: generate_key_pair_eq buffers_ok_def split: option.splits sum.splits)
next
  case (Sign seed m)
  then show ?thesis
    using goes_on_cases [of "sign_message R seed m s" t] buffers_ok_sign [OF assms(1), of R seed m] assms(2) by auto
next
  case (Verify m sig)
  then show ?thesis
    using goes_on_cases [of "verify_signature m sig s" t] buffers_ok_verify [OF assms(1)] assms(2) by auto
next
  case (Import pk sk)
  then show ?thesis
    using assms import_key_pair_ok by auto
qed

lemma buffers_ok_calls: "buffers_ok s \<Longrightarrow> falcon_calls R cs s = Some t \<Longrightarrow> buffers_ok t \<and> fs_N t = fs_N s"
proof (induction cs arbitrary: s)
  case (Cons c cs)
  then show ?case
    using buffers_ok_call [of s R c] by (fastforce split: option.splits)
qed simp

lemma keys_kept:
  "buffers_ok s \<Longrightarrow> falcon_calls R cs s = Some t \<Longrightarrow> list_all keeps_keys cs \<Longrightarrow> public_key t = public_key s \<and> secret_key t = secret_key s"
proof (induction cs arbitrary: s)
  case (Cons c cs)
  obtain u where u: "falcon_call R c s = Some u" "falcon_calls R cs u = Some t"
    using Cons.prems(2) by (auto split: option.splits)
  have "public_key u = public_key s \<and> secret_key u = secret_key s"
  proof (cases c)
    case (Sign seed m)
    then show ?thesis
      using u(1) goes_on_cases [of "sign_message R seed m s" u] buffers_ok_sign [OF Cons.prems(1), of R seed m] by auto
  next
    case (Verify m sig)
    then show ?thesis
      using u(1) goes_on_cases [of "verify_signature m sig s" u] buffers_ok_verify [OF Cons.prems(1)] by auto
  qed (use Cons.prems(3) in simp_all)
  then show ?case
    using Cons.IH [OF _ u(2)] Cons.prems(3) buffers_ok_call [OF Cons.prems(1) u(1)] by simp
qed simp

text \<open>The objects that the calls reach.\<close>

lemma reached_ok:
  assumes "FalconSignature_new N = Inr s0" "falcon_calls R cs s0 = Some s"
  shows "buffers_ok s" "fs_N s = N" "msglen s = 32" "N = 512 \<or> N = 1024"
  using buffers_ok_calls [OF _ assms(2)] buffers_ok_new [OF assms(1)] by (auto simp: buffers_ok_def)

section \<open>Signing and verifying\<close>

lemma verify_signature_eq:
  assumes "buffers_ok s" and "length m \<le> 32" and "length sig = compute_sig_len (fs_N s)"
  shows "map_option fst (verify_signature m sig s) = falcon_verify (fs_N s) (public_key s) m sig"
  using assms by (simp add: verify_signature_def Let_def buffers_ok_def memcpy_all option.map_comp comp_def option.map_ident)

lemma sign_message_output:
  assumes "buffers_ok s" "sign_message R seed m s = Some (Inr sig, t)"
  shows "falcon_sign R (fs_N s) seed (secret_key s) m (replicate (compute_sig_len (fs_N s)) 0) = Some (Inr (True, sig))
    \<and> (\<exists>s2 sig0 sig'. length s2 = fs_N s \<and> 41 \<le> length sig0 \<and> compress_sig (fs_N s) (compute_sig_len (fs_N s)) s2 sig0 = Inr (True, sig')
     \<and> sig = finish_sig (fs_N s) (fst (prng_read 40 (prng_new seed))) sig')"
proof -
  have N: "fs_N s = 512 \<or> fs_N s = 1024" "(if fs_N s = 1024 then 1280 else 666) = compute_sig_len (fs_N s)"
    and len: "length (memset0 (signature_buf s)) = compute_sig_len (fs_N s)" "41 \<le> compute_sig_len (fs_N s)"
    using assms(1) by (auto simp: buffers_ok_def compute_sig_len_def)
  from assms obtain out where out: "falcon_sign R (fs_N s) seed (secret_key s) m (memset0 (signature_buf s)) = Some (Inr (True, out))"
    "sig = take (compute_sig_len (fs_N s)) out"
    by (auto simp: sign_message_def Let_def split: if_splits option.splits sum.splits prod.splits)
  have "sig = out"
    using out(2) falcon_sign_length [OF out(1) N(1) len(1)] by simp
  then show ?thesis
    using falcon_sign_output [OF out(1) N(1)] len out(1) unfolding N(2) by (simp add: memset0_def)
qed

lemma import_export:
  assumes "buffers_ok s" and "buffers_ok t" and "fs_N t = fs_N s"
  shows "import_key_pair (fst (export_key_pair s)) (snd (export_key_pair s)) t
    = (Inr True, t\<lparr>public_key := public_key s, secret_key := secret_key s\<rparr>)"
  using assms by (simp add: import_key_pair_def export_key_pair_def buffers_ok_def memcpy_all)

text \<open>A signature: the header, a salt and a polynomial compressed behind it.\<close>

definition signature_of :: "nat \<Rightarrow> bytes \<Rightarrow> int list \<Rightarrow> bytes \<Rightarrow> bool" where
  "signature_of N salt s2 sig \<longleftrightarrow> length s2 = N \<and>
     (\<exists>sig0 sig'. 41 \<le> length sig0 \<and> compress_sig N (compute_sig_len N) s2 sig0 = Inr (True, sig') \<and> sig = finish_sig N salt sig')"

lemma sign_message_signature:
  assumes "buffers_ok s" "sign_message R seed m s = Some (Inr sig, t)"
  shows "falcon_sign R (fs_N s) seed (secret_key s) m (replicate (compute_sig_len (fs_N s)) 0) = Some (Inr (True, sig))
    \<and> (\<exists>s2. signature_of (fs_N s) (fst (prng_read 40 (prng_new seed))) s2 sig)"
  using sign_message_output [OF assms] unfolding signature_of_def by blast

lemma length_signature_of:
  assumes "signature_of N salt s2 sig" "N = 512 \<or> N = 1024" "length salt = 40"
  shows "length sig = compute_sig_len N"
  using assms(1) length_finish_sig [OF assms(2) _ _ assms(3)] unfolding signature_of_def by blast

text \<open>What verification decides: the norm check for the polynomial and the salt that were signed, under the public key it has.\<close>

definition decides :: "nat \<Rightarrow> bytes \<Rightarrow> bytes \<Rightarrow> bytes \<Rightarrow> int list \<Rightarrow> bool res option" where
  "decides N pkey msg salt s2 =
     (case decode_pkey N pkey of None \<Rightarrow> Some (Inr False)
      | Some h \<Rightarrow> map_option (\<lambda>c. check_norm N (beta2 N) h c s2) (hash_to_point N salt msg))"

lemma verify_decides:
  assumes "buffers_ok u" "length m \<le> 32" "length salt = 40"
    and sig: "signature_of (fs_N u) salt s2 sig" "sig_encodable (compute_sig_len (fs_N u)) s2"
  shows "map_option fst (verify_signature m sig u) = decides (fs_N u) (public_key u) m salt s2"
proof -
  have N: "fs_N u = 512 \<and> compute_sig_len (fs_N u) = 666 \<or> fs_N u = 1024 \<and> compute_sig_len (fs_N u) = 1280" "fs_N u = 512 \<or> fs_N u = 1024"
    using assms(1) by (auto simp: buffers_ok_def compute_sig_len_def)
  obtain sig0 sig' where c: "length s2 = fs_N u" "41 \<le> length sig0" "compress_sig (fs_N u) (compute_sig_len (fs_N u)) s2 sig0 = Inr (True, sig')"
    "sig = finish_sig (fs_N u) salt sig'"
    using sig(1) unfolding signature_of_def by blast
  have "decode_sig (fs_N u) sig = Inr (Some (salt, s2))"
    using signature_decodes [OF N(1) assms(3) c(2,1) sig(2)] c(3,4) by auto
  then show ?thesis
    using verify_signature_eq [OF assms(1,2) length_signature_of [OF sig(1) N(2) assms(3)]]
    by (simp add: falcon_verify_def verification_verify_def decides_def split: option.split)
qed

text \<open>
  C33. What an object signs is what every object verifies. Take two objects of one parameter set after any calls. A signature that
  \<open>sign_message\<close> returns is the one the scheme makes of exactly the given message with the secret key of the object; it has the length
  of the parameter set and is the drawn salt with a polynomial \<open>s2\<close> compressed behind it, and the keys are kept. For an \<open>s2\<close> with coefficients below 1024 whose code is readable, \<open>verify_signature\<close> on such bytes decides exactly
  by the norm check for this \<open>s2\<close> and salt, under the public key the verifying object has, and under the one of the signing object
  when the verifying one has imported its exported keys. Every such polynomial has a signature with every salt.
\<close>

theorem falcon_sign_verify:
  assumes "FalconSignature_new N = Inr s0" "falcon_calls R cs s0 = Some s" "falcon_calls R ds s0 = Some t" and m: "length m \<le> 32"
    and t': "t' = snd (import_key_pair (fst (export_key_pair s)) (snd (export_key_pair s)) t)"
  shows "(\<forall>sig s'. sign_message R seed m s = Some (Inr sig, s') \<longrightarrow> export_key_pair s' = export_key_pair s \<and> length sig = compute_sig_len N
      \<and> falcon_sign R N seed (secret_key s) m (replicate (compute_sig_len N) 0) = Some (Inr (True, sig))
      \<and> (\<exists>s2. signature_of N (fst (prng_read 40 (prng_new seed))) s2 sig))
    \<and> (\<forall>salt s2 sig. length salt = 40 \<and> signature_of N salt s2 sig \<and> sig_encodable (compute_sig_len N) s2 \<longrightarrow>
      map_option fst (verify_signature m sig t) = decides N (public_key t) m salt s2
      \<and> map_option fst (verify_signature m sig t') = decides N (public_key s) m salt s2)
    \<and> (\<forall>salt s2. length salt = 40 \<and> length s2 = N \<and> sig_encodable (compute_sig_len N) s2 \<longrightarrow> (\<exists>sig. signature_of N salt s2 sig))"
proof -
  note s = reached_ok [OF assms(1,2)] and t = reached_ok [OF assms(1,3)]
  have N: "N = 512 \<and> compute_sig_len N = 666 \<or> N = 1024 \<and> compute_sig_len N = 1280"
    using s(4) by (auto simp: compute_sig_len_def)
  have ok': "buffers_ok t'" "fs_N t' = N" "public_key t' = public_key s"
    using import_export [OF s(1) t(1)] import_key_pair_ok [OF t(1), of "fst (export_key_pair s)" "snd (export_key_pair s)"] s(2) t(2)
    by (simp_all add: t')
  have "export_key_pair s' = export_key_pair s \<and> length sig = compute_sig_len N
      \<and> falcon_sign R N seed (secret_key s) m (replicate (compute_sig_len N) 0) = Some (Inr (True, sig))
      \<and> (\<exists>s2. signature_of N (fst (prng_read 40 (prng_new seed))) s2 sig)"
    if sign: "sign_message R seed m s = Some (Inr sig, s')" for sig s'
    using buffers_ok_sign [OF s(1) sign] sign_message_signature [OF s(1) sign] s length_signature_of [OF _ s(4) length_prng_read]
    by (auto simp: export_key_pair_def buffers_ok_def)
  moreover have "\<exists>sig. signature_of N salt s2 sig" if "length salt = 40" "length s2 = N" "sig_encodable (compute_sig_len N) s2" for salt s2
    using signature_decodes [OF N that(1) _ that(2,3), of "replicate 41 0"] that(2) unfolding signature_of_def by force
  ultimately show ?thesis
    using verify_decides [OF t(1) m, unfolded t(2)] verify_decides [OF ok'(1) m, unfolded ok'(2,3)] by blast
qed

text \<open>
  C34. What an object refuses, after any calls: a message of more than 32 bytes in both directions, with the object unchanged, and a
  signature of another length. An object that has neither generated nor imported keys cannot sign, and takes no signature for valid.
\<close>

theorem falcon_refuses:
  assumes "FalconSignature_new N = Inr s0" "falcon_calls R cs s0 = Some s"
  shows "(length m > 32 \<longrightarrow> sign_message R seed m s = Some (Inl (Invalid_argument ''Message too long''), s)
      \<and> verify_signature m sig s = Some (Inl (Invalid_argument ''Message too long''), s))
    \<and> (length m \<le> 32 \<and> length sig \<noteq> compute_sig_len N \<longrightarrow> map_option fst (verify_signature m sig s) = Some (Inr False))
    \<and> (list_all keeps_keys cs \<and> length m \<le> 32 \<longrightarrow>
        map_option fst (sign_message R seed m s) = Some (Inl (Runtime_error ''Signature generation failed''))
        \<and> map_option fst (verify_signature m sig s) = Some (Inr False))"
proof -
  note s = reached_ok [OF assms]
  have "map_option fst (sign_message R seed m s) = Some (Inl (Runtime_error ''Signature generation failed''))
      \<and> map_option fst (verify_signature m sig s) = Some (Inr False)" if "list_all keeps_keys cs" "length m \<le> 32"
  proof -
    have "public_key s = replicate (compute_pkey_len N) 0" "secret_key s = replicate (compute_skey_len N) 0"
      using keys_kept [OF _ assms(2) that(1)] buffers_ok_new [OF assms(1)] assms(1) by (auto simp: FalconSignature_new_def split: if_splits)
    then have "hd (public_key s) = 0" "hd (secret_key s) = 0"
      by (auto simp: compute_skey_len_def compute_pkey_len_def Let_def)
    then have "decode_pkey N (public_key s) = None" "decode_skey N (secret_key s) = None"
      by (simp_all add: decode_pkey_zero decode_skey_zero)
    then show ?thesis
      using that(2) s(2,3) by (simp add: sign_message_def verify_signature_def falcon_sign_def falcon_verify_def Let_def)
  qed
  then show ?thesis
    using s(2,3) by (simp add: sign_message_def verify_signature_def Let_def)
qed

section \<open>Instances\<close>

lemma demo_object: "\<exists>s0 s. FalconSignature_new 512 = Inr s0 \<and> buffers_ok s0 \<and>
    falcon_calls unit_ops [Import (encode_pkey 512 (replicate 512 7)) (replicate 1281 0)] s0 = Some s \<and>
    public_key s = encode_pkey 512 (replicate 512 7) \<and> signature_buf s = replicate 666 0"
proof -
  have "length (encode_pkey 512 (replicate 512 7)) = 897"
    using length_encode_pkey [of 512 "replicate 512 7"] by (simp add: compute_pkey_len_def)
  then show ?thesis
    by (auto simp: FalconSignature_new_def import_key_pair_def memcpy_def compute_pkey_len_def compute_skey_len_def compute_sig_len_def
        buffers_ok_def)
qed

theorem falcon_sign_verify_witness:
  "\<exists>s0 s sig. FalconSignature_new 512 = Inr s0
     \<and> falcon_calls unit_ops [Import (encode_pkey 512 (replicate 512 7)) (replicate 1281 0)] s0 = Some s
     \<and> signature_of 512 (replicate 40 5) (128 # replicate 511 0) sig
     \<and> map_option fst (verify_signature [1, 2] sig s)
       = map_option (\<lambda>c. check_norm 512 34034726 (replicate 512 7) c (128 # replicate 511 0)) (hash_to_point 512 (replicate 40 5) [1, 2])"
proof -
  let ?cs = "[Import (encode_pkey 512 (replicate 512 7)) (replicate 1281 0)]"
  obtain s0 s where s: "FalconSignature_new 512 = Inr s0" "falcon_calls unit_ops ?cs s0 = Some s"
    "public_key s = encode_pkey 512 (replicate 512 7)"
    using demo_object by blast
  have "list_all (\<lambda>c. unat c < 2 ^ 14) (replicate 512 (7 :: ff_t))"
    by (simp add: list_all_iff)
  then have "decode_pkey 512 (encode_pkey 512 (replicate 512 7)) = Some (replicate 512 7)"
    using pkey_codec [of 512 "replicate 512 7"] by simp
  then have d: "decides 512 (public_key s) [1, 2] (replicate 40 5) (128 # replicate 511 0)
      = map_option (\<lambda>c. check_norm 512 34034726 (replicate 512 7) c (128 # replicate 511 0)) (hash_to_point 512 (replicate 40 5) [1, 2])"
    by (simp add: decides_def s(3) beta2_def)
  have p: "length (128 # replicate 511 (0 :: int)) = 512" "sig_encodable (compute_sig_len 512) (128 # replicate 511 0)"
    "length (replicate 40 (5 :: u8)) = 40" "length [1 :: u8, 2] \<le> 32"
    by (simp_all add: sig_encodable_def readable_def compressed_len_witness compute_sig_len_def)
  note v = falcon_sign_verify [OF s(1,2,2) p(4) refl, of "[]"]
  obtain sig where sig: "signature_of 512 (replicate 40 5) (128 # replicate 511 0) sig"
    using v p by blast
  then have "map_option fst (verify_signature [1, 2] sig s) = decides 512 (public_key s) [1, 2] (replicate 40 5) (128 # replicate 511 0)"
    using v p by blast
  then show ?thesis
    using s(1,2) d sig by metis
qed

theorem falcon_refuses_witness:
  "\<exists>s0. FalconSignature_new 1024 = Inr s0 \<and>
     map_option fst (sign_message unit_ops [3] [1, 2] s0) = Some (Inl (Runtime_error ''Signature generation failed''))
     \<and> map_option fst (verify_signature [1, 2] [9] s0) = Some (Inr False)"
proof -
  obtain s0 where s0: "FalconSignature_new 1024 = Inr s0"
    by (simp add: FalconSignature_new_def)
  then show ?thesis
    using falcon_refuses [OF s0, of unit_ops "[]" s0 "[1, 2]"] by simp
qed

end
