(* ===== verification/QZKP_Verifier.thy ===== *)
theory QZKP_Verifier
  imports QZKP_Generator
begin

text \<open>
  The stand-alone verifier of proofs and of entanglement (\<open>include/zkp/QZKPVerifier.hpp\<close>, \<open>src/zkp/QZKPVerifier.cpp\<close>), over the
  register and the proofs of the generator. Arithmetic on doubles is the parameter \<open>F\<close>; the clock is left out.
\<close>

section \<open>State\<close>

datatype VerificationResult = VALID | INVALID | INCONCLUSIVE

record 'd VerificationDetails =
  vd_result :: VerificationResult
  vd_message :: string
  confidence_score :: 'd
  measurements_match :: bool
  vd_fidelity :: 'd
  vd_phase_angles :: "'d list"
  total_measurements :: nat
  matching_measurements :: nat

definition VerificationDetails_new :: "('d, 'z) dops_scheme \<Rightarrow> 'd VerificationDetails" where
  "VerificationDetails_new F =
     \<lparr>vd_result = INCONCLUSIVE, vd_message = [], confidence_score = lit F ''0.0'', measurements_match = False,
      vd_fidelity = lit F ''0.0'', vd_phase_angles = [], total_measurements = 0, matching_measurements = 0\<rparr>"

record 'd QZKPVerifier =
  confidence_threshold :: 'd
  measurement_tolerance :: 'd
  fidelity_threshold :: 'd
  last_verification :: "'d VerificationDetails"

definition QZKPVerifier_new :: "('d, 'z) dops_scheme \<Rightarrow> 'd QZKPVerifier" where
  "QZKPVerifier_new F =
     \<lparr>confidence_threshold = lit F ''0.95'', measurement_tolerance = lit F ''0.1'', fidelity_threshold = lit F ''0.9'',
      last_verification = VerificationDetails_new F\<rparr>"

definition in_unit :: "('d, 'c, 'z) qops_scheme \<Rightarrow> 'd \<Rightarrow> bool" where
  "in_unit F x \<longleftrightarrow> fless F (lit F ''0.0'') x \<and> fge F (lit F ''1.0'') x"

definition set_confidence_threshold :: "('d, 'c, 'z) qops_scheme \<Rightarrow> 'd \<Rightarrow> 'd QZKPVerifier \<Rightarrow> 'd QZKPVerifier" where
  "set_confidence_threshold F t v = (if in_unit F t then v\<lparr>confidence_threshold := t\<rparr> else v)"

definition set_measurement_tolerance :: "('d, 'c, 'z) qops_scheme \<Rightarrow> 'd \<Rightarrow> 'd QZKPVerifier \<Rightarrow> 'd QZKPVerifier" where
  "set_measurement_tolerance F t v = (if in_unit F t then v\<lparr>measurement_tolerance := t\<rparr> else v)"

definition set_fidelity_threshold :: "('d, 'c, 'z) qops_scheme \<Rightarrow> 'd \<Rightarrow> 'd QZKPVerifier \<Rightarrow> 'd QZKPVerifier" where
  "set_fidelity_threshold F t v = (if in_unit F t then v\<lparr>fidelity_threshold := t\<rparr> else v)"

section \<open>Verification of proofs\<close>

definition verify_measurement_consistency :: "('d, 'c, 'z) qops_scheme \<Rightarrow> 'd QZKPVerifier \<Rightarrow> bool list \<Rightarrow> bool list \<Rightarrow> bool \<times> nat" where
  "verify_measurement_consistency F v proof_measurements state_measurements =
     (if length proof_measurements \<noteq> length state_measurements then (False, 0)
      else let matching_count = fold (\<lambda>i n. if proof_measurements ! i = state_measurements ! i then n + 1 else n)
                 [0..<length proof_measurements] 0;
               match_ratio = fdiv F (of_int_d F matching_count) (of_int_d F (length proof_measurements))
           in (fge F match_ratio (fsub F (lit F ''1.0'') (measurement_tolerance v)), matching_count))"

text \<open>The result is the score, the fidelity and the number of measurements that match.\<close>

definition calculate_confidence_score :: "('d, 'c, 'z) qops_scheme \<Rightarrow> 'd Proof \<Rightarrow> ('d, 'c) QuantumState \<Rightarrow> 'd \<times> 'd \<times> nat" where
  "calculate_confidence_score F proof state =
     (let total = length (proof_outcomes proof);
          (fidelity, matching) = fold (\<lambda>i (f, n). if proof_outcomes proof ! i = measurement_outcomes state ! i
              then (fadd F f (lit F ''1.0''), n + 1) else (f, n)) [0..<total] (lit F ''0.0'', 0);
          fidelity = fdiv F fidelity (of_int_d F total);
          phase_contribution = fold (\<lambda>angle c. fadd F c (fcos F angle)) (phase_angles proof) (lit F ''0.0'');
          phase_contribution = fdiv F phase_contribution (of_int_d F (length (phase_angles proof)));
          measurement_confidence = fdiv F (of_int_d F matching) (of_int_d F total);
          confidence = fdiv F (fadd F (fadd F fidelity phase_contribution) measurement_confidence) (lit F ''3.0'')
      in (confidence, fidelity, matching))"

definition verifier_verify_proof :: "('d, 'c, 'z) qops_scheme \<Rightarrow> ('d, 'c) QuantumState \<Rightarrow> 'd Proof \<Rightarrow> 'd QZKPVerifier \<Rightarrow>
    'd VerificationDetails \<times> 'd QZKPVerifier" where
  "verifier_verify_proof F claimed_state proof v =
     (let details = (VerificationDetails_new F)\<lparr>vd_phase_angles := phase_angles proof\<rparr>;
          (match, matching_count) = verify_measurement_consistency F v (proof_outcomes proof) (measurement_outcomes claimed_state);
          details = details\<lparr>measurements_match := match\<rparr>
      in if \<not> match then
           let details = details\<lparr>vd_result := INVALID, vd_message := ''Measurement outcomes do not match'',
                 confidence_score := lit F ''0.0'', vd_fidelity := lit F ''0.0'',
                 total_measurements := length (proof_outcomes proof), matching_measurements := matching_count\<rparr>
           in (details, v\<lparr>last_verification := details\<rparr>)
         else
           let (confidence, fidelity, matching) = calculate_confidence_score F proof claimed_state;
               details = details\<lparr>confidence_score := confidence, vd_fidelity := fidelity,
                 total_measurements := length (proof_outcomes proof), matching_measurements := matching\<rparr>
           in if fless F confidence (confidence_threshold v) then
                let details = details\<lparr>vd_result := INCONCLUSIVE, vd_message := ''Confidence score too low''\<rparr>
                in (details, v\<lparr>last_verification := details\<rparr>)
              else
                let details = details\<lparr>vd_result := VALID, vd_message := ''Proof verified successfully''\<rparr>
                in (details, v\<lparr>last_verification := details\<rparr>))"

section \<open>Verification of entanglement\<close>

text \<open>\<open>static_cast<size_t>(std::sqrt(rows))\<close> for the numbers of rows a register can have, below \<open>2 ^ 31\<close>.\<close>

definition isqrt :: "nat \<Rightarrow> nat" where
  "isqrt n = length (filter (\<lambda>k. k * k \<le> n) [1..<n + 1])"

text \<open>The matrix of the proof is not read.\<close>

record ('d, 'c) EntanglementProof =
  ep_matrix :: "'c list list"
  ep_fidelity :: 'd

definition calculate_entanglement_fidelity :: "('d, 'c, 'z) qops_scheme \<Rightarrow> ('d, 'c) QuantumState \<Rightarrow> ('d, 'c) EntanglementProof \<Rightarrow> 'd" where
  "calculate_entanglement_fidelity F state proof =
     (let m = entanglement state; dim = isqrt (length m);
          trace_fidelity = fold (\<lambda>i t. fold (\<lambda>j t. fadd F t (cnorm F (m ! i ! j))) [0..<dim] t) [0..<dim] (lit F ''0.0'')
      in fdiv F trace_fidelity (of_int_d F (dim * dim)))"

definition verify_entanglement :: "('d, 'c, 'z) qops_scheme \<Rightarrow> ('d, 'c) QuantumState \<Rightarrow> ('d, 'c) EntanglementProof \<Rightarrow>
    'd QZKPVerifier \<Rightarrow> 'd VerificationDetails \<times> 'd QZKPVerifier" where
  "verify_entanglement F state proof v =
     (let fidelity = calculate_entanglement_fidelity F state proof;
          details = (VerificationDetails_new F)\<lparr>vd_fidelity := fidelity\<rparr>;
          details = (if fless F fidelity (fidelity_threshold v)
            then details\<lparr>vd_result := INVALID, vd_message := ''Insufficient entanglement fidelity'', confidence_score := fidelity\<rparr>
            else details\<lparr>vd_result := VALID, vd_message := ''Entanglement verified successfully'', confidence_score := fidelity\<rparr>)
      in (details, v\<lparr>last_verification := details\<rparr>))"

section \<open>What a verdict depends on\<close>

text \<open>The matching outcomes, as a set.\<close>

definition agreeing :: "bool list \<Rightarrow> bool list \<Rightarrow> nat set" where
  "agreeing xs ys = {i. i < length xs \<and> xs ! i = ys ! i}"

lemma fold_count: "fold (\<lambda>i n. if P i then n + 1 else n) [0..<k] (a :: nat) = a + card {i. i < k \<and> P i}"
proof (induction k)
  case (Suc k)
  have "{i. i < Suc k \<and> P i} = (if P k then insert k {i. i < k \<and> P i} else {i. i < k \<and> P i})"
    by (auto simp: less_Suc_eq)
  then show ?case
    by (simp add: Suc.IH)
qed simp

lemma fold_pair: "fold (\<lambda>i (f, n). if P i then (g f, n + 1) else (f, n)) is (f0, n0)
    = (fold (\<lambda>i f. if P i then g f else f) is f0, fold (\<lambda>i n. if P i then n + 1 else n) is (n0 :: nat))"
  by (induction "is" arbitrary: f0 n0) auto

lemma verify_measurement_consistency_eq:
  "verify_measurement_consistency F v xs ys =
     (if length xs \<noteq> length ys then (False, 0)
      else (fge F (fdiv F (of_int_d F (card (agreeing xs ys))) (of_int_d F (length xs))) (fsub F (lit F ''1.0'') (measurement_tolerance v)),
            card (agreeing xs ys)))"
  by (simp add: verify_measurement_consistency_def agreeing_def fold_count Let_def)

lemma calculate_confidence_score_matching:
  "snd (snd (calculate_confidence_score F p s)) = card (agreeing (proof_outcomes p) (measurement_outcomes s))"
  by (simp add: calculate_confidence_score_def Let_def fold_pair fold_count agreeing_def)

lemma card_agreeing_le: "card (agreeing xs ys) \<le> length xs"
proof -
  have "agreeing xs ys \<subseteq> {..<length xs}"
    by (auto simp: agreeing_def)
  then show ?thesis
    using card_mono [of "{..<length xs}"] by simp
qed

text \<open>
  The verdict on a proof: it is INVALID exactly when the outcomes of the proof and of the claimed state differ in number or too
  few of them agree, INCONCLUSIVE when the score falls short of the threshold, VALID otherwise; in every case the details count the
  outcomes that agree, at most all of them, are kept as the last verification and change no threshold. The data of the proof, the
  qubits it claims to have measured and its validity flag have no part in it.
\<close>

theorem verifier_verdict:
  "let xs = proof_outcomes p; ys = measurement_outcomes s; (details, v') = verifier_verify_proof F s p v;
       enough = length xs = length ys \<and> fge F (fdiv F (of_int_d F (card (agreeing xs ys))) (of_int_d F (length xs)))
         (fsub F (lit F ''1.0'') (measurement_tolerance v));
       low = fless F (fst (calculate_confidence_score F p s)) (confidence_threshold v)
   in vd_result details = (if \<not> enough then INVALID else if low then INCONCLUSIVE else VALID)
    \<and> measurements_match details = enough
    \<and> total_measurements details = length xs
    \<and> matching_measurements details = (if length xs = length ys then card (agreeing xs ys) else 0)
    \<and> matching_measurements details \<le> total_measurements details
    \<and> v' = v\<lparr>last_verification := details\<rparr>"
  using calculate_confidence_score_matching [of F p s] card_agreeing_le [of "proof_outcomes p" "measurement_outcomes s"]
  by (cases "calculate_confidence_score F p s")
     (simp add: verifier_verify_proof_def verify_measurement_consistency_eq Let_def split_beta)

section \<open>Generated proofs\<close>

lemma measurement_outcomes_phases:
  "apply_phases F i ps s = Inr s' \<Longrightarrow> measurement_outcomes s' = measurement_outcomes s"
proof (induction ps arbitrary: i s)
  case (Cons p ps)
  then show ?case
    by (auto simp: apply_phase_def apply_single_qubit_gate_def Let_def split: sum.splits if_splits)
qed simp

lemma measurement_outcomes_measured:
  "apply_measurements F draw i qs s = Inr s' \<Longrightarrow> length (measurement_outcomes s') = length (measurement_outcomes s) + length qs"
proof (induction qs arbitrary: i s)
  case (Cons q qs)
  then show ?case
    by (fastforce simp: apply_measurement_def Let_def split: sum.splits if_splits)
qed simp

lemma generate_proof_outcomes:
  assumes "generate_proof F now meas phase draw gen s = Inr p"
  shows "length (proof_outcomes p) = length (measurement_outcomes s) + optimal_measurement_qubits gen"
  using assms measurement_outcomes_phases [of F 0] measurement_outcomes_measured [of F draw 0]
  by (fastforce simp: generate_proof_def apply_random_transformations_def generate_random_measurements_def Let_def Proof_default_def
      split: sum.splits)

text \<open>
  The generator and the verifier do not fit: a proof that a generator makes of a state, with whatever parameters were set that
  it accepts, is INVALID for that very state, because the outcomes of the proof include those of the generator's own measurements,
  which were made on a copy.
\<close>

theorem generated_proof_invalid:
  assumes "generate_proof F now meas phase draw (fold (\<lambda>(angles, qubits). update_optimal_parameters angles qubits) params
      (QZKPGenerator_new F)) s = Inr p"
  shows "vd_result (fst (verifier_verify_proof F s p v)) = INVALID"
proof -
  have "optimal_measurement_qubits (fold (\<lambda>(angles, qubits). update_optimal_parameters angles qubits) params g) > 0"
    if "optimal_measurement_qubits g > 0" for g :: "'a QZKPGenerator"
    using that by (induction params arbitrary: g) (auto simp: update_optimal_parameters_def)
  then have "length (proof_outcomes p) \<noteq> length (measurement_outcomes s)"
    using generate_proof_outcomes [OF assms] by (simp add: QZKPGenerator_new_def)
  then show ?thesis
    by (simp add: verifier_verify_proof_def verify_measurement_consistency_eq Let_def)
qed

theorem generated_proof_invalid_witness:
  "\<exists>p. generate_proof int_ops 0 (\<lambda>i. 0) (\<lambda>i. 0) (\<lambda>i. 0) (update_optimal_parameters [0, 0] 1 (QZKPGenerator_new int_ops))
        (demo_register [1, 2, 3, 4]) = Inr p
     \<and> vd_result (fst (verifier_verify_proof int_ops (demo_register [1, 2, 3, 4]) p (QZKPVerifier_new int_ops))) = INVALID"
proof -
  let ?r = "generate_proof int_ops 0 (\<lambda>i. 0) (\<lambda>i. 0) (\<lambda>i. 0) (update_optimal_parameters [0, 0] 1 (QZKPGenerator_new int_ops))
        (demo_register [1, 2, 3, 4])"
  have "case ?r of Inr _ \<Rightarrow> True | Inl _ \<Rightarrow> False"
    by code_simp
  then obtain p where "?r = Inr p"
    by (auto split: sum.splits)
  then show ?thesis
    using generated_proof_invalid [of int_ops 0 _ _ _ "[([0, 0], 1)]"] by simp
qed

text \<open>The thresholds stay in the range that the setters accept.\<close>

lemma thresholds_in_unit:
  assumes "in_unit F (confidence_threshold v)" and "in_unit F (measurement_tolerance v)" and "in_unit F (fidelity_threshold v)"
    and "v' \<in> {set_confidence_threshold F t v, set_measurement_tolerance F t v, set_fidelity_threshold F t v,
           snd (verifier_verify_proof F s p v), snd (verify_entanglement F s e v)}"
  shows "in_unit F (confidence_threshold v') \<and> in_unit F (measurement_tolerance v') \<and> in_unit F (fidelity_threshold v')"
  using assms by (auto simp: set_confidence_threshold_def set_measurement_tolerance_def set_fidelity_threshold_def
      verifier_verify_proof_def verify_entanglement_def Let_def split: prod.splits)

end
