(* ===== verification/Rollup_Agent.thy ===== *)
theory Rollup_Agent
  imports QZKP_Generator
begin

text \<open>
  The reinforcement-learning agent of the rollup (\<open>include/rollup/AIRollupAgent.hpp\<close>, \<open>src/rollup/AIRollupAgent.cpp\<close>): it
  chooses parameters from the metrics it was given last, and keeps the ones that paid in the proof generator that it shares with
  its children. Arithmetic on doubles is the parameter \<open>F\<close>; \<open>to_size\<close> is the conversion of a double to \<open>size_t\<close>, \<open>None\<close> where
  the value does not fit, which is undefined.
\<close>

section \<open>Definitions\<close>

datatype RollupConsensusType = QUANTUM_ZKP | HYBRID_QUANTUM_POS | QUANTUM_PBFT | QUANTUM_DAG

text \<open>The metrics that the agent reads.\<close>

record 'd AgentMetrics =
  am_tx_throughput :: 'd
  am_success_rate :: 'd
  am_verification_time :: 'd
  am_active_validators :: u32
  am_failed_proofs :: u32
  am_quantum_energy_usage :: 'd
  am_network_bandwidth :: 'd

definition AgentMetrics_new :: "('d, 'z) dops_scheme \<Rightarrow> 'd AgentMetrics" where
  "AgentMetrics_new F =
     \<lparr>am_tx_throughput = lit F ''0.0'', am_success_rate = lit F ''0.0'', am_verification_time = lit F ''0.0'',
      am_active_validators = 0, am_failed_proofs = 0, am_quantum_energy_usage = lit F ''0.0'', am_network_bandwidth = lit F ''0.0''\<rparr>"

record 'd AgentState =
  as_metrics :: "'d AgentMetrics"
  as_phase_angles :: "'d list"
  as_measurement_qubits :: nat
  as_security_threshold :: 'd

text \<open>The generator is shared: operations take it and return it.\<close>

definition RLRollupAgent_new :: "('d, 'z) dops_scheme \<Rightarrow> 'd AgentState" where
  "RLRollupAgent_new F =
     \<lparr>as_metrics = AgentMetrics_new F,
      as_phase_angles = [lit F ''0.1'', lit F ''0.2'', lit F ''0.3'', lit F ''0.4'', lit F ''0.5''],
      as_measurement_qubits = 9, as_security_threshold = lit F ''0.75''\<rparr>"

definition analyzeRollupMetrics :: "'d AgentMetrics \<Rightarrow> 'd AgentState \<Rightarrow> 'd AgentState" where
  "analyzeRollupMetrics m a = a\<lparr>as_metrics := m\<rparr>"

definition optimizeQuantumParameters :: "'d AgentState \<Rightarrow> 'd AgentState" where
  "optimizeQuantumParameters a = a"

definition selectConsensusAlgorithm :: "('d, 'z) dops_scheme \<Rightarrow> 'd AgentState \<Rightarrow> RollupConsensusType" where
  "selectConsensusAlgorithm F a =
     (let m = as_metrics a in
      if fless F (lit F ''2000'') (am_tx_throughput m) then QUANTUM_DAG
      else if fless F (lit F ''0.98'') (am_success_rate m) \<or> am_failed_proofs m < 5 then QUANTUM_ZKP
      else if fless F (lit F ''150'') (am_network_bandwidth m) then QUANTUM_DAG
      else QUANTUM_ZKP)"

definition optimizePhaseAngles :: "('d, 'z) dops_scheme \<Rightarrow> 'd AgentState \<Rightarrow> 'd list" where
  "optimizePhaseAngles F a =
     (let m = as_metrics a; M_PI = lit F ''3.14159265358979323846'' in
      (if fless F (lit F ''0.9'') (am_success_rate m) then [fdiv F M_PI (lit F ''4'')] else []) @
      (if fless F (lit F ''1000'') (am_tx_throughput m) then [fdiv F M_PI (lit F ''3'')] else []) @
      (if fless F (am_verification_time m) (lit F ''0.5'') then [fdiv F M_PI (lit F ''6'')] else []))"

definition predictOptimalMeasurementQubits :: "('d, 'z) dops_scheme \<Rightarrow> ('d \<Rightarrow> nat option) \<Rightarrow> 'd AgentState \<Rightarrow> nat res" where
  "predictOptimalMeasurementQubits F to_size a =
     (case to_size (flog2 F (am_tx_throughput (as_metrics a))) of
        None \<Rightarrow> Inl (Undefined ''conversion of a double out of range'')
      | Some base_qubits \<Rightarrow> Inr (max 5 (min base_qubits 15)))"

definition calculateSecurityThreshold :: "('d, 'z) dops_scheme \<Rightarrow> 'd AgentState \<Rightarrow> 'd" where
  "calculateSecurityThreshold F a =
     (let m = as_metrics a; threshold = lit F ''0.75'';
          threshold = (if fless F (lit F ''1000000'') (am_tx_throughput m) then fadd F threshold (lit F ''0.1'') else threshold)
      in if am_active_validators m > 10 then fadd F threshold (lit F ''0.05'') else threshold)"

definition shouldSpawnChildRollup :: "('d, 'z) dops_scheme \<Rightarrow> 'd AgentState \<Rightarrow> bool" where
  "shouldSpawnChildRollup F a \<longleftrightarrow>
     fless F (lit F ''1000000'') (am_tx_throughput (as_metrics a)) \<or> fless F (lit F ''1.0'') (am_verification_time (as_metrics a))"

definition createChildAgent :: "('d, 'z) dops_scheme \<Rightarrow> 'd AgentState \<Rightarrow> 'd AgentState" where
  "createChildAgent F a = RLRollupAgent_new F"

definition calculateReward :: "('d, 'z) dops_scheme \<Rightarrow> 'd AgentState \<Rightarrow> 'd AgentState \<Rightarrow> 'd" where
  "calculateReward F prev new =
     (let p = as_metrics prev; n = as_metrics new;
          throughput_reward = fdiv F (fsub F (am_tx_throughput n) (am_tx_throughput p)) (lit F ''1e6'');
          time_reward = fsub F (am_verification_time p) (am_verification_time n);
          energy_reward = fdiv F (fsub F (am_quantum_energy_usage p) (am_quantum_energy_usage n)) (lit F ''100.0'')
      in fadd F (fadd F (fmul F throughput_reward (lit F ''0.4'')) (fmul F time_reward (lit F ''0.4'')))
           (fmul F energy_reward (lit F ''0.2'')))"

definition updatePolicy :: "('d, 'z) dops_scheme \<Rightarrow> 'd \<Rightarrow> 'd AgentState \<times> 'd QZKPGenerator \<Rightarrow> 'd AgentState \<times> 'd QZKPGenerator" where
  "updatePolicy F reward = (\<lambda>(a, gen).
     if fless F (lit F ''0'') reward
     then (a, update_optimal_parameters (as_phase_angles a) (as_measurement_qubits a) gen)
     else (a\<lparr>as_phase_angles := optimal_phase_angles gen, as_measurement_qubits := optimal_measurement_qubits gen\<rparr>, gen))"

section \<open>Policies\<close>

text \<open>What an agent can do to itself and the generator; other holders of the generator may set its parameters too.\<close>

inductive agent_reachable :: "('d, 'z) dops_scheme \<Rightarrow> 'd AgentState \<times> 'd QZKPGenerator \<Rightarrow> bool" for F where
  new: "agent_reachable F (RLRollupAgent_new F, QZKPGenerator_new F)"
| metrics: "agent_reachable F (a, gen) \<Longrightarrow> agent_reachable F (analyzeRollupMetrics m a, gen)"
| policy: "agent_reachable F (a, gen) \<Longrightarrow> agent_reachable F (updatePolicy F reward (a, gen))"
| child: "agent_reachable F (a, gen) \<Longrightarrow> agent_reachable F (createChildAgent F a, gen)"
| other: "agent_reachable F (a, gen) \<Longrightarrow> agent_reachable F (a, update_optimal_parameters angles qubits gen)"

definition params_usable :: "'d AgentState \<times> 'd QZKPGenerator \<Rightarrow> bool" where
  "params_usable = (\<lambda>(a, gen). as_phase_angles a \<noteq> [] \<and> as_measurement_qubits a > 0
     \<and> optimal_phase_angles gen \<noteq> [] \<and> optimal_measurement_qubits gen > 0)"

lemma agent_reachable_usable: "agent_reachable F s \<Longrightarrow> params_usable s"
  by (induction rule: agent_reachable.induct)
     (auto simp: params_usable_def RLRollupAgent_new_def QZKPGenerator_new_def DEFAULT_PHASE_ANGLES_def Let_def analyzeRollupMetrics_def
       updatePolicy_def createChildAgent_def update_optimal_parameters_def)

text \<open>
  In every reachable state the parameters of the agent and of the generator are usable, at least one angle and one qubit; a
  positive reward then makes the generator's parameters those of the agent, any other reward makes the agent's those of the
  generator, so that after either the two agree, and a reward that is not positive undoes nothing else.
\<close>

theorem policy_agrees:
  assumes "agent_reachable F (a, gen)" and "updatePolicy F reward (a, gen) = (a', gen')"
  shows "as_phase_angles a' = optimal_phase_angles gen' \<and> as_measurement_qubits a' = optimal_measurement_qubits gen'
    \<and> as_phase_angles a' \<noteq> [] \<and> as_measurement_qubits a' > 0 \<and> as_metrics a' = as_metrics a
    \<and> (if fless F (lit F ''0'') reward then a' = a else gen' = gen)"
  using agent_reachable_usable [OF assms(1)] assms(2)
  by (auto simp: params_usable_def updatePolicy_def update_optimal_parameters_def split: if_splits)

theorem policy_agrees_witness:
  "let (a', gen') = updatePolicy int_ops 1 (RLRollupAgent_new int_ops, QZKPGenerator_new int_ops)
   in as_measurement_qubits a' = optimal_measurement_qubits gen' \<and> as_measurement_qubits a' > 0"
proof -
  obtain a' gen' where u: "updatePolicy int_ops 1 (RLRollupAgent_new int_ops, QZKPGenerator_new int_ops) = (a', gen')"
    by fastforce
  show ?thesis
    using policy_agrees [OF agent_reachable.new u] u by simp
qed

text \<open>The bounds of what the agent proposes.\<close>

lemma agent_proposals_bounded:
  "selectConsensusAlgorithm F a \<in> {QUANTUM_ZKP, QUANTUM_DAG}"
  "length (optimizePhaseAngles F a) \<le> 3"
  "predictOptimalMeasurementQubits F to_size a = Inr n \<Longrightarrow> 5 \<le> n \<and> n \<le> 15"
  by (auto simp: selectConsensusAlgorithm_def optimizePhaseAngles_def predictOptimalMeasurementQubits_def Let_def split: option.splits)

end
