(* ===== verification/Quantum_Crypto.thy ===== *)
theory Quantum_Crypto
  imports Falcon_Signature Quantum_State
begin

unbundle bit_operations_syntax

text \<open>
  The cryptographic operations over Falcon signatures and keys with a register of qubits (\<open>include/quantum/QuantumCrypto.hpp\<close>,
  \<open>src/quantum/QuantumCrypto.cpp\<close>). The bytes and amplitudes that the random generators draw are arguments. The proof that goes
  with a quantum signature is a placeholder in the code, empty and with the constant score \<open>0.95\<close>.
\<close>

section \<open>Keys and parameters\<close>

datatype SignatureScheme = FALCON512 | FALCON1024 | SPHINCS_SHA2_128F | MLDSA44

record 'd QuantumEncryptionParams =
  qp_key_size :: nat
  qp_noise_threshold :: 'd
  qp_security_parameter :: nat

record ('d, 'c) QuantumKey =
  key_material :: bytes
  entangled_state :: "('d, 'c) QuantumState"
  security_parameter :: 'd
  effective_length :: nat

definition MIN_KEY_SIZE :: nat where
  "MIN_KEY_SIZE = 256"

definition validateParameters :: "'d QuantumEncryptionParams \<Rightarrow> bool" where
  "validateParameters params \<longleftrightarrow> qp_key_size params \<ge> MIN_KEY_SIZE \<and> qp_security_parameter params > 0"

definition QuantumCrypto_new :: "'d QuantumEncryptionParams \<Rightarrow> 'd QuantumEncryptionParams res" where
  "QuantumCrypto_new params =
     (if \<not> validateParameters params then Inl (Invalid_argument ''Invalid quantum encryption parameters'') else Inr params)"

definition createSignatureScheme :: "SignatureScheme \<Rightarrow> FalconSignature res" where
  "createSignatureScheme scheme =
     (case scheme of
        FALCON512 \<Rightarrow> FalconSignature_new 512
      | FALCON1024 \<Rightarrow> FalconSignature_new 1024
      | _ \<Rightarrow> Inl (Invalid_argument ''Unsupported signature scheme''))"

text \<open>The register is first made with one qubit for every bit of the key, then replaced by one made of \<open>key_length\<close> amplitudes.\<close>

definition generateQuantumKey :: "('d, 'c, 'z) qops_scheme \<Rightarrow> (nat \<Rightarrow> u8) \<Rightarrow> (nat \<Rightarrow> 'd \<times> 'd) \<Rightarrow> nat \<Rightarrow> 'd QuantumEncryptionParams \<Rightarrow>
    ('d, 'c) QuantumKey res" where
  "generateQuantumKey F dist state_dist key_length params =
     (if key_length < MIN_KEY_SIZE then Inl (Invalid_argument ''Key length must be at least 256 bits'')
      else case QuantumState_new F key_length of Inl e \<Rightarrow> Inl e
      | Inr _ \<Rightarrow>
          (case QuantumState_of_vector F (vnormalize F (map (\<lambda>i. cplx F (fst (state_dist i)) (snd (state_dist i))) [0..<key_length])) of
             Inl e \<Rightarrow> Inl e
           | Inr s \<Rightarrow> Inr \<lparr>key_material = map dist [0..<key_length div 8], entangled_state = s,
                security_parameter = of_int_d F (qp_security_parameter params), effective_length = key_length\<rparr>))"

definition distributeKey :: "string \<Rightarrow> ('d, 'c) QuantumKey \<Rightarrow> bool" where
  "distributeKey recipient_id key \<longleftrightarrow> key_material key \<noteq> [] \<and> recipient_id \<noteq> []"

definition validateKeyMaterial :: "('d, 'c, 'z) qops_scheme \<Rightarrow> ('d, 'c) QuantumKey \<Rightarrow> bool" where
  "validateKeyMaterial F key \<longleftrightarrow> key_material key \<noteq> [] \<and> fless F (lit F ''0.0'') (security_parameter key)"

section \<open>Encryption\<close>

definition xor_key :: "bytes \<Rightarrow> bytes \<Rightarrow> bytes" where
  "xor_key key data = map (\<lambda>i. data ! i XOR key ! (i mod length key)) [0..<length data]"

definition encryptQuantum :: "bytes \<Rightarrow> ('d, 'c) QuantumKey \<Rightarrow> bytes res" where
  "encryptQuantum plaintext key =
     (if plaintext = [] \<or> key_material key = [] then Inl (Invalid_argument ''Invalid input for quantum encryption'')
      else Inr (xor_key (key_material key) plaintext))"

definition decryptQuantum :: "bytes \<Rightarrow> ('d, 'c) QuantumKey \<Rightarrow> bytes res" where
  "decryptQuantum ciphertext key =
     (if ciphertext = [] \<or> key_material key = [] then Inl (Invalid_argument ''Invalid input for quantum decryption'')
      else Inr (xor_key (key_material key) ciphertext))"

section \<open>Signatures\<close>

definition generateKeypair :: "('d, 'c, 'z) fops_scheme \<Rightarrow> bytes \<Rightarrow> SignatureScheme \<Rightarrow> (bytes \<times> bytes) res option" where
  "generateKeypair R seed scheme =
     (case createSignatureScheme scheme of Inl e \<Rightarrow> Some (Inl e)
      | Inr signer \<Rightarrow> map_option (\<lambda>r. case r of Inl e \<Rightarrow> Inl e | Inr (keys, _) \<Rightarrow> Inr keys) (generate_key_pair R seed signer))"

text \<open>Signer and verifier are told from the length of the key; the other key of the pair is all zeros.\<close>

definition crypto_sign :: "('d, 'c, 'z) fops_scheme \<Rightarrow> bytes \<Rightarrow> bytes \<Rightarrow> bytes \<Rightarrow> bytes res option" where
  "crypto_sign R seed msg private_key =
     (let scheme = if length private_key \<le> 1281 then FALCON512 else FALCON1024
      in case createSignatureScheme scheme of Inl e \<Rightarrow> Some (Inl e)
         | Inr signer \<Rightarrow>
             (case import_key_pair (replicate (pklen signer) 0) private_key signer of
                (Inl e, _) \<Rightarrow> Some (Inl e)
              | (Inr _, signer) \<Rightarrow> map_option fst (sign_message R seed msg signer)))"

definition crypto_verify :: "bytes \<Rightarrow> bytes \<Rightarrow> bytes \<Rightarrow> bool res option" where
  "crypto_verify msg sig public_key_bytes =
     (let scheme = if length public_key_bytes \<le> 897 then FALCON512 else FALCON1024
      in case createSignatureScheme scheme of Inl e \<Rightarrow> Some (Inl e)
         | Inr signer \<Rightarrow>
             (case import_key_pair public_key_bytes (replicate (sklen signer) 0) signer of
                (Inl e, _) \<Rightarrow> Some (Inl e)
              | (Inr _, signer) \<Rightarrow> map_option fst (verify_signature msg sig signer)))"

text \<open>
  The signature part of \<open>signQuantum\<close>. The cache of key states that it consults is never filled, so that the first branch, which
  differs in the score only, is never taken.
\<close>

definition signQuantum :: "('d, 'c, 'z) fops_scheme \<Rightarrow> bytes \<Rightarrow> bytes \<Rightarrow> ('d, 'c) QuantumKey \<Rightarrow> bytes res option" where
  "signQuantum R seed msg signing_key = crypto_sign R seed msg (key_material signing_key)"

definition verifySignatureProof :: "('d, 'c, 'z) qops_scheme \<Rightarrow> 'd" where
  "verifySignatureProof F = lit F ''0.95''"

definition verifyQuantumSignature :: "('d, 'c, 'z) qops_scheme \<Rightarrow> 'd QuantumEncryptionParams \<Rightarrow> bytes \<Rightarrow> bytes \<Rightarrow>
    ('d, 'c) QuantumKey \<Rightarrow> bool res option" where
  "verifyQuantumSignature F params msg sig verification_key =
     map_option (\<lambda>r. case r of Inl e \<Rightarrow> Inl e
      | Inr ok \<Rightarrow>
          if \<not> ok then Inr False
          else if fless F (verifySignatureProof F) (qp_noise_threshold params) then Inr False
          else case decryptQuantum sig verification_key of Inl e \<Rightarrow> Inl e
               | Inr recovered \<Rightarrow> Inr (recovered = msg)) (crypto_verify msg sig (key_material verification_key))"

section \<open>Properties\<close>

lemma scheme_of_falcon:
  assumes "N \<in> {512, 1024}"
  shows "\<exists>s. createSignatureScheme (if N = 512 then FALCON512 else FALCON1024) = Inr s \<and> FalconSignature_new N = Inr s \<and> buffers_ok s
     \<and> fs_N s = N \<and> pklen s = compute_pkey_len N \<and> sklen s = compute_skey_len N"
  using assms by (auto simp: createSignatureScheme_def FalconSignature_new_def buffers_ok_def)

lemma key_lengths:
  "compute_pkey_len 512 = 897" "compute_pkey_len 1024 = 1793" "compute_skey_len 512 = 1281" "compute_skey_len 1024 = 2305"
  by (simp_all add: compute_pkey_len_def compute_skey_len_def)

text \<open>The scheme that the length of a key stands for, and what the signer then does.\<close>

lemma crypto_sign_eq:
  assumes "N \<in> {512, 1024}" and "length sk = compute_skey_len N"
  obtains s where "buffers_ok s" "fs_N s = N" "secret_key s = sk" "crypto_sign R seed m sk = map_option fst (sign_message R seed m s)"
proof -
  obtain t where t: "createSignatureScheme (if N = 512 then FALCON512 else FALCON1024) = Inr t" "buffers_ok t" "fs_N t = N"
      "pklen t = compute_pkey_len N" "sklen t = compute_skey_len N"
    using scheme_of_falcon [OF assms(1)] by blast
  have imp: "import_key_pair (replicate (pklen t) 0) sk t = (Inr True, t\<lparr>public_key := replicate (pklen t) 0, secret_key := sk\<rparr>)"
    using t assms(2) by (simp add: import_key_pair_def buffers_ok_def memcpy_all)
  have scheme: "(if length sk \<le> 1281 then FALCON512 else FALCON1024) = (if N = 512 then FALCON512 else FALCON1024)"
    using assms by (auto simp: key_lengths)
  have "crypto_sign R seed m sk = map_option fst (sign_message R seed m (t\<lparr>public_key := replicate (pklen t) 0, secret_key := sk\<rparr>))"
    unfolding crypto_sign_def Let_def scheme t(1) by (simp add: imp)
  then show thesis
    using that [of "t\<lparr>public_key := replicate (pklen t) 0, secret_key := sk\<rparr>"] t assms(2) by (simp add: buffers_ok_def)
qed

lemma crypto_verify_eq:
  assumes "N \<in> {512, 1024}" and "length pk = compute_pkey_len N"
  obtains s where "buffers_ok s" "fs_N s = N" "public_key s = pk" "crypto_verify m sig pk = map_option fst (verify_signature m sig s)"
proof -
  obtain t where t: "createSignatureScheme (if N = 512 then FALCON512 else FALCON1024) = Inr t" "buffers_ok t" "fs_N t = N"
      "pklen t = compute_pkey_len N" "sklen t = compute_skey_len N"
    using scheme_of_falcon [OF assms(1)] by blast
  have imp: "import_key_pair pk (replicate (sklen t) 0) t = (Inr True, t\<lparr>public_key := pk, secret_key := replicate (sklen t) 0\<rparr>)"
    using t assms(2) by (simp add: import_key_pair_def buffers_ok_def memcpy_all)
  have scheme: "(if length pk \<le> 897 then FALCON512 else FALCON1024) = (if N = 512 then FALCON512 else FALCON1024)"
    using assms by (auto simp: key_lengths)
  have "crypto_verify m sig pk = map_option fst (verify_signature m sig (t\<lparr>public_key := pk, secret_key := replicate (sklen t) 0\<rparr>))"
    unfolding crypto_verify_def Let_def scheme t(1) by (simp add: imp)
  then show thesis
    using that [of "t\<lparr>public_key := pk, secret_key := replicate (sklen t) 0\<rparr>"] t assms(2) by (simp add: buffers_ok_def)
qed

text \<open>
  The parameter set is found again from the lengths of the keys: keys made for either Falcon parameter set satisfy the key equation,
  and what is signed with the secret key is decided, under the public key, by the norm check for the signed polynomial.
\<close>

lemma crypto_generate:
  assumes "scheme \<in> {FALCON512, FALCON1024}" "generateKeypair R seed scheme = Some (Inr (pk, sk))"
  shows "let N = if scheme = FALCON512 then 512 else 1024 in
    falcon_keygen R N seed = Some (Inr (pk, sk)) \<and> length pk = compute_pkey_len N \<and> length sk = compute_skey_len N"
proof -
  define N :: nat where "N = (if scheme = FALCON512 then 512 else 1024)"
  have N: "N \<in> {512, 1024}" "scheme = (if N = 512 then FALCON512 else FALCON1024)"
    using assms(1) by (auto simp: N_def)
  obtain t where t: "createSignatureScheme scheme = Inr t" "buffers_ok t" "fs_N t = N"
    using scheme_of_falcon [OF N(1)] N(2) by auto
  then have "falcon_keygen R N seed = Some (Inr (pk, sk))"
    using assms(2) generate_key_pair_eq [OF t(2), of R seed] by (auto simp: generateKeypair_def split: option.splits sum.splits)
  then show ?thesis
    using falcon_keygen_length [of R N seed] N(1) by (simp add: Let_def flip: N_def)
qed

theorem crypto_sign_verify:
  assumes "N \<in> {512, 1024}" "length sk = compute_skey_len N" "length pk = compute_pkey_len N" "length m \<le> 32"
    and sign: "crypto_sign R seed m sk = Some (Inr sig)"
  shows "\<exists>s2. signature_of N (fst (prng_read 40 (prng_new seed))) s2 sig \<and> (sig_encodable (compute_sig_len N) s2 \<longrightarrow>
    crypto_verify m sig pk = decides N pk m (fst (prng_read 40 (prng_new seed))) s2)"
proof -
  obtain s where s: "buffers_ok s" "fs_N s = N" "crypto_sign R seed m sk = map_option fst (sign_message R seed m s)"
    using crypto_sign_eq [OF assms(1,2)] by metis
  obtain v where v: "buffers_ok v" "fs_N v = N" "public_key v = pk" "crypto_verify m sig pk = map_option fst (verify_signature m sig v)"
    using crypto_verify_eq [OF assms(1,3)] by metis
  obtain t where t: "sign_message R seed m s = Some (Inr sig, t)"
    using sign s(3) by (auto simp: map_option_case split: option.splits)
  show ?thesis
    using sign_message_signature [OF s(1) t] verify_decides [OF v(1) assms(4) length_prng_read] s(2) v(2-4) by metis
qed

text \<open>Decryption undoes encryption, and encryption keeps the length.\<close>

lemma xor_key_inverse: "xor_key key (xor_key key data) = data"
  by (rule nth_equalityI) (simp_all add: xor_key_def xor.assoc)

theorem encrypt_decrypt:
  assumes "data \<noteq> []" and "key_material key \<noteq> []"
  shows "\<exists>c. encryptQuantum data key = Inr c \<and> length c = length data \<and> decryptQuantum c key = Inr data"
proof -
  have "xor_key (key_material key) data \<noteq> []"
    using assms(1) by (simp add: xor_key_def)
  then show ?thesis
    using assms by (simp add: encryptQuantum_def decryptQuantum_def xor_key_inverse) (simp add: xor_key_def)
qed

text \<open>
  No quantum key is ever generated: the length must be at least 256, and the register that is made first has as many qubits, which
  the type of its size cannot hold.
\<close>

lemma no_quantum_key: "generateQuantumKey F dist state_dist key_length params \<noteq> Inr key"
  by (simp add: generateQuantumKey_def QuantumState_new_def MIN_KEY_SIZE_def)

text \<open>
  No quantum signature is ever accepted: a signature that verifies has 666 or 1280 bytes, the message at most 32, and the code expects
  the decrypted signature to be the message.
\<close>

lemma crypto_verify_lengths:
  assumes "crypto_verify m sig pk = Some (Inr True)"
  shows "length m \<le> 32 \<and> length sig \<ge> 666"
proof -
  have "\<exists>N. N \<in> {512, 1024} \<and> length pk = compute_pkey_len N"
    using assms by (auto simp: crypto_verify_def createSignatureScheme_def FalconSignature_new_def import_key_pair_def Let_def
        split: if_splits)
  then obtain N where N: "N \<in> {512, 1024}" "length pk = compute_pkey_len N"
    by blast
  obtain s where s: "buffers_ok s" "fs_N s = N" "crypto_verify m sig pk = map_option fst (verify_signature m sig s)"
    using crypto_verify_eq [OF N] by metis
  have "msglen s = 32"
    using s(1) by (simp add: buffers_ok_def)
  then have "length m \<le> 32 \<and> length sig = compute_sig_len N"
    using assms s by (cases "length m > 32"; cases "length sig = compute_sig_len N") (simp_all add: verify_signature_def Let_def)
  then show ?thesis
    by (simp add: compute_sig_len_def)
qed

theorem quantum_signatures_refused: "verifyQuantumSignature F params m sig key \<noteq> Some (Inr True)"
proof
  assume v: "verifyQuantumSignature F params m sig key = Some (Inr True)"
  obtain r where r: "crypto_verify m sig (key_material key) = Some r"
    using v by (cases "crypto_verify m sig (key_material key)") (simp_all add: verifyQuantumSignature_def)
  have "r = Inr True \<and> decryptQuantum sig key = Inr m"
    using v unfolding verifyQuantumSignature_def r by (simp split: sum.splits if_splits)
  then have "length m < length sig" "m = xor_key (key_material key) sig"
    using crypto_verify_lengths [of m sig "key_material key"] r by (simp_all add: decryptQuantum_def split: if_splits)
  then show False
    by (simp add: xor_key_def)
qed

end
