(* ===== verification/Consensus.thy ===== *)
theory Consensus
  imports Quantum_State Std_Map
begin

text \<open>
  Proof of batch-proof consensus (\<open>src/consensus/POBPC.cpp\<close>): pending transactions become batches with a proof, witnesses sign the
  hash of a batch, and a batch has consensus when enough signatures were collected. The static functions of \<open>QuantumCrypto\<close> that the
  source calls (\<open>QHash\<close>, \<open>QSign\<close>, \<open>QVerify\<close>, \<open>getPublicKey\<close>) are declared nowhere in the repository and are the parameter \<open>Q\<close>. A
  vote is appended to its proof, as the body of \<open>submitWitnessVote\<close> says, although the argument is declared \<open>const\<close>. The
  \<open>unordered_map\<close> of witnesses is an association list whose order stands for the unspecified order of the map. Clocks and the
  permutation that \<open>std::shuffle\<close> draws are arguments.
\<close>

section \<open>State\<close>

record qcrypto =
  qc_hash :: "bytes \<Rightarrow> bytes"
  qc_sign :: "bytes \<Rightarrow> bytes"
  qc_public_key :: bytes
  qc_verify :: "bytes \<Rightarrow> bytes \<Rightarrow> bytes \<Rightarrow> bool"

record 'd BatchConfig =
  max_transactions :: nat
  witness_count :: nat
  consensus_threshold :: 'd

record BatchProof =
  bp_proof_data :: bytes
  bp_batch_hash :: bytes
  bp_timestamp :: u64
  bp_transaction_count :: nat
  bp_witness_signatures :: "bytes list"

record 'd WitnessInfo =
  wi_node_id :: string
  wi_public_key :: bytes
  reliability_score :: 'd
  last_active :: u64

record 'd ConsensusMetrics =
  avg_batch_time :: 'd
  total_batches_processed :: u64
  total_transactions_processed :: u64
  witness_participation_rate :: 'd

record 'd POBPC =
  pobpc_config :: "'d BatchConfig"
  pobpc_pending :: "bytes list"
  witnesses :: "(string, 'd WitnessInfo) smap"
  pobpc_metrics :: "'d ConsensusMetrics"

definition POBPC_new :: "('d, 'z) dops_scheme \<Rightarrow> 'd BatchConfig \<Rightarrow> 'd POBPC" where
  "POBPC_new F config =
     \<lparr>pobpc_config = config, pobpc_pending = [], witnesses = [],
      pobpc_metrics = \<lparr>avg_batch_time = lit F ''0.0'', total_batches_processed = 0, total_transactions_processed = 0,
        witness_participation_rate = lit F ''0.0''\<rparr>\<rparr>"

section \<open>Batches\<close>

definition pobpc_addTransaction :: "bytes \<Rightarrow> 'd POBPC \<Rightarrow> bool \<times> 'd POBPC" where
  "pobpc_addTransaction tx p =
     (if length (pobpc_pending p) \<ge> max_transactions (pobpc_config p) then (False, p)
      else (True, p\<lparr>pobpc_pending := pobpc_pending p @ [tx]\<rparr>))"

definition createBatchHash :: "qcrypto \<Rightarrow> bytes list \<Rightarrow> bytes" where
  "createBatchHash Q txs = qc_hash Q (concat txs)"

definition createCommitment :: "qcrypto \<Rightarrow> bytes list \<Rightarrow> bytes" where
  "createCommitment Q txs = qc_hash Q (concat txs)"

definition generateZKProof :: "qcrypto \<Rightarrow> bytes \<Rightarrow> bytes" where
  "generateZKProof Q commitment = qc_sign Q commitment"

definition generateProof :: "qcrypto \<Rightarrow> bytes list \<Rightarrow> bytes" where
  "generateProof Q txs = generateZKProof Q (createCommitment Q txs)"

definition recordMetrics :: "('d, 'z) dops_scheme \<Rightarrow> BatchProof \<Rightarrow> nat \<Rightarrow> 'd POBPC \<Rightarrow> 'd POBPC" where
  "recordMetrics F proof processing_time p =
     (let m = pobpc_metrics p;
          m = m\<lparr>avg_batch_time := fdiv F (fadd F (fmul F (avg_batch_time m) (of_int_d F (unat (total_batches_processed m))))
                (of_int_d F processing_time)) (of_int_d F (unat (total_batches_processed m + 1)))\<rparr>;
          m = m\<lparr>total_batches_processed := total_batches_processed m + 1\<rparr>;
          m = m\<lparr>total_transactions_processed := total_transactions_processed m + of_nat (bp_transaction_count proof)\<rparr>;
          m = m\<lparr>witness_participation_rate := fdiv F (of_int_d F (length (bp_witness_signatures proof)))
                (of_int_d F (witness_count (pobpc_config p)))\<rparr>
      in p\<lparr>pobpc_metrics := m\<rparr>)"

definition generateBatchProof :: "('d, 'z) dops_scheme \<Rightarrow> qcrypto \<Rightarrow> u64 \<Rightarrow> nat \<Rightarrow> 'd POBPC \<Rightarrow> BatchProof \<times> 'd POBPC" where
  "generateBatchProof F Q now processing_time p =
     (let proof = \<lparr>bp_proof_data = generateProof Q (pobpc_pending p), bp_batch_hash = createBatchHash Q (pobpc_pending p),
            bp_timestamp = now, bp_transaction_count = length (pobpc_pending p), bp_witness_signatures = []\<rparr>;
          p = p\<lparr>pobpc_pending := []\<rparr>
      in (proof, recordMetrics F proof processing_time p))"

definition validateBatchStructure :: "BatchProof \<Rightarrow> bool" where
  "validateBatchStructure proof \<longleftrightarrow>
     bp_proof_data proof \<noteq> [] \<and> bp_batch_hash proof \<noteq> [] \<and> bp_timestamp proof > 0 \<and> bp_transaction_count proof > 0"

definition verifyProof :: "qcrypto \<Rightarrow> bytes \<Rightarrow> bytes \<Rightarrow> bool" where
  "verifyProof Q proof batch_hash = qc_verify Q batch_hash proof (qc_public_key Q)"

definition verifyBatchProof :: "qcrypto \<Rightarrow> BatchProof \<Rightarrow> bool" where
  "verifyBatchProof Q proof =
     (if \<not> validateBatchStructure proof then False else verifyProof Q (bp_proof_data proof) (bp_batch_hash proof))"

section \<open>Witnesses\<close>

definition registerWitness :: "('d, 'z) dops_scheme \<Rightarrow> string \<Rightarrow> bytes \<Rightarrow> u64 \<Rightarrow> 'd POBPC \<Rightarrow> bool \<times> 'd POBPC" where
  "registerWitness F node_id pk now p =
     (True, p\<lparr>witnesses := map_put node_id \<lparr>wi_node_id = node_id, wi_public_key = pk, reliability_score = lit F ''1.0'',
        last_active = now\<rparr> (witnesses p)\<rparr>)"

definition selectWitnessesRandomly :: "('d WitnessInfo list \<Rightarrow> 'd WitnessInfo list) \<Rightarrow> nat \<Rightarrow> 'd POBPC \<Rightarrow> 'd WitnessInfo list" where
  "selectWitnessesRandomly shuffle count p =
     (let all_witnesses = map snd (witnesses p)
      in if all_witnesses = [] then [] else take (min count (length all_witnesses)) (shuffle all_witnesses))"

definition selectWitnesses :: "('d, 'c, 'z) qops_scheme \<Rightarrow> ('d WitnessInfo list \<Rightarrow> 'd WitnessInfo list) \<Rightarrow> 'd POBPC \<Rightarrow> 'd WitnessInfo list" where
  "selectWitnesses F shuffle p =
     (let active_witnesses = filter (\<lambda>info. fge F (reliability_score info) (lit F ''0.5'')) (map snd (witnesses p))
      in selectWitnessesRandomly shuffle (min (witness_count (pobpc_config p)) (length active_witnesses)) p)"

definition verifyWitnessSignature :: "qcrypto \<Rightarrow> 'd POBPC \<Rightarrow> string \<Rightarrow> bytes \<Rightarrow> bytes \<Rightarrow> bool" where
  "verifyWitnessSignature Q p witness_id sig msg =
     (case map_find (witnesses p) witness_id of None \<Rightarrow> False | Some info \<Rightarrow> qc_verify Q msg sig (wi_public_key info))"

definition updateWitnessReliability :: "('d, 'z) dops_scheme \<Rightarrow> u64 \<Rightarrow> string \<Rightarrow> bool \<Rightarrow> 'd POBPC \<Rightarrow> 'd POBPC" where
  "updateWitnessReliability F now witness_id successful_validation p =
     (case map_find (witnesses p) witness_id of None \<Rightarrow> p
      | Some info \<Rightarrow>
          let ALPHA = lit F ''0.1'';
              info = info\<lparr>reliability_score := fadd F (fmul F (fsub F (lit F ''1.0'') ALPHA) (reliability_score info))
                (fmul F ALPHA (if successful_validation then lit F ''1.0'' else lit F ''0.0'')), last_active := now\<rparr>
          in p\<lparr>witnesses := map_put witness_id info (witnesses p)\<rparr>)"

definition submitWitnessVote :: "('d, 'z) dops_scheme \<Rightarrow> qcrypto \<Rightarrow> u64 \<Rightarrow> string \<Rightarrow> bytes \<Rightarrow> BatchProof \<Rightarrow> 'd POBPC \<Rightarrow>
    bool \<times> BatchProof \<times> 'd POBPC" where
  "submitWitnessVote F Q now witness_id sig proof p =
     (case map_find (witnesses p) witness_id of None \<Rightarrow> (False, proof, p)
      | Some _ \<Rightarrow>
          if \<not> verifyWitnessSignature Q p witness_id sig (bp_batch_hash proof)
          then (False, proof, updateWitnessReliability F now witness_id False p)
          else (True, proof\<lparr>bp_witness_signatures := bp_witness_signatures proof @ [sig]\<rparr>,
                updateWitnessReliability F now witness_id True p))"

definition hasReachedConsensus :: "('d, 'c, 'z) qops_scheme \<Rightarrow> BatchProof \<Rightarrow> 'd POBPC \<Rightarrow> bool" where
  "hasReachedConsensus F proof p =
     (if bp_witness_signatures proof = [] then False
      else let consensus_ratio = fdiv F (of_int_d F (length (bp_witness_signatures proof))) (of_int_d F (witness_count (pobpc_config p)))
           in fge F consensus_ratio (consensus_threshold (pobpc_config p)))"

definition calculateConsensusConfidence :: "('d, 'z) dops_scheme \<Rightarrow> qcrypto \<Rightarrow> BatchProof \<Rightarrow> 'd POBPC \<Rightarrow> 'd" where
  "calculateConsensusConfidence F Q proof p =
     (if bp_witness_signatures proof = [] then lit F ''0.0''
      else let (total_weight, weighted_sum) = fold (\<lambda>sig (t, w).
              case find (\<lambda>(i, info). verifyWitnessSignature Q p i sig (bp_batch_hash proof)) (witnesses p) of
                None \<Rightarrow> (t, w)
              | Some (i, info) \<Rightarrow> (fadd F t (lit F ''1.0''), fadd F w (reliability_score info)))
              (bp_witness_signatures proof) (lit F ''0.0'', lit F ''0.0'')
           in if fless F (lit F ''0'') total_weight then fdiv F weighted_sum total_weight else lit F ''0.0'')"

section \<open>Histories\<close>

text \<open>A state with the transactions that were accepted and the batches that were made, with the proof of each.\<close>

inductive pobpc_reachable :: "('d, 'z) dops_scheme \<Rightarrow> qcrypto \<Rightarrow> 'd BatchConfig \<Rightarrow> 'd POBPC \<Rightarrow> bytes list \<Rightarrow>
    (bytes list \<times> BatchProof) list \<Rightarrow> bool" for F Q config where
  new: "pobpc_reachable F Q config (POBPC_new F config) [] []"
| add: "pobpc_reachable F Q config p accepted batches \<Longrightarrow> pobpc_addTransaction tx p = (ok, p') \<Longrightarrow>
    pobpc_reachable F Q config p' (if ok then accepted @ [tx] else accepted) batches"
| generate: "pobpc_reachable F Q config p accepted batches \<Longrightarrow> generateBatchProof F Q now t p = (proof, p') \<Longrightarrow>
    pobpc_reachable F Q config p' accepted (batches @ [(pobpc_pending p, proof)])"
| register: "pobpc_reachable F Q config p accepted batches \<Longrightarrow> registerWitness F i pk now p = (ok, p') \<Longrightarrow>
    pobpc_reachable F Q config p' accepted batches"
| vote: "pobpc_reachable F Q config p accepted batches \<Longrightarrow> submitWitnessVote F Q now i sig proof p = (ok, proof', p') \<Longrightarrow>
    pobpc_reachable F Q config p' accepted batches"

definition history_ok :: "qcrypto \<Rightarrow> 'd BatchConfig \<Rightarrow> 'd POBPC \<Rightarrow> bytes list \<Rightarrow> (bytes list \<times> BatchProof) list \<Rightarrow> bool" where
  "history_ok Q config p accepted batches \<longleftrightarrow>
     pobpc_config p = config \<and> length (pobpc_pending p) \<le> max_transactions config \<and>
     accepted = concat (map fst batches) @ pobpc_pending p \<and>
     total_batches_processed (pobpc_metrics p) = of_nat (length batches) \<and>
     total_transactions_processed (pobpc_metrics p) = of_nat (length (concat (map fst batches))) \<and>
     list_all (\<lambda>(txs, proof). bp_batch_hash proof = createBatchHash Q txs \<and> bp_transaction_count proof = length txs) batches"

lemma recordMetrics_simps [simp]:
  "pobpc_config (recordMetrics F proof t p) = pobpc_config p" "pobpc_pending (recordMetrics F proof t p) = pobpc_pending p"
  "witnesses (recordMetrics F proof t p) = witnesses p"
  "total_batches_processed (pobpc_metrics (recordMetrics F proof t p)) = total_batches_processed (pobpc_metrics p) + 1"
  "total_transactions_processed (pobpc_metrics (recordMetrics F proof t p))
     = total_transactions_processed (pobpc_metrics p) + of_nat (bp_transaction_count proof)"
  by (simp_all add: recordMetrics_def Let_def)

lemma updateWitnessReliability_simps [simp]:
  "pobpc_config (updateWitnessReliability F now i ok p) = pobpc_config p"
  "pobpc_pending (updateWitnessReliability F now i ok p) = pobpc_pending p"
  "pobpc_metrics (updateWitnessReliability F now i ok p) = pobpc_metrics p"
  by (simp_all add: updateWitnessReliability_def Let_def split: option.split)

text \<open>
  C36. No transaction is lost, repeated or reordered: in every reachable state the accepted transactions are those of the batches followed by
  the pending ones, of which there are at most \<open>max_transactions\<close>; every proof carries the hash and the number of its
  batch, and the metrics count batches and transactions.
\<close>

theorem pobpc_history:
  assumes "pobpc_reachable F Q config p accepted batches"
  shows "history_ok Q config p accepted batches"
  using assms
proof (induction rule: pobpc_reachable.induct)
  case new
  then show ?case
    by (simp add: history_ok_def POBPC_new_def)
next
  case (add p accepted batches tx ok p')
  then show ?case
    by (auto simp: history_ok_def pobpc_addTransaction_def split: if_splits)
next
  case (generate p accepted batches now t pf p')
  then show ?case
    by (auto simp: history_ok_def generateBatchProof_def Let_def)
next
  case (register p accepted batches i pk now ok p')
  then show ?case
    by (auto simp: history_ok_def registerWitness_def)
next
  case (vote p accepted batches now i sig pf ok pf' p')
  then show ?case
    by (auto simp: history_ok_def submitWitnessVote_def split: option.splits if_splits)
qed

definition demo_qcrypto :: qcrypto where
  "demo_qcrypto = \<lparr>qc_hash = (\<lambda>bs. 1 # bs), qc_sign = (\<lambda>bs. 2 # bs), qc_public_key = [3], qc_verify = (\<lambda>m s pk. s = 2 # m)\<rparr>"

theorem pobpc_history_witness:
  "\<exists>p. pobpc_reachable int_ops demo_qcrypto \<lparr>max_transactions = 2, witness_count = 1, consensus_threshold = 1\<rparr> p [[7]] []
     \<and> history_ok demo_qcrypto \<lparr>max_transactions = 2, witness_count = 1, consensus_threshold = 1\<rparr> p [[7]] []"
proof -
  let ?c = "\<lparr>max_transactions = 2, witness_count = 1, consensus_threshold = 1 :: int\<rparr>"
  have "pobpc_addTransaction [7] (POBPC_new int_ops ?c) = (True, (POBPC_new int_ops ?c)\<lparr>pobpc_pending := [[7]]\<rparr>)"
    by (simp add: pobpc_addTransaction_def POBPC_new_def)
  from pobpc_reachable.add [OF pobpc_reachable.new this]
  have "pobpc_reachable int_ops demo_qcrypto ?c ((POBPC_new int_ops ?c)\<lparr>pobpc_pending := [[7]]\<rparr>) [[7]] []"
    by simp
  then show ?thesis
    using pobpc_history by blast
qed

section \<open>Proofs and votes\<close>

text \<open>
  A generated proof verifies exactly when the batch is not empty, given the documented behaviour of the primitives: hashes and
  signatures are not empty and a signature of the own key verifies.
\<close>

theorem batch_proof_verifies:
  assumes "\<And>m. qc_hash Q m \<noteq> [] \<and> qc_sign Q m \<noteq> [] \<and> qc_verify Q m (qc_sign Q m) (qc_public_key Q)" and "now > 0"
  shows "verifyBatchProof Q (fst (generateBatchProof F Q now t p)) \<longleftrightarrow> pobpc_pending p \<noteq> []"
  using assms by (simp add: verifyBatchProof_def generateBatchProof_def validateBatchStructure_def verifyProof_def generateProof_def
      generateZKProof_def createCommitment_def createBatchHash_def Let_def)

text \<open>Votes on one proof, each with its time.\<close>

fun submit_votes :: "('d, 'z) dops_scheme \<Rightarrow> qcrypto \<Rightarrow> (u64 \<times> string \<times> bytes) list \<Rightarrow> BatchProof \<Rightarrow> 'd POBPC \<Rightarrow> BatchProof \<times> 'd POBPC" where
  "submit_votes F Q [] proof p = (proof, p)"
| "submit_votes F Q ((now, i, sig) # vs) proof p =
     (case submitWitnessVote F Q now i sig proof p of (ok, proof, p) \<Rightarrow> submit_votes F Q vs proof p)"

text \<open>The key of a witness.\<close>

definition witness_key :: "'d POBPC \<Rightarrow> string \<Rightarrow> bytes option" where
  "witness_key p i = map_option wi_public_key (map_find (witnesses p) i)"

definition vote_valid :: "qcrypto \<Rightarrow> 'd POBPC \<Rightarrow> bytes \<Rightarrow> u64 \<times> string \<times> bytes \<Rightarrow> bool" where
  "vote_valid Q p h = (\<lambda>(now, i, sig). case witness_key p i of None \<Rightarrow> False | Some pk \<Rightarrow> qc_verify Q h sig pk)"

lemma witness_key_update [simp]: "witness_key (updateWitnessReliability F now i ok p) j = witness_key p j"
  by (simp add: witness_key_def updateWitnessReliability_def Let_def split: option.split)

lemma submitWitnessVote_eq:
  "submitWitnessVote F Q now i sig proof p =
     (let ok = vote_valid Q p (bp_batch_hash proof) (now, i, sig)
      in (ok, if ok then proof\<lparr>bp_witness_signatures := bp_witness_signatures proof @ [sig]\<rparr> else proof,
          updateWitnessReliability F now i ok p))"
  by (simp add: submitWitnessVote_def verifyWitnessSignature_def vote_valid_def witness_key_def updateWitnessReliability_def Let_def
      split: option.split)

lemma submit_votes_eq:
  "submit_votes F Q vs pf p = (pf', p') \<Longrightarrow>
     pf' = pf\<lparr>bp_witness_signatures := bp_witness_signatures pf @ map (snd \<circ> snd) (filter (vote_valid Q p (bp_batch_hash pf)) vs)\<rparr>
     \<and> pobpc_config p' = pobpc_config p \<and> (\<forall>i. witness_key p' i = witness_key p i)"
proof (induction vs arbitrary: pf p)
  case (Cons v vs)
  obtain now i sig where v: "v = (now, i, sig)"
    by (cases v)
  let ?ok = "vote_valid Q p (bp_batch_hash pf) v"
  let ?pf = "if ?ok then pf\<lparr>bp_witness_signatures := bp_witness_signatures pf @ [sig]\<rparr> else pf"
  let ?p = "updateWitnessReliability F now i ?ok p"
  have "submit_votes F Q vs ?pf ?p = (pf', p')"
    using Cons.prems by (simp add: v submitWitnessVote_eq Let_def)
  note IH = Cons.IH [OF this]
  moreover have "vote_valid Q ?p = vote_valid Q p"
    by (simp add: vote_valid_def fun_eq_iff)
  ultimately show ?case
    by (simp add: v)
qed simp

text \<open>
  Votes are counted, not voters: the signatures of a proof are those of the valid votes in the order of the votes, whoever cast them,
  and consensus depends on their number alone. A witness that repeats its vote often enough decides by itself.
\<close>

theorem votes_counted:
  assumes "submit_votes F Q vs proof p = (proof', p')" and "bp_witness_signatures proof = []"
  shows "bp_witness_signatures proof' = map (snd \<circ> snd) (filter (vote_valid Q p (bp_batch_hash proof)) vs)
    \<and> (hasReachedConsensus F proof' p' \<longleftrightarrow>
         filter (vote_valid Q p (bp_batch_hash proof)) vs \<noteq> [] \<and>
         fge F (fdiv F (of_int_d F (length (filter (vote_valid Q p (bp_batch_hash proof)) vs))) (of_int_d F (witness_count (pobpc_config p))))
           (consensus_threshold (pobpc_config p)))"
  using submit_votes_eq [OF assms(1)] assms(2) by (auto simp: hasReachedConsensus_def Let_def)

theorem votes_counted_witness:
  "\<exists>proof' p'. submit_votes int_ops demo_qcrypto [(1, ''w'', [2, 9]), (2, ''w'', [2, 9]), (3, ''x'', [2, 9])]
      \<lparr>bp_proof_data = [], bp_batch_hash = [9], bp_timestamp = 1, bp_transaction_count = 1, bp_witness_signatures = []\<rparr>
      (snd (registerWitness int_ops ''w'' [5] 1 (POBPC_new int_ops \<lparr>max_transactions = 2, witness_count = 2, consensus_threshold = 1\<rparr>)))
        = (proof', p') \<and> bp_witness_signatures proof' = [[2, 9], [2, 9]]"
proof -
  let ?p = "snd (registerWitness int_ops ''w'' [5] 1 (POBPC_new int_ops \<lparr>max_transactions = 2, witness_count = 2, consensus_threshold = 1\<rparr>))"
  let ?proof = "\<lparr>bp_proof_data = [], bp_batch_hash = [9], bp_timestamp = 1, bp_transaction_count = 1, bp_witness_signatures = []\<rparr>"
  let ?vs = "[(1, ''w'', [2, 9]), (2, ''w'', [2, 9]), (3, ''x'', [2, 9])]"
  obtain proof' p' where r: "submit_votes int_ops demo_qcrypto ?vs ?proof ?p = (proof', p')"
    by fastforce
  have "witness_key ?p ''w'' = Some [5]" "witness_key ?p ''x'' = None"
    by (simp_all add: witness_key_def registerWitness_def POBPC_new_def)
  then show ?thesis
    using votes_counted [OF r] r by (simp add: vote_valid_def demo_qcrypto_def)
qed

text \<open>
  The hash of a batch is the hash of its concatenated transactions: moving bytes from the end of one transaction to the start of the
  next keeps it.
\<close>

lemma batch_hash_ambiguous: "createBatchHash Q (xs @ [a @ b, c] @ ys) = createBatchHash Q (xs @ [a, b @ c] @ ys)"
  by (simp add: createBatchHash_def)

text \<open>The witnesses that are selected are registered, and no more than asked for; the reliability of the selected ones is not looked at.\<close>

lemma selectWitnesses_registered:
  assumes "\<And>ws. set (shuffle ws) = set ws \<and> length (shuffle ws) = length ws"
  shows "set (selectWitnesses F shuffle p) \<subseteq> snd ` set (witnesses p) \<and> length (selectWitnesses F shuffle p) \<le> witness_count (pobpc_config p)"
proof -
  have "set (take n (shuffle (map snd (witnesses p)))) \<subseteq> snd ` set (witnesses p)" for n
    using assms [of "map snd (witnesses p)"] set_take_subset [of n "shuffle (map snd (witnesses p))"] by simp
  then show ?thesis
    by (simp add: selectWitnesses_def selectWitnessesRandomly_def Let_def min.coboundedI1 min.coboundedI2)
qed

end
