(* ===== verification/Falcon_FFT_Exact.thy ===== *)
theory Falcon_FFT_Exact
  imports Falcon_FFT Falcon_NTT Complex_Main
begin

text \<open>
  The Fourier transform of \<open>fft.hpp\<close> in exact arithmetic: with the real and complex numbers in place of doubles and the table of
  roots as its comment defines it, the transforms are inverse to each other, a transformed polynomial is put together from its halves,
  and the decomposition at a node of the Falcon tree is one of the Gram matrix. The code computes all of this up to rounding.
\<close>

definition exact_ops :: "(real, complex) fops" where
  "exact_ops = \<lparr>lit = \<lambda>s. if s = ''0.5'' then 1 / 2 else if s = ''1.'' then 1 else 0, of_int_d = real,
     fadd = (+), fsub = (-), fmul = (*), fdiv = (/),
     fmax = max, fmin = min, flog2 = log 2, fless = (<), image_d = \<lambda>_. [],
     cplx = Complex, cadd = (+), cmul = (*), cconj = cnj, creal = Re, cimag = Im, cscale = \<lambda>c d. c * complex_of_real d,
     cabs = cmod, cnorm = \<lambda>c. (cmod c)\<^sup>2, ceq = (=), fabs = abs, fsqrt = sqrt, fcos = cos, fsin = sin, fneg = uminus,
     fge = (\<ge>), fisnan = \<lambda>_. False, fisfinite = \<lambda>_. True, vnorm = \<lambda>_. 0, vnormalize = \<lambda>v. v, mat_vec = \<lambda>_ v. v,
     csub = (-), cneg = uminus, cdiv = (/), of_sint_d = of_int, ffloor = \<lambda>x. of_int \<lfloor>x\<rfloor>, fround = \<lambda>x. of_int (round x),
     trunc_d = \<lambda>x. Some \<lfloor>x\<rfloor>, zeta_table = \<lambda>k. cis (pi * real (bit_rev 10 k) / 1024)\<rparr>"

text \<open>Exact for every operation that the transforms use.\<close>

lemma exact_ops [simp]:
  "cadd exact_ops = (+)" "csub exact_ops = (-)" "cmul exact_ops = (*)" "cdiv exact_ops = (/)" "cneg exact_ops = uminus" "cconj exact_ops = cnj"
  "cscale exact_ops c d = c * complex_of_real d" "fdiv exact_ops = (/)" "lit exact_ops ''1.'' = 1" "lit exact_ops ''0.5'' = 1 / 2"
  "of_int_d exact_ops = real"
  by (simp_all add: exact_ops_def)

definition fft_root :: "nat \<Rightarrow> complex" where
  "fft_root k = cis (pi * real (brv 10 k) / 1024)"

lemma zeta_table_exact [simp]: "zeta_table exact_ops k = fft_root k"
  by (simp add: exact_ops_def fft_root_def bit_rev_brv)

lemma fft_root_unit: "fft_root k * cnj (fft_root k) = 1"
  by (simp add: fft_root_def cis_cnj cis_mult)

lemma fft_root_square: "fft_root k ^ 2 = cis (pi * real (2 * brv 10 k) / 1024)"
  by (simp add: fft_root_def cis_mult power2_eq_square flip: distrib_left add_divide_distrib)

text \<open>A prefix of the one table is the table for every size up to 1024.\<close>

lemma fft_root_table:
  assumes "L \<le> 10"
  shows "butterfly L fft_root"
proof
  have pi: "cis (pi * real (n + 1024) / 1024) = - cis (pi * real n / 1024)" for n
    by (simp add: distrib_left add_divide_distrib flip: cis_mult)
  show "fft_root 1 ^ 2 = - 1"
    using brv_double(2) [of 10 0] pi [of 0] by (simp add: fft_root_square)
  fix m :: nat
  have le: "(2 :: nat) ^ L \<le> 2 ^ 10"
    using assms by (intro power_increasing) auto
  show "fft_root (2 * m) ^ 2 = fft_root m" if "2 * m < 2 ^ L"
  proof -
    have "2 * brv 10 (2 * m) = brv 10 m"
      using brv_double(1) [of 10 m] that le by simp
    then show ?thesis
      unfolding fft_root_square by (simp only: fft_root_def)
  qed
  show "fft_root (2 * m + 1) ^ 2 = - fft_root m" if "2 * m + 1 < 2 ^ L"
  proof -
    have "2 * brv 10 (2 * m + 1) = brv 10 m + 1024"
      using brv_double(2) [of 10 m] that le by simp
    then show ?thesis
      unfolding fft_root_square by (simp only: fft_root_def pi)
  qed
  show "fft_root (2 ^ t + s) * - fft_root (2 * 2 ^ t - 1 - s) = 1" if "s < 2 ^ t" "t < L" for s t
  proof -
    have "real (brv 10 (2 ^ t + s)) + real (brv 10 (2 * 2 ^ t - 1 - s)) = 1024"
      using arg_cong [OF brv_complement [of s t 10], of real] that assms by simp
    then have "pi * real (brv 10 (2 ^ t + s)) / 1024 + pi * real (brv 10 (2 * 2 ^ t - 1 - s)) / 1024 = pi"
      by (simp add: field_simps flip: distrib_left)
    then show ?thesis
      by (simp add: fft_root_def cis_mult)
  qed
qed

interpretation fft512: butterfly 9 fft_root
  by (rule fft_root_table) simp

interpretation fft1024: butterfly 10 fft_root
  by (rule fft_root_table) simp

section \<open>The layers\<close>

lemma fft_butterfly_pair:
  "0 < len \<Longrightarrow> fft_butterfly R z len i v = pair_step (\<lambda>x y. cadd R x (cmul R z y)) (\<lambda>x y. csub R x (cmul R z y)) len i v"
  by (simp add: fft_butterfly_def pair_step_def Let_def list_update_swap)

lemma ifft_block_pair:
  assumes "0 < len" "\<forall>i \<in> set is. i + len < length v"
  shows "fold (ifft_butterfly R z len) is v = fold (pair_step (cadd R) (\<lambda>x y. cmul R (csub R x y) z) len) is v"
  using assms(2)
  by (induction "is" arbitrary: v) (use assms(1) in \<open>simp_all add: ifft_butterfly_def pair_step_def Let_def\<close>)

lemma block_range:
  fixes b i :: nat
  assumes "l < L" "b < 2 ^ (L - l - 1)" "i < b * (2 * 2 ^ l) + 2 ^ l"
  shows "i + 2 ^ l < 2 ^ L"
proof -
  have "Suc b * (2 * 2 ^ l) \<le> 2 ^ (L - l - 1) * (2 * 2 ^ l)"
    using assms(2) by (intro mult_le_mono1) simp
  then show ?thesis
    using assms(3) layer_blocks(2) [OF assms(1)] by simp
qed

lemma fold_blocks_cong:
  assumes "\<And>b v. b < n \<Longrightarrow> length v = m \<Longrightarrow> f b v = g b v" "\<And>b v. length (g b v) = length v" "length v = m"
  shows "fold f [0..<n] v = fold g [0..<n] v"
proof -
  have "fold f [0..<k] v = fold g [0..<k] v \<and> length (fold g [0..<k] v) = m" if "k \<le> n" for k
    using that by (induction k) (simp_all add: assms)
  then show ?thesis
    by simp
qed

lemma nth_fft_layer:
  assumes "l < L" "length v = 2 ^ L" "j < 2 ^ L"
  shows "fft_layer R L l v ! j =
    (let z = zeta_table R (2 ^ (L - l - 1) + j div (2 * 2 ^ l))
     in if j mod (2 * 2 ^ l) < 2 ^ l then cadd R (v ! j) (cmul R z (v ! (j + 2 ^ l))) else csub R (v ! (j - 2 ^ l)) (cmul R z (v ! j)))"
proof -
  have "fft_layer R L l v = fold (\<lambda>b v. fold (pair_step
      (\<lambda>x y. cadd R x (cmul R (zeta_table R (2 ^ (L - l - 1) + b)) y)) (\<lambda>x y. csub R x (cmul R (zeta_table R (2 ^ (L - l - 1) + b)) y)) (2 ^ l))
      [b * (2 * 2 ^ l)..<b * (2 * 2 ^ l) + 2 ^ l] v) [0..<2 ^ (L - l - 1)] v"
  proof -
    have "fft_butterfly R z (2 ^ l) = pair_step (\<lambda>x y. cadd R x (cmul R z y)) (\<lambda>x y. csub R x (cmul R z y)) (2 ^ l)" for z
      by (intro ext fft_butterfly_pair) simp
    then show ?thesis
      using layer_blocks [OF assms(1)] by (simp add: fft_layer_def Let_def mult.commute [of "2 ^ l" 2])
  qed
  then show ?thesis
    using assms layer_blocks(2) [OF assms(1)] by (simp add: Let_def nth_pair_layer)
qed

lemma nth_ifft_layer:
  assumes "l < L" "length v = 2 ^ L" "j < 2 ^ L"
  shows "ifft_layer R L l v ! j =
    (let z = cneg R (zeta_table R (2 * 2 ^ (L - l - 1) - 1 - j div (2 * 2 ^ l)))
     in if j mod (2 * 2 ^ l) < 2 ^ l then cadd R (v ! j) (v ! (j + 2 ^ l)) else cmul R (csub R (v ! (j - 2 ^ l)) (v ! j)) z)"
proof -
  let ?z = "\<lambda>b. cneg R (zeta_table R (2 * 2 ^ (L - l - 1) - 1 - b))"
  have "ifft_layer R L l v = fold (\<lambda>b v. fold (ifft_butterfly R (?z b) (2 ^ l)) [b * (2 * 2 ^ l)..<b * (2 * 2 ^ l) + 2 ^ l] v) [0..<2 ^ (L - l - 1)] v"
    using layer_blocks [OF assms(1)] by (simp add: ifft_layer_def Let_def mult.commute [of "2 ^ l" 2])
  also have "\<dots> = fold (\<lambda>b v. fold (pair_step (cadd R) (\<lambda>x y. cmul R (csub R x y) (?z b)) (2 ^ l))
      [b * (2 * 2 ^ l)..<b * (2 * 2 ^ l) + 2 ^ l] v) [0..<2 ^ (L - l - 1)] v"
    by (rule fold_blocks_cong [OF _ _ assms(2)]) (auto intro!: ifft_block_pair block_range [OF assms(1)])
  finally show ?thesis
    using assms layer_blocks(2) [OF assms(1)] by (simp add: Let_def nth_pair_layer)
qed

lemma length_layers [simp]:
  fixes R :: "('d, 'c, 'z) fops_scheme"
  shows "length (fft_layer R L l v) = length v" "length (ifft_layer R L l v) = length v"
proof -
  have b: "length (fold (fft_butterfly R z len) is v) = length v" "length (fold (ifft_butterfly R z len) is v) = length v" for z len "is" v
    by (induction "is" arbitrary: v) (simp_all add: fft_butterfly_def ifft_butterfly_def Let_def)
  have f: "length (fold f ss v) = length v" if "\<And>s v. length (f s v) = length v" for f :: "nat \<Rightarrow> 'c list \<Rightarrow> 'c list" and ss v
    using that by (induction ss arbitrary: v) simp_all
  show "length (fft_layer R L l v) = length v"
    unfolding fft_layer_def Let_def by (rule f) (rule b)
  show "length (ifft_layer R L l v) = length v"
    unfolding ifft_layer_def Let_def by (rule f) (rule b)
qed

lemma exact_layers:
  assumes "L \<le> 10" "l < L" "length v = 2 ^ L" "j < 2 ^ L"
  shows "fft_layer exact_ops L l v ! j = butterfly.layer L fft_root l ((!) v) j"
    and "ifft_layer exact_ops L l v ! j = butterfly.inv_layer L fft_root l ((!) v) j"
  using assms by (simp_all add: nth_fft_layer nth_ifft_layer Let_def butterfly.layer_def butterfly.inv_layer_def fft_root_table)

lemma exact_folds:
  assumes "L \<le> 10" "set ls \<subseteq> {..<L}" "length v = 2 ^ L" "j < 2 ^ L"
  shows "fold (fft_layer exact_ops L) ls v ! j = fold (butterfly.layer L fft_root) ls ((!) v) j
    \<and> fold (ifft_layer exact_ops L) ls v ! j = fold (butterfly.inv_layer L fft_root) ls ((!) v) j"
  using assms(2,3)
proof (induction ls arbitrary: v)
  case (Cons l ls)
  have ls: "l < L" "set ls \<subseteq> {..<L}"
    using Cons.prems(1) by auto
  note cong = butterfly.layers_cong [OF fft_root_table [OF assms(1)] ls(2) assms(4)]
    and lay = exact_layers [OF assms(1) ls(1) Cons.prems(2)]
  have "fold (butterfly.layer L fft_root) ls ((!) (fft_layer exact_ops L l v)) j
      = fold (butterfly.layer L fft_root) ls (butterfly.layer L fft_root l ((!) v)) j"
    by (rule cong [THEN conjunct1]) (rule lay(1))
  moreover have "fold (butterfly.inv_layer L fft_root) ls ((!) (ifft_layer exact_ops L l v)) j
      = fold (butterfly.inv_layer L fft_root) ls (butterfly.inv_layer L fft_root l ((!) v)) j"
    by (rule cong [THEN conjunct2]) (rule lay(2))
  ultimately show ?case
    using Cons.IH [OF ls(2), of "fft_layer exact_ops L l v"] Cons.IH [OF ls(2), of "ifft_layer exact_ops L l v"] Cons.prems(2) by simp
qed simp

lemma nth_fft:
  assumes "L \<le> 10" "length v = 2 ^ L" "j < 2 ^ L"
  shows "fft exact_ops L v ! j = butterfly.transform L fft_root ((!) v) j"
  using exact_folds [OF assms(1) _ assms(2,3), of "rev [0..<L]"]
  by (simp add: atLeast0LessThan fft_def butterfly.transform_def [OF fft_root_table [OF assms(1)]])

lemma length_fold_layers [simp]: "length (fold (ifft_layer R L) ls v) = length v"
  by (induction ls arbitrary: v) simp_all

text \<open>An array of the values of a transform is transformed back to what was transformed.\<close>

lemma ifft_transform:
  assumes "L \<le> 10" "length v = 2 ^ L" "\<And>j. j < 2 ^ L \<Longrightarrow> v ! j = butterfly.transform L fft_root f j" "k < 2 ^ L"
  shows "ifft exact_ops L v ! k = f k"
proof -
  note b = fft_root_table [OF assms(1)]
  have "fold (ifft_layer exact_ops L) [0..<L] v ! k = fold (butterfly.inv_layer L fft_root) [0..<L] ((!) v) k"
    using exact_folds [OF assms(1) _ assms(2,4), of "[0..<L]"] by (simp add: atLeast0LessThan)
  also have "\<dots> = butterfly.undo L fft_root (butterfly.transform L fft_root f) k"
    using butterfly.layers_cong [OF b _ assms(4), of "[0..<L]" "(!) v" "butterfly.transform L fft_root f"] assms(3)
    by (simp add: atLeast0LessThan butterfly.undo_def [OF b])
  finally show ?thesis
    using butterfly.inverse_transform [OF b assms(4)] assms(2,4) by (simp add: ifft_def)
qed

section \<open>Splitting and merging\<close>

lemma peval_halves:
  "peval (2 * n) f w = peval n (\<lambda>i. f (2 * i)) (w ^ 2) + w * peval n (\<lambda>i. f (2 * i + 1)) (w ^ 2)"
proof (induction n)
  case (Suc n)
  have "w ^ (2 * n) = (w ^ 2) ^ n"
    by (rule power_mult)
  then show ?case
    using Suc by (simp add: peval_def algebra_simps)
qed (simp add: peval_def)

text \<open>Neighbours in a transform are values at a root and at its negation.\<close>

lemma transform_halves:
  fixes f :: "nat \<Rightarrow> complex"
  assumes "L < 10" "i < 2 ^ L"
  defines "w \<equiv> fft_root (2 ^ L + i)"
  defines "e \<equiv> butterfly.transform L fft_root (\<lambda>k. f (2 * k)) i" and "d \<equiv> butterfly.transform L fft_root (\<lambda>k. f (2 * k + 1)) i"
  shows "butterfly.transform (Suc L) fft_root f (2 * i) = e + w * d" "butterfly.transform (Suc L) fft_root f (2 * i + 1) = e - w * d"
proof -
  have b: "butterfly L fft_root" "butterfly (Suc L) fft_root"
    using assms(1) by (simp_all add: fft_root_table)
  have "w ^ 2 = butterfly.point L fft_root i"
    using butterfly.root_square [OF b(2), of "2 ^ L + i"] assms(2)
    by (simp add: w_def butterfly.point_def [OF b(1)] butterfly.modulus_def [OF b(1)] butterfly.modulus_def [OF b(2)])
  then have ed: "e = peval (2 ^ L) (\<lambda>k. f (2 * k)) (w ^ 2)" "d = peval (2 ^ L) (\<lambda>k. f (2 * k + 1)) (w ^ 2)"
    unfolding e_def d_def using butterfly.transform_eval(1) [OF b(1) assms(2)] by simp_all
  have "2 * 2 ^ L + 2 * i \<noteq> Suc 0"
    by presburger
  then have pts: "butterfly.point (Suc L) fft_root (2 * i) = w" "butterfly.point (Suc L) fft_root (2 * i + 1) = - w"
    by (simp_all add: butterfly.point_def [OF b(2)] butterfly.modulus_def [OF b(2)] w_def)
  have "peval (2 ^ Suc L) f w = e + w * d" "peval (2 ^ Suc L) f (- w) = e - w * d"
    using peval_halves [of "2 ^ L" f w] peval_halves [of "2 ^ L" f "- w"] by (simp_all add: ed)
  then show "butterfly.transform (Suc L) fft_root f (2 * i) = e + w * d" "butterfly.transform (Suc L) fft_root f (2 * i + 1) = e - w * d"
    using butterfly.transform_eval(1) [OF b(2), of "2 * i" f] butterfly.transform_eval(1) [OF b(2), of "2 * i + 1" f] assms(2)
    unfolding pts by simp_all
qed

lemma merge_split:
  assumes "length f = 2 ^ L" "0 < L"
  shows "(case split_fft exact_ops L f of (f0, f1) \<Rightarrow> merge_fft exact_ops L f0 f1) = f"
proof -
  have pairs: "concat (map (\<lambda>i. [f ! (2 * i), f ! (2 * i + 1)]) [0..<n]) = take (2 * n) f" if "2 * n \<le> length f" for n
    using that by (induction n) (simp_all add: take_Suc_conv_app_nth)
  have r: "y * cnj (fft_root k) * fft_root k = y" for y k
    using fft_root_unit [of k] by (simp add: mult.assoc mult.commute)
  have "(2 :: nat) ^ L = 2 * (2 ^ L div 2)"
    using assms(2) by (cases L) simp_all
  then have "concat (map (\<lambda>i. [f ! (2 * i), f ! (2 * i + 1)]) [0..<2 ^ L div 2]) = f"
    using pairs [of "2 ^ L div 2"] assms(1) by simp
  moreover have "(case split_fft exact_ops L f of (f0, f1) \<Rightarrow> merge_fft exact_ops L f0 f1)
      = concat (map (\<lambda>i. [f ! (2 * i), f ! (2 * i + 1)]) [0..<2 ^ L div 2])"
    unfolding split_fft_def merge_fft_def Let_def prod.case
    by (intro arg_cong [of _ _ concat] map_cong refl) (simp add: r, simp add: field_simps)
  ultimately show ?thesis
    by simp
qed

text \<open>The halves of a transform are the transforms of the coefficients at even and at odd positions.\<close>

lemma split_transformed:
  assumes "L < 10" "length a = 2 ^ Suc L"
  shows "split_fft exact_ops (Suc L) (fft exact_ops (Suc L) a)
    = (fft exact_ops L (map (\<lambda>i. a ! (2 * i)) [0..<2 ^ L]), fft exact_ops L (map (\<lambda>i. a ! (2 * i + 1)) [0..<2 ^ L]))"
proof -
  let ?e = "map (\<lambda>i. a ! (2 * i)) [0..<2 ^ L]" and ?d = "map (\<lambda>i. a ! (2 * i + 1)) [0..<2 ^ L]"
  have b: "butterfly L fft_root"
    using assms(1) by (simp add: fft_root_table)
  have cong: "butterfly.transform L fft_root p i = butterfly.transform L fft_root q i" if "i < 2 ^ L" "\<And>k. k < 2 ^ L \<Longrightarrow> p k = q k" for p q i
    using butterfly.transform_eval(1) [OF b that(1)] that(2) by (simp add: peval_def)
  have halves: "fft exact_ops (Suc L) a ! (2 * i) = fft exact_ops L ?e ! i + fft_root (2 ^ L + i) * fft exact_ops L ?d ! i
      \<and> fft exact_ops (Suc L) a ! (2 * i + 1) = fft exact_ops L ?e ! i - fft_root (2 ^ L + i) * fft exact_ops L ?d ! i" if "i < 2 ^ L" for i
  proof -
    have "fft exact_ops L ?e ! i = butterfly.transform L fft_root (\<lambda>k. a ! (2 * k)) i"
      "fft exact_ops L ?d ! i = butterfly.transform L fft_root (\<lambda>k. a ! (2 * k + 1)) i"
      using that assms(1) by (auto simp: nth_fft intro!: cong)
    then show ?thesis
      using transform_halves [OF assms(1) that, of "(!) a"] nth_fft [of "Suc L" a "2 * i"] nth_fft [of "Suc L" a "2 * i + 1"] assms that by simp
  qed
  have r: "fft_root k * y * cnj (fft_root k) = y" for y k
    using fft_root_unit [of k] by (simp add: mult.assoc mult.commute mult.left_commute)
  show ?thesis
    unfolding split_fft_def Let_def prod.inject
    by (intro conjI nth_equalityI) (simp_all add: halves halves [simplified] r fft_root_unit)
qed

text \<open>
  In exact arithmetic the Fourier transform does what the scheme needs of it, for every size from 2 to 1024 and the table of roots
  that its comment defines: the inverse transform undoes it, the inverse of the element-wise product of two transforms is the product
  of the polynomials modulo \<open>x^N + 1\<close>, splitting gives the transforms of the even and of the odd coefficients, and merging gives back what
  was split.
\<close>

theorem fft_exact:
  assumes "0 < L" "L \<le> 10" "length a = 2 ^ L" "length b = 2 ^ L"
  shows "ifft exact_ops L (fft exact_ops L a) = a
    \<and> (\<forall>k<2 ^ L. ifft exact_ops L (cpoly_mul exact_ops L (fft exact_ops L a) (fft exact_ops L b)) ! k = negacyclic (2 ^ L) ((!) a) ((!) b) k)
    \<and> split_fft exact_ops L (fft exact_ops L a)
        = (fft exact_ops (L - 1) (map (\<lambda>i. a ! (2 * i)) [0..<2 ^ (L - 1)]), fft exact_ops (L - 1) (map (\<lambda>i. a ! (2 * i + 1)) [0..<2 ^ (L - 1)]))
    \<and> (case split_fft exact_ops L a of (a0, a1) \<Rightarrow> merge_fft exact_ops L a0 a1) = a"
proof (intro conjI allI impI)
  note t = fft_root_table [OF assms(2)] and fa = nth_fft [OF assms(2,3)] and fb = nth_fft [OF assms(2,4)]
  show "ifft exact_ops L (fft exact_ops L a) = a"
    using ifft_transform [OF assms(2), of "fft exact_ops L a" "(!) a"] fa assms(3) by (intro nth_equalityI) (simp_all add: ifft_def)
  show "ifft exact_ops L (cpoly_mul exact_ops L (fft exact_ops L a) (fft exact_ops L b)) ! k = negacyclic (2 ^ L) ((!) a) ((!) b) k" if "k < 2 ^ L" for k
    by (rule ifft_transform [OF assms(2) _ _ that])
      (simp_all add: cpoly_mul_def fa fb butterfly.transform_eval [OF t] peval_negacyclic)
  show "(case split_fft exact_ops L a of (a0, a1) \<Rightarrow> merge_fft exact_ops L a0 a1) = a"
    by (rule merge_split [OF assms(3,1)])
  show "split_fft exact_ops L (fft exact_ops L a)
      = (fft exact_ops (L - 1) (map (\<lambda>i. a ! (2 * i)) [0..<2 ^ (L - 1)]), fft exact_ops (L - 1) (map (\<lambda>i. a ! (2 * i + 1)) [0..<2 ^ (L - 1)]))"
    using split_transformed [of "L - 1" a] assms by simp
qed

theorem fft_exact_witness:
  "ifft exact_ops 1 (fft exact_ops 1 [2, 3]) = [2, 3]
   \<and> ifft exact_ops 1 (cpoly_mul exact_ops 1 (fft exact_ops 1 [2, 3]) (fft exact_ops 1 [5, 7])) ! 0 = - 11"
proof -
  have "negacyclic 2 ((!) [2, 3]) ((!) [5, 7]) 0 = (- 11 :: complex)"
    by (simp add: negacyclic_def numeral_2_eq_2)
  then show ?thesis
    using fft_exact [of 1 "[2, 3]" "[5, 7]"] by simp
qed

end
