(* ===== verification/Spec2Isabelle.thy ===== *)
theory Spec2Isabelle
  imports Evm_Executor Chain AI_Block Address_Manager State_Manager Proof_Aggregator Evm_Decimal Lock_Free_Queue
    State_Transition_Proof Parallel_Processor Batch_Processor Rollup_Transition Fraud_Proof Emergency_Exit MEV_Protection
    Persistent_Storage Solidity_Parser P2P_Connection P2P_Node External_Link Rollup_Bridges Transaction_API Quids_Node
    Compression Falcon_Signature QZKP_Verifier Rollup_Agent Quantum_Crypto Consensus Falcon_FFT_Exact
begin

text \<open>
  Verification of the C++ sources of the QUIDS node.

  \<^bold>\<open>The program.\<close> QUIDS is a blockchain node: an EVM that executes contract code with gas (\<open>src/evm\<close>), a chain of blocks of
  transactions with accounts (\<open>src/blockchain\<close>), a rollup that batches, orders, applies and proves transactions (\<open>src/rollup\<close>,
  \<open>src/zkp\<close>, \<open>src/quantum\<close>), storage (\<open>src/storage\<close>), signatures (\<open>src/crypto\<close>), a peer-to-peer layer (\<open>src/network\<close>) and the
  process around them: node, controller and command line (\<open>src/node\<close>, \<open>src/control\<close>, \<open>src/cli\<close>). The chain calls the
  executor for every transaction of a block; the batch and parallel processors call the state manager; the state transition, fraud
  proofs and emergency exits call the state manager, the register of qubits and the proof generator; the node owns the
  peer-to-peer node, which owns its connections.

  \<^bold>\<open>Conventions.\<close> Classes are records, enumerations datatypes, machine integers words of their width (256-bit integers of the EVM
  included), \<open>std::map\<close> an association list sorted by key (\<open>Std_Map\<close>), strings char lists and byte vectors lists of 8-bit words. A
  call that can throw returns \<open>exn + 'a\<close>; \<open>Inl (Undefined _)\<close> marks undefined behaviour of C++. Operations take the
  object and return it updated. Third-party code is a parameter: hash functions (Blake3, Keccak), arithmetic on doubles
  (\<open>Doubles\<close>, \<open>fops\<close> of \<open>Falcon_Sampler\<close>, nothing assumed), Eigen, zlib, zstd, RocksDB and sockets (\<open>asio\<close>, documented behaviour
  in \<open>asio_ok\<close>). Clocks, seeds and random numbers are arguments. The vendored Falcon scheme with its SHA-3 is in the repository and is
  modelled. Loops that retry until a random draw succeeds are partial functions: \<open>None\<close> stands for never returning.

  \<^bold>\<open>Shared theories and interfaces.\<close> \<open>Prelude\<close>: types, exceptions, lemmas on lists and words. \<open>Std_Map\<close>: maps, with the locales
  \<open>kv_store\<close> (what a lookup returns after a write) and \<open>ledger\<close> (transfers preserve the total). \<open>Codec\<close>: little- and big-endian
  integers and length-prefixed fields, with the locales \<open>field_codec\<close> and \<open>prefix_codec\<close> for their round trips. \<open>Doubles\<close>: the
  operations of double arithmetic. The other interfaces are \<open>bounded_stack\<close> (\<open>Evm_Stack\<close>), \<open>merkle_tree\<close> (\<open>Merkle\<close>, from one
  level to the binding of the root) and \<open>fifo_queue\<close> (\<open>Lock_Free_Queue\<close>, interpreted also on the queues of the connection and of the
  transaction API), and \<open>butterfly\<close> (\<open>Butterfly\<close>: layers of butterflies over a root of -1 compute evaluations and are undone,
  interpreted on the number-theoretic transforms and on the exact Fourier transforms). Each is interpreted on the definitions of the components that provide it.

  \<^bold>\<open>EVM.\<close> \<open>Evm_Stack\<close>, \<open>Evm_Memory\<close>, \<open>Evm_Storage\<close> and \<open>Evm_Executor\<close> model \<open>Stack.cpp\<close>, \<open>Memory.cpp\<close>, \<open>Storage.cpp\<close>,
  \<open>Address.cpp\<close> and \<open>EVMExecutor.cpp\<close>: the interpreter loop (\<open>exec_loop\<close>) with every opcode of the switch. The interpreter is
  proved to refine an abstract machine over decoded instructions and to be safe for every code: gas, stack bound, frame. The loop
  has a measure: every turn moves the program counter. \<open>Evm_Decimal\<close> models \<open>FloatingPoint.cpp\<close> (arithmetic modulo \<open>10 ^ 36\<close>, printing
  and parsing), \<open>Solidity_Parser\<close> the tokenizer and the resolution of type names of \<open>SolidityParser.cpp\<close> (types of the tokens,
  agreement with a reference lexer, a bound on their number), \<open>Compression\<close> \<open>evm/Compression.cpp\<close> and
  \<open>rollup/DataCompressor.cpp\<close>, whose decompression loop has no bound in the code and is a partial function that is proved to
  return, \<open>External_Link\<close> \<open>ExternalLink.cpp\<close> and \<open>ProofVerification.cpp\<close> (requests, cache, rate limits over a sliding window).

  \<^bold>\<open>Chain.\<close> \<open>Transaction\<close> models the transactions of \<open>blockchain\<close>, \<open>evm\<close> and \<open>rollup\<close>; \<open>Chain\<close> \<open>Block.cpp\<close> and \<open>Chain.cpp\<close> with the
  invariant of reachable chains; \<open>Merkle\<close> and \<open>AI_Block\<close> the Merkle trees and \<open>AIBlock.cpp\<close>; \<open>Address_Manager\<close> the accounts,
  addresses and location shares of \<open>AddressManager.cpp\<close>; \<open>Consensus\<close> (\<open>POBPC.cpp\<close>) batches, witnesses and votes: no accepted transaction is lost or reordered,
  and what a set of votes decides.

  \<^bold>\<open>Signatures.\<close> The vendored Falcon scheme, bottom up: \<open>Keccak\<close> and \<open>Sponge\<close> (\<open>keccak.hpp\<close>, \<open>sponge.hpp\<close>, the SHA-3 and SHAKE
  headers: the AVX2 permutation equals the portable one, the hashes are the padded sponge, absorbing and reading in pieces is
  the one-shot hash); \<open>Falcon_Field\<close> (\<open>ff.hpp\<close>: arithmetic modulo 12289); \<open>Falcon_NTT\<close> (\<open>ntt.hpp\<close>: multiplication modulo
  \<open>x^n + 1\<close>); \<open>Falcon_Codec\<close> and \<open>Falcon_Compress\<close> (\<open>encoding.hpp\<close>, \<open>decoding.hpp\<close>: keys and compressed signatures are read back,
  and on which codes the decoder reads past its buffer); \<open>Falcon_Verify\<close> (\<open>hashing.hpp\<close>, \<open>verification.hpp\<close>, the public key: what the
  norm check decides, \<open>h f = g\<close>); \<open>Falcon_Bignum\<close> and \<open>Falcon_Ring\<close> (\<open>u72.hpp\<close>, \<open>karatsuba.hpp\<close> and the ring of integer polynomials);
  \<open>Falcon_Sampler\<close> (\<open>prng.hpp\<close>, \<open>samplerz.hpp\<close>: the base sampler has the distribution of its table); \<open>Falcon_FFT\<close> (\<open>fft.hpp\<close>,
  \<open>falcon_tree.hpp\<close>) over any arithmetic, and \<open>Falcon_FFT_Exact\<close>, its instance with exact complex numbers, where the transform is
  inverted and multiplies; \<open>Falcon_NTRU\<close> and \<open>Falcon_Keygen\<close> (\<open>ntru_gen.hpp\<close>, \<open>keygen.hpp\<close>: a reported solution solves the NTRU
  equation whatever the rounding, and the generated keys decode); \<open>Falcon_Sign\<close> (\<open>ffsampling.hpp\<close>, \<open>signing.hpp\<close>, \<open>falcon.hpp\<close>).
  \<open>Falcon_Signature\<close> is the signature object of \<open>falcon_signature.cpp\<close> over them: what is signed is what is verified, across any calls
  and across export and import of the keys, and what is refused. \<open>Quantum_Crypto\<close> (\<open>QuantumCrypto.cpp\<close>) has the operations on top of it.
  That honest signatures pass the norm check is not stated: it depends on the rounding of doubles, and codes the decoder cannot read
  are produced.

  \<^bold>\<open>Rollup.\<close> \<open>State_Manager\<close> (\<open>StateManager.cpp\<close>): encoding of accounts, state root, application and reversal of transactions and
  the invariant of every reachable state; \<open>Batch_Processor\<close>: any number of workers that take batches and apply single transactions,
  interleaved with submissions and stops; \<open>Parallel_Processor\<close>: the split into independent batches and schedules of tasks;
  \<open>Lock_Free_Queue\<close>: push and pop access by access, with spurious failures of the weak compare-exchange (a list of flags says which
  accesses fail; eight accesses finish a push or pop after its last failure, and the call is given four more for each
  failure of a push and six for one of a pop), for one thread and interleaved for two; \<open>Transaction_API\<close> (\<open>RollupTransactionAPI.cpp\<close>): the queue
  of batches with interleaved callers; \<open>Rollup_Transition\<close>, \<open>State_Transition_Proof\<close>, \<open>Fraud_Proof\<close>, \<open>Emergency_Exit\<close>,
  \<open>Proof_Aggregator\<close>, \<open>MEV_Protection\<close>, \<open>Rollup_Bridges\<close> (\<open>OptimisticAdapter.cpp\<close>, \<open>L1Bridge.cpp\<close>, \<open>CrossRollupBridge.cpp\<close>) and
  \<open>Rollup_Agent\<close> (\<open>AIRollupAgent.cpp\<close>) the rest; \<open>Persistent_Storage\<close> the store.

  \<^bold>\<open>Proofs.\<close> \<open>Quantum_State\<close> models the register of qubits, gate by gate; \<open>QZKP_Generator\<close> and \<open>QZKP_Verifier\<close> the generator and
  the stand-alone verifier. Hash-based statements are of the form: equal digests mean equal data or a collision.

  \<^bold>\<open>Network and process.\<close> \<open>P2P_Connection\<close> (\<open>P2PConnection.cpp\<close>): packets, the receive handler, life cycle, NAT detection and STUN;
  \<open>P2P_Node\<close> (\<open>P2PNode.cpp\<close>): listening, connecting, delivery, health checks; \<open>Quids_Node\<close>: \<open>QuidsNode.cpp\<close>,
  \<open>QuidsControl.cpp\<close>, the commands and \<open>main.cpp\<close>. A call is \<open>Returns\<close>, \<open>Throws\<close>, \<open>Terminates\<close> (\<open>std::terminate\<close>) or
  \<open>Blocks\<close> (never returns).

  \<^bold>\<open>Not modelled.\<close> Logging and configuration files (I/O); the UPnP, NAT-PMP and STUN clients that only exchange datagrams; the
  machine-learning models and the benchmark (heuristics over Eigen matrices, with no property that is independent of rounding); the
  \<open>OptimizedPOBPC\<close>, alternative network layers, \<open>OptimizedAIBlock\<close>, \<open>QuantumRLAgent\<close>, \<open>RollupAPI\<close> and \<open>QuantumCircuit\<close>, which are not
  part of the build; declarations without a definition; tests and build products. Allocation failure is left out throughout.

  \<^bold>\<open>Plan.\<close> Next: bounds on the rounding of the Fourier transform, from which the norm of honest signatures would follow, and the
  optimized consensus.
\<close>

end
